(* ===== verification/Nucleo_Prelude.thy ===== *)
theory Nucleo_Prelude
  imports Main "HOL-Library.Word" "HOL-Library.Char_ord"
begin

text \<open>
  Shared vocabulary of the development: the machine integer types of the two targets, the
  errno values the POSIX layer reports, the outcome of a fallible step, the C string
  accessor, and the generic lemmas on lists and words that the component theories use.
  Nothing here models a particular source function except the byte accessors of C strings.
\<close>

unbundle bit_operations_syntax

section \<open>Machine integers\<close>

type_synonym u8 = "8 word"
type_synonym u16 = "16 word"
type_synonym u32 = "32 word"
type_synonym u64 = "64 word"

named_theorems fs_frame \<open>fields of the file-system state an operation leaves alone\<close>
named_theorems fs_inv_intros \<open>preservation of the descriptor-table invariant\<close>
named_theorems word_range \<open>unsigned values of word operations that do not wrap\<close>

section \<open>Error numbers\<close>

text \<open>
  The errno values named in the sources; \<open>ESUCCESS\<close> is the value 0, which a failing call
  leaves in errno in a few corner cases. The C convention "0 is success" for an int error
  is the option type: \<open>None\<close> is 0.
\<close>

datatype errno =
    ESUCCESS | ENOENT | EEXIST | EINVAL | EISDIR | ENOTDIR | ENOTEMPTY | ENOSPC | EACCES | ENOTSUP
  | EIO | EPERM | ENODEV | ENAMETOOLONG | EBADF | EINTR | EMFILE | EFAULT | ENOSYS
  | EOVERFLOW | EXDEV | EBUSY | EROFS | ERANGE | ENOMEM | EAGAIN | EDEADLK | ETIMEDOUT

text \<open>The ThreadX status codes the sources compare against; every other code is \<open>TX_OTHER\<close>.\<close>

datatype tx_status =
    TX_SUCCESS | TX_WAIT_ABORTED | TX_NOT_AVAILABLE | TX_NO_INSTANCE | TX_DELETE_ERROR | TX_OTHER nat

section \<open>C strings\<close>

text \<open>
  A NUL-terminated string is the list of its characters before the terminator. Reading the
  terminator (or, in the model, anything after it) gives NUL.
\<close>

abbreviation NUL :: char where "NUL \<equiv> CHR 0x00"

definition char_at :: "string \<Rightarrow> nat \<Rightarrow> char" where
  "char_at s i = (if i < length s then s ! i else NUL)"

definition cstring :: "string \<Rightarrow> bool" where
  "cstring s \<longleftrightarrow> NUL \<notin> set s"

lemma cstring_simps [simp]:
  "cstring []"
  "cstring (a @ b) \<longleftrightarrow> cstring a \<and> cstring b"
  "cstring (c # s) \<longleftrightarrow> c \<noteq> NUL \<and> cstring s"
  by (auto simp: cstring_def)

lemma cstring_drop [intro]: "cstring s \<Longrightarrow> cstring (drop n s)"
  by (auto simp: cstring_def dest: in_set_dropD)

lemma cstring_take [intro]: "cstring s \<Longrightarrow> cstring (take n s)"
  by (auto simp: cstring_def dest: in_set_takeD)

lemma char_at_end [simp]: "char_at s (length s) = NUL"
  by (simp add: char_at_def)

lemma char_at_nonNUL: "cstring s \<Longrightarrow> i < length s \<Longrightarrow> char_at s i \<noteq> NUL"
  by (simp add: char_at_def cstring_def in_set_conv_nth)

section \<open>Lists\<close>

lemma dropWhile_length_le: "length (dropWhile P xs) \<le> length xs"
  by (induction xs) auto

lemma takeWhile_dropWhile_length:
  "length (takeWhile P xs) + length (dropWhile P xs) = length xs"
  by (metis length_append takeWhile_dropWhile_id)

text \<open>\<open>overlay xs n ys\<close>: the bytes \<open>ys\<close> stored over \<open>xs\<close> from offset \<open>n\<close>.\<close>

definition overlay :: "'a list \<Rightarrow> nat \<Rightarrow> 'a list \<Rightarrow> 'a list" where
  "overlay xs n ys = take n xs @ ys @ drop (n + length ys) xs"

lemma length_overlay [simp]:
  "n \<le> length xs \<Longrightarrow> length (overlay xs n ys) = max (length xs) (n + length ys)"
  by (auto simp: overlay_def)

lemma overlay_Nil [simp]: "overlay xs n [] = xs"
  by (simp add: overlay_def)

lemma overlay_at_end: "n = length xs \<Longrightarrow> overlay xs n ys = xs @ ys"
  by (simp add: overlay_def)

lemma nth_overlay:
  "n + length ys \<le> length xs \<Longrightarrow> i < length xs \<Longrightarrow>
   overlay xs n ys ! i = (if n \<le> i \<and> i < n + length ys then ys ! (i - n) else xs ! i)"
  by (auto simp: overlay_def nth_append min_def)

lemma overlay_overlay_adjacent:
  "n + length a \<le> length xs \<Longrightarrow> overlay (overlay xs n a) (n + length a) b = overlay xs n (a @ b)"
  by (simp add: overlay_def ac_simps)

section \<open>Words that do not wrap\<close>

lemma unat_add_no_wrap [word_range]:
  "unat (a :: 'a::len word) + unat b < 2 ^ LENGTH('a) \<Longrightarrow> unat (a + b) = unat a + unat b"
  by (simp add: unat_word_ariths)

lemma unat_mult_no_wrap [word_range]:
  "unat (a :: 'a::len word) * unat b < 2 ^ LENGTH('a) \<Longrightarrow> unat (a * b) = unat a * unat b"
  by (simp add: unat_word_ariths)

lemma unat_sub_no_wrap [word_range]:
  "b \<le> (a :: 'a::len word) \<Longrightarrow> unat (a - b) = unat a - unat b"
  by (rule unat_sub)

lemma unat_u64_bound: "unat (a :: u64) < 18446744073709551616"
  using unsigned_less [of a] by simp

lemma unat_u32_bound: "unat (a :: u32) < 4294967296"
  using unsigned_less [of a] by simp

lemma unat_word_of_int [word_range]:
  "0 \<le> n \<Longrightarrow> n < 2 ^ LENGTH('a) \<Longrightarrow> unat (word_of_int n :: 'a::len word) = nat n"
  by (simp only: unat_eq_nat_uint uint_word_of_int_eq take_bit_int_eq_self)

lemma and_not_mask_unat: "unat ((x :: 'a::len word) AND NOT (mask k)) = unat x - unat x mod 2 ^ k"
proof -
  have "x = (x AND NOT (mask k)) + (x AND mask k)"
    by (subst disjunctive_add_eq_or) (auto simp: bit_eq_iff bit_simps)
  then have "x AND NOT (mask k) = x - take_bit k x" by (simp add: take_bit_eq_mask algebra_simps)
  moreover have "unat (take_bit k x) = unat x mod 2 ^ k" by (simp only: unsigned_take_bit_eq) (simp only: take_bit_eq_mod)
  moreover have "take_bit k x \<le> x" by (simp add: word_le_nat_alt calculation(2))
  ultimately show ?thesis by (simp add: unat_sub)
qed

end
