(* ===== verification/Effects.thy ===== *)
theory Effects
  imports Nucleo_Prelude
begin

text \<open>
  Effects of the C++ functions, in explicit state passing: an action maps a state to an
  outcome and a new state. The outcome is an errno (\<open>Inl\<close>) or a value (\<open>Inr\<close>); the whole is
  \<open>None\<close> when the code does not return (an endless loop, or \<^verbatim>\<open>Error_Handler\<close>, which never
  returns). \<open>seq\<close> is sequencing with early return on error. The second half is a weakest
  precondition calculus over these actions, whose equations are simplification rules.
\<close>

type_synonym ('s, 'a) act = "'s \<Rightarrow> ((errno + 'a) \<times> 's) option"

definition ok :: "'a \<Rightarrow> ('s, 'a) act" where
  "ok x s = Some (Inr x, s)"

definition err :: "errno \<Rightarrow> ('s, 'a) act" where
  "err e s = Some (Inl e, s)"

definition seq :: "('s, 'a) act \<Rightarrow> ('a \<Rightarrow> ('s, 'b) act) \<Rightarrow> ('s, 'b) act" where
  "seq m f s =
     (case m s of
        None \<Rightarrow> None
      | Some (Inl e, s') \<Rightarrow> Some (Inl e, s')
      | Some (Inr x, s') \<Rightarrow> f x s')"

text \<open>\<open>on_error m h\<close>: the block \<^verbatim>\<open>if (error != 0) { h }\<close> after \<open>m\<close>.\<close>

definition on_error :: "('s, 'a) act \<Rightarrow> (errno \<Rightarrow> ('s, 'a) act) \<Rightarrow> ('s, 'a) act" where
  "on_error m h s =
     (case m s of
        None \<Rightarrow> None
      | Some (Inl e, s') \<Rightarrow> h e s'
      | Some (Inr x, s') \<Rightarrow> Some (Inr x, s'))"

text \<open>\<open>attempt m\<close>: run \<open>m\<close> and keep its error in a variable.\<close>

definition attempt :: "('s, 'a) act \<Rightarrow> ('s, errno + 'a) act" where
  "attempt m s = (case m s of None \<Rightarrow> None | Some (r, s') \<Rightarrow> Some (Inr r, s'))"

definition from_sum :: "errno + 'a \<Rightarrow> ('s, 'a) act" where
  "from_sum r s = Some (r, s)"

definition modify :: "('s \<Rightarrow> 's) \<Rightarrow> ('s, unit) act" where
  "modify f s = Some (Inr (), f s)"

definition asks :: "('s \<Rightarrow> 'a) \<Rightarrow> ('s, 'a) act" where
  "asks f s = Some (Inr (f s), s)"

text \<open>\<open>with_state k\<close>: read the state, then run the action chosen from it.\<close>

definition with_state :: "('s \<Rightarrow> ('s, 'a) act) \<Rightarrow> ('s, 'a) act" where
  "with_state k s = k s s"

text \<open>\<open>check e\<close>: \<^verbatim>\<open>if (e != 0) return e;\<close>\<close>

definition check :: "errno option \<Rightarrow> ('s, unit) act" where
  "check e = (case e of None \<Rightarrow> ok () | Some e' \<Rightarrow> err e')"

lemma act_simps [simp]:
  "seq (ok x) f = f x"
  "seq (err e) f = err e"
  "seq (from_sum (Inr x)) f = f x"
  "seq (from_sum (Inl e)) f = err e"
  "check None = ok ()"
  "check (Some e) = err e"
  by (auto simp: seq_def ok_def err_def from_sum_def check_def fun_eq_iff)

lemma seq_assoc: "seq (seq m f) g = seq m (\<lambda>x. seq (f x) g)"
  by (auto simp: seq_def fun_eq_iff split: option.split prod.split sum.split)

section \<open>Weakest preconditions\<close>

text \<open>
  \<open>wp m Q E s\<close>: if \<open>m\<close> returns from \<open>s\<close>, a value satisfies \<open>Q\<close> and an error \<open>E\<close>.
  Returning is a separate statement, \<open>returns m s\<close>.
\<close>

definition wp :: "('s, 'a) act \<Rightarrow> ('a \<Rightarrow> 's \<Rightarrow> bool) \<Rightarrow> (errno \<Rightarrow> 's \<Rightarrow> bool) \<Rightarrow> 's \<Rightarrow> bool" where
  "wp m Q E s =
     (case m s of
        None \<Rightarrow> True
      | Some (Inl e, s') \<Rightarrow> E e s'
      | Some (Inr x, s') \<Rightarrow> Q x s')"

definition returns :: "('s, 'a) act \<Rightarrow> 's \<Rightarrow> bool" where
  "returns m s \<longleftrightarrow> m s \<noteq> None"

named_theorems wp_simps \<open>weakest precondition equations\<close>

lemma wp_basic [simp, wp_simps]:
  "wp (ok x) Q E s = Q x s"
  "wp (err e) Q E s = E e s"
  "wp (from_sum r) Q E s = (case r of Inl e \<Rightarrow> E e s | Inr x \<Rightarrow> Q x s)"
  "wp (asks g) Q E s = Q (g s) s"
  by (simp_all add: wp_def ok_def err_def from_sum_def asks_def split: sum.split)

lemma wp_modify [simp, wp_simps]: "wp (modify f) Q E s = Q () (f s)"
  by (simp add: wp_def modify_def)

lemma wp_seq [simp, wp_simps]:
  "wp (seq m f) Q E s = wp m (\<lambda>x. wp (f x) Q E) E s"
  by (auto simp: wp_def seq_def split: option.split prod.split sum.split)

lemma wp_on_error [simp, wp_simps]:
  "wp (on_error m h) Q E s = wp m Q (\<lambda>e. wp (h e) Q E) s"
  by (auto simp: wp_def on_error_def split: option.split prod.split sum.split)

lemma wp_attempt [simp, wp_simps]:
  "wp (attempt m) Q E s = wp m (\<lambda>x. Q (Inr x)) (\<lambda>e. Q (Inl e)) s"
  by (auto simp: wp_def attempt_def split: option.split prod.split sum.split)

lemma wp_check [simp, wp_simps]:
  "wp (check e) Q E s = (case e of None \<Rightarrow> Q () s | Some e' \<Rightarrow> E e' s)"
  by (simp add: check_def split: option.split)

lemma wp_with_state [simp, wp_simps]: "wp (with_state k) Q E s = wp (k s) Q E s"
  by (simp add: wp_def with_state_def)

lemma wp_if: "wp (if b then m else n) Q E s = (if b then wp m Q E s else wp n Q E s)"
  by simp

lemma wp_mono:
  "wp m Q E s \<Longrightarrow> (\<And>x t. Q x t \<Longrightarrow> Q' x t) \<Longrightarrow> (\<And>e t. E e t \<Longrightarrow> E' e t) \<Longrightarrow> wp m Q' E' s"
  by (auto simp: wp_def split: option.splits sum.splits)

lemma wp_conj:
  "wp m Q E s \<Longrightarrow> wp m Q' E' s \<Longrightarrow> wp m (\<lambda>x t. Q x t \<and> Q' x t) (\<lambda>e t. E e t \<and> E' e t) s"
  by (auto simp: wp_def split: option.splits sum.splits)

lemma wp_result:
  "wp m Q E s \<Longrightarrow> m s = Some (r, t) \<Longrightarrow> (case r of Inl e \<Rightarrow> E e t | Inr x \<Rightarrow> Q x t)"
  by (simp add: wp_def)

section \<open>Returning\<close>

lemma returns_basic [simp]:
  "returns (ok x) s" "returns (err e) s" "returns (from_sum r) s"
  "returns (modify f) s" "returns (asks g) s" "returns (check c) s"
  by (auto simp: returns_def ok_def err_def from_sum_def modify_def asks_def check_def
      split: option.split)

lemma returns_seq:
  "returns (seq m f) s \<longleftrightarrow> returns m s \<and> wp m (\<lambda>x. returns (f x)) (\<lambda>_ _. True) s"
  by (auto simp: returns_def seq_def wp_def split: option.split prod.split sum.split)

lemma returns_on_error:
  "returns (on_error m h) s \<longleftrightarrow> returns m s \<and> wp m (\<lambda>_ _. True) (\<lambda>e. returns (h e)) s"
  by (auto simp: returns_def on_error_def wp_def split: option.split prod.split sum.split)

lemma returns_with_state [simp]: "returns (with_state k) s = returns (k s) s"
  by (simp add: returns_def with_state_def)

lemma returns_attempt [simp]: "returns (attempt m) s = returns m s"
  by (auto simp: returns_def attempt_def split: option.split)

end
