(* ===== verification/Paths.thy ===== *)
theory Paths
  imports Nucleo_Prelude "HOL-Library.Sublist"
begin

text \<open>
  Path handling of the POSIX adapter, \<^verbatim>\<open>platform/runtime/libc/filesystem.cpp\<close>: the
  normalisation loop, the ASCII case folding and prefix test used for FAT names, the mount
  table, and the rewriting of stored paths when an entry is renamed. The reference level is
  a list of path components; the main lemma says that the character loop computes component
  resolution.
\<close>

section \<open>Normalisation\<close>

definition MAXIMUM_PATH :: nat where
  "MAXIMUM_PATH = 256"

definition is_separator :: "char \<Rightarrow> bool" where
  "is_separator c \<longleftrightarrow> c = CHR ''/'' \<or> c = CHR 0x5C"

text \<open>The scan that a \<open>..\<close> component makes backwards over the output buffer.\<close>

fun pop_scan :: "string \<Rightarrow> nat \<Rightarrow> nat" where
  "pop_scan out 0 = 0"
| "pop_scan out (Suc n) =
     (if n > 0 \<and> out ! n \<noteq> CHR ''/'' then pop_scan out n else Suc n)"

definition pop_component :: "string \<Rightarrow> string" where
  "pop_component out =
     (let n = pop_scan out (length out - 1) in take (if n > 1 then n - 1 else n) out)"

function norm_loop :: "string \<Rightarrow> string \<Rightarrow> errno + string" where
  "norm_loop cursor out =
     (if cursor = [] then Inr out
      else
        let start = dropWhile is_separator cursor;
            comp = takeWhile (\<lambda>c. \<not> is_separator c) start;
            rest = dropWhile (\<lambda>c. \<not> is_separator c) start
        in
          if length comp = 0 \<or> comp = ''.'' then norm_loop rest out
          else if comp = ''..'' then
            (if length out = 1 then Inl EACCES else norm_loop rest (pop_component out))
          else if length out \<noteq> 1 \<and> length out + 1 \<ge> MAXIMUM_PATH then Inl ENAMETOOLONG
          else
            let out' = (if length out \<noteq> 1 then out @ ''/'' else out) in
              if length comp \<ge> MAXIMUM_PATH - length out' then Inl ENAMETOOLONG
              else norm_loop rest (out' @ comp))"
  by pat_completeness auto

lemma norm_rest_shorter:
  assumes "cursor \<noteq> []"
  shows "length (dropWhile (\<lambda>c. \<not> is_separator c) (dropWhile is_separator cursor)) < length cursor"
proof (cases "is_separator (hd cursor)")
  case True
  with assms have "length (dropWhile is_separator cursor) < length cursor"
    by (cases cursor) (auto simp: less_Suc_eq_le dropWhile_length_le)
  then show ?thesis
    using dropWhile_length_le [of "\<lambda>c. \<not> is_separator c" "dropWhile is_separator cursor"] by simp
next
  case False
  with assms show ?thesis
    by (cases cursor) (auto simp: less_Suc_eq_le dropWhile_length_le)
qed

termination norm_loop
  by (relation "measure (\<lambda>(cursor, out). length cursor)") (auto simp: norm_rest_shorter)

declare norm_loop.simps [simp del]

text \<open>
  \<open>normalize_path_unlocked\<close>; the null pointer is \<open>None\<close>. A relative path is appended to
  the current directory, with a separator unless the directory is a single character or
  already ends in one.
\<close>

definition normalize_path :: "string \<Rightarrow> string option \<Rightarrow> errno + string" where
  "normalize_path cwd path =
     (case path of
        None \<Rightarrow> Inl ENOENT
      | Some p \<Rightarrow>
          if p = [] then Inl ENOENT
          else if \<not> is_separator (hd p) \<and> length cwd \<ge> MAXIMUM_PATH then Inl ENAMETOOLONG
          else
            let source =
                  (if is_separator (hd p) then []
                   else if length cwd > 1 \<and> last cwd \<noteq> CHR ''/'' then cwd @ ''/'' else cwd)
            in
              if length p \<ge> MAXIMUM_PATH - length source then Inl ENAMETOOLONG
              else norm_loop (source @ p) ''/'')"

section \<open>Components: the reference level\<close>

definition valid_component :: "string \<Rightarrow> bool" where
  "valid_component c \<longleftrightarrow>
     c \<noteq> [] \<and> c \<noteq> ''.'' \<and> c \<noteq> ''..'' \<and> list_all (\<lambda>x. \<not> is_separator x) c"

definition render :: "string list \<Rightarrow> string" where
  "render cs = (if cs = [] then ''/'' else concat (map (\<lambda>c. CHR ''/'' # c) cs))"

function components :: "string \<Rightarrow> string list" where
  "components s =
     (if s = [] then []
      else
        let start = dropWhile is_separator s;
            comp = takeWhile (\<lambda>c. \<not> is_separator c) start;
            rest = dropWhile (\<lambda>c. \<not> is_separator c) start
        in if comp = [] then components rest else comp # components rest)"
  by pat_completeness auto
termination components
  by (relation "measure length") (auto simp: norm_rest_shorter)

declare components.simps [simp del]

text \<open>Resolution of \<open>.\<close> and \<open>..\<close> over a stack of components; leaving the root is an error.\<close>

fun resolve_dots :: "string list \<Rightarrow> string list \<Rightarrow> errno + string list" where
  "resolve_dots st [] = Inr st"
| "resolve_dots st (c # cs) =
     (if c = ''.'' then resolve_dots st cs
      else if c = ''..'' then (if st = [] then Inl EACCES else resolve_dots (butlast st) cs)
      else resolve_dots (st @ [c]) cs)"

text \<open>A canonical path: absolute, and equal to the rendering of its own valid components.\<close>

definition canonical :: "string \<Rightarrow> bool" where
  "canonical p \<longleftrightarrow> p = render (components p) \<and> list_all valid_component (components p)"

section \<open>The loop computes component resolution\<close>

abbreviation tail_string :: "string list \<Rightarrow> string" where
  "tail_string cs \<equiv> concat (map (\<lambda>c. CHR ''/'' # c) cs)"

lemma render_Nil [simp]: "render [] = ''/''"
  by (simp add: render_def)

lemma render_nonempty: "cs \<noteq> [] \<Longrightarrow> render cs = tail_string cs"
  by (simp add: render_def)

lemma valid_component_no_slash: "valid_component c \<Longrightarrow> CHR ''/'' \<notin> set c"
  by (auto simp: valid_component_def is_separator_def list_all_iff)

lemma valid_component_nonempty [simp]: "valid_component c \<Longrightarrow> c \<noteq> []"
  by (auto simp: valid_component_def)

lemma tail_string_eq_Nil [simp]: "tail_string cs = [] \<longleftrightarrow> cs = []"
  by auto

lemma length_render_one: "list_all valid_component cs \<Longrightarrow> length (render cs) = Suc 0 \<longleftrightarrow> cs = []"
  by (cases cs) (auto simp: render_def)

lemma pop_scan_component:
  assumes "CHR ''/'' \<notin> set c" and "k \<le> length c"
  shows "pop_scan (pre @ CHR ''/'' # c) (Suc (length pre + k)) = Suc (length pre)"
  using assms(2)
proof (induction k)
  case 0
  show ?case by (simp add: nth_append)
next
  case (Suc k)
  then have "c ! k \<noteq> CHR ''/''" using assms(1) by (metis Suc_le_lessD nth_mem)
  then show ?case using Suc by (simp add: nth_append)
qed

lemma pop_component_render:
  assumes "valid_component c"
  shows "pop_component (render (st @ [c])) = render st"
proof -
  let ?pre = "tail_string st"
  have split: "render (st @ [c]) = ?pre @ CHR ''/'' # c"
    by (simp add: render_def)
  have len: "length (render (st @ [c])) - 1 = Suc (length ?pre + (length c - 1))"
    unfolding split using valid_component_nonempty [OF assms] by (cases c) simp_all
  have "pop_scan (render (st @ [c])) (length (render (st @ [c])) - 1) = Suc (length ?pre)"
    unfolding len unfolding split
    using assms by (intro pop_scan_component) (auto simp: valid_component_no_slash)
  then show ?thesis
    by (cases "st = []") (auto simp: pop_component_def Let_def split render_def)
qed

lemma takeWhile_no_separator: "list_all (\<lambda>x. \<not> is_separator x) (takeWhile (\<lambda>c. \<not> is_separator c) s)"
  by (metis (mono_tags, lifting) list_all_iff set_takeWhileD)

lemma norm_loop_Nil [simp]: "norm_loop [] out = Inr out"
  by (simp add: norm_loop.simps)

lemma components_Nil [simp]: "components [] = []"
  by (simp add: components.simps)

lemma rest_starts_with_separator:
  "dropWhile (\<lambda>c. \<not> is_separator c) s = [] \<or> is_separator (hd (dropWhile (\<lambda>c. \<not> is_separator c) s))"
  by (metis hd_dropWhile)

lemma norm_loop_resolve:
  assumes "list_all valid_component st"
    and "length (tail_string st) + length cursor < MAXIMUM_PATH"
    and "cursor = [] \<or> is_separator (hd cursor)"
  shows "norm_loop cursor (render st) = map_sum id render (resolve_dots st (components cursor))"
  using assms
proof (induction "length cursor" arbitrary: cursor st rule: less_induct)
  case less
  show ?case
  proof (cases "cursor = []")
    case False
    define start where "start = dropWhile is_separator cursor"
    define comp where "comp = takeWhile (\<lambda>c. \<not> is_separator c) start"
    define rest where "rest = dropWhile (\<lambda>c. \<not> is_separator c) start"
    have shorter: "length rest < length cursor"
      using norm_rest_shorter [OF False] by (simp add: rest_def start_def)
    have rest_sep: "rest = [] \<or> is_separator (hd rest)"
      unfolding rest_def by (rule rest_starts_with_separator)
    have start_shorter: "length start < length cursor"
      using False less.prems(3) unfolding start_def
      by (cases cursor) (auto simp: less_Suc_eq_le dropWhile_length_le)
    have parts: "length comp + length rest = length start"
      unfolding comp_def rest_def by (rule takeWhile_dropWhile_length)
    note IH = less.hyps [OF shorter _ _ rest_sep]
    have unfold: "norm_loop cursor out =
        (if length comp = 0 \<or> comp = ''.'' then norm_loop rest out
          else if comp = ''..'' then
            (if length out = 1 then Inl EACCES else norm_loop rest (pop_component out))
          else if length out \<noteq> 1 \<and> length out + 1 \<ge> MAXIMUM_PATH then Inl ENAMETOOLONG
          else
            let out' = (if length out \<noteq> 1 then out @ ''/'' else out) in
              if length comp \<ge> MAXIMUM_PATH - length out' then Inl ENAMETOOLONG
              else norm_loop rest (out' @ comp))" for out
      using False by (subst norm_loop.simps) (simp add: start_def comp_def rest_def Let_def)
    have comps: "components cursor = (if comp = [] then components rest else comp # components rest)"
      using False by (subst components.simps) (simp add: start_def comp_def rest_def Let_def)
    consider (skip) "comp = [] \<or> comp = ''.''" | (up) "comp = ''..''" | (push) "valid_component comp"
      using takeWhile_no_separator [of start] by (auto simp: valid_component_def comp_def)
    then show ?thesis
    proof cases
      case skip
      then show ?thesis using IH [of st] less.prems shorter by (auto simp: unfold comps)
    next
      case up
      show ?thesis
      proof (cases st rule: rev_cases)
        case Nil
        with up show ?thesis by (simp add: unfold comps)
      next
        case (snoc st' c)
        with less.prems have "pop_component (render st) = render st'"
          by (simp add: pop_component_render)
        with snoc up less.prems shorter show ?thesis
          using IH [of st'] by (simp add: unfold comps length_render_one)
      qed
    next
      case push
      have grow: "length (tail_string (st @ [comp])) + length rest < MAXIMUM_PATH"
        using less.prems(2) start_shorter parts by simp
      have one: "(length (render st) \<noteq> 1) = (st \<noteq> [])"
        using less.prems(1) by (simp add: length_render_one)
      have out: "(if length (render st) \<noteq> 1 then render st @ ''/'' else render st) @ comp = render (st @ [comp])"
        unfolding one by (simp add: render_def)
      have fits: "\<not> length comp \<ge> MAXIMUM_PATH -
           length (if length (render st) \<noteq> 1 then render st @ ''/'' else render st)"
        using grow unfolding one by (auto simp: render_def MAXIMUM_PATH_def)
      have room: "\<not> (length (render st) \<noteq> 1 \<and> length (render st) + 1 \<ge> MAXIMUM_PATH)"
        using grow unfolding one by (auto simp: render_def MAXIMUM_PATH_def)
      have "norm_loop cursor (render st) = norm_loop rest (render (st @ [comp]))"
        using push room fits out by (auto simp: unfold Let_def valid_component_def)
      then show ?thesis
        using IH [of "st @ [comp]"] push grow less.prems(1)
        by (auto simp: comps valid_component_def)
    qed
  qed simp
qed

lemma components_separator:
  "is_separator c \<Longrightarrow> components (c # s) = components s"
  by (subst (1 2) components.simps) (auto simp: Let_def)

lemma components_unfold:
  "s \<noteq> [] \<Longrightarrow> \<not> is_separator (hd s) \<Longrightarrow>
   components s = takeWhile (\<lambda>c. \<not> is_separator c) s # components (dropWhile (\<lambda>c. \<not> is_separator c) s)"
  by (cases s; subst components.simps) (auto simp: Let_def)

lemma components_append:
  "is_separator c \<Longrightarrow> components (s @ c # t) = components s @ components t"
proof (induction "length s" arbitrary: s rule: less_induct)
  case less
  show ?case
  proof (cases s)
    case Nil
    then show ?thesis using less.prems by (simp add: components_separator)
  next
    case (Cons a s')
    show ?thesis
    proof (cases "is_separator a")
      case True
      then show ?thesis using Cons less by (simp add: components_separator)
    next
      case False
      let ?rest = "dropWhile (\<lambda>c. \<not> is_separator c) s'"
      have shorter: "length ?rest < length s"
        using Cons by (simp add: less_Suc_eq_le dropWhile_length_le)
      have tw: "takeWhile (\<lambda>c. \<not> is_separator c) (s' @ c # t) = takeWhile (\<lambda>c. \<not> is_separator c) s'"
        and dw: "dropWhile (\<lambda>c. \<not> is_separator c) (s' @ c # t) = ?rest @ c # t"
        using less.prems by (induction s') auto
      show ?thesis
        using False Cons less.hyps [OF shorter less.prems] components_unfold [of "a # s'"]
          components_unfold [of "a # s' @ c # t"] tw dw
        by simp
    qed
  qed
qed

lemma components_no_separator:
  "list_all (\<lambda>x. \<not> is_separator x) c \<Longrightarrow> c \<noteq> [] \<Longrightarrow> components c = [c]"
  by (subst components_unfold) (auto simp: list_all_iff takeWhile_eq_all_conv [THEN iffD2] dropWhile_eq_Nil_conv [THEN iffD2] neq_Nil_conv)

lemma components_tail_string: "list_all valid_component cs \<Longrightarrow> components (tail_string cs) = cs"
proof (induction cs rule: rev_induct)
  case (snoc c cs)
  have "components (tail_string (cs @ [c])) = components (tail_string cs @ CHR ''/'' # c)" by simp
  also have "\<dots> = components (tail_string cs) @ components c"
    by (rule components_append) (simp add: is_separator_def)
  finally show ?case using snoc by (simp add: components_no_separator valid_component_def)
qed simp

lemma components_render [simp]: "list_all valid_component cs \<Longrightarrow> components (render cs) = cs"
  by (cases "cs = []") (simp_all add: render_nonempty components_tail_string components_separator is_separator_def)

lemma canonical_render [intro, simp]: "list_all valid_component cs \<Longrightarrow> canonical (render cs)"
  by (simp add: canonical_def)

lemma canonical_root [simp]: "canonical ''/''"
  using canonical_render [of "[]"] by simp

lemma canonical_components: "canonical p \<Longrightarrow> list_all valid_component (components p)"
  by (simp add: canonical_def)

lemma canonicalE:
  assumes "canonical p"
  obtains cs where "p = render cs" and "list_all valid_component cs" and "components p = cs"
  using assms by (auto simp: canonical_def)

lemma components_members:
  "c \<in> set (components s) \<Longrightarrow> c \<noteq> [] \<and> list_all (\<lambda>x. \<not> is_separator x) c"
proof (induction "length s" arbitrary: s rule: less_induct)
  case less
  show ?case
  proof (cases "s = []")
    case False
    let ?start = "dropWhile is_separator s"
    let ?rest = "dropWhile (\<lambda>c. \<not> is_separator c) ?start"
    have "components s = (if takeWhile (\<lambda>c. \<not> is_separator c) ?start = [] then components ?rest
        else takeWhile (\<lambda>c. \<not> is_separator c) ?start # components ?rest)"
      using False by (subst components.simps) (simp add: Let_def)
    then show ?thesis
      using less.prems less.hyps [OF norm_rest_shorter [OF False]] takeWhile_no_separator [of ?start]
      by (auto split: if_splits)
  qed (use less.prems in simp)
qed

lemma resolve_dots_valid:
  "resolve_dots st cs = Inr st' \<Longrightarrow> list_all valid_component st \<Longrightarrow>
   \<forall>c \<in> set cs. c \<noteq> [] \<and> list_all (\<lambda>x. \<not> is_separator x) c \<Longrightarrow> list_all valid_component st'"
proof (induction st cs rule: resolve_dots.induct)
  case (2 st c cs)
  have "list_all valid_component (butlast st)"
    using "2.prems"(2) by (auto simp: list_all_iff dest: in_set_butlastD)
  moreover have "c \<noteq> ''.'' \<Longrightarrow> c \<noteq> ''..'' \<Longrightarrow> valid_component c"
    using "2.prems"(3) by (simp add: valid_component_def)
  ultimately show ?case using 2 by (simp split: if_splits)
qed simp

lemma resolve_dots_append_valid:
  "list_all valid_component ds \<Longrightarrow> resolve_dots st (ds @ cs) = resolve_dots (st @ ds) cs"
  by (induction ds arbitrary: st) (auto simp: valid_component_def)

lemma length_tail_butlast: "length (tail_string (butlast st)) \<le> length (tail_string st)"
  by (cases st rule: rev_cases) auto

lemma resolve_dots_length:
  "resolve_dots st cs = Inr st' \<Longrightarrow>
   length (tail_string st') \<le> length (tail_string st) + length (tail_string cs)"
proof (induction st cs rule: resolve_dots.induct)
  case (2 st c cs)
  then show ?case using length_tail_butlast [of st] by (fastforce split: if_splits)
qed simp

lemma length_tail_components:
  "s = [] \<or> is_separator (hd s) \<Longrightarrow> length (tail_string (components s)) \<le> length s"
proof (induction "length s" arbitrary: s rule: less_induct)
  case less
  show ?case
  proof (cases "s = []")
    case False
    let ?start = "dropWhile is_separator s"
    let ?comp = "takeWhile (\<lambda>c. \<not> is_separator c) ?start"
    let ?rest = "dropWhile (\<lambda>c. \<not> is_separator c) ?start"
    have "components s = (if ?comp = [] then components ?rest else ?comp # components ?rest)"
      using False by (subst components.simps) (simp add: Let_def)
    moreover have "length (tail_string (components ?rest)) \<le> length ?rest"
      by (rule less.hyps [OF norm_rest_shorter [OF False] rest_starts_with_separator])
    moreover have "length ?start < length s"
      using False less.prems by (cases s) (auto simp: less_Suc_eq_le dropWhile_length_le)
    moreover have "length ?comp + length ?rest = length ?start"
      by (rule takeWhile_dropWhile_length)
    ultimately show ?thesis by (simp split: if_split)
  qed simp
qed

lemma length_render: "length (render cs) = max 1 (length (tail_string cs))"
  by (cases cs) (auto simp: render_def)

lemma length_tail_ge_2:
  "list_all valid_component cs \<Longrightarrow> cs \<noteq> [] \<Longrightarrow> 2 \<le> length (tail_string cs)"
  by (cases cs; cases "hd cs") (auto simp: valid_component_def)

lemma canonical_last:
  assumes "canonical p" and "length p > 1"
  shows "last p \<noteq> CHR ''/'' \<and> p \<noteq> ''/''"
proof -
  obtain cs where p: "p = render cs" and v: "list_all valid_component cs"
    using assms(1) by (rule canonicalE)
  with assms(2) obtain ds d where cs: "cs = ds @ [d]" by (cases cs rule: rev_cases) auto
  then have "last p = last d" "d \<noteq> []" "CHR ''/'' \<notin> set d"
    using p v by (simp_all add: render_def valid_component_no_slash)
  then have "last p \<noteq> CHR ''/''" using last_in_set [of d] by metis
  then show ?thesis using assms(2) by auto
qed

lemma canonical_hd: "canonical p \<Longrightarrow> p \<noteq> [] \<and> hd p = CHR ''/''"
  by (erule canonicalE) (auto simp: render_def neq_Nil_conv)

definition path_fits :: "string \<Rightarrow> string \<Rightarrow> bool" where
  "path_fits cwd p \<longleftrightarrow>
     length p + (if is_separator (hd p) then 0
                 else if length cwd > 1 then length cwd + 1 else length cwd) < MAXIMUM_PATH"

lemma normalize_path_resolve:
  assumes "canonical cwd" and "p \<noteq> []" and "path_fits cwd p"
  shows "normalize_path cwd (Some p) =
     map_sum id render
       (resolve_dots (if is_separator (hd p) then [] else components cwd) (components p))"
proof (cases "is_separator (hd p)")
  case True
  then show ?thesis
    using assms norm_loop_resolve [of "[]" p] by (simp add: normalize_path_def path_fits_def)
next
  case False
  note cwd = canonical_hd [OF assms(1)] canonical_components [OF assms(1)]
  show ?thesis
  proof (cases "length cwd > 1")
    case True
    have "norm_loop (cwd @ ''/'' @ p) ''/'' =
        map_sum id render (resolve_dots [] (components (cwd @ ''/'' @ p)))"
      using norm_loop_resolve [of "[]" "cwd @ ''/'' @ p"] assms cwd False True
      by (simp add: path_fits_def is_separator_def)
    moreover have "components (cwd @ ''/'' @ p) = components cwd @ components p"
      using components_append [of "CHR ''/''" cwd p] by (simp add: is_separator_def)
    ultimately show ?thesis
      using assms cwd False True canonical_last [OF assms(1)] resolve_dots_append_valid [of "components cwd" "[]"]
      by (auto simp: normalize_path_def path_fits_def MAXIMUM_PATH_def)
  next
    case short: False
    then have root: "cwd = ''/''"
      using cwd(1) by (cases cwd) auto
    show ?thesis
      using norm_loop_resolve [of "[]" "cwd @ p"] assms False
      by (simp add: normalize_path_def path_fits_def root is_separator_def components_separator MAXIMUM_PATH_def)
  qed
qed

lemma normalize_path_too_long:
  assumes "canonical cwd" and "length cwd < MAXIMUM_PATH" and "p \<noteq> []" and "\<not> path_fits cwd p"
  shows "normalize_path cwd (Some p) = Inl ENAMETOOLONG"
proof (cases "is_separator (hd p)")
  case True
  with assms show ?thesis by (simp add: normalize_path_def path_fits_def)
next
  case False
  show ?thesis
  proof (cases "length cwd > 1")
    case True
    with False assms canonical_last [OF assms(1) True] show ?thesis
      by (auto simp: normalize_path_def path_fits_def MAXIMUM_PATH_def)
  next
    case short: False
    with False assms show ?thesis
      by (auto simp: normalize_path_def path_fits_def MAXIMUM_PATH_def)
  qed
qed

lemma normalize_path_canonical:
  assumes "canonical cwd" and "length cwd < MAXIMUM_PATH" and "normalize_path cwd path = Inr out"
  shows "canonical out \<and> length out < MAXIMUM_PATH"
proof -
  obtain p where p: "path = Some p" "p \<noteq> []"
    using assms(3) by (auto simp: normalize_path_def split: option.splits if_splits)
  have fits: "path_fits cwd p"
    using normalize_path_too_long assms p by fastforce
  let ?base = "if is_separator (hd p) then [] else components cwd"
  obtain cs where cs: "resolve_dots ?base (components p) = Inr cs" and out: "out = render cs"
    using assms(3) normalize_path_resolve [OF assms(1) p(2) fits] p(1)
    by (cases "resolve_dots ?base (components p)") auto
  have "list_all valid_component cs"
    using cs by (rule resolve_dots_valid)
      (use canonical_components [OF assms(1)] components_members in auto)
  moreover have "length (tail_string cs) < MAXIMUM_PATH"
  proof (cases "is_separator (hd p)")
    case True
    then show ?thesis
      using resolve_dots_length [OF cs] length_tail_components [of p] fits
      by (simp add: path_fits_def)
  next
    case False
    have "length (tail_string (components cwd)) \<le> (if length cwd > 1 then length cwd else 0)"
      using assms(1) length_tail_ge_2 by (elim canonicalE) (force simp: length_render)
    moreover have "length (tail_string (components p)) \<le> length p + 1"
      using length_tail_components [of "CHR ''/'' # p"] by (simp add: components_separator is_separator_def)
    moreover have "length cwd \<ge> 1" using canonical_hd [OF assms(1)] by (cases cwd) auto
    ultimately show ?thesis
      using resolve_dots_length [OF cs] fits False
      by (auto simp: path_fits_def split: if_splits)
  qed
  ultimately show ?thesis by (auto simp: out length_render MAXIMUM_PATH_def)
qed

lemma normalize_path_idempotent:
  assumes "canonical p" and "length p < MAXIMUM_PATH"
  shows "normalize_path cwd (Some p) = Inr p"
proof -
  have h: "p \<noteq> []" "is_separator (hd p)"
    using canonical_hd [OF assms(1)] by (auto simp: is_separator_def)
  have "normalize_path cwd (Some p) = norm_loop p ''/''"
    using h assms(2) by (simp add: normalize_path_def)
  also have "\<dots> = map_sum id render (resolve_dots [] (components p))"
    using norm_loop_resolve [of "[]" p] h assms(2) by simp
  also have "\<dots> = Inr (render (components p))"
    using resolve_dots_append_valid [OF canonical_components [OF assms(1)], of "[]" "[]"] by simp
  finally show ?thesis using assms(1) by (simp add: canonical_def)
qed

section \<open>FAT name comparison\<close>

definition fold_ascii_case :: "char \<Rightarrow> u8" where
  "fold_ascii_case character =
     (let value = (of_char character :: u8) in
        if value \<ge> of_char (CHR ''a'') \<and> value \<le> of_char (CHR ''z'')
        then value - of_char (CHR ''a'') + of_char (CHR ''A'') else value)"

definition path_has_prefix :: "string \<Rightarrow> string \<Rightarrow> bool \<Rightarrow> bool" where
  "path_has_prefix path pre include_descendants \<longleftrightarrow>
     list_all (\<lambda>i. fold_ascii_case (char_at path i) = fold_ascii_case (char_at pre i)) [0..<length pre] \<and>
     (char_at path (length pre) = NUL \<or>
      include_descendants \<and> char_at path (length pre) = CHR ''/'')"

definition paths_equal :: "string \<Rightarrow> string \<Rightarrow> bool" where
  "paths_equal p q = path_has_prefix p q False"

abbreviation folded :: "string \<Rightarrow> u8 list" where
  "folded s \<equiv> map fold_ascii_case s"

abbreviation folded_components :: "string \<Rightarrow> u8 list list" where
  "folded_components p \<equiv> map folded (components p)"

lemma unat_of_char [simp]: "unat (of_char c :: u8) = of_char c"
proof -
  have lt: "(of_char c :: nat) < 256"
    by (metis of_char_mod_256 mod_less_divisor zero_less_numeral)
  have "(of_char c :: u8) = of_nat (of_char c)" by (simp only: of_nat_of_char)
  then have "unat (of_char c :: u8) = unat (of_nat (of_char c) :: u8)" by (rule arg_cong)
  also have "\<dots> = (of_char c :: nat) mod 2 ^ LENGTH(8)" by (rule unat_of_nat)
  finally show ?thesis using lt by simp
qed

lemma unat_fold_ascii_case:
  "unat (fold_ascii_case c) =
     (if 97 \<le> (of_char c :: nat) \<and> (of_char c :: nat) \<le> 122 then of_char c - 32 else of_char c)"
proof -
  define w where "w = (of_char c :: u8)"
  have n: "unat w = of_char c" by (simp add: w_def)
  have "unat (fold_ascii_case c) = (if 97 \<le> unat w \<and> unat w \<le> 122 then unat w - 32 else unat w)"
    by (simp add: fold_ascii_case_def Let_def flip: w_def) (unat_arith; simp)
  then show ?thesis by (simp only: n)
qed

lemma of_char_eq_numeral: "c = d \<longleftrightarrow> (of_char c :: nat) = of_char d"
  by simp

lemma fold_eq_NUL [simp]: "fold_ascii_case c = 0 \<longleftrightarrow> c = NUL"
  using unat_fold_ascii_case [of c] of_char_eq_numeral [of c NUL]
  by (auto simp flip: unat_eq_0 split: if_splits)

lemma fold_slash [simp]: "fold_ascii_case CHR ''/'' = 47"
  by (simp add: fold_ascii_case_def Let_def)

lemma fold_eq_slash [simp]: "fold_ascii_case c = 47 \<longleftrightarrow> c = CHR ''/''"
  using unat_fold_ascii_case [of c] of_char_eq_numeral [of c "CHR ''/''"]
  by (auto simp: word_unat_eq_iff split: if_splits)

lemma folded_no_slash: "valid_component c \<Longrightarrow> 47 \<notin> set (folded c)"
  using valid_component_no_slash [of c] by (auto simp: image_iff)

lemma path_has_prefix_iff:
  assumes "cstring path" and "cstring pre"
  shows "path_has_prefix path pre d \<longleftrightarrow>
    (\<exists>s. folded path = folded pre @ s \<and> (s = [] \<or> d \<and> hd s = 47))"
proof
  assume p: "path_has_prefix path pre d"
  have eq: "fold_ascii_case (char_at path i) = fold_ascii_case (pre ! i)" if "i < length pre" for i
    using p that by (auto simp: path_has_prefix_def list_all_iff char_at_def)
  have le: "length pre \<le> length path"
  proof (rule ccontr)
    assume "\<not> length pre \<le> length path"
    then have "fold_ascii_case NUL = fold_ascii_case (pre ! length path)"
      using eq [of "length path"] by (simp add: char_at_def)
    then have "pre ! length path = NUL"
      by (metis fold_eq_NUL)
    then show False
      using assms(2) \<open>\<not> length pre \<le> length path\<close> nth_mem [of "length path" pre]
      by (simp add: cstring_def)
  qed
  have "folded (take (length pre) path) = folded pre"
    using eq le by (intro nth_equalityI) (auto simp: char_at_def)
  then have "folded path = folded pre @ folded (drop (length pre) path)"
    by (metis append_take_drop_id map_append)
  moreover have "drop (length pre) path = [] \<or> d \<and> hd (drop (length pre) path) = CHR ''/''"
    using p le char_at_nonNUL [OF assms(1), of "length pre"]
    by (cases "length pre < length path")
       (auto simp: path_has_prefix_def hd_drop_conv_nth char_at_def split: if_splits)
  ultimately show "\<exists>s. folded path = folded pre @ s \<and> (s = [] \<or> d \<and> hd s = 47)"
    by (intro exI [of _ "folded (drop (length pre) path)"])
       (cases "drop (length pre) path"; simp)
next
  assume "\<exists>s. folded path = folded pre @ s \<and> (s = [] \<or> d \<and> hd s = 47)"
  then obtain s where f: "folded path = folded pre @ s" and s: "s = [] \<or> d \<and> hd s = 47"
    by blast
  have len: "length path = length pre + length s"
    using arg_cong [OF f, of length] by simp
  have at: "fold_ascii_case (path ! i) = (folded pre @ s) ! i" if "i < length path" for i
    using that by (simp flip: f)
  have "fold_ascii_case (path ! i) = fold_ascii_case (pre ! i)" if "i < length pre" for i
    using at [of i] that len by (simp add: nth_append)
  moreover have "char_at path (length pre) = NUL \<or> d \<and> char_at path (length pre) = CHR ''/''"
    using s len at [of "length pre"] by (cases s) (auto simp: char_at_def nth_append)
  ultimately show "path_has_prefix path pre d"
    using len by (simp add: path_has_prefix_def list_all_iff char_at_def)
qed

lemma paths_equal_iff:
  "cstring p \<Longrightarrow> cstring q \<Longrightarrow> paths_equal p q \<longleftrightarrow> folded p = folded q"
  by (simp add: paths_equal_def path_has_prefix_iff)

text \<open>
  On canonical paths the character test is a test on whole components: \<open>/sdcard\<close> is not
  below \<open>/sd\<close>.
\<close>

lemma split_at_slash:
  assumes "47 \<notin> set a" and "47 \<notin> set b" and "a @ x = b @ y"
    and "x = [] \<or> hd x = (47 :: u8)" and "y = [] \<or> hd y = 47"
  shows "a = b \<and> x = y"
proof -
  have tw: "takeWhile (\<lambda>c. c \<noteq> 47) (a @ x) = a" if "47 \<notin> set a" "x = [] \<or> hd x = (47 :: u8)" for a x
    using that by (cases x) (auto simp: takeWhile_append)
  from tw [OF assms(1,4)] tw [OF assms(2,5)] assms(3) have "a = b" by simp
  with assms(3) show ?thesis by simp
qed

lemma tail_string_hd: "tail_string cs = [] \<or> hd (tail_string cs) = CHR ''/''"
  by (cases cs) auto

lemma hd_map_fold_slash: "s = [] \<or> hd s = CHR ''/'' \<Longrightarrow> folded s = [] \<or> hd (folded s) = 47"
  by (cases s) auto

lemma tail_prefix_components:
  assumes "list_all valid_component cs" and "list_all valid_component ds"
  shows "(\<exists>s. folded (tail_string cs) = folded (tail_string ds) @ s \<and> (s = [] \<or> hd s = 47))
     \<longleftrightarrow> prefix (map folded ds) (map folded cs)"
  using assms
proof (induction ds arbitrary: cs)
  case Nil
  then show ?case using hd_map_fold_slash [OF tail_string_hd [of cs]] by simp
next
  case (Cons d ds)
  show ?case
  proof (cases cs)
    case (Cons c cs')
    note v = folded_no_slash [of c] folded_no_slash [of d]
    have step: "folded c @ folded (tail_string cs') = folded d @ folded (tail_string ds) @ s \<longleftrightarrow>
        folded c = folded d \<and> folded (tail_string cs') = folded (tail_string ds) @ s"
      if s: "s = [] \<or> hd s = 47" for s
    proof -
      have "folded (tail_string ds) @ s = [] \<or> hd (folded (tail_string ds) @ s) = 47"
        using hd_map_fold_slash [OF tail_string_hd [of ds]] s
        by (cases "tail_string ds") auto
      then show ?thesis
        using split_at_slash [of "folded c" "folded d" "folded (tail_string cs')"
            "folded (tail_string ds) @ s"] hd_map_fold_slash [OF tail_string_hd [of cs']]
          v Cons Cons.prems Cons by fastforce
    qed
    have "(\<exists>s. folded (tail_string cs) = folded (tail_string (d # ds)) @ s \<and> (s = [] \<or> hd s = 47))
       \<longleftrightarrow> folded c = folded d \<and>
         (\<exists>s. folded (tail_string cs') = folded (tail_string ds) @ s \<and> (s = [] \<or> hd s = 47))"
      using step by (auto simp: Cons)
    also have "\<dots> \<longleftrightarrow> folded c = folded d \<and> prefix (map folded ds) (map folded cs')"
      using Cons.IH [of cs'] Cons.prems Cons by simp
    finally show ?thesis using Cons by auto
  qed simp
qed

lemma canonical_cstring_render:
  "list_all valid_component cs \<Longrightarrow> cstring (render cs) \<longleftrightarrow> list_all cstring cs"
  by (induction cs) (auto simp: render_def list_all_iff cstring_def)
text \<open>
  The prefix test on canonical paths other than the root: with descendants, the folded
  components of one are a prefix of the other's; without, they are equal.
\<close>

lemma folded_components_eq:
  assumes "list_all valid_component cs" and "list_all valid_component ds"
  shows "folded (tail_string cs) = folded (tail_string ds) \<longleftrightarrow> map folded cs = map folded ds"
proof
  assume eq: "folded (tail_string cs) = folded (tail_string ds)"
  have "prefix (map folded ds) (map folded cs)"
    using tail_prefix_components [OF assms] eq by auto
  moreover have "prefix (map folded cs) (map folded ds)"
    using tail_prefix_components [OF assms(2,1)] eq by auto
  ultimately show "map folded cs = map folded ds"
    by (rule prefix_order.antisym [THEN sym])
next
  assume eq: "map folded cs = map folded ds"
  have fold: "folded (tail_string xs) = concat (map (\<lambda>c. 47 # c) (map folded xs))" for xs
    by (induction xs) auto
  show "folded (tail_string cs) = folded (tail_string ds)"
    by (simp only: fold eq)
qed

lemma path_has_prefix_components:
  assumes "canonical p" "cstring p" "canonical q" "cstring q" and "components q \<noteq> []"
  shows "path_has_prefix p q d \<longleftrightarrow>
     (if d then prefix (folded_components q) (folded_components p)
      else folded_components p = folded_components q)"
proof -
  obtain cs where p: "p = render cs" "list_all valid_component cs" "components p = cs"
    using assms(1) by (rule canonicalE)
  obtain ds where q: "q = render ds" "list_all valid_component ds" "components q = ds"
    using assms(3) by (rule canonicalE)
  have ds: "ds \<noteq> []" "q = tail_string ds"
    using assms(5) q by (simp_all add: render_nonempty)
  show ?thesis
  proof (cases "cs = []")
    case True
    have "\<not> path_has_prefix p q d"
    proof
      assume "path_has_prefix p q d"
      then have "length q \<le> length p"
        using assms by (auto simp: path_has_prefix_iff dest!: arg_cong [where f = length])
      then show False
        using length_tail_ge_2 [OF q(2) ds(1)] True p(1) ds(2) by simp
    qed
    then show ?thesis using True p q ds by simp
  next
    case False
    then have ps: "p = tail_string cs" using p by (simp add: render_nonempty)
    show ?thesis
    proof (cases d)
      case True
      then show ?thesis
        using tail_prefix_components [OF p(2) q(2)] assms(2,4)
        by (simp add: path_has_prefix_iff p(3) q(3) flip: ps ds(2))
    next
      case False
      then show ?thesis
        using folded_components_eq [OF p(2) q(2)] assms(2,4)
        by (simp add: path_has_prefix_iff p(3) q(3) flip: ps ds(2))
    qed
  qed
qed

section \<open>Stored paths under a rename\<close>

definition migrated_path_length :: "string \<Rightarrow> string \<Rightarrow> string \<Rightarrow> bool \<Rightarrow> nat" where
  "migrated_path_length path old_prefix new_prefix include_descendants =
     (if \<not> path_has_prefix path old_prefix include_descendants then length path
      else length new_prefix + length (drop (length old_prefix) path))"

definition migrate_path :: "string \<Rightarrow> string \<Rightarrow> string \<Rightarrow> bool \<Rightarrow> string" where
  "migrate_path path old_prefix new_prefix include_descendants =
     (if \<not> path_has_prefix path old_prefix include_descendants then path
      else new_prefix @ drop (length old_prefix) path)"

lemma length_migrate_path:
  "length (migrate_path p old new d) = migrated_path_length p old new d"
  by (simp add: migrate_path_def migrated_path_length_def)

lemma cstring_migrate_path: "cstring p \<Longrightarrow> cstring new \<Longrightarrow> cstring (migrate_path p old new d)"
  by (auto simp: migrate_path_def)

lemma folded_tail_length:
  "map folded cs = map folded ds \<Longrightarrow> length (tail_string cs) = length (tail_string ds)"
proof (induction cs arbitrary: ds)
  case (Cons c cs)
  then obtain d ds' where ds: "ds = d # ds'" "folded c = folded d" "map folded cs = map folded ds'"
    by (cases ds) simp_all
  have "length c = length d" using ds(2) by (rule map_eq_imp_length_eq)
  then show ?case using Cons.IH [OF ds(3)] ds(1) by simp
qed simp

text \<open>
  A migrated path is again canonical: the components below the renamed entry are kept, the
  renamed prefix is replaced.
\<close>

lemma migrate_path_components:
  assumes "canonical p" "cstring p" "canonical old" "cstring old" "components old \<noteq> []"
    and "canonical new" "components new \<noteq> []" and pre: "path_has_prefix p old d"
  shows "migrate_path p old new d = render (components new @ drop (length (components old)) (components p))"
proof -
  let ?n = "length (components old)"
  have pref: "prefix (folded_components old) (folded_components p)"
    using path_has_prefix_components [OF assms(1-5)] pre by (auto split: if_splits)
  then have le: "?n \<le> length (components p)"
    using prefix_length_le by fastforce
  then have nonempty: "components p \<noteq> []" using assms(5) by auto
  have "map folded (take ?n (components p)) = folded_components old"
    using pref by (auto simp: prefix_def take_map [symmetric])
  then have len: "length (tail_string (take ?n (components p))) = length old"
    using assms(3,5) folded_tail_length [of "take ?n (components p)" "components old"]
    by (simp add: canonical_def render_nonempty)
  have "p = tail_string (take ?n (components p) @ drop ?n (components p))"
    using assms(1) nonempty by (simp only: append_take_drop_id) (simp add: canonical_def render_nonempty)
  then have "p = tail_string (take ?n (components p)) @ tail_string (drop ?n (components p))"
    by (simp only: map_append concat_append)
  then have "drop (length old) p = tail_string (drop ?n (components p))"
    by (metis append_eq_conv_conj len)
  moreover have "new = tail_string (components new)"
    using assms(6,7) by (simp add: canonical_def render_nonempty)
  ultimately show ?thesis
    using pre assms(7) by (simp add: migrate_path_def render_def)
qed

lemma canonical_migrate_path:
  assumes "canonical p" "cstring p" "canonical old" "cstring old" "components old \<noteq> []"
    and "canonical new" "components new \<noteq> []"
  shows "canonical (migrate_path p old new d)"
proof (cases "path_has_prefix p old d")
  case True
  have "list_all valid_component (components new @ drop (length (components old)) (components p))"
    using canonical_components [OF assms(1)] canonical_components [OF assms(6)]
    by (auto simp: list_all_iff dest: in_set_dropD)
  then show ?thesis
    using migrate_path_components [OF assms True] by simp
next
  case False
  then show ?thesis using assms(1) by (simp add: migrate_path_def)
qed

text \<open>Every path the adapter stores is canonical, NUL-free and fits its buffer.\<close>

definition good_path :: "string \<Rightarrow> bool" where
  "good_path p \<longleftrightarrow> canonical p \<and> cstring p \<and> length p < MAXIMUM_PATH"

lemma cstring_dropWhile [intro]: "cstring s \<Longrightarrow> cstring (dropWhile P s)"
  by (auto simp: cstring_def dest: set_dropWhileD)

lemma cstring_takeWhile [intro]: "cstring s \<Longrightarrow> cstring (takeWhile P s)"
  by (auto simp: cstring_def dest: set_takeWhileD)

lemma cstring_pop_component: "cstring out \<Longrightarrow> cstring (pop_component out)"
  by (auto simp: pop_component_def Let_def)

lemma norm_loop_cstring:
  "norm_loop cursor out = Inr res \<Longrightarrow> cstring cursor \<Longrightarrow> cstring out \<Longrightarrow> cstring res"
proof (induction cursor out rule: norm_loop.induct)
  case (1 cursor out)
  define start where "start = dropWhile is_separator cursor"
  define comp where "comp = takeWhile (\<lambda>c. \<not> is_separator c) start"
  define rest where "rest = dropWhile (\<lambda>c. \<not> is_separator c) start"
  note defs = start_def comp_def rest_def
  have parts: "cstring comp" "cstring rest"
    using "1.prems"(2) unfolding defs by auto
  show ?case
    using "1.prems" "1.IH" [OF _ start_def comp_def rest_def] parts
    by (simp add: norm_loop.simps [of cursor out] Let_def flip: defs split: if_splits)
      (auto simp: cstring_pop_component)
qed

lemma normalize_path_good:
  assumes "good_path cwd" and "normalize_path cwd path = Inr out" and "\<And>p. path = Some p \<Longrightarrow> cstring p"
  shows "good_path out"
proof -
  obtain p pre where "path = Some p" "norm_loop (pre @ p) ''/'' = Inr out" "cstring pre"
    using assms(1,2)
    by (fastforce simp: normalize_path_def good_path_def Let_def split: option.splits if_splits)
  then have "cstring out"
    using assms(3) norm_loop_cstring [of "pre @ p" "''/''" out] by simp
  then show ?thesis
    using assms normalize_path_canonical by (auto simp: good_path_def)
qed

section \<open>The mount table\<close>

datatype Volume = Flash | Sd

definition mount_name :: "Volume \<Rightarrow> string" where
  "mount_name volume = (if volume = Flash then ''/flash'' else ''/sd'')"

text \<open>
  \<open>struct ResolvedPath\<close>. The two media objects are named by their volume; a null media
  pointer is \<open>None\<close>.
\<close>

record ResolvedPath =
  rp_media :: "Volume option"
  rp_volume :: Volume
  rp_local :: string
  rp_virtual_root :: bool
  rp_mount_root :: bool

definition empty_resolved :: ResolvedPath where
  "empty_resolved = \<lparr>rp_media = None, rp_volume = Flash, rp_local = [],
     rp_virtual_root = False, rp_mount_root = False\<rparr>"

fun resolve_in :: "(Volume \<Rightarrow> bool) \<Rightarrow> string \<Rightarrow> Volume list \<Rightarrow> errno + ResolvedPath" where
  "resolve_in mounted normalized [] = Inl ENOENT"
| "resolve_in mounted normalized (volume # volumes) =
     (if \<not> path_has_prefix normalized (mount_name volume) True
      then resolve_in mounted normalized volumes
      else if \<not> mounted volume then Inl ENODEV
      else
        let prefix_length = length (mount_name volume);
            mount_root = char_at normalized prefix_length = NUL;
            local = (if mount_root then ''/'' else drop prefix_length normalized)
        in Inr \<lparr>rp_media = Some volume, rp_volume = volume, rp_local = local,
                rp_virtual_root = False, rp_mount_root = mount_root\<rparr>)"

definition resolve_normalized_path :: "(Volume \<Rightarrow> bool) \<Rightarrow> string \<Rightarrow> errno + ResolvedPath" where
  "resolve_normalized_path mounted normalized =
     (if normalized = ''/'' then Inr (empty_resolved\<lparr>rp_virtual_root := True, rp_local := ''/''\<rparr>)
      else resolve_in mounted normalized [Flash, Sd])"

definition resolve_path ::
    "(Volume \<Rightarrow> bool) \<Rightarrow> string \<Rightarrow> string option \<Rightarrow> errno + (string \<times> ResolvedPath)" where
  "resolve_path mounted cwd path =
     (case normalize_path cwd path of
        Inl error \<Rightarrow> Inl error
      | Inr normalized \<Rightarrow> map_sum id (Pair normalized) (resolve_normalized_path mounted normalized))"

text \<open>
  The reference reading of the mount table: the first component names the volume, in any
  letter case, and the remaining components are the path on that volume.
\<close>

definition volume_dir :: "Volume \<Rightarrow> string" where
  "volume_dir v = tl (mount_name v)"

definition volume_of :: "string \<Rightarrow> Volume option" where
  "volume_of c =
     (if folded c = folded (volume_dir Flash) then Some Flash
      else if folded c = folded (volume_dir Sd) then Some Sd else None)"

definition resolve_components ::
    "(Volume \<Rightarrow> bool) \<Rightarrow> string list \<Rightarrow> errno + ResolvedPath" where
  "resolve_components mounted cs =
     (case cs of
        [] \<Rightarrow> Inr (empty_resolved\<lparr>rp_virtual_root := True, rp_local := ''/''\<rparr>)
      | c # rest \<Rightarrow>
          (case volume_of c of
             None \<Rightarrow> Inl ENOENT
           | Some v \<Rightarrow>
               if mounted v
               then Inr \<lparr>rp_media = Some v, rp_volume = v, rp_local = render rest,
                         rp_virtual_root = False, rp_mount_root = (rest = [])\<rparr>
               else Inl ENODEV))"

lemma mount_name_render: "mount_name v = render [volume_dir v]"
  by (cases v) (simp_all add: mount_name_def volume_dir_def render_def)

lemma valid_volume_dir: "valid_component (volume_dir v)"
  by (cases v) (simp_all add: mount_name_def volume_dir_def valid_component_def is_separator_def)

lemma mount_name_good: "canonical (mount_name v)" "cstring (mount_name v)"
    "components (mount_name v) = [volume_dir v]"
  using valid_volume_dir [of v]
  by (simp_all add: mount_name_render) (cases v; simp add: volume_dir_def mount_name_def render_def)

lemma mount_prefix_iff:
  assumes "canonical p" "cstring p"
  shows "path_has_prefix p (mount_name v) True \<longleftrightarrow>
    (\<exists>c cs. components p = c # cs \<and> folded c = folded (volume_dir v))"
  using path_has_prefix_components [OF assms mount_name_good(1,2)] mount_name_good(3) [of v]
  by (cases "components p") auto

lemma folded_volume_dir: "folded (volume_dir Flash) \<noteq> folded (volume_dir Sd)"
  by (simp add: volume_dir_def mount_name_def)

lemma local_of_components:
  assumes "canonical p" "components p = c # rest" and "folded c = folded (volume_dir v)" and "cstring p"
  shows "char_at p (length (mount_name v)) = NUL \<longleftrightarrow> rest = []"
    and "rest \<noteq> [] \<Longrightarrow> drop (length (mount_name v)) p = render rest"
proof -
  have len: "length (mount_name v) = Suc (length c)"
    using arg_cong [OF assms(3), of length] by (simp add: mount_name_render render_def)
  have p: "p = CHR ''/'' # c @ tail_string rest"
    using assms(1,2) by (simp add: canonical_def render_def)
  show "char_at p (length (mount_name v)) = NUL \<longleftrightarrow> rest = []"
    unfolding len by (cases rest) (simp_all add: p char_at_def nth_append)
  show "rest \<noteq> [] \<Longrightarrow> drop (length (mount_name v)) p = render rest"
    unfolding len by (simp add: p render_nonempty)
qed

lemma resolve_normalized_path_components:
  assumes "canonical p" "cstring p"
  shows "resolve_normalized_path mounted p = resolve_components mounted (components p)"
proof (cases "components p")
  case Nil
  then have "p = ''/''" using assms(1) by (simp add: canonical_def)
  then show ?thesis using Nil by (simp add: resolve_normalized_path_def resolve_components_def)
next
  case (Cons c rest)
  have "components ''/'' = []" using components_render [of "[]"] by simp
  with Cons have root: "p \<noteq> ''/''" by auto
  have pre: "path_has_prefix p (mount_name v) True \<longleftrightarrow> folded c = folded (volume_dir v)" for v
    using mount_prefix_iff [OF assms] Cons by simp
  show ?thesis
    using folded_volume_dir local_of_components [OF assms(1) Cons _ assms(2)]
    by (auto simp: resolve_normalized_path_def root pre resolve_components_def Cons volume_of_def Let_def)
qed

end
