(* ===== verification/FileX.thy ===== *)
theory FileX
  imports Effects Paths
begin

text \<open>
  The interface of FileX, the FAT library the adapter is built on. FileX is a submodule of
  the repository, so it is a parameter: a record of functions over an opaque world \<open>'w\<close>,
  which holds the two media objects and the FX_FILE control blocks. The adapter keeps each
  control block inside a slot of its descriptor table and passes its address; here the
  address is the slot number. A media pointer is the volume it belongs to, null is \<open>None\<close>.
  \<^verbatim>\<open>UINT\<close> and \<^verbatim>\<open>ULONG\<close> are 32 bits wide and \<^verbatim>\<open>ULONG64\<close> 64 bits, as on the Cortex-M target.
\<close>

section \<open>Status codes\<close>

text \<open>The codes \<^verbatim>\<open>filex_errno\<close>, its callers and the media drivers name; every other code is \<open>FX_OTHER\<close>.\<close>

datatype fx_status =
    FX_SUCCESS | FX_NOT_FOUND | FX_NOT_OPEN | FX_MEDIA_NOT_OPEN | FX_ALREADY_CREATED
  | FX_INVALID_NAME | FX_INVALID_PATH | FX_INVALID_OPTION | FX_PTR_ERROR | FX_NOT_A_FILE
  | FX_NOT_DIRECTORY | FX_DIR_NOT_EMPTY | FX_NO_MORE_SPACE | FX_NOT_ENOUGH_MEMORY
  | FX_ACCESS_ERROR | FX_WRITE_PROTECT | FX_END_OF_FILE | FX_NO_MORE_ENTRIES
  | FX_NOT_IMPLEMENTED | FX_BOOT_ERROR | FX_IO_ERROR | FX_OTHER nat

fun filex_errno :: "fx_status \<Rightarrow> errno option" where
  "filex_errno FX_SUCCESS = None"
| "filex_errno FX_NOT_FOUND = Some ENOENT"
| "filex_errno FX_NOT_OPEN = Some ENOENT"
| "filex_errno FX_MEDIA_NOT_OPEN = Some ENOENT"
| "filex_errno FX_ALREADY_CREATED = Some EEXIST"
| "filex_errno FX_INVALID_NAME = Some EINVAL"
| "filex_errno FX_INVALID_PATH = Some EINVAL"
| "filex_errno FX_INVALID_OPTION = Some EINVAL"
| "filex_errno FX_PTR_ERROR = Some EINVAL"
| "filex_errno FX_NOT_A_FILE = Some EISDIR"
| "filex_errno FX_NOT_DIRECTORY = Some ENOTDIR"
| "filex_errno FX_DIR_NOT_EMPTY = Some ENOTEMPTY"
| "filex_errno FX_NO_MORE_SPACE = Some ENOSPC"
| "filex_errno FX_NOT_ENOUGH_MEMORY = Some ENOSPC"
| "filex_errno FX_ACCESS_ERROR = Some EACCES"
| "filex_errno FX_WRITE_PROTECT = Some EACCES"
| "filex_errno FX_END_OF_FILE = None"
| "filex_errno FX_NO_MORE_ENTRIES = None"
| "filex_errno FX_NOT_IMPLEMENTED = Some ENOTSUP"
| "filex_errno FX_BOOT_ERROR = Some EIO"
| "filex_errno FX_IO_ERROR = Some EIO"
| "filex_errno (FX_OTHER _) = Some EIO"

text \<open>The same value stored into errno by a caller that fails whatever the value is.\<close>

definition filex_errno_value :: "fx_status \<Rightarrow> errno" where
  "filex_errno_value status = (case filex_errno status of None \<Rightarrow> ESUCCESS | Some e \<Rightarrow> e)"

lemma filex_errno_None:
  "filex_errno status = None \<longleftrightarrow> status \<in> {FX_SUCCESS, FX_END_OF_FILE, FX_NO_MORE_ENTRIES}"
  by (cases status) simp_all

section \<open>The library's operations\<close>

text \<open>\<^verbatim>\<open>FX_OPEN_FOR_READ\<close> and \<^verbatim>\<open>FX_OPEN_FOR_WRITE\<close>; a closed descriptor (-1) is \<open>None\<close>.\<close>

datatype open_mode = FX_OPEN_FOR_READ | FX_OPEN_FOR_WRITE

definition FX_READ_ONLY :: u32 where "FX_READ_ONLY = 0x01"
definition FX_DIRECTORY :: u32 where "FX_DIRECTORY = 0x10"

type_synonym media_ptr = "Volume option"

text \<open>What \<^verbatim>\<open>fx_directory_information_get\<close> stores through its output pointers.\<close>

record fx_information =
  fi_attributes :: u32
  fi_size :: u32
  fi_year :: u32
  fi_month :: u32
  fi_day :: u32
  fi_hour :: u32
  fi_minute :: u32
  fi_second :: u32

record 'w filex =
  fx_system_initialize :: "'w \<Rightarrow> 'w"
  fx_system_date_set :: "u32 \<Rightarrow> u32 \<Rightarrow> u32 \<Rightarrow> 'w \<Rightarrow> fx_status \<times> 'w"
  fx_system_time_set :: "u32 \<Rightarrow> u32 \<Rightarrow> u32 \<Rightarrow> 'w \<Rightarrow> fx_status \<times> 'w"
  fx_media_flush :: "media_ptr \<Rightarrow> 'w \<Rightarrow> fx_status \<times> 'w"
  fx_media_extended_space_available :: "media_ptr \<Rightarrow> 'w \<Rightarrow> (fx_status \<times> u64) \<times> 'w"
  fx_media_total_sectors :: "media_ptr \<Rightarrow> 'w \<Rightarrow> u32"
  fx_directory_information_get :: "media_ptr \<Rightarrow> string \<Rightarrow> 'w \<Rightarrow> (fx_status \<times> fx_information) \<times> 'w"
  fx_directory_create :: "media_ptr \<Rightarrow> string \<Rightarrow> 'w \<Rightarrow> fx_status \<times> 'w"
  fx_directory_delete :: "media_ptr \<Rightarrow> string \<Rightarrow> 'w \<Rightarrow> fx_status \<times> 'w"
  fx_directory_rename :: "media_ptr \<Rightarrow> string \<Rightarrow> string \<Rightarrow> 'w \<Rightarrow> fx_status \<times> 'w"
  fx_directory_default_set :: "media_ptr \<Rightarrow> string \<Rightarrow> 'w \<Rightarrow> fx_status \<times> 'w"
  fx_directory_first_full_entry_find :: "media_ptr \<Rightarrow> 'w \<Rightarrow> (fx_status \<times> string \<times> u32) \<times> 'w"
  fx_directory_next_full_entry_find :: "media_ptr \<Rightarrow> 'w \<Rightarrow> (fx_status \<times> string \<times> u32) \<times> 'w"
  fx_file_create :: "media_ptr \<Rightarrow> string \<Rightarrow> 'w \<Rightarrow> fx_status \<times> 'w"
  fx_file_delete :: "media_ptr \<Rightarrow> string \<Rightarrow> 'w \<Rightarrow> fx_status \<times> 'w"
  fx_file_rename :: "media_ptr \<Rightarrow> string \<Rightarrow> string \<Rightarrow> 'w \<Rightarrow> fx_status \<times> 'w"
  fx_file_date_time_set ::
    "media_ptr \<Rightarrow> string \<Rightarrow> u32 \<Rightarrow> u32 \<Rightarrow> u32 \<Rightarrow> u32 \<Rightarrow> u32 \<Rightarrow> u32 \<Rightarrow> 'w \<Rightarrow> fx_status \<times> 'w"
  fx_file_open :: "media_ptr \<Rightarrow> nat \<Rightarrow> string \<Rightarrow> open_mode \<Rightarrow> 'w \<Rightarrow> fx_status \<times> 'w"
  fx_file_close :: "nat \<Rightarrow> 'w \<Rightarrow> fx_status \<times> 'w"
  fx_file_read :: "nat \<Rightarrow> u32 \<Rightarrow> 'w \<Rightarrow> (fx_status \<times> u8 list) \<times> 'w"
  fx_file_write :: "nat \<Rightarrow> u8 list \<Rightarrow> 'w \<Rightarrow> fx_status \<times> 'w"
  fx_file_extended_seek :: "nat \<Rightarrow> u64 \<Rightarrow> 'w \<Rightarrow> fx_status \<times> 'w"
  fx_file_extended_truncate_release :: "nat \<Rightarrow> u64 \<Rightarrow> 'w \<Rightarrow> fx_status \<times> 'w"
  fx_file_clear :: "nat \<Rightarrow> 'w \<Rightarrow> 'w"
  fx_file_current_file_size :: "nat \<Rightarrow> 'w \<Rightarrow> u64"
  fx_file_current_file_offset :: "nat \<Rightarrow> 'w \<Rightarrow> u64"
  fx_file_dir_entry_stamp :: "nat \<Rightarrow> u32 \<Rightarrow> u32 \<Rightarrow> 'w \<Rightarrow> 'w"

text \<open>
  The last four fields are not calls: they clear a control block (\<^verbatim>\<open>memset\<close>, or assigning an
  empty descriptor), read the two members \<^verbatim>\<open>fx_file_current_file_size\<close> and
  \<^verbatim>\<open>fx_file_current_file_offset\<close>, and store the date and time members of its directory entry.
  \<^verbatim>\<open>fx_file_read\<close> returns the bytes it stored into the caller's buffer; their number is the
  \<^verbatim>\<open>actual_size\<close> output. The entry searches return the name and the attributes.
\<close>

end
