(* ===== verification/Descriptors.thy ===== *)
theory Descriptors
  imports FileX
begin

text \<open>
  The state of \<^verbatim>\<open>platform/runtime/libc/filesystem.cpp\<close> (descriptor table, directory streams,
  current directory, initialisation state, backup sequence and mount flags) and its internal
  helpers: entry information, mode switching of a descriptor, zero filling, flushing, the
  entry operations used by rename, and the registry guard around every call.
\<close>

section \<open>State\<close>

definition MAXIMUM_OPEN_FILES :: nat where "MAXIMUM_OPEN_FILES = 16"
definition MAXIMUM_OPEN_DIRECTORIES :: nat where "MAXIMUM_OPEN_DIRECTORIES = 8"
definition SECTOR_SIZE :: u64 where "SECTOR_SIZE = 512"
definition FIRST_FILE_DESCRIPTOR :: int where "FIRST_FILE_DESCRIPTOR = 3"

record EntryInformation =
  ei_size :: u64
  ei_attributes :: u32
  ei_year :: u16
  ei_month :: u8
  ei_day :: u8
  ei_hour :: u8
  ei_minute :: u8
  ei_second :: u8

definition empty_information :: EntryInformation where
  "empty_information = \<lparr>ei_size = 0, ei_attributes = 0, ei_year = 0, ei_month = 0, ei_day = 0,
     ei_hour = 0, ei_minute = 0, ei_second = 0\<rparr>"

text \<open>\<open>struct FileDescriptor\<close>; its \<^verbatim>\<open>FX_FILE\<close> member lives in the FileX world at the slot's index.\<close>

record FileDescriptor =
  fd_media :: media_ptr
  fd_path :: string
  fd_position :: u64
  fd_allocated :: bool
  fd_readable :: bool
  fd_writable :: bool
  fd_append :: bool
  fd_flush_on_close :: bool
  fd_open_mode :: "open_mode option"

definition empty_descriptor :: FileDescriptor where
  "empty_descriptor = \<lparr>fd_media = None, fd_path = [], fd_position = 0, fd_allocated = False,
     fd_readable = False, fd_writable = False, fd_append = False, fd_flush_on_close = False,
     fd_open_mode = None\<rparr>"

datatype entry_type = DT_DIR | DT_REG

record dirent =
  d_ino :: u32
  d_type :: entry_type
  d_name :: string

record directory_stream =
  ds_allocated :: bool
  ds_position :: int
  ds_path :: string
  ds_entries :: "(string \<times> entry_type) list"
  ds_entry :: "dirent option"

definition empty_stream :: directory_stream where
  "empty_stream = \<lparr>ds_allocated = False, ds_position = 0, ds_path = [], ds_entries = [], ds_entry = None\<rparr>"

datatype InitializationState = Not_attempted | Ready | Unavailable

record 'w fs =
  world :: 'w
  descriptors :: "FileDescriptor list"
  directories :: "directory_stream list"
  current_directory :: string
  filesystem_state :: InitializationState
  rename_backup_sequence :: u32
  flash_mounted :: bool
  sd_mounted :: bool

definition mounted :: "'w fs \<Rightarrow> Volume \<Rightarrow> bool" where
  "mounted s volume = (if volume = Flash then flash_mounted s else sd_mounted s)"

abbreviation fd :: "'w fs \<Rightarrow> nat \<Rightarrow> FileDescriptor" where
  "fd s i \<equiv> descriptors s ! i"

definition fd_modify :: "nat \<Rightarrow> (FileDescriptor \<Rightarrow> FileDescriptor) \<Rightarrow> 'w fs \<Rightarrow> 'w fs" where
  "fd_modify i f s = s\<lparr>descriptors := (descriptors s)[i := f (fd s i)]\<rparr>"

text \<open>\<^verbatim>\<open>*slot = FileDescriptor{}\<close>, which also empties the control block inside the slot.\<close>

definition fd_reset :: "'w filex \<Rightarrow> nat \<Rightarrow> 'w fs \<Rightarrow> 'w fs" where
  "fd_reset fx i s = s\<lparr>descriptors := (descriptors s)[i := empty_descriptor],
     world := fx_file_clear fx i (world s)\<rparr>"

abbreviation file_size :: "'w filex \<Rightarrow> nat \<Rightarrow> 'w fs \<Rightarrow> u64" where
  "file_size fx i s \<equiv> fx_file_current_file_size fx i (world s)"

text \<open>\<^verbatim>\<open>std::find_if\<close> over a table: the first index whose element satisfies the predicate.\<close>

primrec find_index :: "('a \<Rightarrow> bool) \<Rightarrow> 'a list \<Rightarrow> nat option" where
  "find_index P [] = None"
| "find_index P (x # xs) = (if P x then Some 0 else map_option Suc (find_index P xs))"

lemma find_index_Some: "find_index P xs = Some i \<Longrightarrow> i < length xs \<and> P (xs ! i) \<and> (\<forall>j<i. \<not> P (xs ! j))"
  by (induction xs arbitrary: i) (auto split: if_splits simp: less_Suc_eq_0_disj)

lemma find_index_None: "find_index P xs = None \<longleftrightarrow> (\<forall>x\<in>set xs. \<not> P x)"
  by (induction xs) auto

section \<open>Calls into FileX and the registry guard\<close>

text \<open>\<open>fxrun\<close> runs a function on the world that may not return, \<open>fxcall\<close> one that does.\<close>

definition fxrun :: "('w \<Rightarrow> ('a \<times> 'w) option) \<Rightarrow> ('w fs, 'a) act" where
  "fxrun f s = (case f (world s) of None \<Rightarrow> None | Some (x, w) \<Rightarrow> Some (Inr x, s\<lparr>world := w\<rparr>))"

definition fxcall :: "('w \<Rightarrow> 'a \<times> 'w) \<Rightarrow> ('w fs, 'a) act" where
  "fxcall f = fxrun (\<lambda>w. Some (f w))"

text \<open>\<^verbatim>\<open>filex_errno(f(...))\<close> as the error of a step.\<close>

definition fxdo :: "('w \<Rightarrow> fx_status \<times> 'w) \<Rightarrow> ('w fs, unit) act" where
  "fxdo f = seq (fxcall f) (\<lambda>status. check (filex_errno status))"


text \<open>
  What a call meets in its environment: whether it runs in an interrupt handler, how
  \<^verbatim>\<open>tx_mutex_get\<close> answers, and whether \<^verbatim>\<open>tx_mutex_put\<close> succeeds in the guard's destructor.
\<close>

record call_env =
  in_interrupt :: bool
  mutex_get_status :: tx_status
  mutex_put_status :: tx_status

definition usable :: "call_env \<Rightarrow> ('w fs, unit) act" where
  "usable env = with_state (\<lambda>s.
     if in_interrupt env then err EPERM
     else if filesystem_state s \<noteq> Ready then err ENODEV
     else ok ())"

text \<open>
  \<open>RegistryGuard\<close> around a body. A failing \<^verbatim>\<open>tx_mutex_put\<close> ends in \<^verbatim>\<open>Error_Handler\<close>, which does
  not return.
\<close>

definition registry_guard :: "call_env \<Rightarrow> ('w fs, 'a) act \<Rightarrow> ('w fs, 'a) act" where
  "registry_guard env body = (\<lambda>s.
     if filesystem_state s \<noteq> Ready then err ENODEV s
     else
       (case mutex_get_status env of
          TX_SUCCESS \<Rightarrow>
            (case body s of
               None \<Rightarrow> None
             | Some r \<Rightarrow> if mutex_put_status env \<noteq> TX_SUCCESS then None else Some r)
        | TX_WAIT_ABORTED \<Rightarrow> err EINTR s
        | _ \<Rightarrow> err EIO s))"

definition guarded :: "call_env \<Rightarrow> ('w fs, 'a) act \<Rightarrow> ('w fs, 'a) act" where
  "guarded env body = seq (usable env) (\<lambda>_. registry_guard env body)"

definition flush_media_unlocked :: "'w filex \<Rightarrow> media_ptr \<Rightarrow> ('w fs, unit) act" where
  "flush_media_unlocked fx media =
     (if media = None then err EIO else fxdo (fx_media_flush fx media))"

section \<open>Paths against the state\<close>

definition normalize_path_unlocked :: "string option \<Rightarrow> ('w fs, string) act" where
  "normalize_path_unlocked path = with_state (\<lambda>s. from_sum (normalize_path (current_directory s) path))"

definition resolve_path_unlocked :: "string option \<Rightarrow> ('w fs, string \<times> ResolvedPath) act" where
  "resolve_path_unlocked path =
     with_state (\<lambda>s. from_sum (resolve_path (mounted s) (current_directory s) path))"

definition resolve_normalized :: "string \<Rightarrow> ('w fs, ResolvedPath) act" where
  "resolve_normalized normalized =
     with_state (\<lambda>s. from_sum (resolve_normalized_path (mounted s) normalized))"

definition entry_information :: "fx_information \<Rightarrow> EntryInformation" where
  "entry_information i = \<lparr>ei_size = ucast (fi_size i), ei_attributes = fi_attributes i,
     ei_year = ucast (fi_year i), ei_month = ucast (fi_month i), ei_day = ucast (fi_day i),
     ei_hour = ucast (fi_hour i), ei_minute = ucast (fi_minute i), ei_second = ucast (fi_second i)\<rparr>"

text \<open>
  The result is an output parameter that every caller has initialised to
  \<^verbatim>\<open>EntryInformation{}\<close>; it keeps that value in the corner case where the lookup fails with a
  status \<^verbatim>\<open>filex_errno\<close> maps to 0.
\<close>

definition information_unlocked :: "'w filex \<Rightarrow> string option \<Rightarrow> ('w fs, EntryInformation) act" where
  "information_unlocked fx path =
     seq (normalize_path_unlocked path) (\<lambda>normalized.
       if normalized = ''/'' then ok (empty_information\<lparr>ei_attributes := FX_DIRECTORY\<rparr>)
       else
         seq (resolve_normalized normalized) (\<lambda>resolved.
           if rp_mount_root resolved then ok (empty_information\<lparr>ei_attributes := FX_DIRECTORY\<rparr>)
           else
             seq (fxcall (fx_directory_information_get fx (rp_media resolved) (rp_local resolved)))
               (\<lambda>(status, info).
                  if status \<noteq> FX_SUCCESS
                  then seq (check (filex_errno status)) (\<lambda>_. ok empty_information)
                  else ok (entry_information info))))"

definition is_directory :: "EntryInformation \<Rightarrow> bool" where
  "is_directory info \<longleftrightarrow> ei_attributes info AND FX_DIRECTORY \<noteq> 0"

section \<open>Entry operations used by rename\<close>

definition rename_entry_unlocked ::
    "'w filex \<Rightarrow> bool \<Rightarrow> string \<Rightarrow> string \<Rightarrow> ('w fs, unit) act" where
  "rename_entry_unlocked fx directory old_path new_path =
     seq (resolve_normalized old_path) (\<lambda>old_resolved.
     seq (resolve_normalized new_path) (\<lambda>new_resolved.
       if rp_media old_resolved \<noteq> rp_media new_resolved then err EXDEV
       else if directory
         then fxdo (fx_directory_rename fx (rp_media old_resolved) (rp_local old_resolved) (rp_local new_resolved))
         else fxdo (fx_file_rename fx (rp_media old_resolved) (rp_local old_resolved) (rp_local new_resolved))))"

definition delete_entry_unlocked :: "'w filex \<Rightarrow> bool \<Rightarrow> string \<Rightarrow> ('w fs, unit) act" where
  "delete_entry_unlocked fx directory path =
     seq (resolve_normalized path) (\<lambda>resolved.
       if directory then fxdo (fx_directory_delete fx (rp_media resolved) (rp_local resolved))
       else fxdo (fx_file_delete fx (rp_media resolved) (rp_local resolved)))"

text \<open>The loop that skips the two dot entries; it ends when FileX stops delivering them.\<close>

partial_function (option) skip_dots ::
    "'w filex \<Rightarrow> media_ptr \<Rightarrow> (fx_status \<times> string \<times> u32) \<times> 'w \<Rightarrow> (fx_status \<times> 'w) option" where
  "skip_dots fx media found =
     (case found of ((status, name, attributes), w) \<Rightarrow>
        if status = FX_SUCCESS \<and> (name = ''.'' \<or> name = ''..'')
        then skip_dots fx media (fx_directory_next_full_entry_find fx media w)
        else Some (status, w))"

definition first_real_entry :: "'w filex \<Rightarrow> media_ptr \<Rightarrow> ('w fs, fx_status) act" where
  "first_real_entry fx media =
     fxrun (\<lambda>w. skip_dots fx media (fx_directory_first_full_entry_find fx media w))"

definition require_empty_directory_unlocked :: "'w filex \<Rightarrow> string \<Rightarrow> ('w fs, unit) act" where
  "require_empty_directory_unlocked fx path =
     seq (resolve_normalized path) (\<lambda>resolved.
     seq (attempt
            (seq (fxdo (fx_directory_default_set fx (rp_media resolved) (rp_local resolved))) (\<lambda>_.
             seq (first_real_entry fx (rp_media resolved)) (\<lambda>status.
               if status = FX_NO_MORE_ENTRIES then ok ()
               else if status = FX_SUCCESS then err ENOTEMPTY
               else check (filex_errno status))))) (\<lambda>error.
     seq (attempt (fxdo (fx_directory_default_set fx (rp_media resolved) ''/''))) (\<lambda>reset_error.
       from_sum (case error of Inl e \<Rightarrow> Inl e | Inr _ \<Rightarrow> reset_error))))"

definition hexadecimal :: "nat \<Rightarrow> char" where
  "hexadecimal digit = ''0123456789ABCDEF'' ! digit"

text \<open>The five upper-case digits of the 20-bit sequence number, most significant first.\<close>

definition backup_digits :: "u32 \<Rightarrow> string" where
  "backup_digits sequence =
     map (\<lambda>digit. hexadecimal (unat (drop_bit ((5 - digit - 1) * 4) sequence AND 0xF))) [0..<5]"

definition backup_name :: "Volume \<Rightarrow> u32 \<Rightarrow> string" where
  "backup_name volume sequence = mount_name volume @ ''/FXR'' @ backup_digits sequence @ ''.TMP''"

primrec find_rename_backup_from :: "'w filex \<Rightarrow> Volume \<Rightarrow> nat \<Rightarrow> ('w fs, string) act" where
  "find_rename_backup_from fx volume 0 = err ENOSPC"
| "find_rename_backup_from fx volume (Suc attempts) = with_state (\<lambda>s.
     let entry = backup_name volume (rename_backup_sequence s AND 0xFFFFF) in
     seq (modify (\<lambda>s. s\<lparr>rename_backup_sequence := rename_backup_sequence s + 1\<rparr>)) (\<lambda>_.
     seq (attempt (information_unlocked fx (Some entry))) (\<lambda>r.
       case r of
         Inl error \<Rightarrow> if error = ENOENT then ok entry else err error
       | Inr _ \<Rightarrow> find_rename_backup_from fx volume attempts)))"

definition find_rename_backup_unlocked :: "'w filex \<Rightarrow> Volume \<Rightarrow> ('w fs, string) act" where
  "find_rename_backup_unlocked fx volume = find_rename_backup_from fx volume 256"

section \<open>Descriptors\<close>

text \<open>The part of \<open>switch_mode\<close> after the old mode has been closed.\<close>

definition reopen :: "'w filex \<Rightarrow> nat \<Rightarrow> open_mode \<Rightarrow> ('w fs, unit) act" where
  "reopen fx i requested_mode =
     seq (fxcall (\<lambda>w. ((), fx_file_clear fx i w))) (\<lambda>_.
     with_state (\<lambda>s.
     seq (resolve_normalized (fd_path (fd s i))) (\<lambda>resolved.
       if rp_virtual_root resolved \<or> rp_mount_root resolved then err EISDIR
       else
         seq (if requested_mode = FX_OPEN_FOR_READ \<and>
                (\<exists>candidate \<in> set (descriptors s).
                   fd_allocated candidate \<and> fd_open_mode candidate = Some FX_OPEN_FOR_WRITE \<and>
                   paths_equal (fd_path candidate) (fd_path (fd s i)))
              then flush_media_unlocked fx (rp_media resolved) else ok ()) (\<lambda>_.
         seq (fxcall (fx_file_open fx (rp_media resolved) i (rp_local resolved) requested_mode)) (\<lambda>open_status.
           if open_status \<noteq> FX_SUCCESS then check (filex_errno open_status)
           else
             seq (modify (fd_modify i (fd_open_mode_update (\<lambda>_. Some requested_mode)))) (\<lambda>_.
               fxdo (fx_file_extended_seek fx i (fd_position (fd s i)))))))))"

definition switch_mode :: "'w filex \<Rightarrow> nat \<Rightarrow> open_mode \<Rightarrow> ('w fs, unit) act" where
  "switch_mode fx i requested_mode = with_state (\<lambda>s.
     if fd_open_mode (fd s i) = Some requested_mode then ok ()
     else if fd_open_mode (fd s i) \<noteq> None then
       seq (fxcall (fx_file_close fx i)) (\<lambda>close_status.
       seq (modify (fd_modify i (fd_open_mode_update (\<lambda>_. None)))) (\<lambda>_.
         if close_status \<noteq> FX_SUCCESS then check (filex_errno close_status)
         else reopen fx i requested_mode))
     else reopen fx i requested_mode)"

text \<open>
  The loop of \<open>extend_with_zeroes\<close>; each turn appends at most one sector of zeroes. Nothing
  in it bounds the number of turns when FileX reports success without growing the file.
\<close>

partial_function (option) zero_fill ::
    "'w filex \<Rightarrow> nat \<Rightarrow> u64 \<Rightarrow> 'w \<Rightarrow> (errno option \<times> 'w) option" where
  "zero_fill fx i new_size w =
     (if fx_file_current_file_size fx i w < new_size then
        let chunk = min (new_size - fx_file_current_file_size fx i w) SECTOR_SIZE in
        (case fx_file_write fx i (replicate (unat chunk) 0) w of
           (status, w') \<Rightarrow>
             (if filex_errno status \<noteq> None then Some (filex_errno status, w')
              else zero_fill fx i new_size w'))
      else Some (None, w))"

definition extend_with_zeroes :: "'w filex \<Rightarrow> nat \<Rightarrow> u64 \<Rightarrow> ('w fs, unit) act" where
  "extend_with_zeroes fx i new_size = with_state (\<lambda>s.
     if new_size \<le> file_size fx i s then ok ()
     else
       seq (fxdo (fx_file_extended_seek fx i (file_size fx i s))) (\<lambda>_.
       seq (fxrun (zero_fill fx i new_size)) check))"

definition descriptor_for :: "int \<Rightarrow> ('w fs, nat) act" where
  "descriptor_for file = with_state (\<lambda>s.
     if file < FIRST_FILE_DESCRIPTOR then err EBADF
     else
       let index = file - FIRST_FILE_DESCRIPTOR in
         if index \<ge> int (length (descriptors s)) \<or> \<not> fd_allocated (fd s (nat index)) then err EBADF
         else ok (nat index))"

end
