(* ===== verification/Syscalls.thy ===== *)
theory Syscalls
  imports Descriptors
begin

text \<open>
  The system calls of \<^verbatim>\<open>platform/runtime/libc/filesystem.cpp\<close> that work on open files and on
  paths. A call returns \<open>Inl e\<close> where the code returns -1 (or null) with errno \<open>e\<close>. The flag
  and offset types are those of the embedded C library: \<^verbatim>\<open>off_t\<close> is a signed 32-bit integer.
\<close>

section \<open>Queries on paths\<close>

definition normalizePath :: "'w filex \<Rightarrow> call_env \<Rightarrow> string option \<Rightarrow> ('w fs, string) act" where
  "normalizePath fx env path = guarded env (normalize_path_unlocked path)"

definition information :: "'w filex \<Rightarrow> call_env \<Rightarrow> string option \<Rightarrow> ('w fs, EntryInformation) act" where
  "information fx env path = guarded env (information_unlocked fx path)"

definition availableSpace :: "'w filex \<Rightarrow> call_env \<Rightarrow> string option \<Rightarrow> ('w fs, u64) act" where
  "availableSpace fx env path =
     guarded env
       (seq (resolve_path_unlocked path) (\<lambda>(normalized, resolved).
          if rp_virtual_root resolved then err EINVAL
          else
            seq (fxcall (fx_media_extended_space_available fx (rp_media resolved))) (\<lambda>(status, available).
            seq (check (filex_errno status)) (\<lambda>_. ok available))))"

definition currentPath :: "call_env \<Rightarrow> ('w fs, string) act" where
  "currentPath env = guarded env (asks current_directory)"

definition setCurrentPath :: "'w filex \<Rightarrow> call_env \<Rightarrow> string option \<Rightarrow> ('w fs, unit) act" where
  "setCurrentPath fx env path =
     guarded env
       (seq (normalize_path_unlocked path) (\<lambda>normalized.
        seq (information_unlocked fx (Some normalized)) (\<lambda>info.
          if \<not> is_directory info then err ENOTDIR
          else modify (\<lambda>s. s\<lparr>current_directory := normalized\<rparr>))))"

text \<open>\<open>_getcwd\<close>: a null buffer is \<open>None\<close>; the result is the string copied into the buffer.\<close>

definition getcwd_sys :: "call_env \<Rightarrow> nat option \<Rightarrow> ('w fs, string) act" where
  "getcwd_sys env buffer_size =
     (case buffer_size of
        None \<Rightarrow> err EINVAL
      | Some 0 \<Rightarrow> err EINVAL
      | Some bytes \<Rightarrow>
          seq (currentPath env) (\<lambda>path. if length path + 1 > bytes then err ERANGE else ok path))"

definition chdir_sys :: "'w filex \<Rightarrow> call_env \<Rightarrow> string option \<Rightarrow> ('w fs, unit) act" where
  "chdir_sys fx env path = setCurrentPath fx env path"

section \<open>Opening and closing\<close>

definition O_RDONLY :: u32 where "O_RDONLY = 0"
definition O_WRONLY :: u32 where "O_WRONLY = 1"
definition O_RDWR :: u32 where "O_RDWR = 2"
definition O_ACCMODE :: u32 where "O_ACCMODE = 3"
definition O_APPEND :: u32 where "O_APPEND = 0x0008"
definition O_CREAT :: u32 where "O_CREAT = 0x0200"
definition O_TRUNC :: u32 where "O_TRUNC = 0x0400"
definition O_EXCL :: u32 where "O_EXCL = 0x0800"

definition flag_set :: "u32 \<Rightarrow> u32 \<Rightarrow> bool" where
  "flag_set flags flag \<longleftrightarrow> flags AND flag \<noteq> 0"

definition writable_flags :: "u32 \<Rightarrow> bool" where
  "writable_flags flags \<longleftrightarrow> flags AND O_ACCMODE \<noteq> O_RDONLY"

definition new_descriptor :: "u32 \<Rightarrow> bool \<Rightarrow> string \<Rightarrow> media_ptr \<Rightarrow> EntryInformation \<Rightarrow> FileDescriptor" where
  "new_descriptor flags exists normalized media info =
     \<lparr>fd_media = media, fd_path = normalized,
      fd_position = (if flag_set flags O_APPEND then ei_size info else 0),
      fd_allocated = True,
      fd_readable = (flags AND O_ACCMODE \<noteq> O_WRONLY),
      fd_writable = writable_flags flags,
      fd_append = flag_set flags O_APPEND,
      fd_flush_on_close = (\<not> exists \<or> writable_flags flags),
      fd_open_mode = None\<rparr>"

text \<open>The last part of \<open>_open\<close>: the slot is filled, opened, truncated, or given back.\<close>

definition open_slot ::
    "'w filex \<Rightarrow> nat \<Rightarrow> FileDescriptor \<Rightarrow> u32 \<Rightarrow> ('w fs, nat) act" where
  "open_slot fx slot d flags =
     seq (modify (fd_reset fx slot)) (\<lambda>_.
     seq (modify (fd_modify slot (\<lambda>_. d))) (\<lambda>_.
     on_error
       (seq (switch_mode fx slot (if fd_writable d then FX_OPEN_FOR_WRITE else FX_OPEN_FOR_READ)) (\<lambda>_.
          if fd_writable d \<and> flag_set flags O_TRUNC then
            seq (attempt (fxdo (fx_file_extended_truncate_release fx slot 0))) (\<lambda>r.
            seq (modify (fd_modify slot (fd_position_update (\<lambda>_. 0)))) (\<lambda>_.
            seq (from_sum r) (\<lambda>_. ok slot)))
          else ok slot))
       (\<lambda>error. with_state (\<lambda>s.
          seq (if fd_open_mode (fd s slot) \<noteq> None
               then seq (fxcall (fx_file_close fx slot)) (\<lambda>_. ok ()) else ok ()) (\<lambda>_.
          seq (modify (fd_reset fx slot)) (\<lambda>_. err error))))))"

definition open_unlocked :: "'w filex \<Rightarrow> string option \<Rightarrow> u32 \<Rightarrow> ('w fs, nat) act" where
  "open_unlocked fx path flags =
     seq (resolve_path_unlocked path) (\<lambda>(normalized, resolved).
       if rp_virtual_root resolved \<or> rp_mount_root resolved then err EISDIR
       else with_state (\<lambda>s.
         case find_index (\<lambda>d. \<not> fd_allocated d) (descriptors s) of
           None \<Rightarrow> err EMFILE
         | Some slot \<Rightarrow>
             seq (attempt (information_unlocked fx (Some normalized))) (\<lambda>looked_up.
               case looked_up of
                 Inl info_error \<Rightarrow>
                   (if info_error \<noteq> ENOENT then err info_error
                    else if \<not> flag_set flags O_CREAT then err info_error
                    else
                      seq (fxcall (fx_file_create fx (rp_media resolved) (rp_local resolved))) (\<lambda>create_status.
                        if create_status \<noteq> FX_SUCCESS then err (filex_errno_value create_status)
                        else open_slot fx slot
                               (new_descriptor flags False normalized (rp_media resolved) empty_information) flags))
               | Inr info \<Rightarrow>
                   (if is_directory info then err EISDIR
                    else if flag_set flags O_CREAT \<and> flag_set flags O_EXCL then err EEXIST
                    else open_slot fx slot
                           (new_descriptor flags True normalized (rp_media resolved) info) flags))))"

definition open_sys :: "'w filex \<Rightarrow> call_env \<Rightarrow> string option \<Rightarrow> u32 \<Rightarrow> ('w fs, int) act" where
  "open_sys fx env path flags =
     (if flags AND O_ACCMODE \<notin> {O_RDONLY, O_WRONLY, O_RDWR} then err EINVAL
      else guarded env
             (seq (open_unlocked fx path flags) (\<lambda>slot. ok (FIRST_FILE_DESCRIPTOR + int slot))))"

definition close_unlocked :: "'w filex \<Rightarrow> int \<Rightarrow> ('w fs, unit) act" where
  "close_unlocked fx file =
     seq (descriptor_for file) (\<lambda>i. with_state (\<lambda>s.
     let flush_on_close = fd_flush_on_close (fd s i);
         media = fd_media (fd s i) in
     seq (attempt
            (seq (if fd_open_mode (fd s i) \<noteq> None then fxdo (fx_file_close fx i) else ok ()) (\<lambda>_.
               if flush_on_close then flush_media_unlocked fx media else ok ()))) (\<lambda>r.
     seq (modify (fd_reset fx i)) (\<lambda>_. from_sum r))))"

definition close_sys :: "'w filex \<Rightarrow> call_env \<Rightarrow> int \<Rightarrow> ('w fs, unit) act" where
  "close_sys fx env file =
     (if 0 \<le> file \<and> file \<le> 2 then ok () else guarded env (close_unlocked fx file))"

section \<open>Reading and writing\<close>

text \<open>
  The console functions are weak symbols: \<open>None\<close> when the program does not provide them.
  Their state is part of the world.
\<close>

record 'w console =
  io_putchar :: "(u8 \<Rightarrow> 'w \<Rightarrow> int \<times> 'w) option"
  io_getchar :: "('w \<Rightarrow> int \<times> 'w) option"

text \<open>The loop of \<open>_read\<close> on standard input; \<open>acc\<close> is the buffer filled so far.\<close>

primrec console_read :: "('w \<Rightarrow> int \<times> 'w) \<Rightarrow> nat \<Rightarrow> u8 list \<Rightarrow> 'w \<Rightarrow> (errno + u8 list) \<times> 'w" where
  "console_read getchar 0 acc w = (Inr acc, w)"
| "console_read getchar (Suc n) acc w =
     (case getchar w of (character, w') \<Rightarrow>
        if character < 0 then (if acc = [] then Inl EIO else Inr acc, w')
        else
          let acc' = acc @ [word_of_int character] in
            if character = 10 then (Inr acc', w') else console_read getchar n acc' w')"

text \<open>The loop of \<open>_write\<close> on the output channels; \<open>done\<close> is the index.\<close>

primrec console_write :: "(u8 \<Rightarrow> 'w \<Rightarrow> int \<times> 'w) \<Rightarrow> u8 list \<Rightarrow> nat \<Rightarrow> 'w \<Rightarrow> (errno + nat) \<times> 'w" where
  "console_write putchar [] index w = (Inr index, w)"
| "console_write putchar (b # bs) index w =
     (case putchar b w of (result, w') \<Rightarrow>
        if result < 0 then (if index = 0 then Inl EIO else Inr index, w')
        else console_write putchar bs (Suc index) w')"

text \<open>\<^verbatim>\<open>descriptor->position = descriptor->file.fx_file_current_file_offset\<close>.\<close>

definition set_position :: "'w filex \<Rightarrow> nat \<Rightarrow> ('w fs, unit) act" where
  "set_position fx i = with_state (\<lambda>s.
     modify (fd_modify i (fd_position_update (\<lambda>_. fx_file_current_file_offset fx i (world s)))))"

definition read_unlocked :: "'w filex \<Rightarrow> int \<Rightarrow> int \<Rightarrow> ('w fs, u8 list) act" where
  "read_unlocked fx file count =
     seq (descriptor_for file) (\<lambda>i. with_state (\<lambda>s.
     if \<not> fd_readable (fd s i) then err EBADF
     else if count = 0 then ok []
     else
       seq (switch_mode fx i FX_OPEN_FOR_READ) (\<lambda>_. with_state (\<lambda>s.
         if fd_position (fd s i) \<ge> file_size fx i s then ok []
         else
           seq (fxdo (fx_file_extended_seek fx i (fd_position (fd s i)))) (\<lambda>_.
           seq (fxcall (fx_file_read fx i (word_of_int count))) (\<lambda>(status, data).
           seq (set_position fx i) (\<lambda>_.
             if status \<noteq> FX_SUCCESS \<and> status \<noteq> FX_END_OF_FILE
             then err (filex_errno_value status) else ok data)))))))"

definition read_sys ::
    "'w filex \<Rightarrow> 'w console \<Rightarrow> call_env \<Rightarrow> int \<Rightarrow> bool \<Rightarrow> int \<Rightarrow> ('w fs, u8 list) act" where
  "read_sys fx con env file null_buffer count =
     (if count < 0 \<or> null_buffer \<and> count \<noteq> 0 then err (if count < 0 then EINVAL else EFAULT)
      else if file = 0 then
        (if count = 0 then ok []
         else (case io_getchar con of
                 None \<Rightarrow> err ENOSYS
               | Some getchar \<Rightarrow>
                   seq (fxcall (console_read getchar (nat count) [])) from_sum))
      else guarded env (read_unlocked fx file count))"

definition write_unlocked :: "'w filex \<Rightarrow> int \<Rightarrow> u8 list \<Rightarrow> ('w fs, int) act" where
  "write_unlocked fx file data =
     seq (descriptor_for file) (\<lambda>i. with_state (\<lambda>s.
     if \<not> fd_writable (fd s i) then err EBADF
     else if data = [] then ok 0
     else
       seq (switch_mode fx i FX_OPEN_FOR_WRITE) (\<lambda>_.
       seq (with_state (\<lambda>s. if fd_append (fd s i)
              then modify (fd_modify i (fd_position_update (\<lambda>_. file_size fx i s))) else ok ())) (\<lambda>_.
       with_state (\<lambda>s.
       seq (extend_with_zeroes fx i (fd_position (fd s i))) (\<lambda>_.
       seq (fxdo (fx_file_extended_seek fx i (fd_position (fd s i)))) (\<lambda>_.
       seq (fxcall (fx_file_write fx i data)) (\<lambda>status.
       seq (set_position fx i) (\<lambda>_.
         if status \<noteq> FX_SUCCESS then err (filex_errno_value status)
         else ok (int (length data)))))))))))"

definition write_sys ::
    "'w filex \<Rightarrow> 'w console \<Rightarrow> call_env \<Rightarrow> int \<Rightarrow> u8 list option \<Rightarrow> int \<Rightarrow> ('w fs, int) act" where
  "write_sys fx con env file buffer count =
     (if count < 0 \<or> buffer = None \<and> count \<noteq> 0 then err (if count < 0 then EINVAL else EFAULT)
      else
        let data = (case buffer of None \<Rightarrow> [] | Some b \<Rightarrow> take (nat count) b) in
        if file = 1 \<or> file = 2 then
          (if count = 0 then ok 0
           else (case io_putchar con of
                   None \<Rightarrow> err ENOSYS
                 | Some putchar \<Rightarrow>
                     seq (fxcall (console_write putchar data 0)) (\<lambda>r. from_sum (map_sum id int r))))
        else guarded env (write_unlocked fx file data))"

section \<open>Positions and sizes\<close>

text \<open>\<^verbatim>\<open>off_t\<close> values are read with \<open>sint\<close>; their maximum is \<open>2 ^ 31 - 1\<close>.\<close>

definition maximum_offset :: u64 where "maximum_offset = 0x7FFFFFFF"

datatype seek_origin = SEEK_SET | SEEK_CUR | SEEK_END | SEEK_OTHER int

text \<open>The arithmetic of \<open>_lseek\<close> after the base has been chosen.\<close>

definition seek_target :: "u64 \<Rightarrow> u32 \<Rightarrow> errno + u64" where
  "seek_target base offset =
     (if base > maximum_offset then Inl EOVERFLOW
      else if sint offset \<ge> 0 then
        let positive_offset = scast offset :: u64 in
          if positive_offset > maximum_offset - base then Inl EOVERFLOW
          else Inr (base + positive_offset)
      else
        let offset_value = scast offset :: u64;
            magnitude = - (offset_value + 1) + 1 in
          if magnitude > base then Inl EINVAL else Inr (base - magnitude))"

definition lseek_unlocked :: "'w filex \<Rightarrow> int \<Rightarrow> u32 \<Rightarrow> seek_origin \<Rightarrow> ('w fs, u64) act" where
  "lseek_unlocked fx file offset origin =
     seq (descriptor_for file) (\<lambda>i. with_state (\<lambda>s.
     seq (if fd_open_mode (fd s i) = None
          then switch_mode fx i (if fd_readable (fd s i) then FX_OPEN_FOR_READ else FX_OPEN_FOR_WRITE)
          else ok ()) (\<lambda>_. with_state (\<lambda>s.
     seq (case origin of
            SEEK_SET \<Rightarrow> ok 0
          | SEEK_CUR \<Rightarrow> ok (fd_position (fd s i))
          | SEEK_END \<Rightarrow> ok (file_size fx i s)
          | SEEK_OTHER _ \<Rightarrow> err EINVAL) (\<lambda>base.
     seq (from_sum (seek_target base offset)) (\<lambda>target.
     seq (fxcall (fx_file_extended_seek fx i target)) (\<lambda>status.
       if status \<noteq> FX_SUCCESS then err (filex_errno_value status)
       else seq (modify (fd_modify i (fd_position_update (\<lambda>_. target)))) (\<lambda>_. ok target))))))))"

definition lseek_sys :: "'w filex \<Rightarrow> call_env \<Rightarrow> int \<Rightarrow> u32 \<Rightarrow> seek_origin \<Rightarrow> ('w fs, u64) act" where
  "lseek_sys fx env file offset origin = guarded env (lseek_unlocked fx file offset origin)"

definition fsync_unlocked :: "'w filex \<Rightarrow> int \<Rightarrow> ('w fs, unit) act" where
  "fsync_unlocked fx file =
     seq (descriptor_for file) (\<lambda>i. with_state (\<lambda>s.
     seq (resolve_normalized (fd_path (fd s i))) (\<lambda>resolved.
     seq (fxcall (fx_media_flush fx (rp_media resolved))) (\<lambda>status.
       if status \<noteq> FX_SUCCESS then err (filex_errno_value status) else ok ()))))"

definition fsync_sys :: "'w filex \<Rightarrow> call_env \<Rightarrow> int \<Rightarrow> ('w fs, unit) act" where
  "fsync_sys fx env file = guarded env (fsync_unlocked fx file)"

definition ftruncate_unlocked :: "'w filex \<Rightarrow> int \<Rightarrow> u32 \<Rightarrow> ('w fs, unit) act" where
  "ftruncate_unlocked fx file new_length =
     seq (descriptor_for file) (\<lambda>i. with_state (\<lambda>s.
     if \<not> fd_writable (fd s i) then err EBADF
     else
       seq (switch_mode fx i FX_OPEN_FOR_WRITE) (\<lambda>_. with_state (\<lambda>s.
       seq (if sint new_length < int (unat (file_size fx i s))
            then fxdo (fx_file_extended_truncate_release fx i (scast new_length))
            else if sint new_length > int (unat (file_size fx i s))
            then extend_with_zeroes fx i (scast new_length)
            else ok ()) (\<lambda>_.
         fxdo (fx_file_extended_seek fx i (fd_position (fd s i))))))))"

definition ftruncate_sys :: "'w filex \<Rightarrow> call_env \<Rightarrow> int \<Rightarrow> u32 \<Rightarrow> ('w fs, unit) act" where
  "ftruncate_sys fx env file new_length =
     (if sint new_length < 0 then err EINVAL else guarded env (ftruncate_unlocked fx file new_length))"

text \<open>
  \<open>_truncate\<close> enters the guard three times; another thread may run in between, and
  \<open>env\<close> is given per call.
\<close>

definition truncate_sys ::
    "'w filex \<Rightarrow> call_env \<Rightarrow> call_env \<Rightarrow> call_env \<Rightarrow> string option \<Rightarrow> u32 \<Rightarrow> ('w fs, unit) act" where
  "truncate_sys fx env1 env2 env3 path new_length =
     seq (open_sys fx env1 path O_WRONLY) (\<lambda>descriptor.
     seq (attempt (ftruncate_sys fx env2 descriptor new_length)) (\<lambda>r.
       case r of
         Inr _ \<Rightarrow> close_sys fx env3 descriptor
       | Inl saved_errno \<Rightarrow> seq (attempt (close_sys fx env3 descriptor)) (\<lambda>_. err saved_errno)))"

end
