(* ===== verification/Calendar.thy ===== *)
theory Calendar
  imports Nucleo_Prelude "HOL-Library.Signed_Division"
begin

text \<open>
  Civil calendar arithmetic of \<^verbatim>\<open>platform/hal/drivers/impl/stm32/Rtc.cpp\<close>, over \<open>int\<close>; the
  years the driver passes are 2000 to 2255, far from the limits of the 32-bit intermediates.
  The reference level is the calendar itself: the successor of a date. The second half is the
  inverse conversion that \<^verbatim>\<open>std::chrono\<close> provides to \<^verbatim>\<open>filesystem.cpp\<close>.
\<close>

section \<open>Dates to days\<close>

definition is_leap_year :: "int \<Rightarrow> bool" where
  "is_leap_year year \<longleftrightarrow> year mod 4 = 0 \<and> (year mod 100 \<noteq> 0 \<or> year mod 400 = 0)"

definition days_in_month :: "int \<Rightarrow> int \<Rightarrow> int" where
  "days_in_month year month =
     (if month = 2 then (if is_leap_year year then 29 else 28)
      else if month \<in> {4, 6, 9, 11} then 30
      else 31)"

definition days_from_civil :: "int \<Rightarrow> int \<Rightarrow> int \<Rightarrow> int" where
  "days_from_civil year month day =
     (let y = year - (if month \<le> 2 then 1 else 0);
          era = (if y \<ge> 0 then y else y - 399) sdiv 400;
          year_of_era = y - era * 400;
          adjusted_month = month + (if month > 2 then - 3 else 9);
          day_of_year = (153 * adjusted_month + 2) sdiv 5 + day - 1;
          day_of_era = year_of_era * 365 + year_of_era div 4 - year_of_era div 100 + day_of_year
      in era * 146097 + day_of_era - 719468)"

definition valid_date :: "int \<times> int \<times> int \<Rightarrow> bool" where
  "valid_date = (\<lambda>(y, m, d). 1 \<le> m \<and> m \<le> 12 \<and> 1 \<le> d \<and> d \<le> days_in_month y m)"

text \<open>The calendar: the day after a date.\<close>

definition next_day :: "int \<times> int \<times> int \<Rightarrow> int \<times> int \<times> int" where
  "next_day = (\<lambda>(y, m, d).
     if d < days_in_month y m then (y, m, d + 1)
     else if m < 12 then (y, m + 1, 1)
     else (y + 1, 1, 1))"

text \<open>The same count in closed form, with the shifted year as the only variable of its first part.\<close>

definition year_days :: "int \<Rightarrow> int" where
  "year_days y = 365 * y + y div 4 - y div 100 + y div 400"

lemma era_floor: "(if y \<ge> 0 then y else y - 399) sdiv 400 = (y :: int) div 400"
proof (cases "y \<ge> 0")
  case True
  then show ?thesis by (simp add: signed_divide_int_def sgn_if)
next
  case False
  then have "(y - 399) sdiv 400 = - ((399 - y) div 400)"
    by (simp add: signed_divide_int_def sgn_if)
  also have "(399 - y) div 400 = - (y div 400)"
  proof (rule int_div_pos_eq)
    show "399 - y = 400 * - (y div 400) + (399 - y mod 400)" by (simp add: minus_mod_eq_mult_div [symmetric])
    show "0 \<le> 399 - y mod 400" using pos_mod_bound [of 400 y] by simp
    show "399 - y mod 400 < 400" using pos_mod_sign [of 400 y] by simp
  qed
  finally show ?thesis using False by simp
qed

lemma era_split:
  "(y div 400) * 146097 + (y - y div 400 * 400) * 365 + (y - y div 400 * 400) div 4
     - (y - y div 400 * 400) div 100 = year_days (y :: int)"
proof -
  define e r where "e = y div 400" and "r = y - y div 400 * 400"
  then have y: "y = 400 * e + r" by simp
  have "(r + 4 * (100 * e)) div 4 = 100 * e + r div 4" "(r + 100 * (4 * e)) div 100 = 4 * e + r div 100"
    by (rule div_mult_self2, simp)+
  then have "(400 * e + r) div 4 = 100 * e + r div 4" "(400 * e + r) div 100 = 4 * e + r div 100"
    by (simp_all add: add.commute)
  moreover have "e * 146097 + r * 365 + u - v = 365 * (400 * e + r) + a - b + e"
    if "a = 100 * e + u" "b = 4 * e + v" for a b u v :: int
    using that by simp
  ultimately have "e * 146097 + r * 365 + r div 4 - r div 100 =
      365 * (400 * e + r) + (400 * e + r) div 4 - (400 * e + r) div 100 + e"
    by blast
  moreover have "400 * e + r - e * 400 = r" by simp
  ultimately show ?thesis unfolding year_days_def e_def [symmetric] by (simp only: y)
qed

lemma days_from_civil_closed:
  assumes "1 \<le> m" "m \<le> 12"
  shows "days_from_civil y m d =
    year_days (if m \<le> 2 then y - 1 else y) +
    (153 * (if m > 2 then m - 3 else m + 9) + 2) div 5 + d - 719469"
proof -
  have "x sdiv 5 = x div (5 :: int)" if "x \<ge> 0" for x
    using that by (simp add: signed_divide_int_def sgn_if)
  then have month: "(153 * (m + (if m > 2 then - 3 else 9)) + 2) sdiv 5 =
      (153 * (if m > 2 then m - 3 else m + 9) + 2) div 5"
    using assms by auto
  show ?thesis
    using era_split [of "if m \<le> 2 then y - 1 else y"]
    unfolding days_from_civil_def Let_def era_floor month
    by (cases "m \<le> 2") simp_all
qed

lemma div_pred:
  fixes y k :: int
  assumes "k > 1"
  shows "y div k = (y - 1) div k + (if y mod k = 0 then 1 else 0)"
proof (cases "y mod k = 0")
  case True
  then obtain q where y: "y = k * q" by auto
  have "(k * q - 1) div k = q - 1"
    by (rule int_div_pos_eq [of _ _ _ "k - 1"]) (use assms in \<open>simp_all add: right_diff_distrib\<close>)
  then show ?thesis using assms by (simp add: y)
next
  case False
  then have "y mod k > 0" "y mod k < k"
    using assms pos_mod_bound [of k y] pos_mod_sign [of k y] by linarith+
  then have "y - 1 = k * (y div k) + (y mod k - 1)" "0 \<le> y mod k - 1" "y mod k - 1 < k"
    by simp_all
  then have "(y - 1) div k = y div k" by (rule int_div_pos_eq)
  then show ?thesis using False by simp
qed

lemma leap_count:
  fixes a b c a' b' c' :: int
  assumes "a = a' + (if p then 1 else 0)" "b = b' + (if q then 1 else 0)" "c = c' + (if r then 1 else 0)"
    and "r \<Longrightarrow> q" "q \<Longrightarrow> p"
  shows "365 * y + a - b + c = 365 * (y - 1) + a' - b' + c' + 365 + (if p \<and> (\<not> q \<or> r) then 1 else 0)"
  using assms by (cases p; cases q; cases r) simp_all

lemma year_days_step:
  "year_days y = year_days (y - 1) + 365 + (if is_leap_year y then 1 else 0)"
proof -
  have "100 dvd (400 :: int)" "4 dvd (100 :: int)" by simp_all
  then have "y mod 400 = 0 \<Longrightarrow> y mod 100 = 0" "y mod 100 = 0 \<Longrightarrow> y mod 4 = 0"
    unfolding mod_eq_0_iff_dvd by (blast intro: dvd_trans)+
  then show ?thesis
    unfolding year_days_def is_leap_year_def
    by (intro leap_count div_pred) simp_all
qed

lemma month_in_year: "1 \<le> m \<Longrightarrow> m \<le> 12 \<Longrightarrow> m \<in> {1, 2, 3, 4, 5, 6, 7, 8, 9, 10, 11, 12 :: int}"
proof -
  assume "1 \<le> m" "m \<le> 12"
  then have "m = 1 \<or> m = 2 \<or> m = 3 \<or> m = 4 \<or> m = 5 \<or> m = 6 \<or> m = 7 \<or> m = 8 \<or> m = 9 \<or> m = 10 \<or> m = 11 \<or> m = 12"
    by presburger
  then show ?thesis by simp
qed

lemma days_from_civil_next_day:
  assumes "valid_date date"
  shows "(case next_day date of (y, m, d) \<Rightarrow> days_from_civil y m d) =
    (case date of (y, m, d) \<Rightarrow> days_from_civil y m d) + 1"
proof -
  obtain y m d where date: "date = (y, m, d)" by (cases date)
  have d: "d \<le> days_in_month y m" "1 \<le> m" "m \<le> 12"
    using assms by (auto simp: valid_date_def date)
  note m = month_in_year [OF d(2,3)]
  show ?thesis
  proof (cases "d < days_in_month y m")
    case True
    then show ?thesis using d(2,3) by (simp add: date next_day_def days_from_civil_closed)
  next
    case False
    then have "d = days_in_month y m" using d(1) by simp
    then show ?thesis
      using m year_days_step [of y]
      by (elim insertE emptyE) (simp_all add: date next_day_def days_from_civil_closed days_in_month_def)
  qed
qed

lemma next_day_valid: "valid_date date \<Longrightarrow> valid_date (next_day date)"
  by (auto simp: valid_date_def next_day_def days_in_month_def split: prod.splits if_splits)

section \<open>Days to dates\<close>

text \<open>
  The civil date of a day number, as \<^verbatim>\<open>year_month_day{ sys_days }\<close> of the standard library
  yields it: the inverse of the count above, by eras of 400 years, centuries, four-year cycles
  and years that start in March.
\<close>

definition civil_from_days :: "int \<Rightarrow> int \<times> int \<times> int" where
  "civil_from_days n =
     (let z = n + 719468;
          era = z div 146097;
          doe = z mod 146097;
          century = min (doe div 36524) 3;
          doc = doe - century * 36524;
          cycle = doc div 1461;
          doq = doc - cycle * 1461;
          yoq = min (doq div 365) 3;
          doy = doq - yoq * 365;
          mp = (5 * doy + 2) div 153;
          d = doy - (153 * mp + 2) div 5 + 1;
          m = (if mp < 10 then mp + 3 else mp - 9);
          y = era * 400 + century * 100 + cycle * 4 + yoq
      in (if m \<le> 2 then y + 1 else y, m, d))"

text \<open>Where a day number falls inside its era.\<close>

lemma era_position:
  fixes doe :: int
  assumes "0 \<le> doe" "doe < 146097"
  defines "century \<equiv> min (doe div 36524) 3"
  defines "doc \<equiv> doe - century * 36524"
  defines "cycle \<equiv> doc div 1461"
  defines "doq \<equiv> doc - cycle * 1461"
  defines "yoq \<equiv> min (doq div 365) 3"
  defines "doy \<equiv> doq - yoq * 365"
  shows "0 \<le> century" "century \<le> 3" "0 \<le> cycle" "cycle \<le> 24" "0 \<le> yoq" "yoq \<le> 3"
    "0 \<le> doy" "doy \<le> 365" "doy = 365 \<longrightarrow> yoq = 3 \<and> (cycle < 24 \<or> century = 3)"
proof -
  show c: "0 \<le> century" "century \<le> 3" using assms(1) by (auto simp: century_def pos_imp_zdiv_nonneg_iff)
  have doc: "0 \<le> doc" "doc \<le> 36524" "century < 3 \<longrightarrow> doc < 36524"
    using assms(1,2) unfolding doc_def century_def by linarith+
  show q: "0 \<le> cycle" "cycle \<le> 24" using doc unfolding cycle_def by linarith+
  have doq: "0 \<le> doq" "doq < 1461" "cycle = 24 \<longrightarrow> century < 3 \<longrightarrow> doq < 1460"
    using doc unfolding doq_def cycle_def by linarith+
  show "0 \<le> yoq" "yoq \<le> 3" "0 \<le> doy" "doy \<le> 365"
    using doq unfolding yoq_def doy_def by linarith+
  show "doy = 365 \<longrightarrow> yoq = 3 \<and> (cycle < 24 \<or> century = 3)"
    using doq c q unfolding yoq_def doy_def by linarith
qed

lemma year_days_parts:
  assumes "0 \<le> century" "century \<le> 3" "0 \<le> cycle" "cycle \<le> 24" "0 \<le> yoq" "yoq \<le> (3 :: int)"
  shows "year_days (era * 400 + century * 100 + cycle * 4 + yoq) =
    era * 146097 + century * 36524 + cycle * 1461 + yoq * 365"
proof -
  let ?y = "era * 400 + century * 100 + cycle * 4 + yoq"
  have "?y div 4 = era * 100 + century * 25 + cycle"
    by (rule int_div_pos_eq [of _ _ _ yoq]) (use assms in auto)
  moreover have "?y div 100 = era * 4 + century"
    by (rule int_div_pos_eq [of _ _ _ "cycle * 4 + yoq"]) (use assms in auto)
  moreover have "?y div 400 = era"
    by (rule int_div_pos_eq [of _ _ _ "century * 100 + cycle * 4 + yoq"]) (use assms in auto)
  ultimately show ?thesis by (simp add: year_days_def)
qed

lemma march_leap:
  assumes "0 \<le> century" "century \<le> 3" "0 \<le> cycle" "cycle \<le> 24" "yoq = (3 :: int)"
    and "cycle < 24 \<or> century = 3"
  shows "is_leap_year (era * 400 + century * 100 + cycle * 4 + yoq + 1)"
proof -
  let ?y = "era * 400 + century * 100 + cycle * 4 + yoq + 1"
  have "?y mod 4 = 0" using assms(5) by presburger
  moreover have "?y mod 100 = 4 * (cycle + 1)" if "cycle < 24"
    by (rule int_mod_pos_eq [of _ _ "era * 4 + century"]) (use assms that in auto)
  moreover have "?y mod 400 = 0" if "cycle = 24" "century = 3"
    by (rule int_mod_pos_eq [of _ _ "era + 1"]) (use assms that in auto)
  ultimately show ?thesis
  proof (cases "cycle < 24")
    case True
    with \<open>cycle < 24 \<Longrightarrow> ?y mod 100 = 4 * (cycle + 1)\<close> have "?y mod 100 = 4 * (cycle + 1)" by blast
    moreover have "4 * (cycle + 1) \<noteq> 0" using assms(3) by simp
    ultimately have "?y mod 100 \<noteq> 0" by metis
    with \<open>?y mod 4 = 0\<close> show ?thesis unfolding is_leap_year_def by blast
  next
    case False
    with assms(4,6) have "cycle = 24" "century = 3" by auto
    with \<open>cycle = 24 \<Longrightarrow> century = 3 \<Longrightarrow> ?y mod 400 = 0\<close> \<open>?y mod 4 = 0\<close>
    show ?thesis unfolding is_leap_year_def by blast
  qed
qed

text \<open>Months counted from March, by their first day in the year.\<close>

lemma month_of_day:
  fixes doy :: int
  assumes "0 \<le> doy" "doy \<le> 365" and leap: "doy = 365 \<Longrightarrow> is_leap_year (y + 1)"
  defines "mp \<equiv> (5 * doy + 2) div 153"
  defines "m \<equiv> (if mp < 10 then mp + 3 else mp - 9)"
  defines "d \<equiv> doy - (153 * mp + 2) div 5 + 1"
  shows "valid_date (if m \<le> 2 then y + 1 else y, m, d)" and "(if m > 2 then m - 3 else m + 9) = mp"
    and "1 \<le> m" "m \<le> 12"
proof -
  have mp: "0 \<le> mp" "mp \<le> 11" "153 * mp \<le> 5 * doy + 2" "5 * doy + 2 < 153 * mp + 153"
    using assms(1,2) unfolding mp_def by linarith+
  then show "(if m > 2 then m - 3 else m + 9) = mp" "1 \<le> m" "m \<le> 12" by (auto simp: m_def)
  have last: "is_leap_year (y + 1) \<or> doy \<le> 364" using leap assms(2) by fastforce
  have "mp = 0 \<or> mp = 1 \<or> mp = 2 \<or> mp = 3 \<or> mp = 4 \<or> mp = 5 \<or> mp = 6 \<or> mp = 7 \<or> mp = 8 \<or> mp = 9 \<or> mp = 10 \<or> mp = 11"
    using mp(1,2) by presburger
  then have "mp \<in> {0, 1, 2, 3, 4, 5, 6, 7, 8, 9, 10, 11}" by simp
  then show "valid_date (if m \<le> 2 then y + 1 else y, m, d)"
    using mp(3,4) assms(2) last
    by (elim insertE emptyE) (auto simp: valid_date_def m_def d_def days_in_month_def)
qed

lemma civil_from_days_correct:
  "valid_date (civil_from_days n)"
  "(case civil_from_days n of (y, m, d) \<Rightarrow> days_from_civil y m d) = n"
proof -
  define era doe where "era = (n + 719468) div 146097" and "doe = (n + 719468) mod 146097"
  define century where "century = min (doe div 36524) 3"
  define doc where "doc = doe - century * 36524"
  define cycle where "cycle = doc div 1461"
  define doq where "doq = doc - cycle * 1461"
  define yoq where "yoq = min (doq div 365) 3"
  define doy where "doy = doq - yoq * 365"
  define y where "y = era * 400 + century * 100 + cycle * 4 + yoq"
  define mp where "mp = (5 * doy + 2) div 153"
  define m where "m = (if mp < 10 then mp + 3 else mp - 9)"
  define d where "d = doy - (153 * mp + 2) div 5 + 1"
  note defs = era_def doe_def century_def doc_def cycle_def doq_def yoq_def doy_def y_def mp_def m_def d_def
  have civil: "civil_from_days n = (if m \<le> 2 then y + 1 else y, m, d)"
    unfolding civil_from_days_def Let_def defs [symmetric] by (rule refl)
  have "0 \<le> doe" "doe < 146097" by (simp_all add: doe_def)
  note pos = era_position [OF this, folded century_def, folded doc_def, folded cycle_def,
      folded doq_def, folded yoq_def, folded doy_def]
  have leap: "is_leap_year (y + 1)" if "doy = 365"
    using march_leap [OF pos(1-4)] pos(9) that by (auto simp: y_def)
  note month = month_of_day [OF pos(7,8) leap, folded mp_def, folded m_def d_def]
  show "valid_date (civil_from_days n)" using month(1) by (simp add: civil)
  have "n + 719468 = era * 146097 + doe" by (simp add: era_def doe_def)
  then have "year_days y + doy = n + 719468"
    using year_days_parts [OF pos(1-6), of era] by (simp add: y_def doy_def doq_def doc_def)
  moreover have "days_from_civil (if m \<le> 2 then y + 1 else y) m d = year_days y + doy - 719468"
    using month(2) by (simp add: days_from_civil_closed [OF month(3,4)] d_def)
  ultimately show "(case civil_from_days n of (y, m, d) \<Rightarrow> days_from_civil y m d) = n"
    by (simp add: civil)
qed

section \<open>Years of a day number\<close>

lemma date_in_year:
  assumes "valid_date (y, m, d)"
  shows "days_from_civil y 1 1 \<le> days_from_civil y m d" "days_from_civil y m d < days_from_civil (y + 1) 1 1"
proof -
  have m: "1 \<le> m" "m \<le> 12" and d: "1 \<le> d" "d \<le> days_in_month y m"
    using assms by (auto simp: valid_date_def)
  have "days_from_civil y 1 1 \<le> days_from_civil y m d \<and> days_from_civil y m d < days_from_civil (y + 1) 1 1"
    using month_in_year [OF m] d year_days_step [of y]
    by (elim insertE emptyE) (auto simp: days_from_civil_closed days_in_month_def split: if_splits)
  then show "days_from_civil y 1 1 \<le> days_from_civil y m d" "days_from_civil y m d < days_from_civil (y + 1) 1 1"
    by blast+
qed

lemma new_year_mono: "y \<le> z \<Longrightarrow> days_from_civil y 1 1 \<le> days_from_civil z 1 1"
proof (induction "nat (z - y)" arbitrary: z)
  case (Suc n)
  have "valid_date (z - 1, 1, 1)" by (simp add: valid_date_def days_in_month_def)
  then have "days_from_civil (z - 1) 1 1 \<le> days_from_civil z 1 1" using date_in_year [of "z - 1" 1 1] by simp
  moreover have "days_from_civil y 1 1 \<le> days_from_civil (z - 1) 1 1" using Suc by (intro Suc.hyps) simp_all
  ultimately show ?case by linarith
qed simp

lemma year_of_range:
  assumes "days_from_civil a 1 1 \<le> n" "n < days_from_civil b 1 1" "civil_from_days n = (y, m, d)"
  shows "a \<le> y" "y < b"
proof -
  have v: "valid_date (y, m, d)" and n: "days_from_civil y m d = n"
    using civil_from_days_correct [of n] assms(3) by simp_all
  show "a \<le> y"
    using date_in_year(2) [OF v] new_year_mono [of "y + 1" a] assms(1) n by linarith
  show "y < b"
    using date_in_year(1) [OF v] new_year_mono [of b y] assms(2) n by linarith
qed

end
