(* ===== verification/Entries.thy ===== *)
theory Entries
  imports Syscalls Calendar
begin

text \<open>
  The system calls of \<^verbatim>\<open>platform/runtime/libc/filesystem.cpp\<close> that work on directory entries:
  stat and fstat, unlink, mkdir, rmdir, remove, rename and utime.
\<close>

section \<open>stat\<close>

text \<open>
  \<^verbatim>\<open>struct stat\<close> of the embedded C library; \<^verbatim>\<open>off_t\<close> and \<^verbatim>\<open>blkcnt_t\<close> are 32 bits wide, times are
  integers. The inode is the 32-bit hash before its conversion to \<^verbatim>\<open>ino_t\<close>.
\<close>

record stat =
  st_mode :: u32
  st_nlink :: nat
  st_ino :: u32
  st_size :: u32
  st_blksize :: u32
  st_blocks :: u32
  st_mtime :: int
  st_atime :: int
  st_ctime :: int

definition zero_stat :: stat where
  "zero_stat = \<lparr>st_mode = 0, st_nlink = 0, st_ino = 0, st_size = 0, st_blksize = 0, st_blocks = 0,
     st_mtime = 0, st_atime = 0, st_ctime = 0\<rparr>"

definition S_IFCHR :: u32 where "S_IFCHR = 0x2000"
definition S_IFDIR :: u32 where "S_IFDIR = 0x4000"
definition S_IFREG :: u32 where "S_IFREG = 0x8000"

text \<open>The FNV-1a hash of the case-folded path.\<close>

definition inode_step :: "u32 \<Rightarrow> char \<Rightarrow> u32" where
  "inode_step inode c = (inode XOR ucast (fold_ascii_case c)) * 16777619"

definition path_inode :: "string \<Rightarrow> u32" where
  "path_inode path = foldl inode_step 2166136261 path"

definition stat_mode :: "u32 \<Rightarrow> u32" where
  "stat_mode attributes =
     (let directory = attributes AND FX_DIRECTORY \<noteq> 0 in
        (if directory then S_IFDIR else S_IFREG)
        OR (if attributes AND FX_READ_ONLY \<noteq> 0 then 0x124 else 0x1B6)
        OR (if directory then 0x49 else 0))"

text \<open>\<^verbatim>\<open>date.ok()\<close>; the standard library stores the year as a signed 16-bit value.\<close>

definition date_ok :: "EntryInformation \<Rightarrow> bool" where
  "date_ok info \<longleftrightarrow> sint (ei_year info) \<noteq> - 32768 \<and>
     valid_date (sint (ei_year info), uint (ei_month info), uint (ei_day info))"

definition entry_timestamp :: "EntryInformation \<Rightarrow> int" where
  "entry_timestamp info =
     days_from_civil (sint (ei_year info)) (uint (ei_month info)) (uint (ei_day info)) * 86400
     + uint (ei_hour info) * 3600 + uint (ei_minute info) * 60 + uint (ei_second info)"

definition fill_stat :: "string \<Rightarrow> EntryInformation \<Rightarrow> stat" where
  "fill_stat path info =
     (let value = zero_stat\<lparr>
            st_mode := stat_mode (ei_attributes info),
            st_nlink := 1,
            st_ino := path_inode path,
            st_size := ucast (ei_size info),
            st_blksize := ucast SECTOR_SIZE,
            st_blocks := ucast ((ei_size info + SECTOR_SIZE - 1) div SECTOR_SIZE)\<rparr>
      in if date_ok info
         then value\<lparr>st_mtime := entry_timestamp info, st_atime := entry_timestamp info,
                    st_ctime := entry_timestamp info\<rparr>
         else value)"

definition fstat_unlocked :: "'w filex \<Rightarrow> int \<Rightarrow> ('w fs, stat) act" where
  "fstat_unlocked fx file =
     seq (descriptor_for file) (\<lambda>i. with_state (\<lambda>s.
     seq (information_unlocked fx (Some (fd_path (fd s i)))) (\<lambda>info.
     asks (\<lambda>s. fill_stat (fd_path (fd s i))
       (if fd_open_mode (fd s i) \<noteq> None then info\<lparr>ei_size := file_size fx i s\<rparr> else info)))))"

definition fstat_sys :: "'w filex \<Rightarrow> call_env \<Rightarrow> int \<Rightarrow> bool \<Rightarrow> ('w fs, stat) act" where
  "fstat_sys fx env file null_value =
     (if null_value then err EFAULT
      else if 0 \<le> file \<and> file \<le> 2 then ok (zero_stat\<lparr>st_mode := S_IFCHR OR 0x1B6\<rparr>)
      else guarded env (fstat_unlocked fx file))"

text \<open>
  The loop of \<open>_stat\<close> over the open descriptors of the same file: the first writer decides
  the size, readers can only enlarge it.
\<close>

fun open_size :: "'w filex \<Rightarrow> 'w \<Rightarrow> string \<Rightarrow> nat \<Rightarrow> FileDescriptor list \<Rightarrow> u64 \<Rightarrow> u64" where
  "open_size fx w normalized i [] bytes = bytes"
| "open_size fx w normalized i (d # ds) bytes =
     (if fd_allocated d \<and> fd_open_mode d \<noteq> None \<and> paths_equal (fd_path d) normalized then
        (if fd_open_mode d = Some FX_OPEN_FOR_WRITE then fx_file_current_file_size fx i w
         else open_size fx w normalized (Suc i) ds (max bytes (fx_file_current_file_size fx i w)))
      else open_size fx w normalized (Suc i) ds bytes)"

definition stat_unlocked :: "'w filex \<Rightarrow> string option \<Rightarrow> ('w fs, stat) act" where
  "stat_unlocked fx path =
     seq (information_unlocked fx path) (\<lambda>info.
     seq (normalize_path_unlocked path) (\<lambda>normalized.
     asks (\<lambda>s. fill_stat normalized
       (info\<lparr>ei_size := open_size fx (world s) normalized 0 (descriptors s) (ei_size info)\<rparr>))))"

definition stat_sys :: "'w filex \<Rightarrow> call_env \<Rightarrow> string option \<Rightarrow> bool \<Rightarrow> ('w fs, stat) act" where
  "stat_sys fx env path null_value =
     (if null_value then err EFAULT else guarded env (stat_unlocked fx path))"

section \<open>unlink, mkdir, rmdir, remove\<close>

definition unlink_unlocked :: "'w filex \<Rightarrow> string option \<Rightarrow> ('w fs, unit) act" where
  "unlink_unlocked fx path =
     seq (resolve_path_unlocked path) (\<lambda>(normalized, resolved).
     seq (information_unlocked fx (Some normalized)) (\<lambda>info.
     seq (if is_directory info then err EISDIR
          else if rp_virtual_root resolved \<or> rp_mount_root resolved then err EBUSY
          else fxdo (fx_file_delete fx (rp_media resolved) (rp_local resolved))) (\<lambda>_.
       flush_media_unlocked fx (rp_media resolved))))"

definition unlink_sys :: "'w filex \<Rightarrow> call_env \<Rightarrow> string option \<Rightarrow> ('w fs, unit) act" where
  "unlink_sys fx env path = guarded env (unlink_unlocked fx path)"

definition mkdir_unlocked :: "'w filex \<Rightarrow> string option \<Rightarrow> ('w fs, unit) act" where
  "mkdir_unlocked fx path =
     seq (resolve_path_unlocked path) (\<lambda>(normalized, resolved).
     seq (if rp_virtual_root resolved \<or> rp_mount_root resolved then err EEXIST
          else fxdo (fx_directory_create fx (rp_media resolved) (rp_local resolved))) (\<lambda>_.
       flush_media_unlocked fx (rp_media resolved)))"

definition mkdir_sys :: "'w filex \<Rightarrow> call_env \<Rightarrow> string option \<Rightarrow> ('w fs, unit) act" where
  "mkdir_sys fx env path = guarded env (mkdir_unlocked fx path)"

definition rmdir_unlocked :: "'w filex \<Rightarrow> string option \<Rightarrow> ('w fs, unit) act" where
  "rmdir_unlocked fx path =
     seq (resolve_path_unlocked path) (\<lambda>(normalized, resolved).
     seq (information_unlocked fx (Some normalized)) (\<lambda>info. with_state (\<lambda>s.
     seq (if \<not> is_directory info then err ENOTDIR
          else if rp_virtual_root resolved \<or> rp_mount_root resolved then err EBUSY
          else if path_has_prefix (current_directory s) normalized True then err EBUSY
          else fxdo (fx_directory_delete fx (rp_media resolved) (rp_local resolved))) (\<lambda>_.
       flush_media_unlocked fx (rp_media resolved)))))"

definition rmdir_sys :: "'w filex \<Rightarrow> call_env \<Rightarrow> string option \<Rightarrow> ('w fs, unit) act" where
  "rmdir_sys fx env path = guarded env (rmdir_unlocked fx path)"

text \<open>\<^verbatim>\<open>remove\<close> makes two separate calls, each with its own environment.\<close>

definition remove_sys :: "'w filex \<Rightarrow> call_env \<Rightarrow> call_env \<Rightarrow> string option \<Rightarrow> ('w fs, unit) act" where
  "remove_sys fx env1 env2 path =
     on_error (unlink_sys fx env1 path) (\<lambda>e. if e = EISDIR then rmdir_sys fx env2 path else err e)"

section \<open>rename\<close>

text \<open>The checks of \<open>_rename\<close> that stored paths still fit their buffers after the migration.\<close>

definition rename_shape_error :: "'w fs \<Rightarrow> bool \<Rightarrow> string \<Rightarrow> string \<Rightarrow> errno option" where
  "rename_shape_error s source_is_directory old_name new_name =
     (if source_is_directory \<and> \<not> paths_equal old_name new_name \<and> path_has_prefix new_name old_name True
      then Some EINVAL
      else if \<exists>d \<in> set (descriptors s). fd_allocated d \<and>
             migrated_path_length (fd_path d) old_name new_name source_is_directory \<ge> MAXIMUM_PATH
      then Some ENAMETOOLONG
      else if source_is_directory \<and>
             migrated_path_length (current_directory s) old_name new_name True \<ge> MAXIMUM_PATH
      then Some ENAMETOOLONG
      else if source_is_directory \<and>
             (\<exists>d \<in> set (directories s). ds_allocated d \<and>
                migrated_path_length (ds_path d) old_name new_name True \<ge> MAXIMUM_PATH)
      then Some ENAMETOOLONG
      else None)"

text \<open>Whether the destination exists, and whether it is a directory that may be replaced.\<close>

definition rename_destination ::
    "'w filex \<Rightarrow> bool \<Rightarrow> string \<Rightarrow> string \<Rightarrow> ('w fs, bool \<times> bool) act" where
  "rename_destination fx source_is_directory old_name new_name =
     (let destination_is_source = paths_equal old_name new_name in
      if old_name = new_name then ok (False, False)
      else
        seq (attempt (information_unlocked fx (Some new_name))) (\<lambda>looked_up. with_state (\<lambda>s.
          case looked_up of
            Inl e \<Rightarrow> if e = ENOENT then ok (False, False) else err e
          | Inr info \<Rightarrow>
              (let destination_is_directory = is_directory info in
               if source_is_directory \<noteq> destination_is_directory
               then err (if source_is_directory then ENOTDIR else EISDIR)
               else if \<not> destination_is_source \<and> source_is_directory \<and>
                       path_has_prefix (current_directory s) new_name True
               then err EBUSY
               else if \<not> destination_is_source \<and>
                       (\<exists>d \<in> set (descriptors s). fd_allocated d \<and>
                          path_has_prefix (fd_path d) new_name destination_is_directory)
               then err EBUSY
               else ok (True, destination_is_directory)))))"

definition rename_source_open :: "'w fs \<Rightarrow> bool \<Rightarrow> string \<Rightarrow> bool" where
  "rename_source_open s include_descendants old_name \<longleftrightarrow>
     (\<exists>d \<in> set (descriptors s). fd_allocated d \<and> fd_open_mode d \<noteq> None \<and>
        path_has_prefix (fd_path d) old_name include_descendants)"

text \<open>Every stored path follows the entry: descriptors always, the rest for a directory.\<close>

definition migrate_paths :: "bool \<Rightarrow> string \<Rightarrow> string \<Rightarrow> 'w fs \<Rightarrow> 'w fs" where
  "migrate_paths source_is_directory old_name new_name s =
     s\<lparr>descriptors := map (\<lambda>d. if fd_allocated d
           then d\<lparr>fd_path := migrate_path (fd_path d) old_name new_name source_is_directory\<rparr> else d)
         (descriptors s),
       current_directory := (if source_is_directory
           then migrate_path (current_directory s) old_name new_name True else current_directory s),
       directories := (if source_is_directory
           then map (\<lambda>d. if ds_allocated d
                  then d\<lparr>ds_path := migrate_path (ds_path d) old_name new_name True\<rparr> else d) (directories s)
           else directories s)\<rparr>"

text \<open>
  Moving the entry once a destination in the way has been backed up: a failure puts the
  backup back, success deletes it, and the stored paths follow even when that deletion fails.
\<close>

definition rename_move ::
    "'w filex \<Rightarrow> bool \<Rightarrow> bool \<Rightarrow> string \<Rightarrow> string \<Rightarrow> media_ptr \<Rightarrow> string option \<Rightarrow> ('w fs, unit) act" where
  "rename_move fx source_is_directory destination_is_directory old_name new_name media backup =
     seq (attempt (rename_entry_unlocked fx source_is_directory old_name new_name)) (\<lambda>moved.
       case moved of
         Inl error \<Rightarrow>
           (case backup of
              None \<Rightarrow> err error
            | Some destination_backup \<Rightarrow>
                seq (rename_entry_unlocked fx destination_is_directory destination_backup new_name) (\<lambda>_.
                  err error))
       | Inr _ \<Rightarrow>
           seq (attempt (case backup of
                           None \<Rightarrow> ok ()
                         | Some destination_backup \<Rightarrow>
                             delete_entry_unlocked fx destination_is_directory destination_backup)) (\<lambda>deleted.
           seq (modify (migrate_paths source_is_directory old_name new_name)) (\<lambda>_.
           seq (from_sum deleted) (\<lambda>_.
             flush_media_unlocked fx media))))"

definition rename_resolved ::
    "'w filex \<Rightarrow> bool \<Rightarrow> string \<Rightarrow> string \<Rightarrow> ResolvedPath \<Rightarrow> ('w fs, unit) act" where
  "rename_resolved fx source_is_directory old_name new_name old_resolved = with_state (\<lambda>s.
     let spelling_changed = (old_name \<noteq> new_name);
         destination_is_source = paths_equal old_name new_name in
     seq (check (rename_shape_error s source_is_directory old_name new_name)) (\<lambda>_.
     seq (rename_destination fx source_is_directory old_name new_name)
       (\<lambda>(destination_exists, destination_is_directory).
     seq (if destination_exists \<and> \<not> destination_is_source \<and> destination_is_directory
          then require_empty_directory_unlocked fx new_name else ok ()) (\<lambda>_. with_state (\<lambda>s.
     seq (if spelling_changed \<and> rename_source_open s source_is_directory old_name
          then fxdo (fx_media_flush fx (rp_media old_resolved)) else ok ()) (\<lambda>_.
     seq (if destination_exists \<and> \<not> destination_is_source
          then seq (find_rename_backup_unlocked fx (rp_volume old_resolved)) (\<lambda>destination_backup.
               seq (rename_entry_unlocked fx destination_is_directory new_name destination_backup) (\<lambda>_.
                 ok (Some destination_backup)))
          else ok None) (\<lambda>backup.
       if spelling_changed
       then rename_move fx source_is_directory destination_is_directory old_name new_name
              (rp_media old_resolved) backup
       else ok ())))))))"

definition rename_unlocked :: "'w filex \<Rightarrow> string option \<Rightarrow> string option \<Rightarrow> ('w fs, unit) act" where
  "rename_unlocked fx old_path new_path =
     seq (resolve_path_unlocked old_path) (\<lambda>(old_name, old_resolved).
     seq (resolve_path_unlocked new_path) (\<lambda>(new_name, new_resolved).
     seq (information_unlocked fx (Some old_name)) (\<lambda>info.
       if rp_virtual_root old_resolved \<or> rp_mount_root old_resolved \<or>
          rp_virtual_root new_resolved \<or> rp_mount_root new_resolved then err EBUSY
       else if rp_media old_resolved \<noteq> rp_media new_resolved then err EXDEV
       else rename_resolved fx (is_directory info) old_name new_name old_resolved)))"

definition rename_sys :: "'w filex \<Rightarrow> call_env \<Rightarrow> string option \<Rightarrow> string option \<Rightarrow> ('w fs, unit) act" where
  "rename_sys fx env old_path new_path = guarded env (rename_unlocked fx old_path new_path)"

section \<open>utime\<close>

definition day_seconds :: "int \<Rightarrow> int \<Rightarrow> int \<Rightarrow> int" where
  "day_seconds y m d = days_from_civil y m d * 86400"

text \<open>The FAT date and time words that \<open>_utime\<close> stores into an open handle's entry.\<close>

definition fat_date :: "u32 \<Rightarrow> u32 \<Rightarrow> u32 \<Rightarrow> u32" where
  "fat_date year month day = push_bit 9 (year - 1980) OR push_bit 5 month OR day"

definition fat_time :: "u32 \<Rightarrow> u32 \<Rightarrow> u32 \<Rightarrow> u32" where
  "fat_time hour minute second = push_bit 11 hour OR push_bit 5 minute OR second div 2"

definition stamp_open_handles ::
    "'w filex \<Rightarrow> string \<Rightarrow> u32 \<Rightarrow> u32 \<Rightarrow> 'w fs \<Rightarrow> 'w fs" where
  "stamp_open_handles fx normalized date time s =
     s\<lparr>world := fold (\<lambda>i w.
         if fd_allocated (fd s i) \<and> fd_open_mode (fd s i) \<noteq> None \<and> paths_equal (fd_path (fd s i)) normalized
         then fx_file_dir_entry_stamp fx i date time w else w) [0..<length (descriptors s)] (world s)\<rparr>"

text \<open>The calendar fields of a timestamp in seconds, as the six arguments of the FileX call.\<close>

definition calendar_fields :: "int \<Rightarrow> u32 \<times> u32 \<times> u32 \<times> u32 \<times> u32 \<times> u32" where
  "calendar_fields timestamp =
     (case civil_from_days (timestamp div 86400) of
        (y, m, d) \<Rightarrow>
          (word_of_int y, word_of_int m, word_of_int d,
           word_of_int (timestamp mod 86400 div 3600),
           word_of_int (timestamp mod 3600 div 60),
           word_of_int (timestamp mod 60)))"

definition utime_unlocked ::
    "'w filex \<Rightarrow> int \<Rightarrow> string option \<Rightarrow> int option \<Rightarrow> ('w fs, unit) act" where
  "utime_unlocked fx now path requested =
     seq (resolve_path_unlocked path) (\<lambda>(normalized, resolved).
     seq (if rp_virtual_root resolved \<or> rp_mount_root resolved then err EROFS else ok ()) (\<lambda>_.
     seq (information_unlocked fx (Some normalized)) (\<lambda>_.
       let timestamp = (case requested of None \<Rightarrow> now | Some modtime \<Rightarrow> modtime) in
       if timestamp < day_seconds 1980 1 1 \<or> timestamp \<ge> day_seconds 2108 1 1 then err EOVERFLOW
       else
         (case calendar_fields timestamp of
            (year, month, day, hour, minute, second) \<Rightarrow>
              seq (flush_media_unlocked fx (rp_media resolved)) (\<lambda>_.
              seq (fxdo (fx_file_date_time_set fx (rp_media resolved) (rp_local resolved)
                           year month day hour minute second)) (\<lambda>_.
              seq (modify (stamp_open_handles fx normalized
                             (fat_date year month day) (fat_time hour minute second))) (\<lambda>_.
                flush_media_unlocked fx (rp_media resolved))))))))"

definition utime_sys ::
    "'w filex \<Rightarrow> call_env \<Rightarrow> int \<Rightarrow> string option \<Rightarrow> int option \<Rightarrow> ('w fs, unit) act" where
  "utime_sys fx env now path requested = guarded env (utime_unlocked fx now path requested)"

end
