(* ===== verification/Directories.thy ===== *)
theory Directories
  imports Entries
begin

text \<open>
  Directory streams, \<^verbatim>\<open>statvfs\<close> and the start-up of \<^verbatim>\<open>platform/runtime/libc/filesystem.cpp\<close>. A
  stream pointer is its index in the table of eight streams; a null pointer is \<open>None\<close>.
\<close>

section \<open>Opening a directory\<close>

text \<open>
  The loop of \<open>opendir\<close>: every entry but the two dot entries is copied into the stream.
  \<open>alloc n\<close> says whether the vector can take another element when it holds \<open>n\<close>; otherwise
  \<^verbatim>\<open>push_back\<close> throws, which is the result \<open>Inl ENOMEM\<close>.
\<close>

definition type_of_attributes :: "u32 \<Rightarrow> entry_type" where
  "type_of_attributes attributes = (if attributes AND FX_DIRECTORY \<noteq> 0 then DT_DIR else DT_REG)"

partial_function (option) collect_entries ::
    "'w filex \<Rightarrow> (nat \<Rightarrow> bool) \<Rightarrow> media_ptr \<Rightarrow> (string \<times> entry_type) list \<Rightarrow>
     (fx_status \<times> string \<times> u32) \<times> 'w \<Rightarrow>
     ((errno + (fx_status \<times> (string \<times> entry_type) list)) \<times> 'w) option" where
  "collect_entries fx alloc media entries found =
     (case found of ((status, name, attributes), w) \<Rightarrow>
        if status = FX_SUCCESS then
          (if name \<noteq> ''.'' \<and> name \<noteq> ''..'' then
             (if alloc (length entries)
              then collect_entries fx alloc media (entries @ [(name, type_of_attributes attributes)])
                     (fx_directory_next_full_entry_find fx media w)
              else Some (Inl ENOMEM, w))
           else collect_entries fx alloc media entries (fx_directory_next_full_entry_find fx media w))
        else Some (Inr (status, entries), w))"

definition ds_modify :: "nat \<Rightarrow> (directory_stream \<Rightarrow> directory_stream) \<Rightarrow> 'w fs \<Rightarrow> 'w fs" where
  "ds_modify i f s = s\<lparr>directories := (directories s)[i := f (directories s ! i)]\<rparr>"

definition volume_entry :: "Volume \<Rightarrow> string \<times> entry_type" where
  "volume_entry volume = (if volume = Flash then ''flash'' else ''sd'', DT_DIR)"

definition root_entries :: "'w fs \<Rightarrow> (string \<times> entry_type) list" where
  "root_entries s = map volume_entry (filter (mounted s) [Flash, Sd])"

definition fill_stream ::
    "'w filex \<Rightarrow> (nat \<Rightarrow> bool) \<Rightarrow> nat \<Rightarrow> ResolvedPath \<Rightarrow> ('w fs, unit) act" where
  "fill_stream fx alloc slot resolved =
     (if rp_virtual_root resolved then
        with_state (\<lambda>s.
          if list_all alloc [0..<length (root_entries s)]
          then modify (ds_modify slot (ds_entries_update (\<lambda>_. root_entries s)))
          else err ENOMEM)
      else
        seq (fxcall (fx_directory_default_set fx (rp_media resolved) (rp_local resolved))) (\<lambda>set_status.
          if set_status \<noteq> FX_SUCCESS then err EIO
          else
            seq (fxrun (\<lambda>w. collect_entries fx alloc (rp_media resolved) []
                   (fx_directory_first_full_entry_find fx (rp_media resolved) w))) (\<lambda>r.
            seq (fxcall (fx_directory_default_set fx (rp_media resolved) ''/'')) (\<lambda>_.
              case r of
                Inl e \<Rightarrow> err e
              | Inr (status, entries) \<Rightarrow>
                  if status \<noteq> FX_NO_MORE_ENTRIES then err (filex_errno_value status)
                  else modify (ds_modify slot (ds_entries_update (\<lambda>_. entries)))))))"

definition opendir_unlocked ::
    "'w filex \<Rightarrow> (nat \<Rightarrow> bool) \<Rightarrow> string option \<Rightarrow> ('w fs, nat) act" where
  "opendir_unlocked fx alloc path =
     seq (resolve_path_unlocked path) (\<lambda>(normalized, resolved).
     seq (information_unlocked fx (Some normalized)) (\<lambda>info.
       if \<not> is_directory info then err ENOTDIR
       else with_state (\<lambda>s.
         case find_index (\<lambda>d. \<not> ds_allocated d) (directories s) of
           None \<Rightarrow> err EMFILE
         | Some slot \<Rightarrow>
             seq (modify (ds_modify slot (\<lambda>_. empty_stream\<lparr>ds_allocated := True, ds_path := normalized\<rparr>))) (\<lambda>_.
             on_error (seq (fill_stream fx alloc slot resolved) (\<lambda>_. ok slot))
               (\<lambda>e. seq (modify (ds_modify slot (\<lambda>_. empty_stream))) (\<lambda>_. err e))))))"

definition opendir :: "'w filex \<Rightarrow> (nat \<Rightarrow> bool) \<Rightarrow> call_env \<Rightarrow> string option \<Rightarrow> ('w fs, nat) act" where
  "opendir fx alloc env path = guarded env (opendir_unlocked fx alloc path)"

section \<open>Working on a stream\<close>

text \<open>
  The common prologue: usable, a null check, the guard, and the allocation check. \<open>early\<close> is
  an argument check made between the null check and the guard.
\<close>

definition on_stream ::
    "call_env \<Rightarrow> nat option \<Rightarrow> errno option \<Rightarrow> (nat \<Rightarrow> ('w fs, 'a) act) \<Rightarrow> ('w fs, 'a) act" where
  "on_stream env directory early body =
     seq (usable env) (\<lambda>_.
       case directory of
         None \<Rightarrow> err EBADF
       | Some i \<Rightarrow>
           seq (check early) (\<lambda>_.
             registry_guard env (with_state (\<lambda>s.
               if \<not> ds_allocated (directories s ! i) then err EBADF else body i))))"

text \<open>\<open>readdir\<close>: the end of the directory is \<open>Inr None\<close>, a null result without an errno.\<close>

definition readdir_unlocked :: "nat \<Rightarrow> ('w fs, dirent option) act" where
  "readdir_unlocked i = with_state (\<lambda>s.
     let directory = directories s ! i in
       if ds_position directory < 0 then err EBADF
       else if ds_position directory \<ge> int (length (ds_entries directory)) then ok None
       else
         let snapshot = ds_entries directory ! nat (ds_position directory);
             entry = \<lparr>d_ino = word_of_int (ds_position directory + 1), d_type = snd snapshot,
                      d_name = fst snapshot\<rparr>
         in seq (modify (ds_modify i (\<lambda>d. d\<lparr>ds_entry := Some entry, ds_position := ds_position d + 1\<rparr>)))
              (\<lambda>_. ok (Some entry)))"

definition readdir :: "call_env \<Rightarrow> nat option \<Rightarrow> ('w fs, dirent option) act" where
  "readdir env directory = on_stream env directory None readdir_unlocked"

definition closedir :: "call_env \<Rightarrow> nat option \<Rightarrow> ('w fs, unit) act" where
  "closedir env directory =
     on_stream env directory None (\<lambda>i. modify (ds_modify i (\<lambda>_. empty_stream)))"

definition rewinddir :: "call_env \<Rightarrow> nat option \<Rightarrow> ('w fs, unit) act" where
  "rewinddir env directory =
     on_stream env directory None (\<lambda>i. modify (ds_modify i (ds_position_update (\<lambda>_. 0))))"

definition telldir :: "call_env \<Rightarrow> nat option \<Rightarrow> ('w fs, int) act" where
  "telldir env directory =
     on_stream env directory None (\<lambda>i. asks (\<lambda>s. ds_position (directories s ! i)))"

definition seekdir :: "call_env \<Rightarrow> nat option \<Rightarrow> int \<Rightarrow> ('w fs, unit) act" where
  "seekdir env directory position =
     on_stream env directory (if position < 0 then Some EINVAL else None)
       (\<lambda>i. modify (ds_modify i (ds_position_update (\<lambda>_. position))))"

section \<open>statvfs\<close>

record statvfs =
  f_bsize :: u64
  f_frsize :: u64
  f_blocks :: u32
  f_bfree :: u64
  f_bavail :: u64
  f_namemax :: nat

definition statvfs_sys ::
    "'w filex \<Rightarrow> call_env \<Rightarrow> call_env \<Rightarrow> call_env \<Rightarrow> string option \<Rightarrow> bool \<Rightarrow> ('w fs, statvfs) act" where
  "statvfs_sys fx env1 env2 env3 path null_value =
     (if null_value then err EFAULT
      else
        seq (information fx env1 path) (\<lambda>_.
        seq (availableSpace fx env2 path) (\<lambda>available.
        seq (normalizePath fx env3 path) (\<lambda>normalized.
        seq (on_error (resolve_normalized normalized) (\<lambda>_. err EINVAL)) (\<lambda>resolved.
          if rp_virtual_root resolved then err EINVAL
          else asks (\<lambda>s. \<lparr>f_bsize = SECTOR_SIZE, f_frsize = SECTOR_SIZE,
                   f_blocks = fx_media_total_sectors fx (rp_media resolved) (world s),
                   f_bfree = available div SECTOR_SIZE, f_bavail = available div SECTOR_SIZE,
                   f_namemax = MAXIMUM_PATH - 1\<rparr>))))))"

section \<open>Start-up\<close>

definition clamp :: "int \<Rightarrow> int \<Rightarrow> int \<Rightarrow> int" where
  "clamp x lo hi = (if x < lo then lo else if hi < x then hi else x)"

text \<open>
  \<open>initialize_filex_clock\<close>; \<open>now\<close> is the reading of the real-time clock in seconds, \<open>None\<close>
  when there is no clock or it cannot be read. The status of both FileX calls is discarded.
\<close>

definition initialize_filex_clock :: "'w filex \<Rightarrow> int option \<Rightarrow> 'w \<Rightarrow> 'w" where
  "initialize_filex_clock fx now w =
     (case now of
        None \<Rightarrow> w
      | Some seconds_since_epoch \<Rightarrow>
          if seconds_since_epoch < 0 then w
          else
            (case civil_from_days (seconds_since_epoch div 86400) of
               (y, m, d) \<Rightarrow>
                 let w1 = snd (fx_system_date_set fx (word_of_int (clamp y 1980 2107))
                                 (word_of_int m) (word_of_int d) w)
                 in snd (fx_system_time_set fx
                      (word_of_int (seconds_since_epoch mod 86400 div 3600))
                      (word_of_int (seconds_since_epoch mod 3600 div 60))
                      (word_of_int (seconds_since_epoch mod 60) AND NOT 1) w1)))"

text \<open>
  What start-up meets: the clock, whether the mutex can be created, which volumes
  \<^verbatim>\<open>storage::initialize\<close> mounts and what it makes of the world, and whether the build demands
  storage.
\<close>

record 'w boot_env =
  boot_clock :: "int option"
  boot_mutex_status :: tx_status
  boot_storage :: "'w \<Rightarrow> (bool \<times> bool) \<times> 'w"
  boot_storage_required :: bool

definition storage_warning :: string where
  "storage_warning = ''[storage] unavailable; file access disabled'' @ [CHR 0x0A]"

definition runtime_filex_initialize ::
    "'w filex \<Rightarrow> 'w console \<Rightarrow> 'w boot_env \<Rightarrow> 'w fs \<Rightarrow> 'w fs option" where
  "runtime_filex_initialize fx con boot s =
     (if filesystem_state s \<noteq> Not_attempted then Some s
      else
        let w1 = initialize_filex_clock fx (boot_clock boot) (fx_system_initialize fx (world s)) in
          if boot_mutex_status boot \<noteq> TX_SUCCESS then None
          else
            (case boot_storage boot w1 of
               ((flash_ok, sd_ok), w2) \<Rightarrow>
                 let s2 = s\<lparr>world := w2, flash_mounted := flash_ok, sd_mounted := sd_ok\<rparr> in
                   if \<not> (flash_ok \<or> sd_ok) then
                     let s3 = s2\<lparr>filesystem_state := Unavailable\<rparr> in
                       if boot_storage_required boot then None
                       else
                         map_option snd
                           (write_sys fx con
                              \<lparr>in_interrupt = False, mutex_get_status = TX_SUCCESS, mutex_put_status = TX_SUCCESS\<rparr>
                              2 (Some (map of_char storage_warning)) (int (length storage_warning)) s3)
                   else
                     Some (s2\<lparr>current_directory := (if mounted s2 Flash then ''/flash'' else ''/sd''),
                             filesystem_state := Ready\<rparr>)))"

text \<open>The state of the program's static objects before start-up.\<close>

definition initial_fs :: "'w \<Rightarrow> 'w fs" where
  "initial_fs w = \<lparr>world = w, descriptors = replicate MAXIMUM_OPEN_FILES empty_descriptor,
     directories = replicate MAXIMUM_OPEN_DIRECTORIES empty_stream, current_directory = ''/'',
     filesystem_state = Not_attempted, rename_backup_sequence = 0,
     flash_mounted = False, sd_mounted = False\<rparr>"

end
