(* ===== verification/Files_Invariant.thy ===== *)
theory Files_Invariant
  imports Directories
begin

text \<open>
  The invariant of the descriptor table, for an arbitrary FileX: no hypothesis is made on the
  library, so every fact here is about the adapter's own code. Each system call keeps it, and
  so does every sequence of calls (\<open>reachable\<close>).
\<close>

section \<open>Keeping a predicate\<close>

definition keeps :: "('s \<Rightarrow> bool) \<Rightarrow> ('s, 'a) act \<Rightarrow> bool" where
  "keeps P m \<longleftrightarrow> (\<forall>s. P s \<longrightarrow> wp m (\<lambda>_. P) (\<lambda>_. P) s)"

lemma keepsI: "(\<And>s. P s \<Longrightarrow> wp m (\<lambda>_. P) (\<lambda>_. P) s) \<Longrightarrow> keeps P m"
  by (simp add: keeps_def)

lemma keepsD: "keeps P m \<Longrightarrow> P s \<Longrightarrow> wp m (\<lambda>_. P) (\<lambda>_. P) s"
  by (simp add: keeps_def)

lemma keeps_basic [fs_inv_intros]:
  "keeps P (ok x)" "keeps P (err e)" "keeps P (from_sum r)" "keeps P (asks f)" "keeps P (check c)"
  by (auto simp: keeps_def split: sum.split option.split)

lemma keeps_seq [fs_inv_intros]: "keeps P m \<Longrightarrow> (\<And>x. keeps P (f x)) \<Longrightarrow> keeps P (seq m f)"
  by (auto simp: keeps_def elim!: wp_mono)

lemma keeps_attempt [fs_inv_intros]: "keeps P m \<Longrightarrow> keeps P (attempt m)"
  by (simp add: keeps_def)

lemma keeps_on_error [fs_inv_intros]: "keeps P m \<Longrightarrow> (\<And>e. keeps P (h e)) \<Longrightarrow> keeps P (on_error m h)"
  by (auto simp: keeps_def elim!: wp_mono)

lemma keeps_with_state [fs_inv_intros]: "(\<And>s. P s \<Longrightarrow> keeps P (k s)) \<Longrightarrow> keeps P (with_state k)"
  by (simp add: keeps_def)

lemma keeps_if [fs_inv_intros]: "(b \<Longrightarrow> keeps P m) \<Longrightarrow> (\<not> b \<Longrightarrow> keeps P n) \<Longrightarrow> keeps P (if b then m else n)"
  by simp

lemma keeps_usable [fs_inv_intros]: "keeps P (usable env)"
  unfolding usable_def by (intro fs_inv_intros)

lemma keeps_guarded [fs_inv_intros]:
  assumes "keeps P m"
  shows "keeps P (guarded env m)" "keeps P (registry_guard env m)"
proof -
  show "keeps P (registry_guard env m)"
    using assms
    by (auto simp: keeps_def registry_guard_def wp_def err_def
        split: tx_status.split option.split prod.split sum.split)
  then show "keeps P (guarded env m)"
    unfolding guarded_def by (intro keeps_seq keeps_usable)
qed

section \<open>Actions that only change the FileX world\<close>

text \<open>Everything but the world and the backup sequence number.\<close>

definition same_tables :: "'w fs \<Rightarrow> 'w fs \<Rightarrow> bool" where
  "same_tables s t \<longleftrightarrow> descriptors t = descriptors s \<and> directories t = directories s \<and>
     current_directory t = current_directory s \<and> filesystem_state t = filesystem_state s \<and>
     flash_mounted t = flash_mounted s \<and> sd_mounted t = sd_mounted s"

lemma same_tables_simps [simp]:
  "same_tables s s"
  "same_tables s (t\<lparr>world := w\<rparr>) = same_tables s t"
  "same_tables s (t\<lparr>rename_backup_sequence := n\<rparr>) = same_tables s t"
  by (simp_all add: same_tables_def)

lemma same_tables_trans: "same_tables s t \<Longrightarrow> same_tables t u \<Longrightarrow> same_tables s u"
  by (simp add: same_tables_def)

lemma same_tables_mounted: "same_tables s t \<Longrightarrow> mounted t = mounted s"
  by (auto simp: same_tables_def mounted_def fun_eq_iff)

definition world_only :: "('w fs, 'a) act \<Rightarrow> bool" where
  "world_only m \<longleftrightarrow> (\<forall>s. wp m (\<lambda>_. same_tables s) (\<lambda>_. same_tables s) s)"

lemma world_only_keeps: "world_only m \<longleftrightarrow> (\<forall>s0. keeps (same_tables s0) m)"
proof
  assume "world_only m"
  then show "\<forall>s0. keeps (same_tables s0) m"
    unfolding world_only_def keeps_def by (blast intro: wp_mono same_tables_trans)
qed (simp add: world_only_def keeps_def)

lemma wp_world_only:
  assumes "world_only m" and "\<And>x t. same_tables s t \<Longrightarrow> Q x t" and "\<And>e t. same_tables s t \<Longrightarrow> E e t"
  shows "wp m Q E s"
  using assms by (auto simp: world_only_def elim!: allE [of _ s] wp_mono)

lemma wp_fxrun [simp, wp_simps]:
  "wp (fxrun f) Q E s = (case f (world s) of None \<Rightarrow> True | Some (x, w) \<Rightarrow> Q x (s\<lparr>world := w\<rparr>))"
  by (simp add: wp_def fxrun_def split: prod.split option.split)

lemma wp_fxcall [simp, wp_simps]:
  "wp (fxcall f) Q E s = (case f (world s) of (x, w) \<Rightarrow> Q x (s\<lparr>world := w\<rparr>))"
  by (simp add: fxcall_def split: prod.split)

lemma wp_paths [simp, wp_simps]:
  "wp (normalize_path_unlocked path) Q E s =
     (case normalize_path (current_directory s) path of Inl e \<Rightarrow> E e s | Inr n \<Rightarrow> Q n s)"
  "wp (resolve_path_unlocked path) R E s =
     (case resolve_path (mounted s) (current_directory s) path of Inl e \<Rightarrow> E e s | Inr n \<Rightarrow> R n s)"
  "wp (resolve_normalized p) T E s =
     (case resolve_normalized_path (mounted s) p of Inl e \<Rightarrow> E e s | Inr n \<Rightarrow> T n s)"
  by (simp_all add: normalize_path_unlocked_def resolve_path_unlocked_def resolve_normalized_def)

lemma wp_descriptor_for [simp, wp_simps]:
  "wp (descriptor_for file) Q E s =
     (if FIRST_FILE_DESCRIPTOR \<le> file \<and> file - FIRST_FILE_DESCRIPTOR < int (length (descriptors s)) \<and>
         fd_allocated (fd s (nat (file - FIRST_FILE_DESCRIPTOR)))
      then Q (nat (file - FIRST_FILE_DESCRIPTOR)) s else E EBADF s)"
  by (auto simp: descriptor_for_def Let_def)

lemma world_only_intros [fs_frame]:
  "world_only (ok x)" "world_only (err e)" "world_only (from_sum r)" "world_only (asks f)" "world_only (check c)"
  "world_only (fxcall g)" "world_only (fxrun h)"
  by (auto simp: world_only_def split: sum.split prod.split option.split)

lemma world_only_combinators [fs_frame]:
  "world_only m \<Longrightarrow> (\<And>x. world_only (f x)) \<Longrightarrow> world_only (seq m f)"
  "(\<And>s. world_only (k s)) \<Longrightarrow> world_only (with_state k)"
  "world_only n \<Longrightarrow> world_only (attempt n)"
  "world_only n \<Longrightarrow> (\<And>e. world_only (h e)) \<Longrightarrow> world_only (on_error n h)"
  "(b \<Longrightarrow> world_only n) \<Longrightarrow> (\<not> b \<Longrightarrow> world_only n') \<Longrightarrow> world_only (if b then n else n')"
  "world_only n \<Longrightarrow> world_only (guarded env n)"
  "world_only n \<Longrightarrow> world_only (registry_guard env n)"
  by (simp_all add: world_only_keeps keeps_seq keeps_attempt keeps_on_error keeps_guarded keeps_with_state)

lemma world_only_cases [fs_frame]:
  "(\<And>e. world_only (f e)) \<Longrightarrow> (\<And>x. world_only (g x)) \<Longrightarrow>
   world_only (case r of Inl e \<Rightarrow> f e | Inr x \<Rightarrow> g x)"
  "world_only n \<Longrightarrow> (\<And>y. world_only (k y)) \<Longrightarrow> world_only (case z of None \<Rightarrow> n | Some y \<Rightarrow> k y)"
  "(\<And>a c. world_only (q a c)) \<Longrightarrow> world_only (case p of (a, c) \<Rightarrow> q a c)"
  by (auto split: sum.split option.split prod.split)

text \<open>The internal helpers of the adapter that leave its tables alone.\<close>

lemma world_only_basic_helpers [fs_frame]:
  "world_only (usable env)" "world_only (fxdo f)" "world_only (flush_media_unlocked fx media)"
  "world_only (normalize_path_unlocked path)" "world_only (resolve_path_unlocked path)"
  "world_only (resolve_normalized p)" "world_only (descriptor_for file)"
  unfolding usable_def fxdo_def flush_media_unlocked_def normalize_path_unlocked_def
    resolve_path_unlocked_def resolve_normalized_def descriptor_for_def Let_def
  by (intro fs_frame)+

lemma world_only_information [fs_frame]: "world_only (information_unlocked fx path)"
  unfolding information_unlocked_def by (intro fs_frame)

lemma world_only_entries [fs_frame]:
  "world_only (rename_entry_unlocked fx directory old_path new_path)"
  "world_only (delete_entry_unlocked fx directory path)"
  "world_only (require_empty_directory_unlocked fx path)"
  "world_only (extend_with_zeroes fx i new_size)"
  unfolding rename_entry_unlocked_def delete_entry_unlocked_def require_empty_directory_unlocked_def
    first_real_entry_def extend_with_zeroes_def
  by (intro fs_frame)+

lemma world_only_sequence [fs_frame]:
  "world_only (modify (\<lambda>s. s\<lparr>rename_backup_sequence := f s\<rparr>))"
  by (simp add: world_only_def)

lemma world_only_find_backup [fs_frame]: "world_only (find_rename_backup_unlocked fx volume)"
proof -
  have "world_only (find_rename_backup_from fx volume n)" for n
    by (induction n) (simp_all add: Let_def, intro fs_frame, (intro fs_frame | assumption)+)
  then show ?thesis by (simp add: find_rename_backup_unlocked_def)
qed

section \<open>The invariant\<close>

text \<open>A path on a mounted volume, below its root.\<close>

definition volume_path :: "(Volume \<Rightarrow> bool) \<Rightarrow> string \<Rightarrow> Volume \<Rightarrow> bool" where
  "volume_path m p v \<longleftrightarrow> good_path p \<and> m v \<and>
     (\<exists>c cs. components p = c # cs \<and> cs \<noteq> [] \<and> volume_of c = Some v)"

lemma resolve_volume_path:
  assumes "good_path p"
  shows "(\<exists>r. resolve_normalized_path m p = Inr r \<and> \<not> rp_virtual_root r \<and> \<not> rp_mount_root r \<and>
      rp_media r = Some v) \<longleftrightarrow> volume_path m p v"
  using assms resolve_normalized_path_components [of p m]
  by (cases "components p")
    (auto simp: volume_path_def good_path_def resolve_components_def empty_resolved_def
      split: option.splits if_splits)

lemma resolve_media:
  "good_path p \<Longrightarrow> resolve_normalized_path m p = Inr r \<Longrightarrow>
    (if rp_virtual_root r then rp_media r = None else rp_media r = Some (rp_volume r) \<and> m (rp_volume r))"
  using resolve_normalized_path_components [of p m]
  by (auto simp: good_path_def resolve_components_def empty_resolved_def
      split: option.splits if_splits list.splits)

definition mode_allowed :: "FileDescriptor \<Rightarrow> open_mode \<Rightarrow> bool" where
  "mode_allowed d mode = (case mode of FX_OPEN_FOR_READ \<Rightarrow> fd_readable d | FX_OPEN_FOR_WRITE \<Rightarrow> fd_writable d)"

definition fd_ok :: "(Volume \<Rightarrow> bool) \<Rightarrow> FileDescriptor \<Rightarrow> bool" where
  "fd_ok m d \<longleftrightarrow>
     (if fd_allocated d then
        (\<exists>v. fd_media d = Some v \<and> volume_path m (fd_path d) v) \<and>
        (fd_readable d \<or> fd_writable d) \<and> (fd_writable d \<longrightarrow> fd_flush_on_close d) \<and>
        (\<forall>mode. fd_open_mode d = Some mode \<longrightarrow> mode_allowed d mode)
      else d = empty_descriptor)"

definition ds_ok :: "directory_stream \<Rightarrow> bool" where
  "ds_ok d \<longleftrightarrow> (if ds_allocated d then good_path (ds_path d) \<and> 0 \<le> ds_position d else d = empty_stream)"

definition fs_inv :: "'w fs \<Rightarrow> bool" where
  "fs_inv s \<longleftrightarrow>
     length (descriptors s) = MAXIMUM_OPEN_FILES \<and> list_all (fd_ok (mounted s)) (descriptors s) \<and>
     length (directories s) = MAXIMUM_OPEN_DIRECTORIES \<and> list_all ds_ok (directories s) \<and>
     good_path (current_directory s)"

lemma fs_inv_same_tables: "same_tables s t \<Longrightarrow> fs_inv s \<Longrightarrow> fs_inv t"
  by (simp add: fs_inv_def same_tables_mounted) (simp add: same_tables_def)

lemma mounted_update [simp]:
  "mounted (s\<lparr>world := w\<rparr>) = mounted s" "mounted (s\<lparr>descriptors := d\<rparr>) = mounted s"
  "mounted (s\<lparr>directories := ds\<rparr>) = mounted s" "mounted (s\<lparr>current_directory := c\<rparr>) = mounted s"
  "mounted (fd_modify i f s) = mounted s" "mounted (ds_modify j g s) = mounted s"
  by (simp_all add: mounted_def fd_modify_def ds_modify_def fun_eq_iff)

lemma fs_inv_world [simp]: "fs_inv (s\<lparr>world := w\<rparr>) = fs_inv s"
  by (simp add: fs_inv_def)

lemma fd_modify_simps [simp]:
  "length (descriptors (fd_modify i f s)) = length (descriptors s)"
  "i < length (descriptors s) \<Longrightarrow> fd (fd_modify i f s) i = f (fd s i)"
  "j \<noteq> i \<Longrightarrow> fd (fd_modify i f s) j = fd s j"
  by (simp_all add: fd_modify_def)

lemma list_all_update: "list_all P xs \<Longrightarrow> P x \<Longrightarrow> list_all P (xs[i := x])"
  by (auto simp: list_all_iff dest: set_update_subset_insert [THEN subsetD])

lemma fs_inv_fd_modify: "fs_inv s \<Longrightarrow> fd_ok (mounted s) (f (fd s i)) \<Longrightarrow> fs_inv (fd_modify i f s)"
  by (simp add: fs_inv_def list_all_update) (simp add: fd_modify_def list_all_update)

lemma fs_inv_ds_modify: "fs_inv s \<Longrightarrow> ds_ok (f (directories s ! i)) \<Longrightarrow> fs_inv (ds_modify i f s)"
  by (simp add: fs_inv_def list_all_update) (simp add: ds_modify_def list_all_update)

lemma fd_ok_empty [simp]: "fd_ok m empty_descriptor"
  by (simp add: fd_ok_def empty_descriptor_def)

lemma ds_ok_empty [simp]: "ds_ok empty_stream"
  by (simp add: ds_ok_def empty_stream_def)

lemma fs_inv_fd_reset: "fs_inv s \<Longrightarrow> fs_inv (fd_reset fx i s)"
  by (simp add: fs_inv_def fd_reset_def list_all_update)

lemma fs_inv_fd: "fs_inv s \<Longrightarrow> i < length (descriptors s) \<Longrightarrow> fd_ok (mounted s) (fd s i)"
  by (simp add: fs_inv_def list_all_length)

lemma fs_inv_good_cwd: "fs_inv s \<Longrightarrow> good_path (current_directory s)"
  by (simp add: fs_inv_def)

lemma fs_inv_initial: "fs_inv (initial_fs w)"
  by (simp add: fs_inv_def initial_fs_def good_path_def list_all_iff MAXIMUM_PATH_def)

lemma keeps_world_only:
  "world_only m \<Longrightarrow> (\<And>s t. same_tables s t \<Longrightarrow> P s \<Longrightarrow> P t) \<Longrightarrow> keeps P m"
  by (auto intro!: keepsI wp_world_only)

lemma fs_inv_world_only: "world_only m \<Longrightarrow> keeps fs_inv m"
  by (auto intro: keeps_world_only fs_inv_same_tables)

lemma keeps_modify: "(\<And>s. P s \<Longrightarrow> P (f s)) \<Longrightarrow> keeps P (modify f)"
  by (simp add: keeps_def)

section \<open>A descriptor at work\<close>

text \<open>Descriptor \<open>i\<close> is allocated and permits \<open>mode\<close>.\<close>

definition working :: "nat \<Rightarrow> open_mode \<Rightarrow> 'w fs \<Rightarrow> bool" where
  "working i mode s \<longleftrightarrow> fs_inv s \<and> i < length (descriptors s) \<and> fd_allocated (fd s i) \<and>
     mode_allowed (fd s i) mode"

lemma working_same_tables: "same_tables s t \<Longrightarrow> working i mode s \<Longrightarrow> working i mode t"
  by (auto simp: working_def fs_inv_same_tables) (simp_all add: same_tables_def)

lemma working_world_only: "world_only m \<Longrightarrow> keeps (working i mode) m"
  by (auto intro: keeps_world_only working_same_tables)

lemma fd_ok_allocated:
  "fd_ok m d \<Longrightarrow> fd_allocated d \<Longrightarrow>
     fd_ok m (d\<lparr>fd_position := x\<rparr>) \<and> fd_ok m (d\<lparr>fd_open_mode := None\<rparr>) \<and>
     (mode_allowed d mode \<longrightarrow> fd_ok m (d\<lparr>fd_open_mode := Some mode\<rparr>))"
  by (auto simp: fd_ok_def mode_allowed_def split: open_mode.splits)

lemma working_modify:
  "working i mode s \<Longrightarrow> working i mode (fd_modify i (fd_position_update (\<lambda>_. x)) s)"
  "working i mode s \<Longrightarrow> working i mode (fd_modify i (fd_open_mode_update (\<lambda>_. None)) s)"
  "working i mode s \<Longrightarrow> working i mode (fd_modify i (fd_open_mode_update (\<lambda>_. Some mode)) s)"
  unfolding working_def
  by (auto intro!: fs_inv_fd_modify simp: fd_ok_allocated fs_inv_fd)
    (auto simp: mode_allowed_def split: open_mode.splits)

lemma working_keeps [fs_inv_intros]:
  "keeps (working i mode) (modify (fd_modify i (fd_position_update (\<lambda>_. x))))"
  "keeps (working i mode) (modify (fd_modify i (fd_open_mode_update (\<lambda>_. None))))"
  "keeps (working i mode) (modify (fd_modify i (fd_open_mode_update (\<lambda>_. Some mode))))"
  "keeps (working i mode) (modify (\<lambda>s. s\<lparr>world := f s\<rparr>))"
  using working_same_tables [of s "s\<lparr>world := f s\<rparr>" i mode for s]
  by (simp_all add: keeps_def working_modify)

lemma keeps_cases [fs_inv_intros]:
  "(\<And>e. r = Inl e \<Longrightarrow> keeps P (f e)) \<Longrightarrow> (\<And>x. r = Inr x \<Longrightarrow> keeps P (g x)) \<Longrightarrow>
   keeps P (case r of Inl e \<Rightarrow> f e | Inr x \<Rightarrow> g x)"
  "(z = None \<Longrightarrow> keeps P n) \<Longrightarrow> (\<And>y. z = Some y \<Longrightarrow> keeps P (k y)) \<Longrightarrow>
   keeps P (case z of None \<Rightarrow> n | Some y \<Rightarrow> k y)"
  "(\<And>a c. p = (a, c) \<Longrightarrow> keeps P (q a c)) \<Longrightarrow> keeps P (case p of (a, c) \<Rightarrow> q a c)"
  by (auto split: sum.split option.split prod.split)

lemma working_helpers [fs_inv_intros]:
  "keeps (working i mode) (fxcall f)" "keeps (working i mode) (fxdo g)" "keeps (working i mode) (fxrun h)"
  "keeps (working i mode) (flush_media_unlocked fx media)"
  "keeps (working i mode) (resolve_normalized p)"
  "keeps (working i mode) (extend_with_zeroes fx j new_size)"
  by (intro working_world_only fs_frame)+

lemma keeps_switch_mode [fs_inv_intros]: "keeps (working i mode) (switch_mode fx i mode)"
  unfolding switch_mode_def reopen_def by (intro fs_inv_intros)

lemma keeps_set_position [fs_inv_intros]: "keeps (working i mode) (set_position fx i)"
  unfolding set_position_def by (intro fs_inv_intros)

text \<open>From the invariant into a working descriptor and back.\<close>

lemma working_inv: "working i mode s \<Longrightarrow> fs_inv s"
  by (simp add: working_def)

lemma keeps_working:
  assumes "keeps (working i mode) m" and "working i mode s"
  shows "wp m (\<lambda>_. fs_inv) (\<lambda>_. fs_inv) s"
  using keepsD [OF assms] by (rule wp_mono) (auto intro: working_inv)

lemma descriptor_for_working:
  assumes "\<And>i s. fs_inv s \<Longrightarrow> i < length (descriptors s) \<Longrightarrow> fd_allocated (fd s i) \<Longrightarrow>
    wp (k i) (\<lambda>_. fs_inv) (\<lambda>_. fs_inv) s"
  shows "keeps fs_inv (seq (descriptor_for file) k)"
  using assms by (auto simp: keeps_def FIRST_FILE_DESCRIPTOR_def)

lemma descriptor_for_mode:
  assumes "\<And>i s. \<not> c i s \<Longrightarrow> mode_allowed (fd s i) mode"
    and "\<And>i s. keeps (working i mode) (k i s)"
  shows "keeps fs_inv (seq (descriptor_for file) (\<lambda>i. with_state (\<lambda>s. if c i s then err e else k i s)))"
proof (rule descriptor_for_working)
  fix i and s :: "'a fs"
  assume "fs_inv s" "i < length (descriptors s)" "fd_allocated (fd s i)"
  then have "wp (k i s) (\<lambda>_. fs_inv) (\<lambda>_. fs_inv) s" if "\<not> c i s"
    using assms(1) [OF that] by (intro keeps_working [OF assms(2)]) (simp add: working_def)
  with \<open>fs_inv s\<close> show "wp (with_state (\<lambda>s. if c i s then err e else k i s)) (\<lambda>_. fs_inv) (\<lambda>_. fs_inv) s"
    by simp
qed

lemma keeps_read: "keeps fs_inv (read_unlocked fx file count)"
  unfolding read_unlocked_def
  by (rule descriptor_for_mode [where mode = FX_OPEN_FOR_READ]) (simp add: mode_allowed_def, intro fs_inv_intros)

lemma keeps_write: "keeps fs_inv (write_unlocked fx file data)"
  unfolding write_unlocked_def
  by (rule descriptor_for_mode [where mode = FX_OPEN_FOR_WRITE]) (simp add: mode_allowed_def, intro fs_inv_intros)

lemma keeps_ftruncate: "keeps fs_inv (ftruncate_unlocked fx file new_length)"
  unfolding ftruncate_unlocked_def
  by (rule descriptor_for_mode [where mode = FX_OPEN_FOR_WRITE]) (simp add: mode_allowed_def, intro fs_inv_intros)

lemma keeps_lseek: "keeps fs_inv (lseek_unlocked fx file offset origin)"
proof -
  have body: "keeps (working i mode)
     (seq (if c then switch_mode fx i mode else ok ()) (\<lambda>_. with_state (\<lambda>s.
      seq (case origin of
            SEEK_SET \<Rightarrow> ok 0
          | SEEK_CUR \<Rightarrow> ok (fd_position (fd s i))
          | SEEK_END \<Rightarrow> ok (file_size fx i s)
          | SEEK_OTHER _ \<Rightarrow> err EINVAL) (\<lambda>base.
      seq (from_sum (seek_target base offset)) (\<lambda>target.
      seq (fxcall (fx_file_extended_seek fx i target)) (\<lambda>status.
       if status \<noteq> FX_SUCCESS then err (filex_errno_value status)
       else seq (modify (fd_modify i (fd_position_update (\<lambda>_. target)))) (\<lambda>_. ok target)))))))"
    for i mode c
    by (cases origin; simp only: seek_origin.case; intro fs_inv_intros)
  have mode: "\<exists>mode. mode_allowed (fd s i) mode \<and>
      (if fd_readable (fd s i) then FX_OPEN_FOR_READ else FX_OPEN_FOR_WRITE) = mode"
    if "fs_inv s" "i < length (descriptors s)" "fd_allocated (fd s i)" for s :: "'a fs" and i
    using fs_inv_fd [OF that(1,2)] that(3) by (auto simp: fd_ok_def mode_allowed_def)
  show ?thesis
    unfolding lseek_unlocked_def
    by (rule descriptor_for_working) (frule (2) mode, clarsimp simp only: wp_with_state,
        rule keeps_working [OF body], simp add: working_def)
qed

lemma keeps_close: "keeps fs_inv (close_unlocked fx file)"
  unfolding close_unlocked_def Let_def
  by (intro fs_inv_intros fs_inv_world_only fs_frame keeps_modify fs_inv_fd_reset)

lemma keeps_fsync: "keeps fs_inv (fsync_unlocked fx file)"
  unfolding fsync_unlocked_def by (intro fs_inv_world_only fs_frame)

section \<open>Opening a file\<close>

lemma wp_keeps_inv: "keeps P m \<Longrightarrow> P s \<Longrightarrow> (\<And>t. P t \<Longrightarrow> fs_inv t) \<Longrightarrow> wp m (\<lambda>_. fs_inv) (\<lambda>_. fs_inv) s"
  by (drule (1) keepsD, erule wp_mono) simp_all

text \<open>Descriptor \<open>d\<close> may be stored in slot \<open>i\<close>.\<close>

definition slot_for :: "nat \<Rightarrow> FileDescriptor \<Rightarrow> 'w fs \<Rightarrow> bool" where
  "slot_for i d s \<longleftrightarrow> fs_inv s \<and> i < length (descriptors s) \<and> fd_allocated d \<and> fd_ok (mounted s) d"

lemma slot_for_world_only: "world_only m \<Longrightarrow> keeps (slot_for i d) m"
  by (auto intro!: keeps_world_only simp: slot_for_def fs_inv_same_tables same_tables_mounted)
    (simp add: same_tables_def)

lemma fd_modify_reset:
  "i < length (descriptors s) \<Longrightarrow>
     fd_modify i (\<lambda>_. d) (fd_reset fx i s) = fd_modify i (\<lambda>_. d) (s\<lparr>world := fx_file_clear fx i (world s)\<rparr>)"
  by (simp add: fd_modify_def fd_reset_def)

lemma slot_for_working:
  "slot_for i d s \<Longrightarrow> mode_allowed d mode \<Longrightarrow> working i mode (fd_modify i (\<lambda>_. d) (fd_reset fx i s))"
  by (auto simp: slot_for_def working_def fd_modify_reset intro: fs_inv_fd_modify)

lemma wp_open_slot:
  assumes "slot_for i d s"
  shows "wp (open_slot fx i d flags) (\<lambda>_. fs_inv) (\<lambda>_. fs_inv) s"
proof -
  define mode where "mode = (if fd_writable d then FX_OPEN_FOR_WRITE else FX_OPEN_FOR_READ)"
  have allowed: "mode_allowed d mode"
    using assms by (auto simp: slot_for_def fd_ok_def mode_allowed_def mode_def split: if_splits)
  let ?main = "seq (switch_mode fx i mode) (\<lambda>_.
      if fd_writable d \<and> flag_set flags O_TRUNC then
        seq (attempt (fxdo (fx_file_extended_truncate_release fx i 0))) (\<lambda>r.
        seq (modify (fd_modify i (fd_position_update (\<lambda>_. 0)))) (\<lambda>_.
        seq (from_sum r) (\<lambda>_. ok i)))
      else ok i)"
  let ?recover = "\<lambda>error. with_state (\<lambda>s.
      seq (if fd_open_mode (fd s i) \<noteq> None
           then seq (fxcall (fx_file_close fx i)) (\<lambda>_. ok ()) else ok ()) (\<lambda>_.
      seq (modify (fd_reset fx i)) (\<lambda>_. err error)))"
  have main: "keeps (working i mode) ?main"
    by (intro fs_inv_intros)
  have recover: "wp (?recover e) (\<lambda>_. fs_inv) (\<lambda>_. fs_inv) t" if "working i mode t" for e t
  proof (rule wp_keeps_inv)
    show "keeps fs_inv (?recover e)"
      by (intro fs_inv_intros fs_inv_world_only fs_frame keeps_modify fs_inv_fd_reset)
  qed (use that in \<open>auto simp: working_inv\<close>)
  have "wp (on_error ?main ?recover) (\<lambda>_. fs_inv) (\<lambda>_. fs_inv)
      (fd_modify i (\<lambda>_. d) (fd_reset fx i s))"
    unfolding wp_on_error
    by (rule wp_mono [OF keepsD [OF main slot_for_working [OF assms allowed]]])
      (erule working_inv, erule recover)
  then show ?thesis
    unfolding open_slot_def mode_def by (simp only: wp_seq wp_modify)
qed

lemma resolve_path_Inr:
  assumes "resolve_path m cwd path = Inr (normalized, resolved)"
  shows "normalize_path cwd path = Inr normalized" "resolve_normalized_path m normalized = Inr resolved"
proof -
  obtain n where n: "normalize_path cwd path = Inr n"
    using assms by (auto simp: resolve_path_def split: sum.splits)
  then show "normalize_path cwd path = Inr normalized" "resolve_normalized_path m normalized = Inr resolved"
    using assms by (cases "resolve_normalized_path m n"; simp add: resolve_path_def)+
qed

lemma new_descriptor_ok:
  assumes "volume_path m normalized v" and "flags AND O_ACCMODE \<in> {O_RDONLY, O_WRONLY, O_RDWR}"
  shows "fd_ok m (new_descriptor flags exists normalized (Some v) info) \<and>
    fd_allocated (new_descriptor flags exists normalized (Some v) info)"
  using assms
  by (auto simp: fd_ok_def new_descriptor_def writable_flags_def O_RDONLY_def O_WRONLY_def O_RDWR_def)

text \<open>The path arguments of a call are C strings.\<close>

definition c_argument :: "string option \<Rightarrow> bool" where
  "c_argument path \<longleftrightarrow> (\<forall>p. path = Some p \<longrightarrow> cstring p)"

lemma keeps_open:
  assumes "c_argument path" and access: "flags AND O_ACCMODE \<in> {O_RDONLY, O_WRONLY, O_RDWR}"
  shows "keeps fs_inv (open_unlocked fx path flags)"
proof (rule keepsI)
  fix s :: "'a fs" assume inv: "fs_inv s"
  show "wp (open_unlocked fx path flags) (\<lambda>_. fs_inv) (\<lambda>_. fs_inv) s"
  proof (cases "resolve_path (mounted s) (current_directory s) path")
    case (Inl e)
    then show ?thesis by (simp add: open_unlocked_def inv)
  next
    case (Inr r)
    then obtain normalized resolved where r: "r = (normalized, resolved)" by (cases r)
    note parts = resolve_path_Inr [OF Inr [unfolded r]]
    have good: "good_path normalized"
      using normalize_path_good [OF fs_inv_good_cwd [OF inv] parts(1)] assms(1) by (simp add: c_argument_def)
    show ?thesis
    proof (cases "rp_virtual_root resolved \<or> rp_mount_root resolved")
      case True
      then show ?thesis by (simp add: open_unlocked_def inv Inr r)
    next
      case False
      then obtain v where v: "rp_media resolved = Some v" "volume_path (mounted s) normalized v"
        using resolve_media [OF good parts(2)] resolve_volume_path [OF good, of "mounted s"] parts(2) by auto
      show ?thesis
      proof (cases "find_index (\<lambda>d. \<not> fd_allocated d) (descriptors s)")
        case None
        then show ?thesis by (simp add: open_unlocked_def inv Inr r)
      next
        case (Some slot)
        let ?d = "\<lambda>exists info. new_descriptor flags exists normalized (Some v) info"
        have slot: "slot_for slot (?d exists info) s" for exists info
          using find_index_Some [OF Some] inv new_descriptor_ok [OF v(2) access] by (simp add: slot_for_def)
        have same: "slot_for slot (?d exists info) t" if "same_tables s t" for exists info t
          using slot [of exists info] that
          by (auto simp: slot_for_def fs_inv_same_tables same_tables_mounted) (simp add: same_tables_def)
        have inv_t: "fs_inv t" if "same_tables s t" for t
          using that inv by (rule fs_inv_same_tables)
        show ?thesis
          unfolding open_unlocked_def wp_seq wp_paths Inr r
          by (simp add: False Some del: wp_seq, simp only: wp_seq wp_attempt,
              rule wp_world_only [OF world_only_information])
            (auto simp: v(1) inv_t split: prod.split intro!: wp_open_slot same)
      qed
    qed
  qed
qed

section \<open>Renaming\<close>

lemma volume_path_migrate:
  assumes p: "volume_path m p v" and old: "volume_path m old w" and new: "volume_path m new w"
    and fits: "migrated_path_length p old new d < MAXIMUM_PATH"
  shows "volume_path m (migrate_path p old new d) v"
proof (cases "path_has_prefix p old d")
  case False
  then show ?thesis using p by (simp add: migrate_path_def)
next
  case True
  obtain c cs where pc: "components p = c # cs" "cs \<noteq> []" "volume_of c = Some v" "m v" and gp: "good_path p"
    using p by (auto simp: volume_path_def)
  obtain e es where oc: "components old = e # es" "es \<noteq> []" "volume_of e = Some w" and go: "good_path old"
    using old by (auto simp: volume_path_def)
  obtain f fs where nc: "components new = f # fs" "fs \<noteq> []" "volume_of f = Some w" and gn: "good_path new"
    using new by (auto simp: volume_path_def)
  have "folded c = folded e"
    using path_has_prefix_components [of p old d] gp go True pc oc by (auto simp: good_path_def split: if_splits)
  then have "volume_of c = volume_of e" by (simp only: volume_of_def)
  then have vw: "v = w" using pc(3) oc(3) by simp
  let ?q = "migrate_path p old new d"
  have comps: "?q = render (components new @ drop (length (components old)) (components p))"
    using migrate_path_components [of p old new d] gp go gn True oc(1) nc(1) by (simp add: good_path_def)
  have valid: "list_all valid_component (components new @ drop (length (components old)) (components p))"
    using canonical_components [of p] canonical_components [of new] gp gn
    by (auto simp: good_path_def list_all_iff dest: in_set_dropD)
  have "good_path ?q"
    using gp go gn oc nc fits canonical_migrate_path [of p old new d]
    by (simp add: good_path_def cstring_migrate_path length_migrate_path)
  then show ?thesis
    using components_render [OF valid] nc pc(4) by (simp add: volume_path_def comps vw)
qed

lemma good_path_migrate:
  assumes "good_path p" "volume_path m old w" "volume_path m new w"
    and "migrated_path_length p old new d < MAXIMUM_PATH"
  shows "good_path (migrate_path p old new d)"
  using assms canonical_migrate_path [of p old new d]
  by (auto simp: good_path_def volume_path_def cstring_migrate_path length_migrate_path)

lemma fs_inv_migrate_paths:
  assumes inv: "fs_inv s" and old: "volume_path (mounted s) old w" and new: "volume_path (mounted s) new w"
    and shape: "rename_shape_error s dir old new = None"
  shows "fs_inv (migrate_paths dir old new s)"
proof -
  have fds: "fd_ok (mounted s) (d\<lparr>fd_path := migrate_path (fd_path d) old new dir\<rparr>)"
    if "d \<in> set (descriptors s)" "fd_allocated d" for d
  proof -
    have "migrated_path_length (fd_path d) old new dir < MAXIMUM_PATH"
      using shape that by (auto simp: rename_shape_error_def split: if_splits)
    then show ?thesis
      using inv that volume_path_migrate [OF _ old new]
      by (auto simp: fs_inv_def list_all_iff fd_ok_def mode_allowed_def split: open_mode.splits)
  qed
  have cwd: "good_path (migrate_path (current_directory s) old new True)" if dir
  proof -
    have "migrated_path_length (current_directory s) old new True < MAXIMUM_PATH"
      using shape that by (auto simp: rename_shape_error_def split: if_splits)
    then show ?thesis using inv good_path_migrate [OF _ old new] by (simp add: fs_inv_def)
  qed
  have dss: "ds_ok (d\<lparr>ds_path := migrate_path (ds_path d) old new True\<rparr>)"
    if "d \<in> set (directories s)" "ds_allocated d" dir for d
  proof -
    have "migrated_path_length (ds_path d) old new True < MAXIMUM_PATH"
      using shape that by (auto simp: rename_shape_error_def split: if_splits)
    then show ?thesis
      using inv that good_path_migrate [OF _ old new] by (auto simp: fs_inv_def list_all_iff ds_ok_def)
  qed
  have "mounted (migrate_paths dir old new s) = mounted s"
    by (simp add: mounted_def fun_eq_iff migrate_paths_def)
  then show ?thesis
    using inv fds cwd dss by (auto simp: fs_inv_def migrate_paths_def list_all_iff)
qed

text \<open>A state from which renaming \<open>old\<close> to \<open>new\<close> is safe for every stored path.\<close>

definition rename_ready :: "bool \<Rightarrow> string \<Rightarrow> string \<Rightarrow> 'w fs \<Rightarrow> bool" where
  "rename_ready dir old new s \<longleftrightarrow> fs_inv s \<and> rename_shape_error s dir old new = None \<and>
     (\<exists>w. volume_path (mounted s) old w \<and> volume_path (mounted s) new w)"

lemma rename_ready_same: "same_tables s t \<Longrightarrow> rename_ready dir old new s \<Longrightarrow> rename_ready dir old new t"
proof -
  assume same: "same_tables s t" and ready: "rename_ready dir old new s"
  then have "rename_shape_error t dir old new = rename_shape_error s dir old new"
    by (simp add: rename_shape_error_def same_tables_def)
  with same ready show "rename_ready dir old new t"
    by (simp add: rename_ready_def fs_inv_same_tables same_tables_mounted)
qed

lemma rename_ready_inv: "rename_ready dir old new s \<Longrightarrow> fs_inv s"
  by (simp add: rename_ready_def)

lemma rename_ready_wp: "world_only m \<Longrightarrow> rename_ready dir old new s \<Longrightarrow>
    (\<And>x t. rename_ready dir old new t \<Longrightarrow> wp (k x) (\<lambda>_. fs_inv) (\<lambda>_. fs_inv) t) \<Longrightarrow>
    wp (seq m k) (\<lambda>_. fs_inv) (\<lambda>_. fs_inv) s"
  unfolding wp_seq
  by (erule wp_world_only) (blast intro: rename_ready_same rename_ready_inv)+

lemma wp_rename_move:
  assumes "rename_ready dir old new s"
  shows "wp (rename_move fx dir dest_dir old new media backup) (\<lambda>_. fs_inv) (\<lambda>_. fs_inv) s"
proof -
  have undo: "keeps fs_inv (case backup of None \<Rightarrow> err error | Some destination_backup \<Rightarrow>
      seq (rename_entry_unlocked fx dest_dir destination_backup new) (\<lambda>_. err error))" for error :: errno
    by (intro fs_inv_world_only fs_frame)
  have commit: "wp (seq (modify (migrate_paths dir old new)) (\<lambda>_. seq (from_sum deleted) (\<lambda>_.
      flush_media_unlocked fx media))) (\<lambda>_. fs_inv) (\<lambda>_. fs_inv) t"
    if "rename_ready dir old new t" for deleted and t :: "'a fs"
  proof -
    have "keeps fs_inv (seq (from_sum deleted) (\<lambda>_. flush_media_unlocked fx media))"
      by (intro fs_inv_world_only fs_frame)
    from keepsD [OF this] show ?thesis
      using that fs_inv_migrate_paths unfolding rename_ready_def wp_seq [of "modify _"] wp_modify by blast
  qed
  show ?thesis
    unfolding rename_move_def
    apply (rule rename_ready_wp [OF _ assms])
     apply (intro fs_frame)
    subgoal for x t
      apply (cases x)
      subgoal by (simp only: sum.case) (rule keepsD [OF undo], simp add: rename_ready_def)
      subgoal by (simp only: sum.case, rule rename_ready_wp, intro fs_frame, assumption) (rule commit)
      done
    done
qed

lemma wp_rename_resolved:
  assumes inv: "fs_inv s" and "volume_path (mounted s) old w" "volume_path (mounted s) new w"
  shows "wp (rename_resolved fx dir old new resolved) (\<lambda>_. fs_inv) (\<lambda>_. fs_inv) s"
proof (cases "rename_shape_error s dir old new")
  case (Some e)
  then show ?thesis by (simp add: rename_resolved_def inv)
next
  case None
  with assms have ready: "rename_ready dir old new s" by (auto simp: rename_ready_def)
  have dest: "world_only (rename_destination fx dir old new)"
    unfolding rename_destination_def Let_def by (intro fs_frame)
  have tail: "wp (with_state (\<lambda>s. seq (if c s then fxdo (fx_media_flush fx media) else ok ()) (\<lambda>_.
     seq (if ex then seq (find_rename_backup_unlocked fx vol) (\<lambda>destination_backup.
               seq (rename_entry_unlocked fx dd new destination_backup) (\<lambda>_.
                 ok (Some destination_backup)))
          else ok None) (\<lambda>backup.
       if changed then rename_move fx dir dd old new media backup else ok ())))) (\<lambda>_. fs_inv) (\<lambda>_. fs_inv) t"
    if "rename_ready dir old new t" for t :: "'a fs" and c media ex vol dd changed
    unfolding wp_with_state
    by (rule rename_ready_wp [OF _ that], intro fs_frame, rule rename_ready_wp, intro fs_frame, assumption)
      (simp add: wp_rename_move rename_ready_inv)
  show ?thesis
    unfolding rename_resolved_def Let_def wp_with_state None act_simps
    by (rule rename_ready_wp [OF dest ready], clarsimp simp only: prod.case split: prod.split,
        rule rename_ready_wp, intro fs_frame, assumption, rule tail)
qed

lemma keeps_rename:
  assumes "c_argument old_path" "c_argument new_path"
  shows "keeps fs_inv (rename_unlocked fx old_path new_path)"
proof (rule keepsI)
  fix s :: "'a fs" assume inv: "fs_inv s"
  have good: "good_path n \<and> resolve_normalized_path (mounted s) n = Inr r"
    if "resolve_path (mounted s) (current_directory s) path = Inr (n, r)" "c_argument path" for path n r
    using resolve_path_Inr [OF that(1)] normalize_path_good [OF fs_inv_good_cwd [OF inv]] that(2)
    by (auto simp: c_argument_def)
  have step: "wp (if rp_virtual_root r \<or> rp_mount_root r \<or> rp_virtual_root r' \<or> rp_mount_root r' then err EBUSY
      else if rp_media r \<noteq> rp_media r' then err EXDEV
      else rename_resolved fx dir n n' r) (\<lambda>_. fs_inv) (\<lambda>_. fs_inv) t"
    if a: "good_path n \<and> resolve_normalized_path (mounted s) n = Inr r"
      and b: "good_path n' \<and> resolve_normalized_path (mounted s) n' = Inr r'" and c: "same_tables s t"
    for n r n' r' dir and t :: "'a fs"
  proof -
    have "\<exists>v. rp_media r = Some v \<and> volume_path (mounted s) n v"
      if "\<not> rp_virtual_root r" "\<not> rp_mount_root r" "good_path n" "resolve_normalized_path (mounted s) n = Inr r" for n r
      using resolve_media [OF that(3,4)] resolve_volume_path [OF that(3), of "mounted s"] that by auto
    note below = this
    show ?thesis
    proof (cases "rp_virtual_root r \<or> rp_mount_root r \<or> rp_virtual_root r' \<or> rp_mount_root r'
        \<or> rp_media r \<noteq> rp_media r'")
      case True
      then show ?thesis using fs_inv_same_tables [OF c inv] by auto
    next
      case False
      then obtain v where "volume_path (mounted t) n v" "volume_path (mounted t) n' v"
        using below [of r n] below [of r' n'] a b same_tables_mounted [OF c] by auto
      then show ?thesis
        using False fs_inv_same_tables [OF c inv] by (simp add: wp_rename_resolved)
    qed
  qed
  show "wp (rename_unlocked fx old_path new_path) (\<lambda>_. fs_inv) (\<lambda>_. fs_inv) s"
    unfolding rename_unlocked_def wp_seq wp_paths
  proof (clarsimp simp: inv split: sum.split)
    fix n r n' r'
    assume res: "resolve_path (mounted s) (current_directory s) old_path = Inr (n, r)"
      "resolve_path (mounted s) (current_directory s) new_path = Inr (n', r')"
    show "wp (information_unlocked fx (Some n)) (\<lambda>info. wp
        (if rp_virtual_root r \<or> rp_mount_root r \<or> rp_virtual_root r' \<or> rp_mount_root r' then err EBUSY
         else if rp_media r \<noteq> rp_media r' then err EXDEV
         else rename_resolved fx (is_directory info) n n' r) (\<lambda>_. fs_inv) (\<lambda>_. fs_inv)) (\<lambda>_. fs_inv) s"
      using good [OF res(1) assms(1)] good [OF res(2) assms(2)]
      by (intro wp_world_only [OF world_only_information] step) (auto intro: fs_inv_same_tables [OF _ inv])
  qed
qed

section \<open>The remaining calls\<close>

lemma keeps_setCurrentPath:
  assumes "c_argument path"
  shows "keeps fs_inv (setCurrentPath fx env path)"
  unfolding setCurrentPath_def
proof (rule keeps_guarded, rule keepsI)
  fix s :: "'a fs" assume inv: "fs_inv s"
  have good: "good_path n" if "normalize_path (current_directory s) path = Inr n" for n
    using normalize_path_good [OF fs_inv_good_cwd [OF inv] that] assms by (simp add: c_argument_def)
  have "fs_inv (t\<lparr>current_directory := n\<rparr>)" if "same_tables s t" "good_path n" for t n
    using fs_inv_same_tables [OF that(1) inv] that(2) by (simp add: fs_inv_def)
  then show "wp (seq (normalize_path_unlocked path) (\<lambda>normalized.
        seq (information_unlocked fx (Some normalized)) (\<lambda>info.
          if \<not> is_directory info then err ENOTDIR
          else modify (\<lambda>s. s\<lparr>current_directory := normalized\<rparr>)))) (\<lambda>_. fs_inv) (\<lambda>_. fs_inv) s"
    using good
    by (auto simp: inv split: sum.split
        intro!: wp_world_only [OF world_only_information] intro: fs_inv_same_tables [OF _ inv])
qed

lemma world_only_calls [fs_frame]:
  "world_only (fstat_unlocked fx file)" "world_only (stat_unlocked fx path)"
  "world_only (unlink_unlocked fx path)" "world_only (mkdir_unlocked fx path)"
  "world_only (rmdir_unlocked fx path)"
  unfolding fstat_unlocked_def stat_unlocked_def unlink_unlocked_def mkdir_unlocked_def rmdir_unlocked_def
  by (intro fs_frame)+

lemma world_only_stamp [fs_frame]: "world_only (modify (stamp_open_handles fx normalized date time))"
  by (simp add: world_only_def stamp_open_handles_def)

lemma world_only_utime [fs_frame]: "world_only (utime_unlocked fx now path requested)"
  unfolding utime_unlocked_def Let_def by (intro fs_frame)

lemma world_only_queries [fs_frame]:
  "world_only (information fx env path)" "world_only (availableSpace fx env path)"
  "world_only (normalizePath fx env path)" "world_only (currentPath env)"
  unfolding information_def availableSpace_def normalizePath_def currentPath_def
  by (intro fs_frame)+

lemma world_only_statvfs [fs_frame]: "world_only (statvfs_sys fx env1 env2 env3 path null_value)"
  unfolding statvfs_sys_def by (intro fs_frame)

section \<open>Directory streams\<close>

text \<open>The stream being filled stays allocated with its path.\<close>

definition stream_at :: "nat \<Rightarrow> 'w fs \<Rightarrow> bool" where
  "stream_at i s \<longleftrightarrow> fs_inv s \<and> i < length (directories s) \<and> ds_allocated (directories s ! i)"

lemma stream_at_world_only: "world_only m \<Longrightarrow> keeps (stream_at i) m"
  by (auto intro!: keeps_world_only simp: stream_at_def fs_inv_same_tables) (simp_all add: same_tables_def)

lemma stream_at_modify:
  assumes "stream_at i s" and "\<And>d. ds_allocated d \<Longrightarrow> ds_ok d \<Longrightarrow> ds_ok (f d) \<and> ds_allocated (f d)"
  shows "stream_at i (ds_modify i f s)"
proof -
  have "ds_ok (directories s ! i)"
    using assms(1) by (auto simp: stream_at_def fs_inv_def list_all_length)
  then show ?thesis
    using assms by (auto simp: stream_at_def intro!: fs_inv_ds_modify) (simp_all add: ds_modify_def)
qed

lemma keeps_fill_stream: "keeps (stream_at i) (fill_stream fx alloc i resolved)"
proof -
  have store: "keeps (stream_at i) (modify (ds_modify i (ds_entries_update (\<lambda>_. es))))" for es
    by (intro keeps_modify stream_at_modify) (auto simp: ds_ok_def)
  show ?thesis
    unfolding fill_stream_def by (intro fs_inv_intros store stream_at_world_only fs_frame)
qed

lemma keeps_opendir:
  assumes "c_argument path"
  shows "keeps fs_inv (opendir_unlocked fx alloc path)"
proof (rule keepsI)
  fix s :: "'a fs" assume inv: "fs_inv s"
  have good: "good_path n" if "resolve_path (mounted s) (current_directory s) path = Inr (n, r)" for n r
    using resolve_path_Inr [OF that] normalize_path_good [OF fs_inv_good_cwd [OF inv]] assms
    by (auto simp: c_argument_def)
  have fill: "wp (on_error (seq (fill_stream fx alloc i r) (\<lambda>_. ok i))
               (\<lambda>e. seq (modify (ds_modify i (\<lambda>_. empty_stream))) (\<lambda>_. err e))) (\<lambda>_. fs_inv) (\<lambda>_. fs_inv)
      (ds_modify i (\<lambda>_. empty_stream\<lparr>ds_allocated := True, ds_path := n\<rparr>) t)"
    if "fs_inv t" "good_path n" "i < length (directories t)" for t :: "'a fs" and n i r
  proof -
    have "stream_at i (ds_modify i (\<lambda>_. empty_stream\<lparr>ds_allocated := True, ds_path := n\<rparr>) t)"
      using that by (auto simp: stream_at_def ds_ok_def empty_stream_def intro!: fs_inv_ds_modify)
        (simp_all add: ds_modify_def)
    from keepsD [OF keeps_fill_stream this] show ?thesis
      unfolding wp_on_error wp_seq by (rule wp_mono) (auto simp: stream_at_def intro!: fs_inv_ds_modify)
  qed
  have find: "i < length (directories t)" if "find_index P (directories t) = Some i" for P i and t :: "'a fs"
    using find_index_Some [OF that] by simp
  show "wp (opendir_unlocked fx alloc path) (\<lambda>_. fs_inv) (\<lambda>_. fs_inv) s"
    unfolding opendir_unlocked_def
    by (auto simp: inv wp_seq [of "modify _"] simp del: wp_on_error split: sum.split option.split
        intro!: wp_world_only [OF world_only_information] fill
        intro: good find fs_inv_same_tables [OF _ inv])
qed

lemma stream_at_keeps:
  "keeps (stream_at i) m \<Longrightarrow> stream_at i s \<Longrightarrow> wp m (\<lambda>_. fs_inv) (\<lambda>_. fs_inv) s"
  by (drule (1) keepsD, erule wp_mono) (simp_all add: stream_at_def)

lemma keeps_on_stream:
  assumes "\<And>i s. directory = Some i \<Longrightarrow> stream_at i s \<Longrightarrow> wp (body i) (\<lambda>_. fs_inv) (\<lambda>_. fs_inv) s"
    and "\<And>i. directory = Some i \<Longrightarrow> i < MAXIMUM_OPEN_DIRECTORIES"
  shows "keeps fs_inv (on_stream env directory early body)"
proof -
  have "keeps fs_inv (with_state (\<lambda>s. if \<not> ds_allocated (directories s ! i) then err EBADF else body i))"
    if "directory = Some i" for i
  proof (rule keepsI)
    fix s :: "'a fs" assume "fs_inv s"
    moreover from this have "i < length (directories s)" using assms(2) [OF that] by (simp add: fs_inv_def)
    ultimately have "stream_at i s" if "ds_allocated (directories s ! i)" using that by (simp add: stream_at_def)
    from assms(1) [OF that this] \<open>fs_inv s\<close>
    show "wp (with_state (\<lambda>s. if \<not> ds_allocated (directories s ! i) then err EBADF else body i))
        (\<lambda>_. fs_inv) (\<lambda>_. fs_inv) s"
      by (simp add: stream_at_def)
  qed
  then show ?thesis
    unfolding on_stream_def
    by (intro keeps_seq keeps_usable keeps_cases keeps_basic keeps_guarded) simp_all
qed

section \<open>Reachable states\<close>

text \<open>
  One completed call of the adapter, with any arguments the C interface admits: path arguments
  are C strings, stream pointers point into the table. The environment of a call is arbitrary.
\<close>

inductive syscall :: "'w filex \<Rightarrow> 'w console \<Rightarrow> 'w fs \<Rightarrow> 'w fs \<Rightarrow> bool"
  for fx :: "'w filex" and con :: "'w console" where
  sys_open: "c_argument path \<Longrightarrow> open_sys fx env path flags s = Some (r, t) \<Longrightarrow> syscall fx con s t"
| sys_close: "close_sys fx env file s = Some (r, t) \<Longrightarrow> syscall fx con s t"
| sys_read: "read_sys fx con env file null_buffer count s = Some (r, t) \<Longrightarrow> syscall fx con s t"
| sys_write: "write_sys fx con env file buffer count s = Some (r, t) \<Longrightarrow> syscall fx con s t"
| sys_lseek: "lseek_sys fx env file offset origin s = Some (r, t) \<Longrightarrow> syscall fx con s t"
| sys_fsync: "fsync_sys fx env file s = Some (r, t) \<Longrightarrow> syscall fx con s t"
| sys_ftruncate: "ftruncate_sys fx env file new_length s = Some (r, t) \<Longrightarrow> syscall fx con s t"
| sys_fstat: "fstat_sys fx env file null_value s = Some (r, t) \<Longrightarrow> syscall fx con s t"
| sys_stat: "stat_sys fx env path null_value s = Some (r, t) \<Longrightarrow> syscall fx con s t"
| sys_unlink: "unlink_sys fx env path s = Some (r, t) \<Longrightarrow> syscall fx con s t"
| sys_mkdir: "mkdir_sys fx env path s = Some (r, t) \<Longrightarrow> syscall fx con s t"
| sys_rmdir: "rmdir_sys fx env path s = Some (r, t) \<Longrightarrow> syscall fx con s t"
| sys_rename: "c_argument old_path \<Longrightarrow> c_argument new_path \<Longrightarrow>
    rename_sys fx env old_path new_path s = Some (r, t) \<Longrightarrow> syscall fx con s t"
| sys_utime: "utime_sys fx env now path requested s = Some (r, t) \<Longrightarrow> syscall fx con s t"
| sys_chdir: "c_argument path \<Longrightarrow> chdir_sys fx env path s = Some (r, t) \<Longrightarrow> syscall fx con s t"
| sys_getcwd: "getcwd_sys env buffer_size s = Some (r, t) \<Longrightarrow> syscall fx con s t"
| sys_statvfs: "statvfs_sys fx env1 env2 env3 path null_value s = Some (r, t) \<Longrightarrow> syscall fx con s t"
| sys_opendir: "c_argument path \<Longrightarrow> opendir fx alloc env path s = Some (r, t) \<Longrightarrow> syscall fx con s t"
| sys_readdir: "(\<And>i. directory = Some i \<Longrightarrow> i < MAXIMUM_OPEN_DIRECTORIES) \<Longrightarrow>
    readdir env directory s = Some (r, t) \<Longrightarrow> syscall fx con s t"
| sys_closedir: "(\<And>i. directory = Some i \<Longrightarrow> i < MAXIMUM_OPEN_DIRECTORIES) \<Longrightarrow>
    closedir env directory s = Some (r, t) \<Longrightarrow> syscall fx con s t"
| sys_rewinddir: "(\<And>i. directory = Some i \<Longrightarrow> i < MAXIMUM_OPEN_DIRECTORIES) \<Longrightarrow>
    rewinddir env directory s = Some (r, t) \<Longrightarrow> syscall fx con s t"
| sys_seekdir: "(\<And>i. directory = Some i \<Longrightarrow> i < MAXIMUM_OPEN_DIRECTORIES) \<Longrightarrow>
    seekdir env directory position s = Some (r, t) \<Longrightarrow> syscall fx con s t"

inductive reachable :: "'w filex \<Rightarrow> 'w console \<Rightarrow> 'w fs \<Rightarrow> bool"
  for fx :: "'w filex" and con :: "'w console" where
  boot: "runtime_filex_initialize fx con boot_environment (initial_fs w) = Some s \<Longrightarrow> reachable fx con s"
| call: "reachable fx con s \<Longrightarrow> syscall fx con s t \<Longrightarrow> reachable fx con t"

inductive_cases syscallE: "syscall fx con s t"

lemma keeps_result: "keeps P m \<Longrightarrow> P s \<Longrightarrow> m s = Some (r, t) \<Longrightarrow> P t"
  by (drule (1) keepsD, drule (1) wp_result) (simp split: sum.splits)

lemma world_only_sys [fs_frame]:
  "world_only (fsync_sys fx env file)"
  "world_only (fstat_sys fx env file null_value)"
  "world_only (stat_sys fx env path null_value)"
  "world_only (unlink_sys fx env path)"
  "world_only (mkdir_sys fx env path)"
  "world_only (rmdir_sys fx env path)"
  "world_only (utime_sys fx env now path requested)"
  unfolding fsync_sys_def fsync_unlocked_def fstat_sys_def stat_sys_def unlink_sys_def mkdir_sys_def
    rmdir_sys_def utime_sys_def
  by (intro fs_frame)+

lemma world_only_getcwd [fs_frame]: "world_only (getcwd_sys env buffer_size)"
proof -
  have "world_only (seq (currentPath env) (\<lambda>path. if length path + 1 > n then err ERANGE else ok path))" for n
    by (intro fs_frame)
  then show ?thesis
    by (auto simp: getcwd_sys_def intro: fs_frame split: option.split nat.split)
qed

lemma keeps_table_calls:
  "keeps fs_inv (close_sys fx env file)"
  "keeps fs_inv (read_sys fx con env file null_buffer count)"
  "keeps fs_inv (write_sys fx con env file buffer count)"
  "keeps fs_inv (lseek_sys fx env file offset origin)"
  "keeps fs_inv (ftruncate_sys fx env file new_length)"
  unfolding close_sys_def read_sys_def write_sys_def lseek_sys_def ftruncate_sys_def Let_def
  by ((intro keeps_if keeps_basic keeps_cases keeps_guarded keeps_close keeps_read keeps_write
      keeps_lseek keeps_ftruncate; intro fs_inv_world_only fs_frame)[1])+

lemma keeps_path_calls:
  "c_argument path \<Longrightarrow> keeps fs_inv (open_sys fx env path flags)"
  "c_argument path \<Longrightarrow> keeps fs_inv (chdir_sys fx env path)"
  "c_argument path \<Longrightarrow> keeps fs_inv (opendir fx alloc env path)"
  "c_argument path \<Longrightarrow> c_argument path' \<Longrightarrow> keeps fs_inv (rename_sys fx env path path')"
  by (auto simp: open_sys_def chdir_sys_def opendir_def rename_sys_def
      intro!: keeps_guarded keeps_seq keeps_open keeps_setCurrentPath keeps_opendir keeps_rename keeps_basic)

lemma keeps_stream_calls:
  assumes "\<And>i. directory = Some i \<Longrightarrow> i < MAXIMUM_OPEN_DIRECTORIES"
  shows "keeps fs_inv (readdir env directory)" "keeps fs_inv (closedir env directory)"
    "keeps fs_inv (rewinddir env directory)" "keeps fs_inv (seekdir env directory position)"
proof -
  have set: "keeps (stream_at i) (modify (ds_modify i (ds_position_update (\<lambda>_. n))))" if "0 \<le> n" for i n
    using that by (intro keeps_modify stream_at_modify) (auto simp: ds_ok_def)
  have advance: "keeps (stream_at i) (readdir_unlocked i)" for i
    unfolding readdir_unlocked_def Let_def
    by (intro fs_inv_intros keeps_modify stream_at_modify) (auto simp: ds_ok_def)
  show "keeps fs_inv (readdir env directory)"
    unfolding readdir_def by (intro keeps_on_stream assms) (rule stream_at_keeps [OF advance])
  show "keeps fs_inv (rewinddir env directory)"
    unfolding rewinddir_def by (intro keeps_on_stream assms) (rule stream_at_keeps [OF set], simp_all)
  show "keeps fs_inv (closedir env directory)"
    unfolding closedir_def by (intro keeps_on_stream assms) (simp_all add: stream_at_def fs_inv_ds_modify)
  show "keeps fs_inv (seekdir env directory position)"
  proof (cases "position < 0")
    case True
    then show ?thesis
      unfolding seekdir_def on_stream_def if_P [OF True] act_simps
      by (intro keeps_seq keeps_usable keeps_cases keeps_basic)
  next
    case False
    then show ?thesis
      unfolding seekdir_def by (intro keeps_on_stream assms) (rule stream_at_keeps [OF set], simp_all)
  qed
qed

lemma fs_inv_initialize:
  assumes "runtime_filex_initialize fx con boot_environment (initial_fs w) = Some s"
  shows "fs_inv s"
proof -
  have inv: "good_path p \<Longrightarrow> fs_inv \<lparr>world = w', descriptors = replicate MAXIMUM_OPEN_FILES empty_descriptor,
      directories = replicate MAXIMUM_OPEN_DIRECTORIES empty_stream, current_directory = p,
      filesystem_state = x, rename_backup_sequence = n, flash_mounted = f, sd_mounted = d\<rparr>" for p w' x n f d
    by (simp add: fs_inv_def list_all_iff)
  have mounts: "good_path ''/flash'' \<and> good_path ''/sd'' \<and> good_path ''/''"
    using mount_name_good [of Flash] mount_name_good [of Sd]
    by (simp add: good_path_def mount_name_def MAXIMUM_PATH_def)
  note written = keeps_result [OF keeps_table_calls(3)]
  show ?thesis
    using assms inv mounts
    by (auto simp: runtime_filex_initialize_def Let_def mounted_def initial_fs_def
        split: prod.splits if_splits elim!: written [rotated])
qed

lemmas inv_calls =
  keeps_table_calls [THEN keeps_result] keeps_path_calls [THEN keeps_result]
  world_only_sys [THEN fs_inv_world_only, THEN keeps_result]
  world_only_getcwd [THEN fs_inv_world_only, THEN keeps_result]
  world_only_statvfs [THEN fs_inv_world_only, THEN keeps_result]

lemmas inv_stream_calls = keeps_stream_calls [THEN keeps_result]

lemma syscall_inv: "syscall fx con s t \<Longrightarrow> fs_inv s \<Longrightarrow> fs_inv t"
  by (elim syscallE) (blast intro: inv_calls inv_stream_calls)+

lemma reachable_inv: "reachable fx con s \<Longrightarrow> fs_inv s"
  by (induction rule: reachable.induct) (auto intro: fs_inv_initialize syscall_inv)

end
