(* ===== verification/Files_Contents.thy ===== *)
theory Files_Contents
  imports Files_Invariant
begin

text \<open>
  What the calls on an open file do to its contents. The hypotheses on FileX are collected in
  \<open>filex_file_laws\<close>, the documented behaviour of the calls on an open FX_FILE; the contents
  of the file are an abstract list of bytes. Against it \<open>_write\<close> overlays its data at the POSIX
  position (after a zero-filled gap), \<open>_read\<close> returns the bytes from there, \<open>_ftruncate\<close> cuts
  or zero-extends. The loop of \<open>extend_with_zeroes\<close> is shown to terminate.
\<close>

section \<open>Running an action\<close>

lemma seq_run: "m s = Some (Inr x, t) \<Longrightarrow> seq m f s = f x t"
  by (simp add: seq_def)

lemma run_simps:
  "ok x s = Some (Inr x, s)" "err e s = Some (Inl e, s)" "with_state k s = k s s"
  "modify f s = Some (Inr (), f s)" "asks g s = Some (Inr (g s), s)"
  "fxcall c t = (case c (world t) of (y, w) \<Rightarrow> Some (Inr y, t\<lparr>world := w\<rparr>))"
  by (simp_all add: ok_def err_def with_state_def modify_def asks_def fxcall_def fxrun_def split: prod.split)

section \<open>The laws\<close>

text \<open>
  \<open>opened i w\<close>: the control block in slot \<open>i\<close> is open for writing (which FileX lets read
  as well only after a mode switch, see \<open>switch_mode\<close>). A seek is clamped to the end of the
  file, as the comment in \<open>extend_with_zeroes\<close> says; a write overlays the bytes at the offset
  and may extend the file up to \<open>capacity\<close>.
\<close>

definition seek_law ::
    "'w filex \<Rightarrow> (nat \<Rightarrow> 'w \<Rightarrow> bool) \<Rightarrow> (nat \<Rightarrow> 'w \<Rightarrow> u8 list) \<Rightarrow> nat \<Rightarrow> 'w \<Rightarrow> u64 \<Rightarrow> bool" where
  "seek_law fx opened contents i w n =
     (case fx_file_extended_seek fx i n w of (status, w') \<Rightarrow>
        status = FX_SUCCESS \<and> opened i w' \<and> contents i w' = contents i w \<and>
        unat (fx_file_current_file_offset fx i w') = min (unat n) (length (contents i w)))"

definition write_law ::
    "'w filex \<Rightarrow> (nat \<Rightarrow> 'w \<Rightarrow> bool) \<Rightarrow> (nat \<Rightarrow> 'w \<Rightarrow> u8 list) \<Rightarrow> nat \<Rightarrow> 'w \<Rightarrow> u8 list \<Rightarrow> bool" where
  "write_law fx opened contents i w data =
     (case fx_file_write fx i data w of (status, w') \<Rightarrow>
        status = FX_SUCCESS \<and> opened i w' \<and>
        contents i w' = overlay (contents i w) (unat (fx_file_current_file_offset fx i w)) data \<and>
        unat (fx_file_current_file_offset fx i w') = unat (fx_file_current_file_offset fx i w) + length data)"

definition read_law ::
    "'w filex \<Rightarrow> (nat \<Rightarrow> 'w \<Rightarrow> bool) \<Rightarrow> (nat \<Rightarrow> 'w \<Rightarrow> u8 list) \<Rightarrow> nat \<Rightarrow> 'w \<Rightarrow> u32 \<Rightarrow> bool" where
  "read_law fx opened contents i w n =
     (case fx_file_read fx i n w of ((status, data), w') \<Rightarrow>
        status = FX_SUCCESS \<and> opened i w' \<and> contents i w' = contents i w \<and>
        data = take (unat n) (drop (unat (fx_file_current_file_offset fx i w)) (contents i w)) \<and>
        unat (fx_file_current_file_offset fx i w') = unat (fx_file_current_file_offset fx i w) + length data)"

definition truncate_law ::
    "'w filex \<Rightarrow> (nat \<Rightarrow> 'w \<Rightarrow> bool) \<Rightarrow> (nat \<Rightarrow> 'w \<Rightarrow> u8 list) \<Rightarrow> nat \<Rightarrow> 'w \<Rightarrow> u64 \<Rightarrow> bool" where
  "truncate_law fx opened contents i w n =
     (case fx_file_extended_truncate_release fx i n w of (status, w') \<Rightarrow>
        status = FX_SUCCESS \<and> opened i w' \<and> contents i w' = take (unat n) (contents i w))"

definition filex_file_laws ::
    "'w filex \<Rightarrow> (nat \<Rightarrow> 'w \<Rightarrow> bool) \<Rightarrow> (nat \<Rightarrow> 'w \<Rightarrow> u8 list) \<Rightarrow> nat \<Rightarrow> bool" where
  "filex_file_laws fx opened contents capacity \<longleftrightarrow>
     capacity < 2 ^ 32 \<and>
     (\<forall>i w. opened i w \<longrightarrow>
        unat (fx_file_current_file_size fx i w) = length (contents i w) \<and>
        length (contents i w) \<le> capacity \<and>
        (\<forall>n. seek_law fx opened contents i w n) \<and>
        (\<forall>data. unat (fx_file_current_file_offset fx i w) + length data \<le> capacity \<longrightarrow>
           write_law fx opened contents i w data) \<and>
        (\<forall>n. unat (fx_file_current_file_offset fx i w) < length (contents i w) \<longrightarrow>
           read_law fx opened contents i w n) \<and>
        (\<forall>n. unat n \<le> length (contents i w) \<longrightarrow> truncate_law fx opened contents i w n))"

lemma law_capacity: "filex_file_laws fx opened contents capacity \<Longrightarrow> capacity < 2 ^ 32"
  by (simp add: filex_file_laws_def)

lemma law_size:
  "filex_file_laws fx opened contents capacity \<Longrightarrow> opened i w \<Longrightarrow>
     unat (fx_file_current_file_size fx i w) = length (contents i w) \<and> length (contents i w) \<le> capacity"
  by (simp add: filex_file_laws_def)

lemma law_seek:
  assumes "filex_file_laws fx opened contents capacity" "opened i w"
  obtains w' where "fx_file_extended_seek fx i n w = (FX_SUCCESS, w')" "opened i w'"
    "contents i w' = contents i w"
    "unat (fx_file_current_file_offset fx i w') = min (unat n) (length (contents i w))"
proof -
  have "seek_law fx opened contents i w n" using assms by (simp add: filex_file_laws_def)
  then show ?thesis using that by (auto simp: seek_law_def)
qed

lemma law_write:
  assumes "filex_file_laws fx opened contents capacity" "opened i w"
    and "unat (fx_file_current_file_offset fx i w) + length data \<le> capacity"
  obtains w' where "fx_file_write fx i data w = (FX_SUCCESS, w')" "opened i w'"
    "contents i w' = overlay (contents i w) (unat (fx_file_current_file_offset fx i w)) data"
    "unat (fx_file_current_file_offset fx i w') = unat (fx_file_current_file_offset fx i w) + length data"
proof -
  have "write_law fx opened contents i w data" using assms by (simp add: filex_file_laws_def)
  then show ?thesis using that by (auto simp: write_law_def)
qed

lemma law_read:
  assumes "filex_file_laws fx opened contents capacity" "opened i w"
    and "unat (fx_file_current_file_offset fx i w) < length (contents i w)"
  obtains w' where
    "fx_file_read fx i n w =
       ((FX_SUCCESS, take (unat n) (drop (unat (fx_file_current_file_offset fx i w)) (contents i w))), w')"
    "opened i w'" "contents i w' = contents i w"
    "unat (fx_file_current_file_offset fx i w') = unat (fx_file_current_file_offset fx i w) +
       length (take (unat n) (drop (unat (fx_file_current_file_offset fx i w)) (contents i w)))"
proof -
  have "read_law fx opened contents i w n" using assms by (simp add: filex_file_laws_def)
  then show ?thesis using that by (auto simp: read_law_def)
qed

lemma law_truncate:
  assumes "filex_file_laws fx opened contents capacity" "opened i w" and "unat n \<le> length (contents i w)"
  obtains w' where "fx_file_extended_truncate_release fx i n w = (FX_SUCCESS, w')" "opened i w'"
    "contents i w' = take (unat n) (contents i w)"
proof -
  have "truncate_law fx opened contents i w n" using assms by (simp add: filex_file_laws_def)
  then show ?thesis using that by (auto simp: truncate_law_def)
qed

section \<open>Zero filling\<close>

text \<open>The POSIX contents of a file stretched to \<open>n\<close> bytes.\<close>

definition zero_extended :: "u8 list \<Rightarrow> nat \<Rightarrow> u8 list" where
  "zero_extended bytes n = bytes @ replicate (n - length bytes) 0"

lemma length_zero_extended [simp]: "length (zero_extended bytes n) = max (length bytes) n"
  by (auto simp: zero_extended_def)

lemma zero_extended_short [simp]: "n \<le> length bytes \<Longrightarrow> zero_extended bytes n = bytes"
  by (simp add: zero_extended_def)

lemma zero_fill_terminates:
  assumes laws: "filex_file_laws fx opened contents capacity" and "opened i w"
    and "unat (fx_file_current_file_offset fx i w) = length (contents i w)" and "unat n \<le> capacity"
  shows "\<exists>w'. zero_fill fx i n w = Some (None, w') \<and> opened i w' \<and>
    contents i w' = zero_extended (contents i w) (unat n)"
  using assms(2-)
proof (induction "unat n - length (contents i w)" arbitrary: w rule: less_induct)
  case less
  let ?sz = "fx_file_current_file_size fx i w"
  have sz: "unat ?sz = length (contents i w)" using law_size [OF laws less.prems(1)] by simp
  show ?case
  proof (cases "?sz < n")
    case False
    then have "unat n \<le> length (contents i w)" using sz by (simp add: word_less_nat_alt)
    then show ?thesis using False less.prems(1) by (subst zero_fill.simps) simp
  next
    case True
    let ?chunk = "min (n - ?sz) SECTOR_SIZE"
    have lt: "length (contents i w) < unat n" using True sz by (simp add: word_less_nat_alt)
    have diff: "unat (n - ?sz) = unat n - length (contents i w)"
      using True sz by (simp add: unat_sub)
    have chunk: "unat ?chunk = min (unat n - length (contents i w)) 512"
      by (simp add: min_def SECTOR_SIZE_def word_le_nat_alt diff)
    let ?data = "replicate (unat ?chunk) (0 :: u8)"
    obtain w' where w': "fx_file_write fx i ?data w = (FX_SUCCESS, w')" "opened i w'"
        "contents i w' = overlay (contents i w) (length (contents i w)) ?data"
        "unat (fx_file_current_file_offset fx i w') = length (contents i w) + unat ?chunk"
      by (rule law_write [OF laws less.prems(1), of ?data]) (use less.prems chunk lt in auto)
    have c': "contents i w' = contents i w @ ?data" using w'(3) by (simp add: overlay_at_end)
    have "\<exists>w''. zero_fill fx i n w' = Some (None, w'') \<and> opened i w'' \<and>
        contents i w'' = zero_extended (contents i w') (unat n)"
      by (rule less.hyps) (use c' w' chunk lt less.prems in auto)
    moreover have "zero_extended (contents i w') (unat n) = zero_extended (contents i w) (unat n)"
      using chunk lt by (simp add: zero_extended_def c' replicate_add [symmetric])
    ultimately show ?thesis
      using True w'(1) by (subst zero_fill.simps) (simp add: Let_def)
  qed
qed

section \<open>Writing\<close>

lemma extend_with_zeroes_run:
  assumes laws: "filex_file_laws fx opened contents capacity" and "opened i (world s)"
    and "unat n \<le> capacity"
  obtains w' where "extend_with_zeroes fx i n s = Some (Inr (), s\<lparr>world := w'\<rparr>)" "opened i w'"
    "contents i w' = zero_extended (contents i (world s)) (unat n)"
proof (cases "n \<le> file_size fx i s")
  case True
  then have "unat n \<le> length (contents i (world s))"
    using law_size [OF laws assms(2)] by (simp add: word_le_nat_alt)
  then show ?thesis
    using that [of "world s"] True assms(2) by (simp add: extend_with_zeroes_def run_simps)
next
  case False
  obtain w1 where w1: "fx_file_extended_seek fx i (file_size fx i s) (world s) = (FX_SUCCESS, w1)" "opened i w1"
      "contents i w1 = contents i (world s)"
      "unat (fx_file_current_file_offset fx i w1) = min (unat (file_size fx i s)) (length (contents i (world s)))"
    by (rule law_seek [OF laws assms(2)])
  then have at_end: "unat (fx_file_current_file_offset fx i w1) = length (contents i w1)"
    using law_size [OF laws assms(2)] by simp
  obtain w2 where "zero_fill fx i n w1 = Some (None, w2)" "opened i w2"
      "contents i w2 = zero_extended (contents i w1) (unat n)"
    using zero_fill_terminates [OF laws w1(2) at_end assms(3)] by blast
  then show ?thesis
    using that [of w2] False w1
    by (simp add: extend_with_zeroes_def run_simps fxdo_def seq_def check_def fxrun_def)
qed

text \<open>Descriptor number \<open>file\<close> is slot \<open>i\<close>, allocated and open in mode \<open>m\<close>.\<close>

definition active :: "'w fs \<Rightarrow> int \<Rightarrow> nat \<Rightarrow> open_mode \<Rightarrow> bool" where
  "active s file i m \<longleftrightarrow> file = FIRST_FILE_DESCRIPTOR + int i \<and> i < length (descriptors s) \<and>
     fd_allocated (fd s i) \<and> fd_open_mode (fd s i) = Some m \<and> mode_allowed (fd s i) m"

lemma seq_active:
  "active s file i m \<Longrightarrow> seq (descriptor_for file) f s = f i s"
  "active s file i m \<Longrightarrow> seq (switch_mode fx i m) g s = g () s"
  by (simp_all add: active_def descriptor_for_def switch_mode_def run_simps Let_def seq_def)

lemma seq_fx_success:
  "f (world s) = (FX_SUCCESS, w) \<Longrightarrow> seq (fxdo f) k s = k () (s\<lparr>world := w\<rparr>)"
  "g (world s) = (x, w) \<Longrightarrow> seq (fxcall g) h s = h x (s\<lparr>world := w\<rparr>)"
  by (simp_all add: seq_def fxdo_def run_simps check_def)

lemma seq_set_position:
  "seq (set_position fx i) k s =
     k () (fd_modify i (fd_position_update (\<lambda>_. fx_file_current_file_offset fx i (world s))) s)"
  by (simp add: seq_def run_simps set_position_def)

text \<open>Where a write goes: the position, or the end of the file for an appending descriptor.\<close>

definition write_position :: "'w filex \<Rightarrow> nat \<Rightarrow> 'w fs \<Rightarrow> u64" where
  "write_position fx i s = (if fd_append (fd s i) then file_size fx i s else fd_position (fd s i))"

lemma fd_modify_world [simp]:
  "world (fd_modify i f s) = world s"
  "fd_modify i f (s\<lparr>world := w\<rparr>) = (fd_modify i f s)\<lparr>world := w\<rparr>"
  "fd (s\<lparr>world := w\<rparr>) = fd s"
  by (simp_all add: fd_modify_def)

lemma fd_modify_twice:
  "i < length (descriptors s) \<Longrightarrow> fd_modify i f (fd_modify i g s) = fd_modify i (\<lambda>d. f (g d)) s"
  by (simp add: fd_modify_def)

lemma write_unlocked_run:
  assumes laws: "filex_file_laws fx opened contents capacity" and op: "opened i (world s)"
    and act: "active s file i FX_OPEN_FOR_WRITE" and "data \<noteq> []"
    and fits: "unat (write_position fx i s) + length data \<le> capacity"
  obtains w' where
    "write_unlocked fx file data s =
       Some (Inr (int (length data)),
         (fd_modify i (fd_position_update (\<lambda>_. fx_file_current_file_offset fx i w')) s)\<lparr>world := w'\<rparr>)"
    "opened i w'"
    "contents i w' = overlay (zero_extended (contents i (world s)) (unat (write_position fx i s)))
                       (unat (write_position fx i s)) data"
    "unat (fx_file_current_file_offset fx i w') = unat (write_position fx i s) + length data"
proof -
  let ?p = "write_position fx i s"
  define s1 where "s1 = (if fd_append (fd s i) then fd_modify i (fd_position_update (\<lambda>_. file_size fx i s)) s else s)"
  have i: "i < length (descriptors s)" "fd_writable (fd s i)"
    using act by (auto simp: active_def mode_allowed_def)
  have s1: "world s1 = world s" "fd_position (fd s1 i) = ?p" "length (descriptors s1) = length (descriptors s)"
    using i by (auto simp: s1_def write_position_def)
  obtain w1 where w1: "extend_with_zeroes fx i ?p s1 = Some (Inr (), s1\<lparr>world := w1\<rparr>)" "opened i w1"
      "contents i w1 = zero_extended (contents i (world s)) (unat ?p)"
    by (rule extend_with_zeroes_run [OF laws, of i s1 ?p]) (use op fits s1 in auto)
  obtain w2 where w2: "fx_file_extended_seek fx i ?p w1 = (FX_SUCCESS, w2)" "opened i w2"
      "contents i w2 = contents i w1"
      "unat (fx_file_current_file_offset fx i w2) = min (unat ?p) (length (contents i w1))"
    by (rule law_seek [OF laws w1(2)])
  have off: "unat (fx_file_current_file_offset fx i w2) = unat ?p" using w2(4) w1(3) by simp
  obtain w3 where w3: "fx_file_write fx i data w2 = (FX_SUCCESS, w3)" "opened i w3"
      "contents i w3 = overlay (contents i w2) (unat ?p) data"
      "unat (fx_file_current_file_offset fx i w3) = unat ?p + length data"
    by (rule law_write [OF laws w2(2), of data]) (use off fits in auto)
  have same: "fd_modify i (fd_position_update (\<lambda>_. x)) s1 = fd_modify i (fd_position_update (\<lambda>_. x)) s" for x
    using i by (auto simp: s1_def fd_modify_twice)
  have append: "seq (with_state (\<lambda>s. if fd_append (fd s i)
      then modify (fd_modify i (fd_position_update (\<lambda>_. file_size fx i s))) else ok ())) k s = k () s1" for k :: "_ \<Rightarrow> ('a fs, int) act"
    by (simp add: seq_def run_simps s1_def)
  note extend = seq_run [of "extend_with_zeroes fx i ?p" s1 "()" "s1\<lparr>world := w1\<rparr>", OF w1(1)]
  have "write_unlocked fx file data s =
       Some (Inr (int (length data)),
         (fd_modify i (fd_position_update (\<lambda>_. fx_file_current_file_offset fx i w3)) s)\<lparr>world := w3\<rparr>)"
    unfolding write_unlocked_def seq_active [OF act] append
    using assms(4) i(2) w2(1) w3(1)
    by (simp add: run_simps seq_active [OF act] append s1(2) extend seq_fx_success seq_set_position same)
  then show ?thesis using that w3 w2 w1 by simp
qed

section \<open>Reading\<close>

lemma read_unlocked_run:
  assumes laws: "filex_file_laws fx opened contents capacity" and op: "opened i (world s)"
    and act: "active s file i FX_OPEN_FOR_READ" and "0 < count" "count < 2 ^ 31"
  defines "bytes \<equiv> take (nat count) (drop (unat (fd_position (fd s i))) (contents i (world s)))"
  obtains t where "read_unlocked fx file count s = Some (Inr bytes, t)"
    "opened i (world t)" "contents i (world t) = contents i (world s)"
    "unat (fd_position (fd t i)) = unat (fd_position (fd s i)) + length bytes"
proof -
  have i: "i < length (descriptors s)" "fd_readable (fd s i)"
    using act by (auto simp: active_def mode_allowed_def)
  have sz: "unat (file_size fx i s) = length (contents i (world s))"
    using law_size [OF laws op] by simp
  show ?thesis
  proof (cases "fd_position (fd s i) \<ge> file_size fx i s")
    case True
    then have "bytes = []" using sz by (simp add: bytes_def word_le_nat_alt)
    moreover have "read_unlocked fx file count s = Some (Inr [], s)"
      using True i assms(4) by (simp add: read_unlocked_def seq_active [OF act] run_simps)
    ultimately show ?thesis using that [of s] op by simp
  next
    case False
    then have lt: "unat (fd_position (fd s i)) < length (contents i (world s))"
      using sz by (simp add: word_le_nat_alt)
    obtain w1 where w1: "fx_file_extended_seek fx i (fd_position (fd s i)) (world s) = (FX_SUCCESS, w1)" "opened i w1"
        "contents i w1 = contents i (world s)"
        "unat (fx_file_current_file_offset fx i w1) = min (unat (fd_position (fd s i))) (length (contents i (world s)))"
      by (rule law_seek [OF laws op])
    have off: "unat (fx_file_current_file_offset fx i w1) = unat (fd_position (fd s i))" using w1(4) lt by simp
    have cnt: "unat (word_of_int count :: u32) = nat count"
      using assms(4,5) by (intro unat_word_of_int) simp_all
    obtain w2 where w2: "fx_file_read fx i (word_of_int count) w1 = ((FX_SUCCESS, bytes), w2)" "opened i w2"
        "contents i w2 = contents i w1"
        "unat (fx_file_current_file_offset fx i w2) = unat (fd_position (fd s i)) + length bytes"
      by (rule law_read [OF laws w1(2), of "word_of_int count"]) (use off lt w1(3) cnt in \<open>auto simp: bytes_def\<close>)
    have "read_unlocked fx file count s =
        Some (Inr bytes, (fd_modify i (fd_position_update (\<lambda>_. fx_file_current_file_offset fx i w2)) s)\<lparr>world := w2\<rparr>)"
      using False i assms(4) w1(1) w2(1)
      by (simp add: read_unlocked_def seq_active [OF act] run_simps seq_fx_success seq_set_position)
    then show ?thesis using that w2 w1(3) i by simp
  qed
qed

section \<open>Truncation\<close>

lemma scast_offset:
  "0 \<le> sint (x :: u32) \<Longrightarrow> unat (scast x :: u64) = nat (sint x)"
proof -
  assume "0 \<le> sint x"
  moreover have "sint x < 2 ^ 31" using sint_lt [of x] by simp
  ultimately show ?thesis
    unfolding scast_eq by (intro unat_word_of_int) simp_all
qed

lemma fxdo_success: "f (world s) = (FX_SUCCESS, w) \<Longrightarrow> fxdo f s = Some (Inr (), s\<lparr>world := w\<rparr>)"
  by (simp add: fxdo_def seq_def run_simps check_def)

lemma ftruncate_unlocked_run:
  assumes laws: "filex_file_laws fx opened contents capacity" and op: "opened i (world s)"
    and act: "active s file i FX_OPEN_FOR_WRITE" and "0 \<le> sint n" "nat (sint n) \<le> capacity"
  obtains w' where "ftruncate_unlocked fx file n s = Some (Inr (), s\<lparr>world := w'\<rparr>)" "opened i w'"
    "contents i w' = take (nat (sint n)) (zero_extended (contents i (world s)) (nat (sint n)))"
proof -
  let ?n = "nat (sint n)" and ?c = "contents i (world s)"
  have i: "fd_writable (fd s i)" using act by (auto simp: active_def mode_allowed_def)
  have sz: "int (unat (file_size fx i s)) = int (length ?c)" using law_size [OF laws op] by simp
  have cast: "unat (scast n :: u64) = ?n" using assms(4) by (rule scast_offset)
  let ?change = "if sint n < int (unat (file_size fx i s))
            then fxdo (fx_file_extended_truncate_release fx i (scast n))
            else if sint n > int (unat (file_size fx i s))
            then extend_with_zeroes fx i (scast n) else ok ()"
  obtain w1 where w1: "?change s = Some (Inr (), s\<lparr>world := w1\<rparr>)" "opened i w1"
      "contents i w1 = take ?n (zero_extended ?c ?n)"
  proof -
    consider "?n < length ?c" | "?n > length ?c" | "?n = length ?c" by linarith
    then show ?thesis
    proof cases
      case 1
      obtain w1 where "fx_file_extended_truncate_release fx i (scast n) (world s) = (FX_SUCCESS, w1)" "opened i w1"
          "contents i w1 = take (unat (scast n :: u64)) ?c"
        by (rule law_truncate [OF laws op, of "scast n"]) (use 1 cast in auto)
      moreover have "?change = fxdo (fx_file_extended_truncate_release fx i (scast n))"
        unfolding sz using 1 assms(4) by (intro if_P) linarith
      ultimately show ?thesis
        using that [of w1] 1 cast by (simp add: fxdo_def run_simps seq_def check_def zero_extended_def)
    next
      case 2
      obtain w1 where "extend_with_zeroes fx i (scast n) s = Some (Inr (), s\<lparr>world := w1\<rparr>)" "opened i w1"
          "contents i w1 = zero_extended ?c (unat (scast n :: u64))"
        by (rule extend_with_zeroes_run [OF laws op, of "scast n"]) (use assms(5) cast in auto)
      moreover have "?change = extend_with_zeroes fx i (scast n)"
        unfolding sz using 2 assms(4) by auto
      ultimately show ?thesis
        using that [of w1] 2 cast by simp
    next
      case 3
      then have "?change = ok ()" unfolding sz using assms(4) by auto
      then show ?thesis using that [of "world s"] 3 op by (simp add: run_simps)
    qed
  qed
  obtain w2 where w2: "fx_file_extended_seek fx i (fd_position (fd s i)) w1 = (FX_SUCCESS, w2)" "opened i w2"
      "contents i w2 = contents i w1"
    by (rule law_seek [OF laws w1(2)])
  have "ftruncate_unlocked fx file n s = Some (Inr (), s\<lparr>world := w2\<rparr>)"
    unfolding ftruncate_unlocked_def
    unfolding seq_active [OF act] run_simps(3)
    by (simp only: i not_True_eq_False if_False seq_active [OF act] run_simps(3)
        seq_run [of ?change s "()" "s\<lparr>world := w1\<rparr>", OF w1(1)]) (simp add: fxdo_success w2)
  then show ?thesis using that w2 w1(3) by simp
qed

section \<open>Seeking\<close>

lemma seek_target_spec:
  "seek_target base offset =
     (let target = int (unat base) + sint offset in
        if base > maximum_offset then Inl EOVERFLOW
        else if target > 2147483647 then Inl EOVERFLOW
        else if target < 0 then Inl EINVAL
        else Inr (word_of_int target))"
proof (cases "base > maximum_offset")
  case False
  then have base: "unat base \<le> 2147483647" by (simp add: word_less_nat_alt maximum_offset_def)
  have rng: "- 2147483648 \<le> sint offset" "sint offset \<le> 2147483647"
    using sint_ge [of offset] sint_lt [of offset] by simp_all
  have overflow: "2147483647 - a < nat d \<longleftrightarrow> int a + d > 2147483647" if "a \<le> 2147483647" "0 \<le> d" for a d
    using that by auto
  have underflow: "a < nat (- d) \<longleftrightarrow> int a + d < 0" if "\<not> 0 \<le> d" for a d
    using that by auto
  have room: "unat (maximum_offset - base) = 2147483647 - unat base"
    using False by (simp add: unat_sub maximum_offset_def)
  show ?thesis
  proof (cases "sint offset \<ge> 0")
    case True
    have c: "unat (scast offset :: u64) = nat (sint offset)" using True by (rule scast_offset)
    have "scast offset > maximum_offset - base \<longleftrightarrow> int (unat base) + sint offset > 2147483647"
      unfolding word_less_nat_alt room c using base True by (rule overflow)
    moreover have "base + scast offset = word_of_int (int (unat base) + sint offset)"
      by simp
    moreover have "\<not> int (unat base) + sint offset < 0" using True by linarith
    ultimately show ?thesis
      using False True by (simp only: seek_target_def Let_def if_False if_True split: if_split)
  next
    case neg: False
    have mag: "- (scast offset + 1) + 1 = (word_of_int (- sint offset) :: u64)"
      by simp
    have um: "unat (word_of_int (- sint offset) :: u64) = nat (- sint offset)"
      using neg rng by (intro unat_word_of_int) simp_all
    have "word_of_int (- sint offset) > base \<longleftrightarrow> int (unat base) + sint offset < 0"
      unfolding word_less_nat_alt um using neg by (rule underflow)
    moreover have "base - word_of_int (- sint offset) = word_of_int (int (unat base) + sint offset)"
      by simp
    moreover have "\<not> int (unat base) + sint offset > 2147483647" using neg base by linarith
    ultimately show ?thesis
      using False neg by (simp only: seek_target_def Let_def mag if_False if_True split: if_split)
  qed
qed (simp add: seek_target_def)

section \<open>The guard\<close>

text \<open>A call from a thread whose mutex calls succeed, on an initialised file system.\<close>

definition calm :: "call_env \<Rightarrow> 'w fs \<Rightarrow> bool" where
  "calm env s \<longleftrightarrow> \<not> in_interrupt env \<and> mutex_get_status env = TX_SUCCESS \<and>
     mutex_put_status env = TX_SUCCESS \<and> filesystem_state s = Ready"

lemma guarded_calm: "calm env s \<Longrightarrow> guarded env m s = m s"
  by (auto simp: calm_def guarded_def usable_def registry_guard_def seq_def run_simps split: option.split)

lemma guarded_refused:
  "in_interrupt env \<Longrightarrow> guarded env m s = Some (Inl EPERM, s)"
  "\<not> in_interrupt env \<Longrightarrow> filesystem_state s \<noteq> Ready \<Longrightarrow> guarded env m s = Some (Inl ENODEV, s)"
  by (simp_all add: guarded_def usable_def seq_def run_simps)

section \<open>A one-file FileX\<close>

text \<open>
  The smallest world that satisfies the laws: one file \<^verbatim>\<open>/a\<close> on the flash volume, with its
  bytes and one offset. It serves as the concrete FileX at which the properties are
  instantiated; nothing else depends on it.
\<close>

record one_file =
  of_bytes :: "u8 list"
  of_offset :: nat
  of_open :: bool

definition one_file_limit :: nat where "one_file_limit = 1000000"

definition one_information :: "one_file \<Rightarrow> fx_information" where
  "one_information w = \<lparr>fi_attributes = 0, fi_size = of_nat (length (of_bytes w)), fi_year = 2024,
     fi_month = 1, fi_day = 2, fi_hour = 3, fi_minute = 4, fi_second = 6\<rparr>"

definition one_file_filex :: "one_file filex" where
  "one_file_filex = \<lparr>
     fx_system_initialize = id,
     fx_system_date_set = (\<lambda>y m d w. (FX_SUCCESS, w)),
     fx_system_time_set = (\<lambda>h m s w. (FX_SUCCESS, w)),
     fx_media_flush = (\<lambda>media w. (FX_SUCCESS, w)),
     fx_media_extended_space_available = (\<lambda>media w. ((FX_SUCCESS, of_nat (one_file_limit - length (of_bytes w))), w)),
     fx_media_total_sectors = (\<lambda>media w. 2048),
     fx_directory_information_get = (\<lambda>media path w.
       ((if media = Some Flash \<and> path = ''/a'' then FX_SUCCESS else FX_NOT_FOUND, one_information w), w)),
     fx_directory_create = (\<lambda>media path w. (FX_NO_MORE_SPACE, w)),
     fx_directory_delete = (\<lambda>media path w. (FX_NOT_FOUND, w)),
     fx_directory_rename = (\<lambda>media path path' w. (FX_NOT_FOUND, w)),
     fx_directory_default_set = (\<lambda>media path w. (FX_SUCCESS, w)),
     fx_directory_first_full_entry_find = (\<lambda>media w. ((FX_SUCCESS, ''a'', 0), w)),
     fx_directory_next_full_entry_find = (\<lambda>media w. ((FX_NO_MORE_ENTRIES, [], 0), w)),
     fx_file_create = (\<lambda>media path w. (FX_NO_MORE_SPACE, w)),
     fx_file_delete = (\<lambda>media path w. (FX_ACCESS_ERROR, w)),
     fx_file_rename = (\<lambda>media path path' w. (FX_SUCCESS, w)),
     fx_file_date_time_set = (\<lambda>media path y m d h mi s w. (FX_SUCCESS, w)),
     fx_file_open = (\<lambda>media i path mode w. (FX_SUCCESS, w\<lparr>of_offset := 0, of_open := True\<rparr>)),
     fx_file_close = (\<lambda>i w. (FX_SUCCESS, w\<lparr>of_open := False\<rparr>)),
     fx_file_read = (\<lambda>i n w.
       let data = take (unat n) (drop (of_offset w) (of_bytes w))
       in ((FX_SUCCESS, data), w\<lparr>of_offset := of_offset w + length data\<rparr>)),
     fx_file_write = (\<lambda>i data w.
       if of_offset w + length data > one_file_limit then (FX_NO_MORE_SPACE, w)
       else (FX_SUCCESS, w\<lparr>of_bytes := overlay (of_bytes w) (of_offset w) data,
                           of_offset := of_offset w + length data\<rparr>)),
     fx_file_extended_seek = (\<lambda>i n w. (FX_SUCCESS, w\<lparr>of_offset := min (unat n) (length (of_bytes w))\<rparr>)),
     fx_file_extended_truncate_release = (\<lambda>i n w.
       (FX_SUCCESS, w\<lparr>of_bytes := take (unat n) (of_bytes w), of_offset := min (of_offset w) (unat n)\<rparr>)),
     fx_file_clear = (\<lambda>i w. w),
     fx_file_current_file_size = (\<lambda>i w. of_nat (length (of_bytes w))),
     fx_file_current_file_offset = (\<lambda>i w. of_nat (of_offset w)),
     fx_file_dir_entry_stamp = (\<lambda>i d t w. w)\<rparr>"

definition one_file_opened :: "nat \<Rightarrow> one_file \<Rightarrow> bool" where
  "one_file_opened i w \<longleftrightarrow> of_open w \<and> of_offset w \<le> length (of_bytes w) \<and> length (of_bytes w) \<le> one_file_limit"

lemma unat_of_nat_small: "n \<le> one_file_limit \<Longrightarrow> unat (of_nat n :: u64) = n"
  by (simp add: unat_of_nat one_file_limit_def)

lemma one_file_laws: "filex_file_laws one_file_filex one_file_opened (\<lambda>i. of_bytes) one_file_limit"
  by (auto simp: filex_file_laws_def seek_law_def write_law_def read_law_def truncate_law_def
      one_file_filex_def one_file_opened_def unat_of_nat_small Let_def
      simp del: of_nat_add)
    (simp add: one_file_limit_def)

text \<open>A state with that file open in slot 0.\<close>

definition one_descriptor :: "open_mode \<Rightarrow> u64 \<Rightarrow> FileDescriptor" where
  "one_descriptor mode position = \<lparr>fd_media = Some Flash, fd_path = ''/flash/a'', fd_position = position,
     fd_allocated = True, fd_readable = True, fd_writable = True, fd_append = False,
     fd_flush_on_close = True, fd_open_mode = Some mode\<rparr>"

definition one_file_state :: "open_mode \<Rightarrow> u64 \<Rightarrow> u8 list \<Rightarrow> one_file fs" where
  "one_file_state mode position bytes =
     (initial_fs \<lparr>of_bytes = bytes, of_offset = 0, of_open = True\<rparr>)
       \<lparr>descriptors := one_descriptor mode position # replicate 15 empty_descriptor,
        current_directory := ''/flash'', filesystem_state := Ready, flash_mounted := True\<rparr>"

definition calm_env :: call_env where
  "calm_env = \<lparr>in_interrupt = False, mutex_get_status = TX_SUCCESS, mutex_put_status = TX_SUCCESS\<rparr>"

lemma one_file_state_simps [simp]:
  "calm calm_env (one_file_state mode position bytes)"
  "active (one_file_state mode position bytes) 3 0 mode"
  "world (one_file_state mode position bytes) = \<lparr>of_bytes = bytes, of_offset = 0, of_open = True\<rparr>"
  "fd (one_file_state mode position bytes) 0 = one_descriptor mode position"
  by (auto simp: calm_def calm_env_def one_file_state_def active_def FIRST_FILE_DESCRIPTOR_def
      one_descriptor_def mode_allowed_def initial_fs_def split: open_mode.split)

lemma one_file_opened_state [simp]:
  "length bytes \<le> one_file_limit \<Longrightarrow>
     one_file_opened i (world (one_file_state mode position bytes))"
  by (simp add: one_file_opened_def)

lemma one_file_volume_path: "volume_path (\<lambda>v. v = Flash) ''/flash/a'' Flash"
proof -
  have c: "components ''/flash/a'' = [''flash'', ''a'']" by code_simp
  have "good_path ''/flash/a''"
    unfolding good_path_def canonical_def c
    by (simp add: render_def valid_component_def is_separator_def MAXIMUM_PATH_def)
  moreover have "volume_of ''flash'' = Some Flash" by code_simp
  ultimately show ?thesis using c by (simp add: volume_path_def)
qed

lemma one_file_state_mounted [simp]: "mounted (one_file_state mode position bytes) = (\<lambda>v. v = Flash)"
  by (simp add: mounted_def one_file_state_def initial_fs_def fun_eq_iff)

lemma one_file_state_inv: "fs_inv (one_file_state mode position bytes)"
proof -
  have "good_path ''/flash''" using mount_name_good [of Flash] by (simp add: good_path_def mount_name_def MAXIMUM_PATH_def)
  moreover have "fd_ok (\<lambda>v. v = Flash) (one_descriptor mode position)"
    using one_file_volume_path by (simp add: fd_ok_def one_descriptor_def mode_allowed_def split: open_mode.split)
  ultimately show ?thesis
    unfolding fs_inv_def one_file_state_mounted
    by (simp add: one_file_state_def initial_fs_def list_all_iff MAXIMUM_OPEN_FILES_def MAXIMUM_OPEN_DIRECTORIES_def)
qed

lemma resolve_one_file: "resolve_path (\<lambda>v. v = Flash) ''/flash'' (Some ''a'') = Inr (''/flash/a'',
    \<lparr>rp_media = Some Flash, rp_volume = Flash, rp_local = ''/a'', rp_virtual_root = False, rp_mount_root = False\<rparr>)"
proof -
  have "normalize_path ''/flash'' (Some ''a'') = Inr ''/flash/a''" by code_simp
  moreover have "path_has_prefix ''/flash/a'' ''/flash'' True" by code_simp
  ultimately show ?thesis
    by (simp add: resolve_path_def resolve_normalized_path_def mount_name_def char_at_def)
qed
lemma normalize_one_file: "normalize_path ''/flash'' (Some ''/flash/a'') = Inr ''/flash/a''" by code_simp
lemma resolve_one_file_normalized: "resolve_normalized_path (\<lambda>v. v = Flash) ''/flash/a'' = Inr
    \<lparr>rp_media = Some Flash, rp_volume = Flash, rp_local = ''/a'', rp_virtual_root = False, rp_mount_root = False\<rparr>"
proof -
  have "path_has_prefix ''/flash/a'' ''/flash'' True" by code_simp
  then show ?thesis
    by (simp add: resolve_normalized_path_def mount_name_def char_at_def)
qed
lemma one_file_state_cwd [simp]: "current_directory (one_file_state mode position bytes) = ''/flash''" by (simp add: one_file_state_def)


lemma one_file_simps [simp]:
  "fx_directory_information_get one_file_filex (Some Flash) ''/a'' w = ((FX_SUCCESS, one_information w), w)"
  "fx_file_open one_file_filex media i p mode w = (FX_SUCCESS, w\<lparr>of_offset := 0, of_open := True\<rparr>)"
  "fx_file_close one_file_filex i w = (FX_SUCCESS, w\<lparr>of_open := False\<rparr>)"
  "fx_file_clear one_file_filex i w = w"
  "fx_media_flush one_file_filex media w = (FX_SUCCESS, w)"
  "fx_file_extended_seek one_file_filex i n w =
     (FX_SUCCESS, w\<lparr>of_offset := min (unat n) (length (of_bytes w))\<rparr>)"
  by (simp_all add: one_file_filex_def)

lemma mounted_fd_reset [simp]: "mounted (fd_reset fx i s) = mounted s"
  by (simp add: mounted_def fd_reset_def fun_eq_iff)

lemma fd_reset_simps [simp]:
  "length (descriptors (fd_reset fx i s)) = length (descriptors s)"
  "world (fd_reset fx i s) = fx_file_clear fx i (world s)"
  by (simp_all add: fd_reset_def)

lemma one_file_open: "\<exists>t. open_sys one_file_filex calm_env (Some ''a'') 0 (one_file_state FX_OPEN_FOR_READ 0 []) = Some (Inr 4, t)"
proof -
  let ?s = "one_file_state FX_OPEN_FOR_READ 0 []"
  have free: "find_index (\<lambda>d. \<not> fd_allocated d) (descriptors ?s) = Some 1" "length (descriptors ?s) = 16"
    by (simp_all add: one_file_state_def one_descriptor_def empty_descriptor_def numeral_eq_Suc)
  have slot: "\<exists>t. open_slot one_file_filex 1 (new_descriptor 0 True ''/flash/a'' (Some Flash) info) 0 (?s\<lparr>world := w\<rparr>) = Some (Inr 1, t)" for info w
    by (auto simp: open_slot_def seq_def run_simps on_error_def switch_mode_def reopen_def new_descriptor_def free
        writable_flags_def O_ACCMODE_def O_RDONLY_def O_WRONLY_def resolve_normalized_def from_sum_def resolve_one_file_normalized
        fxdo_def check_def flush_media_unlocked_def)
  have "\<not> is_directory (entry_information (one_information w))" for w
    by (simp add: is_directory_def entry_information_def one_information_def)
  then have "\<exists>t. open_unlocked one_file_filex (Some ''a'') 0 ?s = Some (Inr 1, t)"
    using slot
    by (simp add: open_unlocked_def seq_def resolve_path_unlocked_def run_simps free(1) flag_set_def
     from_sum_def resolve_one_file attempt_def information_unlocked_def normalize_path_unlocked_def normalize_one_file resolve_normalized_def resolve_one_file_normalized)
  then show ?thesis
    by (auto simp: open_sys_def O_ACCMODE_def O_RDONLY_def guarded_calm seq_def run_simps FIRST_FILE_DESCRIPTOR_def)
qed

end
