(* ===== verification/Files_Slots.thy ===== *)
theory Files_Slots
  imports Files_Contents
begin

text \<open>
  Which parts of the tables a call may touch, still for an arbitrary FileX: an open or close
  works on one descriptor slot and a failing open restores it, a rename moves all stored paths
  or none, a directory stream walks over the snapshot taken when it was opened.
\<close>

section \<open>Through the guard\<close>

lemma wp_guarded:
  assumes "wp m Q E s" and "\<And>e. E e s"
  shows "wp (guarded env m) Q E s"
  using assms
  by (auto simp: wp_def guarded_def usable_def registry_guard_def seq_def with_state_def ok_def err_def
      split: tx_status.split option.split prod.split sum.split)

section \<open>One slot at a time\<close>

text \<open>Only slot \<open>i\<close> of the descriptor table and the FileX world may differ.\<close>

definition slot_only :: "nat \<Rightarrow> 'w fs \<Rightarrow> 'w fs \<Rightarrow> bool" where
  "slot_only i s t \<longleftrightarrow> length (descriptors t) = length (descriptors s) \<and>
     (\<forall>j. j \<noteq> i \<longrightarrow> fd t j = fd s j) \<and> directories t = directories s \<and>
     current_directory t = current_directory s \<and> filesystem_state t = filesystem_state s \<and>
     flash_mounted t = flash_mounted s \<and> sd_mounted t = sd_mounted s"

lemma slot_only_refl [simp]: "slot_only i s s"
  by (simp add: slot_only_def)

lemma slot_only_same_tables: "same_tables t u \<Longrightarrow> slot_only i s t \<Longrightarrow> slot_only i s u"
  by (simp add: slot_only_def same_tables_def)

lemma slot_only_world_only: "world_only m \<Longrightarrow> keeps (slot_only i s) m"
  by (auto intro: keeps_world_only slot_only_same_tables)

lemma slot_only_modify:
  "keeps (slot_only i s) (modify (fd_modify i f))" "keeps (slot_only i s) (modify (fd_reset fx i))"
  by (intro keeps_modify; simp add: slot_only_def fd_modify_def fd_reset_def)+

lemma slot_only_switch_mode: "keeps (slot_only i s) (switch_mode fx i mode)"
  unfolding switch_mode_def reopen_def
  by (intro keeps_basic keeps_seq keeps_with_state keeps_if keeps_cases slot_only_modify)
    (intro slot_only_world_only fs_frame)+

lemma open_slot_error:
  assumes "i < length (descriptors s)"
  shows "wp (open_slot fx i d flags) (\<lambda>_ _. True)
    (\<lambda>_ t. slot_only i s t \<and> fd t i = empty_descriptor) s"
proof -
  let ?P = "slot_only i s"
  let ?recover = "\<lambda>error. with_state (\<lambda>s.
      seq (if fd_open_mode (fd s i) \<noteq> None
           then seq (fxcall (fx_file_close fx i)) (\<lambda>_. ok ()) else ok ()) (\<lambda>_.
      seq (modify (fd_reset fx i)) (\<lambda>_. err error)))"
  let ?main = "seq (switch_mode fx i (if fd_writable d then FX_OPEN_FOR_WRITE else FX_OPEN_FOR_READ)) (\<lambda>_.
      if fd_writable d \<and> flag_set flags O_TRUNC then
        seq (attempt (fxdo (fx_file_extended_truncate_release fx i 0))) (\<lambda>r.
        seq (modify (fd_modify i (fd_position_update (\<lambda>_. 0)))) (\<lambda>_.
        seq (from_sum r) (\<lambda>_. ok i)))
      else ok i)"
  have recover: "wp (?recover e) Q (\<lambda>_ t. ?P t \<and> fd t i = empty_descriptor) t" if "?P t" for Q e t
    using that assms by (auto simp: slot_only_def fd_reset_def split: prod.split)
  have main: "keeps ?P ?main"
    by (intro keeps_seq keeps_if keeps_attempt keeps_basic slot_only_switch_mode slot_only_modify
        slot_only_world_only [OF world_only_basic_helpers(2)])
  have start: "?P (fd_modify i (\<lambda>_. d) (fd_reset fx i s))"
    by (simp add: slot_only_def fd_modify_def fd_reset_def)
  have "wp (on_error ?main ?recover) (\<lambda>_ _. True) (\<lambda>_ t. ?P t \<and> fd t i = empty_descriptor)
      (fd_modify i (\<lambda>_. d) (fd_reset fx i s))"
    unfolding wp_on_error by (rule wp_mono [OF keepsD [OF main start]]) (simp, rule recover)
  then show ?thesis
    unfolding open_slot_def by (simp only: wp_seq wp_modify)
qed

lemma slot_only_restored:
  assumes "slot_only i s t" "fd t i = empty_descriptor" "fd s i = empty_descriptor"
  shows "descriptors t = descriptors s"
proof (rule nth_equalityI)
  show "length (descriptors t) = length (descriptors s)" using assms(1) by (simp add: slot_only_def)
  show "fd t j = fd s j" for j using assms by (cases "j = i") (simp_all add: slot_only_def)
qed

text \<open>The shape of an open: steps that leave the tables alone, then the slot is filled.\<close>

lemma wp_open_unlocked:
  assumes early: "\<And>e t. same_tables s t \<Longrightarrow> E e t"
    and fill: "\<And>slot d t. find_index (\<lambda>d. \<not> fd_allocated d) (descriptors s) = Some slot \<Longrightarrow>
      same_tables s t \<Longrightarrow> fd_allocated d \<Longrightarrow> wp (open_slot fx slot d flags) Q E t"
  shows "wp (open_unlocked fx path flags) Q E s"
proof (cases "resolve_path (mounted s) (current_directory s) path")
  case (Inl e)
  then show ?thesis by (simp add: open_unlocked_def early)
next
  case (Inr r)
  then obtain n resolved where r: "r = (n, resolved)" by (cases r)
  show ?thesis
  proof (cases "find_index (\<lambda>d. \<not> fd_allocated d) (descriptors s)")
    case None
    then show ?thesis by (simp add: open_unlocked_def Inr r early)
  next
    case (Some slot)
    have rest: "wp (case looked_up of
        Inl info_error \<Rightarrow>
          (if info_error \<noteq> ENOENT then err info_error
           else if \<not> flag_set flags O_CREAT then err info_error
           else
             seq (fxcall (fx_file_create fx (rp_media resolved) (rp_local resolved))) (\<lambda>create_status.
               if create_status \<noteq> FX_SUCCESS then err (filex_errno_value create_status)
               else open_slot fx slot
                      (new_descriptor flags False n (rp_media resolved) empty_information) flags))
      | Inr info \<Rightarrow>
          (if is_directory info then err EISDIR
           else if flag_set flags O_CREAT \<and> flag_set flags O_EXCL then err EEXIST
           else open_slot fx slot
                  (new_descriptor flags True n (rp_media resolved) info) flags)) Q E t"
      if "same_tables s t" for looked_up t
      using early [OF that] fill [OF Some] that early
      by (cases looked_up) (simp_all add: new_descriptor_def split: prod.split)
    have "wp (attempt (information_unlocked fx (Some n))) P E s" if "\<And>x t. same_tables s t \<Longrightarrow> P x t" for P
      unfolding wp_attempt by (rule wp_world_only [OF world_only_information]) (auto intro: that)
    from this [OF rest] show ?thesis
      unfolding open_unlocked_def wp_seq wp_paths Inr r sum.case prod.case
      by (simp only: wp_if wp_basic wp_with_state Some option.case wp_seq early same_tables_simps if_cancel split: if_split)
  qed
qed

text \<open>A failing open gives back what it took: no descriptor is left allocated or altered.\<close>

lemma open_unlocked_error:
  assumes inv: "fs_inv s"
  shows "wp (open_unlocked fx path flags) (\<lambda>_ _. True) (\<lambda>_ t. descriptors t = descriptors s) s"
proof (rule wp_open_unlocked)
  fix slot and d :: FileDescriptor and t :: "'a fs"
  assume Some: "find_index (\<lambda>d. \<not> fd_allocated d) (descriptors s) = Some slot" and same: "same_tables s t"
  have i: "slot < length (descriptors s)" "fd s slot = empty_descriptor"
    using find_index_Some [OF Some] fs_inv_fd [OF inv, of slot] by (auto simp: fd_ok_def)
  have t: "descriptors t = descriptors s" using same by (simp add: same_tables_def)
  have "wp (open_slot fx slot d flags) (\<lambda>_ _. True) (\<lambda>_ u. slot_only slot t u \<and> fd u slot = empty_descriptor) t"
    by (rule open_slot_error) (simp add: t i)
  then show "wp (open_slot fx slot d flags) (\<lambda>_ _. True) (\<lambda>_ u. descriptors u = descriptors s) t"
    by (rule wp_mono) (simp, metis slot_only_restored t i(2))
qed (simp add: same_tables_def)

text \<open>The number an open returns is that of the first free slot, which is then allocated.\<close>

lemma allocated_switch_mode: "keeps (\<lambda>s. i < length (descriptors s) \<and> fd_allocated (fd s i)) (switch_mode fx i mode)"
proof -
  let ?P = "\<lambda>s. i < length (descriptors s) \<and> fd_allocated (fd s i)"
  have modify: "keeps ?P (modify (fd_modify i (fd_open_mode_update f)))" for f
    by (intro keeps_modify) auto
  have other: "keeps ?P m" if "world_only m" for m :: "('a fs, 'b) act"
    using that by (auto intro!: keeps_world_only simp: same_tables_def)
  show ?thesis
    unfolding switch_mode_def reopen_def
    by (intro keeps_basic keeps_seq keeps_with_state keeps_if keeps_cases modify) (intro other fs_frame)+
qed

lemma open_slot_value:
  assumes "i < length (descriptors s)" and "fd_allocated d"
  shows "wp (open_slot fx i d flags)
    (\<lambda>r t. r = i \<and> fd_allocated (fd t i) \<and> slot_only i s t) (\<lambda>_ _. True) s"
proof -
  let ?P = "\<lambda>t. (i < length (descriptors t) \<and> fd_allocated (fd t i)) \<and> slot_only i s t"
  let ?tail = "if fd_writable d \<and> flag_set flags O_TRUNC then
        seq (attempt (fxdo (fx_file_extended_truncate_release fx i 0))) (\<lambda>r.
        seq (modify (fd_modify i (fd_position_update (\<lambda>_. 0)))) (\<lambda>_.
        seq (from_sum r) (\<lambda>_. ok i)))
      else ok i"
  have start: "?P (fd_modify i (\<lambda>_. d) (fd_reset fx i s))"
    using assms by (simp add: slot_only_def fd_modify_def fd_reset_def)
  have switch: "wp (switch_mode fx i mode) (\<lambda>_. ?P) (\<lambda>_ _. True) t" if "?P t" for mode t
    using keepsD [OF allocated_switch_mode [of i fx mode], of t] keepsD [OF slot_only_switch_mode [of i s fx mode], of t] that
    by (auto dest: wp_conj elim: wp_mono)
  have tail: "wp ?tail (\<lambda>r t. r = i \<and> fd_allocated (fd t i) \<and> slot_only i s t) (\<lambda>_ _. True) t" if "?P t" for t
    using that by (auto simp: fxdo_def slot_only_def fd_modify_def split: prod.split option.split)
  have "wp (seq (switch_mode fx i mode) (\<lambda>_. ?tail))
      (\<lambda>r t. r = i \<and> fd_allocated (fd t i) \<and> slot_only i s t) (\<lambda>_ _. True)
      (fd_modify i (\<lambda>_. d) (fd_reset fx i s))" for mode
    unfolding wp_seq [of "switch_mode fx i mode"] by (rule wp_mono [OF switch [OF start]]) (rule tail, simp_all)
  then show ?thesis
    unfolding open_slot_def wp_seq [of "modify _"] wp_modify wp_on_error
    by (rule wp_mono) (auto split: prod.split)
qed

lemma open_unlocked_slot:
  assumes "fs_inv s"
  shows "wp (open_unlocked fx path flags)
     (\<lambda>slot t. find_index (\<lambda>d. \<not> fd_allocated d) (descriptors s) = Some slot \<and> fd_allocated (fd t slot) \<and>
        (\<forall>j. j \<noteq> slot \<longrightarrow> fd t j = fd s j)) (\<lambda>_ _. True) s"
proof (rule wp_open_unlocked)
  fix slot and d :: FileDescriptor and t :: "'a fs"
  assume Some: "find_index (\<lambda>d. \<not> fd_allocated d) (descriptors s) = Some slot" and same: "same_tables s t"
  then have t: "descriptors t = descriptors s" by (simp add: same_tables_def)
  assume "fd_allocated d"
  then have "wp (open_slot fx slot d flags)
      (\<lambda>r u. r = slot \<and> fd_allocated (fd u slot) \<and> slot_only slot t u) (\<lambda>_ _. True) t"
    using find_index_Some [OF Some] by (intro open_slot_value) (simp_all add: t)
  then show "wp (open_slot fx slot d flags)
     (\<lambda>slot t. find_index (\<lambda>d. \<not> fd_allocated d) (descriptors s) = Some slot \<and> fd_allocated (fd t slot) \<and>
        (\<forall>j. j \<noteq> slot \<longrightarrow> fd t j = fd s j)) (\<lambda>_ _. True) t"
    by (rule wp_mono) (auto simp: Some slot_only_def t)
qed simp

section \<open>Rename moves every stored path or none\<close>

lemma wp_world_seq:
  assumes "world_only m" "same_tables s t"
    and "\<And>x u. same_tables s u \<Longrightarrow> wp (k x) Q E u" and "\<And>e u. same_tables s u \<Longrightarrow> E e u"
  shows "wp (seq m k) Q E t"
  unfolding wp_seq
  by (rule wp_world_only [OF assms(1)]) (blast intro: assms(3,4) same_tables_trans [OF assms(2)])+

lemma same_tables_migrate:
  "same_tables s t \<Longrightarrow> same_tables (migrate_paths dir old new s) (migrate_paths dir old new t)"
  by (simp add: same_tables_def migrate_paths_def)

lemma rename_move_tables:
  fixes s t :: "'w fs" and dir :: bool and old new :: string
  assumes "same_tables s t"
  defines "moved \<equiv> migrate_paths dir old new s"
  shows "wp (rename_move fx dir dest_dir old new media backup) (\<lambda>_. same_tables moved)
    (\<lambda>_ u. same_tables s u \<or> same_tables moved u) t"
proof -
  have undo: "wp (case backup of None \<Rightarrow> err error | Some destination_backup \<Rightarrow>
      seq (rename_entry_unlocked fx dest_dir destination_backup new) (\<lambda>_. err error)) (\<lambda>_. same_tables moved)
      (\<lambda>_ u. same_tables s u \<or> same_tables moved u) u"
    if "same_tables s u" for error u
    using that by (cases backup) (auto intro!: wp_world_seq [where s = s] fs_frame simp del: wp_seq)
  have commit: "wp (seq (modify (migrate_paths dir old new)) (\<lambda>_. seq (from_sum deleted) (\<lambda>_.
      flush_media_unlocked fx media))) (\<lambda>_. same_tables moved) (\<lambda>_ u. same_tables s u \<or> same_tables moved u) u"
    if "same_tables s u" for deleted u
    unfolding wp_seq [of "modify _"] wp_modify
    by (rule wp_world_only, intro fs_frame)
      (use same_tables_trans [OF same_tables_migrate [OF that]] in \<open>auto simp: moved_def\<close>)
  show ?thesis
    unfolding rename_move_def
    by (rule wp_world_seq [OF _ assms(1)], intro fs_frame)
      (auto split: sum.split intro!: wp_world_seq [where s = s] fs_frame undo commit simp del: wp_seq)
qed

lemma rename_resolved_tables:
  fixes s :: "'w fs"
  defines "moved \<equiv> \<lambda>dir old new. migrate_paths dir old new s"
  shows "wp (rename_resolved fx dir old new resolved)
    (\<lambda>_ u. if old = new then same_tables s u else same_tables (moved dir old new) u)
    (\<lambda>_ u. same_tables s u \<or> same_tables (moved dir old new) u) s"
proof -
  have dest: "world_only (rename_destination fx dir old new)"
    unfolding rename_destination_def Let_def by (intro fs_frame)
  have move: "wp (if old \<noteq> new then rename_move fx dir dd old new media backup else ok ())
    (\<lambda>_ u. if old = new then same_tables s u else same_tables (moved dir old new) u)
    (\<lambda>_ u. same_tables s u \<or> same_tables (moved dir old new) u) u"
    if "same_tables s u" for dd media backup u
    using rename_move_tables [OF that, of fx dir dd old new media backup] that by (simp add: moved_def)
  show ?thesis
    unfolding rename_resolved_def Let_def wp_with_state
    apply (rule wp_world_seq [where s = s], intro fs_frame, simp)
     apply (rule wp_world_seq [where s = s], rule dest, assumption)
      apply (clarsimp simp only: split: prod.split)
      apply (rule wp_world_seq [where s = s], intro fs_frame, assumption)
       apply (simp only: wp_with_state)
       apply (rule wp_world_seq [where s = s], intro fs_frame, assumption)
        apply (rule wp_world_seq [where s = s], intro fs_frame, assumption)
         apply (erule move)
        apply simp_all
    done
qed

lemma rename_unlocked_tables:
  "wp (rename_unlocked fx old_path new_path)
    (\<lambda>_ u. \<exists>dir old new.
       normalize_path (current_directory s) old_path = Inr old \<and>
       normalize_path (current_directory s) new_path = Inr new \<and>
       same_tables (if old = new then s else migrate_paths dir old new s) u)
    (\<lambda>_ u. same_tables s u \<or> (\<exists>dir old new.
       normalize_path (current_directory s) old_path = Inr old \<and>
       normalize_path (current_directory s) new_path = Inr new \<and>
       same_tables (migrate_paths dir old new s) u)) s"
proof -
  have step: "wp (rename_resolved fx dir n n' r)
      (\<lambda>_ u. \<exists>dir. same_tables (if n = n' then s else migrate_paths dir n n' s) u)
      (\<lambda>_ u. same_tables s u \<or> (\<exists>dir. same_tables (migrate_paths dir n n' s) u)) t"
    if "same_tables s t" for dir n n' r and t :: "'a fs"
    by (rule wp_mono [OF rename_resolved_tables])
      (auto split: if_splits
        dest: same_tables_trans [OF that] same_tables_trans [OF same_tables_migrate [OF that]])
  show ?thesis
  proof (cases "resolve_path (mounted s) (current_directory s) old_path")
    case (Inl e)
    then show ?thesis by (simp add: rename_unlocked_def)
  next
    case (Inr r1)
    then obtain n r where 1: "resolve_path (mounted s) (current_directory s) old_path = Inr (n, r)" by (cases r1) simp
    show ?thesis
    proof (cases "resolve_path (mounted s) (current_directory s) new_path")
      case (Inl e)
      then show ?thesis using 1 by (simp add: rename_unlocked_def)
    next
      case (Inr r2)
      then obtain n' r' where 2: "resolve_path (mounted s) (current_directory s) new_path = Inr (n', r')" by (cases r2) simp
      note names = resolve_path_Inr(1) [OF 1] resolve_path_Inr(1) [OF 2]
      have body: "wp (if rp_virtual_root r \<or> rp_mount_root r \<or> rp_virtual_root r' \<or> rp_mount_root r' then err EBUSY
          else if rp_media r \<noteq> rp_media r' then err EXDEV
          else rename_resolved fx dir n n' r)
        (\<lambda>_ u. \<exists>dir. same_tables (if n = n' then s else migrate_paths dir n n' s) u)
        (\<lambda>_ u. same_tables s u \<or> (\<exists>dir. same_tables (migrate_paths dir n n' s) u)) t"
        if "same_tables s t" for dir t
        using that step [OF that] by simp
      have "wp (rename_unlocked fx old_path new_path)
        (\<lambda>_ u. \<exists>dir. same_tables (if n = n' then s else migrate_paths dir n n' s) u)
        (\<lambda>_ u. same_tables s u \<or> (\<exists>dir. same_tables (migrate_paths dir n n' s) u)) s"
        unfolding rename_unlocked_def wp_seq wp_paths 1 2 sum.case prod.case
        by (rule wp_world_only [OF world_only_information]) (rule body, assumption, simp)
      then show ?thesis by (rule wp_mono) (use names in auto)
    qed
  qed
qed

section \<open>Walking a directory stream\<close>

text \<open>\<open>readdir\<close> repeated, from position \<open>k\<close>: the entries of the snapshot in order, then the end.\<close>

primrec read_all :: "call_env \<Rightarrow> nat \<Rightarrow> nat \<Rightarrow> ('w fs, dirent option list) act" where
  "read_all env i 0 = ok []"
| "read_all env i (Suc n) =
     seq (readdir env (Some i)) (\<lambda>x. seq (read_all env i n) (\<lambda>xs. ok (x # xs)))"

definition dirent_at :: "(string \<times> entry_type) list \<Rightarrow> nat \<Rightarrow> dirent option" where
  "dirent_at entries k =
     (if k < length entries
      then Some \<lparr>d_ino = of_nat (Suc k), d_type = snd (entries ! k), d_name = fst (entries ! k)\<rparr>
      else None)"

lemma usable_calm: "calm env s \<Longrightarrow> usable env s = Some (Inr (), s)"
  by (simp add: calm_def usable_def run_simps)

lemma registry_guard_calm: "calm env s \<Longrightarrow> registry_guard env m s = m s"
  by (auto simp: calm_def registry_guard_def split: option.split)

lemma on_stream_calm:
  assumes "calm env s" and "ds_allocated (directories s ! i)"
  shows "on_stream env (Some i) None body s = body i s"
  using assms by (simp add: on_stream_def seq_run [OF usable_calm] registry_guard_calm run_simps)

lemma read_all_run:
  assumes "i < length (directories s)" and "ds_position (directories s ! i) = int k"
    and "calm env s" and "ds_allocated (directories s ! i)"
  shows "\<exists>t. read_all env i n s = Some (Inr (map (dirent_at (ds_entries (directories s ! i))) [k..<k + n]), t)"
  using assms
proof (induction n arbitrary: s k)
  case (Suc n)
  let ?d = "directories s ! i"
  have readdir: "readdir env (Some i) s = readdir_unlocked i s"
    by (simp add: readdir_def on_stream_calm [OF Suc.prems(3,4)])
  show ?case
  proof (cases "k < length (ds_entries ?d)")
    case True
    let ?t = "ds_modify i (\<lambda>d. d\<lparr>ds_entry := dirent_at (ds_entries ?d) k, ds_position := ds_position d + 1\<rparr>) s"
    have step: "readdir env (Some i) s = Some (Inr (dirent_at (ds_entries ?d) k), ?t)"
      using True Suc.prems
      by (simp add: readdir readdir_unlocked_def with_state_def seq_def modify_def ok_def dirent_at_def ac_simps Let_def)
    have "\<exists>u. read_all env i n ?t = Some (Inr (map (dirent_at (ds_entries (directories ?t ! i))) [Suc k..<Suc k + n]), u)"
      by (rule Suc.IH) (use Suc.prems in \<open>simp_all add: ds_modify_def calm_def\<close>)
    moreover have "ds_entries (directories ?t ! i) = ds_entries ?d"
      using Suc.prems by (simp add: ds_modify_def)
    ultimately obtain u where "read_all env i n ?t = Some (Inr (map (dirent_at (ds_entries ?d)) [Suc k..<Suc k + n]), u)"
      by auto
    with step have "read_all env i (Suc n) s =
        Some (Inr (dirent_at (ds_entries ?d) k # map (dirent_at (ds_entries ?d)) [Suc k..<Suc k + n]), u)"
      by (simp add: seq_def ok_def)
    moreover have "[k..<k + Suc n] = k # [Suc k..<Suc k + n]" by (subst upt_conv_Cons) simp_all
    ultimately show ?thesis by simp
  next
    case False
    have step: "readdir env (Some i) s = Some (Inr None, s)"
      using False Suc.prems by (simp add: readdir readdir_unlocked_def with_state_def ok_def Let_def)
    have none: "map (dirent_at (ds_entries ?d)) [a..<a + m] = replicate m None" if "k \<le> a" for a m
      using that False by (intro replicate_eqI) (auto simp: dirent_at_def)
    obtain u where "read_all env i n s = Some (Inr (replicate n None), u)"
      using Suc.IH [OF Suc.prems] none [of k n] by auto
    with step show ?thesis using none [of k "Suc n"] by (simp add: seq_def ok_def)
  qed
qed (simp add: ok_def)

end
