(* ===== verification/Files_Properties.thy ===== *)
theory Files_Properties
  imports Files_Contents Files_Slots
begin

text \<open>The properties of the file-system adapter, with the concrete instances that show each can hold.\<close>

section \<open>Paths\<close>

text \<open>C1: On a canonical current directory, \<open>normalize_path_unlocked\<close> computes component
  resolution: dot components vanish, dot-dot components drop their parent (leaving the root is
  EACCES), and the result is rendered with single slashes. A path that does not fit the 256-byte
  buffer is ENAMETOOLONG and nothing else is.\<close>

theorem normalize_refines_resolution:
  assumes "canonical cwd" and "length cwd < MAXIMUM_PATH" and "p \<noteq> []"
  shows "normalize_path cwd (Some p) =
    (if path_fits cwd p
     then map_sum id render
       (resolve_dots (if is_separator (hd p) then [] else components cwd) (components p))
     else Inl ENAMETOOLONG)"
  using assms by (simp add: normalize_path_resolve normalize_path_too_long)

theorem normalize_refines_resolution_witness:
  "normalize_path ''/flash'' (Some ''a/./b/../c'') = Inr ''/flash/a/c''"
proof -
  have c: "canonical ''/flash''" using mount_name_good(1) [of Flash] by (simp add: mount_name_def)
  have "path_fits ''/flash'' ''a/./b/../c''" by code_simp
  moreover have "components ''/flash'' = [''flash'']" "components ''a/./b/../c'' = [''a'', ''.'', ''b'', ''..'', ''c'']"
    by code_simp+
  ultimately show ?thesis
    using normalize_refines_resolution [of "''/flash''" "''a/./b/../c''"] c
    by (simp add: MAXIMUM_PATH_def is_separator_def render_def)
qed

text \<open>Every path the adapter normalises is canonical, NUL-free and shorter than the buffer,
  and normalising it again, from any directory, changes nothing.\<close>

theorem normalize_canonical_idempotent:
  assumes "good_path cwd" and "cstring p" and "normalize_path cwd (Some p) = Inr out"
  shows "good_path out \<and> normalize_path other (Some out) = Inr out"
  using assms normalize_path_good [OF assms(1,3)] normalize_path_idempotent [of out other]
  by (simp add: good_path_def)

theorem normalize_canonical_idempotent_witness:
  "good_path ''/flash/a'' \<and> normalize_path ''/sd'' (Some ''/flash/a'') = Inr ''/flash/a''"
proof -
  have "canonical ''/flash''" using mount_name_good(1) [of Flash] by (simp add: mount_name_def)
  then have "good_path ''/flash''" by (simp add: good_path_def MAXIMUM_PATH_def)
  moreover have "normalize_path ''/flash'' (Some ''a'') = Inr ''/flash/a''" by code_simp
  ultimately show ?thesis
    using normalize_canonical_idempotent [of "''/flash''" "''a''" "''/flash/a''" "''/sd''"] by simp
qed

text \<open>C3: Path resolution against the mount table is component-wise: the root is virtual, the
  first component names the volume whatever its letter case, the rest is the path on that volume,
  an unmounted volume is ENODEV and any other name ENOENT.\<close>

theorem resolve_by_components:
  assumes "good_path p"
  shows "resolve_normalized_path m p = resolve_components m (components p)"
  using assms by (simp add: good_path_def resolve_normalized_path_components)

theorem resolve_by_components_witness:
  "resolve_normalized_path (\<lambda>v. v = Sd) ''/SD/x'' =
     Inr \<lparr>rp_media = Some Sd, rp_volume = Sd, rp_local = ''/x'', rp_virtual_root = False, rp_mount_root = False\<rparr>"
proof -
  have c: "components ''/SD/x'' = [''SD'', ''x'']" by code_simp
  have "good_path ''/SD/x''"
    unfolding good_path_def canonical_def c
    by (simp add: render_def valid_component_def is_separator_def MAXIMUM_PATH_def)
  moreover have "volume_of ''SD'' = Some Sd" by code_simp
  ultimately show ?thesis
    using resolve_by_components [of "''/SD/x''" "\<lambda>v. v = Sd"] c
    by (simp add: resolve_components_def render_def)
qed

text \<open>The character-wise prefix test is a test on components: without descendants it is
  equality of the case-folded components, with descendants it is their prefix order.\<close>

theorem prefix_by_components:
  assumes "good_path p" "good_path q" and "components q \<noteq> []"
  shows "path_has_prefix p q d \<longleftrightarrow>
    (if d then prefix (folded_components q) (folded_components p)
     else folded_components p = folded_components q)"
  using assms by (intro path_has_prefix_components) (simp_all add: good_path_def)

theorem prefix_by_components_witness:
  "path_has_prefix ''/flash/Dir/x'' ''/FLASH/dir'' True \<and> \<not> path_has_prefix ''/flash/Dirx'' ''/FLASH/dir'' True"
proof -
  have c: "components ''/flash/Dir/x'' = [''flash'', ''Dir'', ''x'']" "components ''/FLASH/dir'' = [''FLASH'', ''dir'']"
    "components ''/flash/Dirx'' = [''flash'', ''Dirx'']"
    by code_simp+
  have "good_path ''/flash/Dir/x''" "good_path ''/FLASH/dir''" "good_path ''/flash/Dirx''"
    unfolding good_path_def canonical_def c
    by (simp_all add: render_def valid_component_def is_separator_def MAXIMUM_PATH_def)
  moreover have "folded ''flash'' = folded ''FLASH''" "folded ''Dir'' = folded ''dir''" "folded ''Dirx'' \<noteq> folded ''dir''"
    by (code_simp, code_simp, code_simp)
  ultimately show ?thesis
    using prefix_by_components [of "''/flash/Dir/x''" "''/FLASH/dir''" True]
      prefix_by_components [of "''/flash/Dirx''" "''/FLASH/dir''" True] c
    by simp
qed

text \<open>A stored path below a renamed entry follows it: its components are those of the new
  name followed by what lay below the old one.\<close>

theorem migrate_by_components:
  assumes "good_path p" "good_path old" "good_path new" "components old \<noteq> []" "components new \<noteq> []"
    and "path_has_prefix p old d"
  shows "components (migrate_path p old new d) =
    components new @ drop (length (components old)) (components p)"
proof -
  have "list_all valid_component (components new @ drop (length (components old)) (components p))"
    using assms(1,3) canonical_components [of p] canonical_components [of new]
    by (auto simp: good_path_def list_all_iff dest: in_set_dropD)
  then show ?thesis
    using assms migrate_path_components [of p old new d] by (simp add: good_path_def)
qed

theorem migrate_by_components_witness:
  "components (migrate_path ''/sd/A/b'' ''/sd/a'' ''/sd/c/d'' True) = [''sd'', ''c'', ''d'', ''b'']"
proof -
  have c: "components ''/sd/A/b'' = [''sd'', ''A'', ''b'']" "components ''/sd/a'' = [''sd'', ''a'']"
    "components ''/sd/c/d'' = [''sd'', ''c'', ''d'']"
    by code_simp+
  have "good_path ''/sd/A/b''" "good_path ''/sd/a''" "good_path ''/sd/c/d''"
    unfolding good_path_def canonical_def c
    by (simp_all add: render_def valid_component_def is_separator_def MAXIMUM_PATH_def)
  moreover have "path_has_prefix ''/sd/A/b'' ''/sd/a'' True" by code_simp
  ultimately show ?thesis
    using migrate_by_components [of "''/sd/A/b''" "''/sd/a''" "''/sd/c/d''" True] c by simp
qed

section \<open>The descriptor table\<close>

text \<open>C6: In every state reachable from start-up by any sequence of calls, with any arguments,
  interrupts and FileX behaviour, the tables are well formed: every allocated descriptor holds
  a canonical path below a mounted volume, the media handle of that volume, an access mode that
  permits its open mode, and a flush obligation when writable; free slots are empty; the current
  directory and every open stream hold canonical paths that fit their buffers.\<close>

theorem reachable_tables_wellformed:
  assumes "reachable fx con s"
  shows "fs_inv s"
  using assms by (rule reachable_inv)

definition example_boot :: "one_file boot_env" where
  "example_boot = \<lparr>boot_clock = Some 0, boot_mutex_status = TX_SUCCESS,
     boot_storage = (\<lambda>w. ((True, False), w)), boot_storage_required = True\<rparr>"

definition example_console :: "one_file console" where
  "example_console = \<lparr>io_putchar = None, io_getchar = None\<rparr>"

theorem reachable_tables_wellformed_witness:
  "\<exists>s. runtime_filex_initialize one_file_filex example_console example_boot
       (initial_fs \<lparr>of_bytes = [], of_offset = 0, of_open = False\<rparr>) = Some s \<and>
     filesystem_state s = Ready \<and> fs_inv s"
proof -
  obtain s where s: "runtime_filex_initialize one_file_filex example_console example_boot
       (initial_fs \<lparr>of_bytes = [], of_offset = 0, of_open = False\<rparr>) = Some s" "filesystem_state s = Ready"
    by (simp add: runtime_filex_initialize_def example_boot_def initial_fs_def mounted_def)
  from s(1) have "reachable one_file_filex example_console s" by (rule reachable.boot)
  with s show ?thesis using reachable_tables_wellformed by blast
qed

text \<open>C7: A failing open leaves every descriptor as it was, whatever FileX did in between.\<close>

theorem open_failure_restores_table:
  assumes "fs_inv s" and "open_sys fx env path flags s = Some (Inl e, t)"
  shows "descriptors t = descriptors s"
proof -
  have "wp (open_sys fx env path flags) (\<lambda>_ _. True) (\<lambda>_ t. descriptors t = descriptors s) s"
    unfolding open_sys_def wp_if wp_basic
    by (auto intro!: wp_guarded wp_mono [OF open_unlocked_error [OF assms(1)]])
  from wp_result [OF this assms(2)] show ?thesis by simp
qed

theorem open_failure_restores_table_witness:
  "\<exists>t. open_sys one_file_filex calm_env None 0 (one_file_state FX_OPEN_FOR_READ 0 []) = Some (Inl ENOENT, t) \<and>
     descriptors t = descriptors (one_file_state FX_OPEN_FOR_READ 0 [])"
proof -
  obtain t where t: "open_sys one_file_filex calm_env None 0 (one_file_state FX_OPEN_FOR_READ 0 []) = Some (Inl ENOENT, t)"
    by (simp add: open_sys_def O_ACCMODE_def O_RDONLY_def guarded_calm open_unlocked_def seq_def
        resolve_path_unlocked_def run_simps from_sum_def resolve_path_def normalize_path_def)
  then show ?thesis using open_failure_restores_table [OF one_file_state_inv t] by blast
qed

text \<open>A successful open returns the number of the first free slot, allocates exactly that
  slot and touches no other descriptor.\<close>

theorem open_takes_first_free_slot:
  assumes "fs_inv s" and "open_sys fx env path flags s = Some (Inr file, t)"
  shows "\<exists>slot. file = FIRST_FILE_DESCRIPTOR + int slot \<and>
    find_index (\<lambda>d. \<not> fd_allocated d) (descriptors s) = Some slot \<and> fd_allocated (fd t slot) \<and>
    (\<forall>j. j \<noteq> slot \<longrightarrow> fd t j = fd s j)"
proof -
  let ?Q = "\<lambda>slot t. find_index (\<lambda>d. \<not> fd_allocated d) (descriptors s) = Some slot \<and> fd_allocated (fd t slot) \<and>
        (\<forall>j. j \<noteq> slot \<longrightarrow> fd t j = fd s j)"
  have "wp (open_sys fx env path flags)
     (\<lambda>file t. \<exists>slot. file = FIRST_FILE_DESCRIPTOR + int slot \<and> ?Q slot t) (\<lambda>_ _. True) s"
    unfolding open_sys_def wp_if wp_basic
    by (auto intro!: wp_guarded wp_mono [OF open_unlocked_slot [OF assms(1)]])
  from wp_result [OF this assms(2)] show ?thesis by simp
qed

theorem open_takes_first_free_slot_witness:
  "\<exists>t. open_sys one_file_filex calm_env (Some ''a'') 0 (one_file_state FX_OPEN_FOR_READ 0 []) = Some (Inr 4, t) \<and>
     fd_allocated (fd t 1) \<and> fd t 0 = one_descriptor FX_OPEN_FOR_READ 0"
proof -
  obtain t where t: "open_sys one_file_filex calm_env (Some ''a'') 0 (one_file_state FX_OPEN_FOR_READ 0 []) = Some (Inr 4, t)"
    using one_file_open by blast
  from open_takes_first_free_slot [OF one_file_state_inv t]
  have "fd_allocated (fd t 1) \<and> fd t 0 = one_descriptor FX_OPEN_FOR_READ 0"
    by (auto simp: FIRST_FILE_DESCRIPTOR_def)
  with t show ?thesis by blast
qed



section \<open>Contents\<close>

text \<open>C10: On FileX calls that behave as documented, a write through an open descriptor overlays
  its data at the POSIX position (the end for an appending descriptor), zero-fills a gap left by
  a seek past the end, reports every byte written, advances the position past them, and leaves
  the other descriptors alone.\<close>

theorem write_overlays_contents:
  assumes "filex_file_laws fx opened contents capacity" and "opened i (world s)"
    and "calm env s" and "active s file i FX_OPEN_FOR_WRITE" and "data \<noteq> []"
    and "unat (write_position fx i s) + length data \<le> capacity"
  shows "\<exists>t. write_sys fx con env file (Some data) (int (length data)) s = Some (Inr (int (length data)), t) \<and>
    contents i (world t) = overlay (zero_extended (contents i (world s)) (unat (write_position fx i s)))
      (unat (write_position fx i s)) data \<and>
    unat (fd_position (fd t i)) = unat (write_position fx i s) + length data \<and>
    (\<forall>j. j \<noteq> i \<longrightarrow> fd t j = fd s j)"
proof -
  obtain w' where w': "write_unlocked fx file data s = Some (Inr (int (length data)),
         (fd_modify i (fd_position_update (\<lambda>_. fx_file_current_file_offset fx i w')) s)\<lparr>world := w'\<rparr>)"
    "contents i w' = overlay (zero_extended (contents i (world s)) (unat (write_position fx i s)))
                       (unat (write_position fx i s)) data"
    "unat (fx_file_current_file_offset fx i w') = unat (write_position fx i s) + length data"
    by (rule write_unlocked_run [OF assms(1,2,4,5,6)])
  have "file \<noteq> 1 \<and> file \<noteq> 2" using assms(4) by (auto simp: active_def FIRST_FILE_DESCRIPTOR_def)
  then have "write_sys fx con env file (Some data) (int (length data)) s = Some (Inr (int (length data)),
         (fd_modify i (fd_position_update (\<lambda>_. fx_file_current_file_offset fx i w')) s)\<lparr>world := w'\<rparr>)"
    using w'(1) by (simp add: write_sys_def guarded_calm [OF assms(3)])
  then show ?thesis using w'(2,3) assms(4) by (auto simp: active_def)
qed

theorem write_overlays_contents_witness:
  "\<exists>t. write_sys one_file_filex example_console calm_env 3 (Some [7, 8]) 2
       (one_file_state FX_OPEN_FOR_WRITE 3 [1]) = Some (Inr 2, t) \<and> of_bytes (world t) = [1, 0, 0, 7, 8]"
proof -
  let ?s = "one_file_state FX_OPEN_FOR_WRITE 3 [1]"
  have p: "write_position one_file_filex 0 ?s = 3" by (simp add: write_position_def one_descriptor_def)
  have "overlay (zero_extended [1] 3) 3 [7, 8] = ([1, 0, 0, 7, 8] :: u8 list)"
    by (simp add: overlay_def zero_extended_def numeral_eq_Suc)
  then show ?thesis
    using write_overlays_contents [OF one_file_laws, of 0 ?s calm_env 3 "[7, 8]" example_console]
    by (auto simp: p one_file_limit_def one_file_opened_def)
qed



text \<open>C12: Truncation to a length of at most the capacity always returns: it cuts the contents or
  extends them with zeroes to exactly that length, sector by sector, and every descriptor keeps
  its position.\<close>

theorem ftruncate_sets_length:
  assumes "filex_file_laws fx opened contents capacity" and "opened i (world s)"
    and "calm env s" and "active s file i FX_OPEN_FOR_WRITE"
    and "0 \<le> sint n" and "nat (sint n) \<le> capacity"
  shows "\<exists>t. ftruncate_sys fx env file n s = Some (Inr (), t) \<and> descriptors t = descriptors s \<and>
    contents i (world t) = take (nat (sint n)) (zero_extended (contents i (world s)) (nat (sint n)))"
proof -
  obtain w' where "ftruncate_unlocked fx file n s = Some (Inr (), s\<lparr>world := w'\<rparr>)"
    "contents i w' = take (nat (sint n)) (zero_extended (contents i (world s)) (nat (sint n)))"
    by (rule ftruncate_unlocked_run [OF assms(1,2,4,5,6)])
  then show ?thesis using assms(5) by (simp add: ftruncate_sys_def guarded_calm [OF assms(3)])
qed

theorem ftruncate_sets_length_witness:
  "\<exists>t. ftruncate_sys one_file_filex calm_env 3 4 (one_file_state FX_OPEN_FOR_WRITE 0 [9, 9]) = Some (Inr (), t) \<and>
     of_bytes (world t) = [9, 9, 0, 0]"
proof -
  have "sint (4 :: u32) = 4" by simp
  moreover have "take 4 (zero_extended [9, 9] 4) = ([9, 9, 0, 0] :: u8 list)"
    by (simp add: zero_extended_def numeral_eq_Suc)
  ultimately show ?thesis
    using ftruncate_sets_length [OF one_file_laws, of 0 "one_file_state FX_OPEN_FOR_WRITE 0 [9, 9]" calm_env 3 4]
    by (auto simp: one_file_limit_def one_file_opened_def)
qed

text \<open>C13: A seek on an open descriptor computes base plus offset over the integers: a result that
  no 32-bit \<^verbatim>\<open>off_t\<close> holds is EOVERFLOW, a negative one EINVAL, an unknown origin EINVAL, and
  none of these moves the position; otherwise the position is the result, also past the end.\<close>

definition seek_base :: "'w filex \<Rightarrow> nat \<Rightarrow> seek_origin \<Rightarrow> 'w fs \<Rightarrow> u64 option" where
  "seek_base fx i origin s =
     (case origin of SEEK_SET \<Rightarrow> Some 0 | SEEK_CUR \<Rightarrow> Some (fd_position (fd s i))
      | SEEK_END \<Rightarrow> Some (file_size fx i s) | SEEK_OTHER _ \<Rightarrow> None)"

theorem lseek_integer_arithmetic:
  assumes "filex_file_laws fx opened contents capacity" and "opened i (world s)"
    and "calm env s" and "active s file i m"
  shows "\<exists>r t. lseek_sys fx env file offset origin s = Some (r, t) \<and>
    (case seek_base fx i origin s of
       None \<Rightarrow> r = Inl EINVAL \<and> descriptors t = descriptors s
     | Some base \<Rightarrow>
         (let target = int (unat base) + sint offset in
          if int (unat base) > 2147483647 \<or> target > 2147483647
          then r = Inl EOVERFLOW \<and> descriptors t = descriptors s
          else if target < 0 then r = Inl EINVAL \<and> descriptors t = descriptors s
          else r = Inr (word_of_int target) \<and> contents i (world t) = contents i (world s) \<and>
               fd_position (fd t i) = word_of_int target))"
proof -
  have mode: "fd_open_mode (fd s i) = Some m" "i < length (descriptors s)"
    using assms(4) by (simp_all add: active_def)
  define after where "after = (\<lambda>base. seq (from_sum (seek_target base offset)) (\<lambda>target.
     seq (fxcall (fx_file_extended_seek fx i target)) (\<lambda>status.
       if status \<noteq> FX_SUCCESS then err (filex_errno_value status)
       else seq (modify (fd_modify i (fd_position_update (\<lambda>_. target)))) (\<lambda>_. ok target))))"
  have run: "lseek_sys fx env file offset origin s =
      (case seek_base fx i origin s of None \<Rightarrow> err EINVAL s | Some base \<Rightarrow> after base s)"
    by (simp add: lseek_sys_def guarded_calm [OF assms(3)] lseek_unlocked_def seq_active [OF assms(4)]
        run_simps mode seek_base_def after_def split: seek_origin.split)
  have big: "base > maximum_offset \<longleftrightarrow> int (unat base) > 2147483647" for base
    by (simp add: word_less_def maximum_offset_def)
  have bad: "after base s = Some (Inl e, s)" if "seek_target base offset = Inl e" for base e
    by (simp add: after_def that run_simps)
  have good: "\<exists>t. after base s = Some (Inr target, t) \<and> contents i (world t) = contents i (world s) \<and>
      fd_position (fd t i) = target" if "seek_target base offset = Inr target" for base target
  proof -
    obtain w' where "fx_file_extended_seek fx i target (world s) = (FX_SUCCESS, w')"
      "contents i w' = contents i (world s)" by (rule law_seek [OF assms(1,2)])
    then show ?thesis using mode(2) by (simp add: after_def that seq_fx_success) (simp add: seq_def run_simps)
  qed
  show ?thesis
  proof (cases "seek_base fx i origin s")
    case None
    then show ?thesis by (simp add: run run_simps)
  next
    case (Some base)
    let ?b = "int (unat base)" and ?t = "int (unat base) + sint offset"
    note target = seek_target_spec [of base offset, unfolded big Let_def]
    consider "?b > 2147483647 \<or> ?t > 2147483647" | "\<not> ?b > 2147483647" "\<not> ?t > 2147483647" "?t < 0"
      | "\<not> ?b > 2147483647" "\<not> ?t > 2147483647" "\<not> ?t < 0" by blast
    then show ?thesis
    proof cases
      case 1
      then have "seek_target base offset = Inl EOVERFLOW" unfolding target by (simp only: if_True if_cancel split: if_split) blast
      then show ?thesis unfolding run Some option.case Let_def using 1 bad [of base] by simp
    next
      case 2
      then have "seek_target base offset = Inl EINVAL" unfolding target by (simp only: if_False if_True)
      then show ?thesis unfolding run Some option.case Let_def using 2 bad [of base] by simp
    next
      case 3
      then have t: "seek_target base offset = Inr (word_of_int ?t)" unfolding target by (simp only: if_False)
      have c: "\<not> (?b > 2147483647 \<or> ?t > 2147483647)" using 3 by blast
      show ?thesis unfolding run Some option.case Let_def if_not_P [OF c] if_not_P [OF 3(3)]
        using good [OF t] by blast
    qed
  qed
qed

theorem lseek_integer_arithmetic_witness:
  "\<exists>t. lseek_sys one_file_filex calm_env 3 5 SEEK_CUR (one_file_state FX_OPEN_FOR_READ 2 [1]) = Some (Inr 7, t) \<and>
     fd_position (fd t 0) = 7"
proof -
  have "sint (5 :: u32) = 5" by simp
  moreover have "seek_base one_file_filex 0 SEEK_CUR (one_file_state FX_OPEN_FOR_READ 2 [1]) = Some 2"
    by (simp add: seek_base_def one_descriptor_def)
  ultimately show ?thesis
    using lseek_integer_arithmetic [OF one_file_laws, of 0 "one_file_state FX_OPEN_FOR_READ 2 [1]" calm_env 3 FX_OPEN_FOR_READ 5 SEEK_CUR]
    by (auto simp: one_file_limit_def one_file_opened_def Let_def)
qed

section \<open>Errors and names\<close>

definition refusal :: "call_env \<Rightarrow> errno" where
  "refusal env = (if in_interrupt env then EPERM else ENODEV)"

lemma usable_refusal:
  "in_interrupt env \<or> filesystem_state s \<noteq> Ready \<Longrightarrow> usable env s = Some (Inl (refusal env), s)"
  by (auto simp: usable_def run_simps refusal_def)

lemma refused_calls:
  assumes "in_interrupt env \<or> filesystem_state s \<noteq> Ready"
  shows "guarded env m s = Some (Inl (refusal env), s)"
    and "on_stream env d early body s = Some (Inl (refusal env), s)"
  by (simp_all add: guarded_def on_stream_def seq_def usable_refusal [OF assms])

text \<open>From an interrupt handler every call that takes the registry is refused with EPERM, and
  before the file system is initialised (or when it is unavailable) with ENODEV; neither touches
  the state.\<close>

theorem unusable_calls_refused:
  assumes "in_interrupt env \<or> filesystem_state s \<noteq> Ready"
  shows "lseek_sys fx env file offset origin s = Some (Inl (refusal env), s) \<and>
    fsync_sys fx env file s = Some (Inl (refusal env), s) \<and>
    unlink_sys fx env path s = Some (Inl (refusal env), s) \<and>
    mkdir_sys fx env path s = Some (Inl (refusal env), s) \<and>
    rmdir_sys fx env path s = Some (Inl (refusal env), s) \<and>
    rename_sys fx env path path' s = Some (Inl (refusal env), s) \<and>
    utime_sys fx env now path requested s = Some (Inl (refusal env), s) \<and>
    opendir fx alloc env path s = Some (Inl (refusal env), s) \<and>
    readdir env directory s = Some (Inl (refusal env), s) \<and>
    closedir env directory s = Some (Inl (refusal env), s) \<and>
    rewinddir env directory s = Some (Inl (refusal env), s) \<and>
    telldir env directory s = Some (Inl (refusal env), s) \<and>
    seekdir env directory position s = Some (Inl (refusal env), s)"
  by (simp add: lseek_sys_def fsync_sys_def unlink_sys_def mkdir_sys_def rmdir_sys_def rename_sys_def
      utime_sys_def opendir_def readdir_def closedir_def rewinddir_def telldir_def seekdir_def
      refused_calls [OF assms])

theorem unusable_calls_refused_witness:
  "mkdir_sys one_file_filex \<lparr>in_interrupt = True, mutex_get_status = TX_SUCCESS, mutex_put_status = TX_SUCCESS\<rparr>
     (Some ''a'') (one_file_state FX_OPEN_FOR_READ 0 []) = Some (Inl EPERM, one_file_state FX_OPEN_FOR_READ 0 [])"
  using unusable_calls_refused [of "\<lparr>in_interrupt = True, mutex_get_status = TX_SUCCESS, mutex_put_status = TX_SUCCESS\<rparr>"
     "one_file_state FX_OPEN_FOR_READ 0 []" one_file_filex 0 0 SEEK_SET "Some ''a''" None 0 None "\<lambda>_. True" None 0]
  by (simp add: refusal_def)



text \<open>C16: Reading an open stream again and again delivers the entries of its snapshot, each once
  and in the order FileX enumerated them, with inode numbers counted from one, and then the end of
  the directory for ever.\<close>

theorem readdir_enumerates_snapshot:
  assumes "calm env s" and "i < length (directories s)" and "ds_allocated (directories s ! i)"
    and "ds_position (directories s ! i) = 0"
  shows "\<exists>t. read_all env i n s = Some (Inr (map (dirent_at (ds_entries (directories s ! i))) [0..<n]), t)"
  using read_all_run [OF assms(2) _ assms(1,3), of 0] assms(4) by simp

theorem readdir_enumerates_snapshot_witness:
  "\<exists>t. read_all calm_env 0 2 ((one_file_state FX_OPEN_FOR_READ 0 [])\<lparr>directories :=
        [\<lparr>ds_allocated = True, ds_position = 0, ds_path = ''/flash'', ds_entries = [(''a'', DT_REG)], ds_entry = None\<rparr>]\<rparr>) =
     Some (Inr [Some \<lparr>d_ino = 1, d_type = DT_REG, d_name = ''a''\<rparr>, None], t)"
proof -
  let ?s = "(one_file_state FX_OPEN_FOR_READ 0 [])\<lparr>directories :=
        [\<lparr>ds_allocated = True, ds_position = 0, ds_path = ''/flash'', ds_entries = [(''a'', DT_REG)], ds_entry = None\<rparr>]\<rparr>"
  have "calm calm_env ?s" using one_file_state_simps(1) [of FX_OPEN_FOR_READ 0 "[]"] by (simp add: calm_def)
  moreover have "map (dirent_at [(''a'', DT_REG)]) [0..<2] = [Some \<lparr>d_ino = 1, d_type = DT_REG, d_name = ''a''\<rparr>, None]"
    by (simp add: dirent_at_def numeral_eq_Suc)
  ultimately show ?thesis using readdir_enumerates_snapshot [of calm_env ?s 0 2] by simp
qed

lemma hexadecimal_inj: "a < 16 \<Longrightarrow> b < 16 \<Longrightarrow> hexadecimal a = hexadecimal b \<Longrightarrow> a = b"
proof -
  have "\<forall>a\<in>set [0..<16]. \<forall>b\<in>set [0..<16]. hexadecimal a = hexadecimal b \<longrightarrow> a = b" by code_simp
  then show "a < 16 \<Longrightarrow> b < 16 \<Longrightarrow> hexadecimal a = hexadecimal b \<Longrightarrow> a = b" by auto
qed

lemma nibble_less: "unat (drop_bit n (x :: u32) AND 0xF) < 16"
proof -
  have "drop_bit n x AND mask 4 < 2 ^ 4" by (rule and_mask_less') simp
  then show ?thesis by (simp add: word_less_nat_alt mask_eq_exp_minus_1)
qed

lemma same_digits:
  assumes "\<And>n. n \<in> {0, 4, 8, 12, 16} \<Longrightarrow> drop_bit n (a :: u32) AND 0xF = drop_bit n b AND 0xF"
  shows "a AND 0xFFFFF = b AND 0xFFFFF"
proof (rule bit_word_eqI)
  fix k assume "k < LENGTH(32)"
  have nib: "bit a (n + j) = bit b (n + j)" if "n \<in> {0, 4, 8, 12, 16}" "j < 4" for n j
  proof -
    have "(drop_bit n a AND mask 4) = (drop_bit n b AND mask 4)"
      using assms [OF that(1)] by (simp add: mask_eq_exp_minus_1)
    then have "bit (drop_bit n a AND mask 4) j = bit (drop_bit n b AND mask 4) j" by simp
    then show ?thesis using that(2) by (simp add: bit_and_iff bit_mask_iff bit_drop_bit_eq ac_simps)
  qed
  have m: "(0xFFFFF :: u32) = mask 20" by (simp add: mask_eq_exp_minus_1)
  show "bit (a AND 0xFFFFF) k = bit (b AND 0xFFFFF) k"
  proof (cases "k < 20")
    case True
    then have "k div 4 < 5" by simp
    moreover have "q * 4 \<in> {0, 4, 8, 12, 16}" if "q < 5" for q :: nat
      using that by (auto simp: eval_nat_numeral less_Suc_eq)
    ultimately have "k div 4 * 4 \<in> {0, 4, 8, 12, 16}" by blast
    from nib [OF this, of "k mod 4"] have "bit a k = bit b k" by (simp add: div_mult_mod_eq)
    then show ?thesis by (simp add: bit_and_iff)
  qed (simp add: m bit_and_iff bit_mask_iff)
qed

text \<open>The backup names that rename tries are determined by the low 20 bits of the sequence
  number and distinct for distinct ones, so the 256 attempts try 256 different names.\<close>

theorem backup_names_distinct:
  "backup_name volume a = backup_name volume b \<longleftrightarrow> a AND 0xFFFFF = b AND 0xFFFFF"
proof
  assume "backup_name volume a = backup_name volume b"
  then have *: "hexadecimal (unat (drop_bit n a AND 0xF)) = hexadecimal (unat (drop_bit n b AND 0xF))"
    if "n \<in> {0, 4, 8, 12, 16}" for n
    using that by (auto simp: backup_name_def backup_digits_def upt_rec)
  show "a AND 0xFFFFF = b AND 0xFFFFF"
    by (rule same_digits) (metis * hexadecimal_inj nibble_less word_unat_eq_iff)
next
  assume eq: "a AND 0xFFFFF = b AND 0xFFFFF"
  have "drop_bit n a AND 0xF = drop_bit n b AND 0xF" if "n \<le> 16" for n
  proof -
    have "drop_bit n x AND 0xF = drop_bit n (x AND 0xFFFFF) AND 0xF" for x :: u32
    proof (rule bit_word_eqI)
      fix k assume "k < LENGTH(32)"
      have m: "(0xFFFFF :: u32) = mask 20" "(0xF :: u32) = mask 4" by (simp_all add: mask_eq_exp_minus_1)
      show "bit (drop_bit n x AND 0xF) k = bit (drop_bit n (x AND 0xFFFFF) AND 0xF) k"
        using that unfolding m by (auto simp: bit_and_iff bit_mask_iff bit_drop_bit_eq)
    qed
    then show ?thesis using eq by metis
  qed
  then show "backup_name volume a = backup_name volume b" by (simp add: backup_name_def backup_digits_def)
qed

section \<open>Timestamps\<close>

text \<open>
  What a FAT volume gives back for the date and time words of an entry: the fields of the words,
  the year counted from 1980 and the seconds in steps of two.
\<close>

definition fat_information :: "u32 \<Rightarrow> u32 \<Rightarrow> fx_information" where
  "fat_information date time = \<lparr>fi_attributes = 0, fi_size = 0,
     fi_year = drop_bit 9 date + 1980, fi_month = drop_bit 5 date AND 15, fi_day = date AND 31,
     fi_hour = drop_bit 11 time, fi_minute = drop_bit 5 time AND 63, fi_second = (time AND 31) * 2\<rparr>"

lemma small_bits:
  assumes "unat (w :: u32) < 2 ^ n" "bit w k" shows "k < n"
proof (rule ccontr)
  assume "\<not> k < n"
  then have "(2 :: nat) ^ n \<le> 2 ^ k" by simp
  with assms(1) have "unat w < 2 ^ k" by (rule less_le_trans)
  then have "unat w div 2 ^ k = 0" by simp
  moreover have "bit (unat w) k" using assms(2) by (simp add: bit_unsigned_iff)
  ultimately show False by (simp add: bit_iff_odd)
qed

lemma packed_fields:
  fixes a b c :: u32
  assumes "unat a < 2 ^ i" "unat b < 2 ^ j" "unat c < 2 ^ k" "i + j + k \<le> 32"
  shows "drop_bit (j + k) (push_bit (j + k) a OR push_bit k b OR c) = a"
    and "drop_bit k (push_bit (j + k) a OR push_bit k b OR c) AND mask j = b"
    and "(push_bit (j + k) a OR push_bit k b OR c) AND mask k = c"
proof -
  note bits = small_bits [OF assms(1)] small_bits [OF assms(2)] small_bits [OF assms(3)]
  show "drop_bit (j + k) (push_bit (j + k) a OR push_bit k b OR c) = a"
  proof (rule bit_word_eqI)
    fix n assume "n < LENGTH(32)"
    then show "bit (drop_bit (j + k) (push_bit (j + k) a OR push_bit k b OR c)) n = bit a n"
      using bits(1) [of n] bits(2) [of "j + n"] bits(3) [of "j + k + n"] assms(4)
      by (auto simp: bit_simps add.commute add.left_commute)
  qed
  show "drop_bit k (push_bit (j + k) a OR push_bit k b OR c) AND mask j = b"
  proof (rule bit_word_eqI)
    fix n assume "n < LENGTH(32)"
    then show "bit (drop_bit k (push_bit (j + k) a OR push_bit k b OR c) AND mask j) n = bit b n"
      using bits(2) [of n] bits(3) [of "k + n"] assms(4)
      by (auto simp: bit_simps)
  qed
  show "(push_bit (j + k) a OR push_bit k b OR c) AND mask k = c"
  proof (rule bit_word_eqI)
    fix n assume "n < LENGTH(32)"
    then show "bit ((push_bit (j + k) a OR push_bit k b OR c) AND mask k) n = bit c n"
      using bits(3) [of n] by (auto simp: bit_simps)
  qed
qed

lemma fat_date_fields:
  assumes "unat (y - 1980) < 128" "unat m < 16" "unat d < 32"
  shows "drop_bit 9 (fat_date y m d) = y - 1980" "drop_bit 5 (fat_date y m d) AND 15 = m" "fat_date y m d AND 31 = d"
  using packed_fields [of "y - 1980" 7 m 4 d 5] assms
  by (simp_all add: fat_date_def mask_eq_exp_minus_1)

lemma fat_time_fields:
  assumes "unat h < 32" "unat m < 64" "unat s < 64"
  shows "drop_bit 11 (fat_time h m s) = h" "drop_bit 5 (fat_time h m s) AND 63 = m" "fat_time h m s AND 31 = s div 2"
  using packed_fields [of h 5 m 6 "s div 2" 5] assms
  by (simp_all add: fat_time_def mask_eq_exp_minus_1 unat_div)

lemma unat_field: "0 \<le> k \<Longrightarrow> k < 4294967296 \<Longrightarrow> unat (word_of_int k :: u32) = nat k"
  by (rule unat_word_of_int) simp_all

lemma year_range:
  assumes "day_seconds 1980 1 1 \<le> t" "t < day_seconds 2108 1 1" "civil_from_days (t div 86400) = (y, m, d)"
  shows "1980 \<le> y" "y < 2108" "valid_date (y, m, d)" "days_from_civil y m d = t div 86400"
proof -
  have 1: "days_from_civil 1980 1 1 \<le> t div 86400"
    using assms(1) unfolding day_seconds_def by linarith
  have 2: "t div 86400 < days_from_civil 2108 1 1"
    using assms(2) unfolding day_seconds_def by linarith
  show "1980 \<le> y" "y < 2108" using year_of_range [OF 1 2 assms(3)] by simp_all
  show "valid_date (y, m, d)" "days_from_civil y m d = t div 86400"
    using civil_from_days_correct [of "t div 86400"] assms(3) by simp_all
qed

lemma time_fields:
  "(t :: int) div 86400 * 86400 + t mod 86400 div 3600 * 3600 + t mod 3600 div 60 * 60 + t mod 60 = t"
  "0 \<le> t mod 86400 div 3600 \<and> t mod 86400 div 3600 < 24" "0 \<le> t mod 3600 div 60 \<and> t mod 3600 div 60 < 60"
  "0 \<le> t mod 60 \<and> t mod 60 < 60"
proof -
  have sum: "q + h + m + u = x" if "x = q + r" "r = h + s" "s = m + u" for x q r h s m u :: int
    using that by simp
  have e2d: "(60 :: int) dvd 3600" and e1d: "(3600 :: int) dvd 86400" by simp_all
  have e1: "t mod 86400 = t mod 86400 div 3600 * 3600 + t mod 3600"
    by (metis div_mult_mod_eq mod_mod_cancel e1d)
  have e2: "t mod 3600 = t mod 3600 div 60 * 60 + t mod 60"
    by (metis div_mult_mod_eq mod_mod_cancel e2d)
  show "t div 86400 * 86400 + t mod 86400 div 3600 * 3600 + t mod 3600 div 60 * 60 + t mod 60 = t"
    by (rule sum [OF div_mult_mod_eq [symmetric] e1 e2])
  have b: "0 \<le> x \<Longrightarrow> x < 86400 \<Longrightarrow> 0 \<le> x div 3600 \<and> x div 3600 < 24"
    "0 \<le> x \<Longrightarrow> x < 3600 \<Longrightarrow> 0 \<le> x div 60 \<and> x div 60 < 60" for x :: int
    using zdiv_mono1 [of x 86399 3600] zdiv_mono1 [of x 3599 60] by (simp_all add: pos_imp_zdiv_nonneg_iff)
  show "0 \<le> t mod 86400 div 3600 \<and> t mod 86400 div 3600 < 24" "0 \<le> t mod 3600 div 60 \<and> t mod 3600 div 60 < 60"
    by (intro b; simp)+
qed simp

lemma fat_entry_fields:
  fixes Y M D H I S :: int
  assumes Y: "1980 \<le> Y" "Y < 2108" and M: "1 \<le> M" "M \<le> 12" and D: "1 \<le> D" "D \<le> 31"
    and H: "0 \<le> H \<and> H < 24" and I: "0 \<le> I \<and> I < 60" and S: "0 \<le> S \<and> S < 60"
    and fields: "y = word_of_int Y" "m = word_of_int M" "d = word_of_int D" "h = word_of_int H"
    "mi = word_of_int I" "s = word_of_int S"
  defines "info \<equiv> entry_information (fat_information (fat_date y m d) (fat_time h mi s))"
  shows "sint (ei_year info) = Y" "uint (ei_month info) = M" "uint (ei_day info) = D"
    "uint (ei_hour info) = H" "uint (ei_minute info) = I" "uint (ei_second info) = S div 2 * 2"
proof -
  have yd: "y - 1980 = word_of_int (Y - 1980)" unfolding fields(1) by simp
  have u: "unat (y - 1980) = nat (Y - 1980)" "unat m = nat M" "unat d = nat D" "unat h = nat H" "unat mi = nat I" "unat s = nat S"
    unfolding yd unfolding fields
    by (rule unat_field; use Y M D H I S in linarith)+
  have date: "drop_bit 9 (fat_date y m d) = y - 1980" "drop_bit 5 (fat_date y m d) AND 15 = m" "fat_date y m d AND 31 = d"
    by (rule fat_date_fields; use u Y M D in simp)+
  have time: "drop_bit 11 (fat_time h mi s) = h" "drop_bit 5 (fat_time h mi s) AND 63 = mi" "fat_time h mi s AND 31 = s div 2"
    by (rule fat_time_fields; use u H I S in auto)+
  have sec: "unat (s div 2 * 2) = nat S div 2 * 2"
  proof -
    have "nat S div 2 * 2 \<le> nat S" "nat S < 60" using S by (simp_all add: nat_less_iff)
    then have "nat S div 2 * 2 < 4294967296" by linarith
    then show ?thesis using u(6) by (simp add: unat_div unat_word_ariths)
  qed
  have bytes: "uint (ucast (w :: u32) :: u8) = k" if "unat w = nat k" "0 \<le> k" "k < 256" for w k
  proof -
    have "uint w = k" using that by (metis nat_eq_iff2 uint_nat)
    then show ?thesis using that(2,3) by (simp add: unsigned_ucast_eq take_bit_int_eq_self)
  qed
  show "uint (ei_month info) = M" "uint (ei_day info) = D" "uint (ei_hour info) = H" "uint (ei_minute info) = I"
    unfolding info_def entry_information_def fat_information_def by (simp add: date time; rule bytes; use u M D H I S in simp)+
  have half: "S div 2 < 128" using S by linarith
  have "unat (s div 2 * 2) = nat (S div 2 * 2)" using sec S by (simp add: nat_mult_distrib nat_div_distrib)
  then show "uint (ei_second info) = S div 2 * 2"
    unfolding info_def entry_information_def fat_information_def by (simp add: time; intro bytes; use S half in simp)
  have "ei_year info = ucast y" by (simp add: info_def entry_information_def fat_information_def date)
  also have "\<dots> = word_of_int Y" using Y unfolding fields(1) by (simp add: unsigned_of_int take_bit_int_eq_self)
  finally show "sint (ei_year info) = Y" using Y by (simp add: sint_sbintrunc' signed_take_bit_int_eq_self)
qed

text \<open>C18: For every time that \<^verbatim>\<open>utime\<close> accepts (1980 to 2107), the date and time words it stores
  in the open handles decode, under FAT's rules, to the same instant rounded down to two seconds:
  \<^verbatim>\<open>stat\<close> on such an entry reports exactly that time.\<close>

theorem utime_stat_roundtrip:
  assumes "day_seconds 1980 1 1 \<le> t" and "t < day_seconds 2108 1 1"
    and "calendar_fields t = (y, m, d, h, mi, s)"
  shows "st_mtime (fill_stat path (entry_information (fat_information (fat_date y m d) (fat_time h mi s)))) =
    t - t mod 2"
proof -
  let ?info = "entry_information (fat_information (fat_date y m d) (fat_time h mi s))"
  obtain Y M D where civil: "civil_from_days (t div 86400) = (Y, M, D)" by (metis prod.collapse)
  define H I S where "H = t mod 86400 div 3600" and "I = t mod 3600 div 60" and "S = t mod 60"
  have fields: "y = word_of_int Y" "m = word_of_int M" "d = word_of_int D" "h = word_of_int H"
    "mi = word_of_int I" "s = word_of_int S"
    using assms(3) civil by (simp_all add: calendar_fields_def H_def I_def S_def)
  note range = year_range [OF assms(1,2) civil]
  note HIS = time_fields [of t, folded H_def I_def S_def]
  have M: "1 \<le> M" "M \<le> 12" and D: "1 \<le> D" "D \<le> 31"
    using range(3) by (auto simp: valid_date_def days_in_month_def split: if_splits)
  have info: "sint (ei_year ?info) = Y" "uint (ei_month ?info) = M" "uint (ei_day ?info) = D"
    "uint (ei_hour ?info) = H" "uint (ei_minute ?info) = I" "uint (ei_second ?info) = S div 2 * 2"
    by (rule fat_entry_fields [OF range(1,2) M D HIS(2-4) fields])+
  have ok: "date_ok ?info" using range by (simp add: date_ok_def info)
  have "entry_timestamp ?info = t div 86400 * 86400 + H * 3600 + I * 60 + S div 2 * 2"
    by (simp add: entry_timestamp_def info range(4))
  moreover have "S div 2 * 2 = S - t mod 2"
    using mod_mod_cancel [of 2 60 t] minus_mod_eq_div_mult [of S 2] by (simp add: S_def)
  ultimately have "entry_timestamp ?info = t - t mod 2" using HIS(1) by simp
  with ok show ?thesis by (simp add: fill_stat_def)
qed

theorem utime_stat_roundtrip_witness:
  "calendar_fields 1000000001 = (2001, 9, 9, 1, 46, 41) \<and>
   st_mtime (fill_stat ''/flash/a'' (entry_information (fat_information (fat_date 2001 9 9) (fat_time 1 46 41)))) = 1000000000"
proof -
  have c: "calendar_fields 1000000001 = (2001, 9, 9, 1, 46, 41)" by code_simp
  have "day_seconds 1980 1 1 \<le> 1000000001" "1000000001 < day_seconds 2108 1 1" by code_simp+
  from utime_stat_roundtrip [OF this c, of "''/flash/a''"] c show ?thesis by simp
qed

section \<open>Start-up\<close>

lemma write_console_tables:
  "file = 1 \<or> file = 2 \<Longrightarrow> world_only (write_sys fx con env file buffer count)"
  unfolding write_sys_def Let_def by (auto intro!: fs_frame split: option.split)

text \<open>C19: Start-up from the initial state ends, when it returns, in one of two states: ready, with
  a volume mounted and its mount point (the flash one if it is there) as the current directory;
  or unavailable, with nothing mounted, which happens only in builds that do not require
  storage. A second initialisation changes nothing.\<close>

theorem initialization_outcome:
  assumes "runtime_filex_initialize fx con boot (initial_fs w) = Some s"
  shows "(filesystem_state s = Ready \<and> (\<exists>v. mounted s v \<and> current_directory s = mount_name v \<and>
        (mounted s Flash \<longrightarrow> v = Flash)) \<or>
      filesystem_state s = Unavailable \<and> (\<forall>v. \<not> mounted s v) \<and> \<not> boot_storage_required boot \<and>
        current_directory s = ''/'') \<and>
    runtime_filex_initialize fx con boot' s = Some s"
proof -
  define w1 where "w1 = initialize_filex_clock fx (boot_clock boot) (fx_system_initialize fx w)"
  obtain flash sd w2 where storage: "boot_storage boot w1 = ((flash, sd), w2)" by (metis prod.collapse)
  let ?s2 = "(initial_fs w)\<lparr>world := w2, flash_mounted := flash, sd_mounted := sd\<rparr>"
  have m: "mounted ?s2 v = (if v = Flash then flash else sd)" for v by (simp add: mounted_def)
  have status: "boot_mutex_status boot = TX_SUCCESS"
    using assms by (auto simp: runtime_filex_initialize_def initial_fs_def split: if_splits)
  show ?thesis
  proof (cases "flash \<or> sd")
    case True
    then have "s = ?s2\<lparr>current_directory := (if flash then ''/flash'' else ''/sd''), filesystem_state := Ready\<rparr>"
      using assms storage status m
      by (auto simp: runtime_filex_initialize_def w1_def [symmetric] initial_fs_def Let_def)
    then show ?thesis using True
      by (cases flash) (auto simp: mounted_def mount_name_def runtime_filex_initialize_def split: if_splits)
  next
    case False
    let ?s3 = "?s2\<lparr>filesystem_state := Unavailable\<rparr>"
    let ?env = "\<lparr>in_interrupt = False, mutex_get_status = TX_SUCCESS, mutex_put_status = TX_SUCCESS\<rparr>"
    from False have "\<not> boot_storage_required boot" and
      run: "map_option snd (write_sys fx con ?env 2 (Some (map of_char storage_warning)) (int (length storage_warning)) ?s3) = Some s"
      using assms storage status
      by (auto simp: runtime_filex_initialize_def w1_def [symmetric] initial_fs_def Let_def split: if_splits)
    obtain r where "write_sys fx con ?env 2 (Some (map of_char storage_warning)) (int (length storage_warning)) ?s3 = Some (r, s)"
      using run by auto
    moreover have "wp (write_sys fx con ?env 2 (Some (map of_char storage_warning)) (int (length storage_warning)))
        (\<lambda>_. same_tables ?s3) (\<lambda>_. same_tables ?s3) ?s3"
      by (rule wp_world_only [OF write_console_tables]) simp_all
    ultimately have "same_tables ?s3 s" using wp_result by (fastforce split: sum.splits)
    then show ?thesis using False \<open>\<not> boot_storage_required boot\<close>
      by (auto simp: same_tables_def mounted_def runtime_filex_initialize_def initial_fs_def)
  qed
qed

theorem initialization_outcome_witness:
  "\<exists>s. runtime_filex_initialize one_file_filex example_console example_boot
       (initial_fs \<lparr>of_bytes = [], of_offset = 0, of_open = False\<rparr>) = Some s \<and>
     filesystem_state s = Ready \<and> runtime_filex_initialize one_file_filex example_console example_boot s = Some s"
proof -
  obtain s where s: "runtime_filex_initialize one_file_filex example_console example_boot
       (initial_fs \<lparr>of_bytes = [], of_offset = 0, of_open = False\<rparr>) = Some s" "filesystem_state s = Ready"
    by (simp add: runtime_filex_initialize_def example_boot_def initial_fs_def mounted_def)
  from initialization_outcome [OF s(1), of example_boot] s show ?thesis by blast
qed

end
