(* ===== verification/Nor_Flash.thy ===== *)
theory Nor_Flash
  imports Nucleo_Prelude
begin

text \<open>
  The flash device of \<^verbatim>\<open>platform/runtime/libc/storage_media.cpp\<close>: the bounds policy of
  \<^verbatim>\<open>storage_media_policy.hpp\<close>, the two byte-level back ends (the W25Q128 behind the QSPI
  controller on the STM32, an image file on Linux) and the NOR driver LevelX calls. Sizes and
  offsets are natural numbers where the code checks them against 16 MiB before any arithmetic;
  the word-count product and the address difference of the NOR driver, which can wrap, are
  32-bit words as on the target. What both back ends promise is the locale \<open>nor_store\<close>.
\<close>

section \<open>Policy\<close>

definition valid_sector_range :: "u64 \<Rightarrow> u64 \<Rightarrow> u64 \<Rightarrow> u64 \<Rightarrow> bool" where
  "valid_sector_range sector hidden_sectors count capacity \<longleftrightarrow>
     hidden_sectors \<le> capacity \<and> sector \<le> capacity - hidden_sectors \<and>
     count \<le> capacity - hidden_sectors - sector"

lemma valid_sector_range_iff:
  "valid_sector_range sector hidden count capacity \<longleftrightarrow>
     unat hidden + unat sector + unat count \<le> unat capacity"
proof -
  have "unat (capacity - hidden) = unat capacity - unat hidden" if "hidden \<le> capacity"
    using that by (rule unat_sub)
  moreover have "unat (capacity - hidden - sector) = unat (capacity - hidden) - unat sector" if "sector \<le> capacity - hidden"
    using that by (rule unat_sub)
  ultimately show ?thesis
    unfolding valid_sector_range_def word_le_nat_alt by fastforce
qed

definition flash_bytes :: nat where "flash_bytes = 16777216"
definition erase_block_bytes :: nat where "erase_block_bytes = 4096"
definition flash_blocks :: nat where "flash_blocks = flash_bytes div erase_block_bytes"
definition verify_bytes :: nat where "verify_bytes = 512"
definition levelx_base_address :: u32 where "levelx_base_address = 0x90000000"

lemmas flash_geometry = flash_bytes_def erase_block_bytes_def flash_blocks_def verify_bytes_def

section \<open>Flash semantics\<close>

text \<open>Programming can only clear bits: \<open>clears old new\<close> when \<open>new\<close> needs no bit set.\<close>

definition clears :: "u8 list \<Rightarrow> u8 list \<Rightarrow> bool" where
  "clears old new \<longleftrightarrow> list_all2 (\<lambda>current input. current AND input = input) old new"

text \<open>\<open>slice xs n k\<close>: the \<open>k\<close> bytes at offset \<open>n\<close>.\<close>

abbreviation slice :: "'a list \<Rightarrow> nat \<Rightarrow> nat \<Rightarrow> 'a list" where
  "slice xs n k \<equiv> take k (drop n xs)"

definition program :: "u8 list \<Rightarrow> nat \<Rightarrow> u8 list \<Rightarrow> u8 list" where
  "program bytes offset data = overlay bytes offset (map2 (AND) (slice bytes offset (length data)) data)"

lemma map2_and_clears: "clears old new \<Longrightarrow> map2 (AND) old new = new"
  unfolding clears_def by (induction rule: list_all2_induct) auto

lemma program_clears: "clears (slice bytes offset (length data)) data \<Longrightarrow> program bytes offset data = overlay bytes offset data"
  by (simp add: program_def map2_and_clears)

lemma slice_overlay:
  "offset + length data \<le> length bytes \<Longrightarrow> slice (overlay bytes offset data) offset (length data) = data"
  by (simp add: overlay_def)

lemma slice_overlay_disjoint:
  assumes "offset + length data \<le> length bytes" "n + k \<le> offset \<or> offset + length data \<le> n"
  shows "slice (overlay bytes offset data) n k = slice bytes n k"
  using assms(2)
proof
  assume "n + k \<le> offset"
  moreover have "slice (xs @ ys) n k = slice xs n k" if "n + k \<le> length xs" for xs ys :: "'a list"
    using that by simp
  ultimately have "slice (overlay bytes offset data) n k = slice (take offset bytes) n k"
    using assms(1) by (simp add: overlay_def)
  also have "\<dots> = slice bytes n k" using \<open>n + k \<le> offset\<close> by (simp only: drop_take take_take min_def) simp
  finally show ?thesis .
next
  assume "offset + length data \<le> n"
  then obtain m where "n = offset + length data + m" using le_Suc_ex by blast
  then show ?thesis using assms(1) by (simp add: overlay_def min_def ac_simps)
qed

lemma length_program [simp]:
  "offset + length data \<le> length bytes \<Longrightarrow> length (program bytes offset data) = length bytes"
  by (simp add: program_def)

lemma program_append:
  assumes "offset + length a + length b \<le> length bytes"
  shows "program (program bytes offset a) (offset + length a) b = program bytes offset (a @ b)"
proof -
  let ?m = "\<lambda>n ys. map2 (AND) (slice bytes n (length ys)) ys"
  have "slice (program bytes offset a) (offset + length a) (length b) = slice bytes (offset + length a) (length b)"
    unfolding program_def using assms by (intro slice_overlay_disjoint) simp_all
  then have "program (program bytes offset a) (offset + length a) b =
      overlay (overlay bytes offset (?m offset a)) (offset + length (?m offset a)) (?m (offset + length a) b)"
    using assms by (simp add: program_def)
  also have "\<dots> = overlay bytes offset (?m offset a @ ?m (offset + length a) b)"
    using assms by (intro overlay_overlay_adjacent) simp
  also have "?m offset a @ ?m (offset + length a) b = ?m offset (a @ b)"
    using assms by (simp add: take_add zip_append ac_simps flip: map_append)
  finally show ?thesis by (simp add: program_def)
qed

text \<open>\<open>andalso m k\<close>: the short-circuit conjunction of two steps that report success.\<close>

definition andalso :: "('s \<Rightarrow> bool \<times> 's) \<Rightarrow> ('s \<Rightarrow> bool \<times> 's) \<Rightarrow> 's \<Rightarrow> bool \<times> 's" where
  "andalso m k s = (case m s of (succeeded, t) \<Rightarrow> if succeeded then k t else (False, t))"

section \<open>The image file\<close>

text \<open>
  A C stream opened for update: its bytes, its position, and how long the host lets the file
  grow. \<^verbatim>\<open>fseek\<close> to a representable offset succeeds, also past the end; \<^verbatim>\<open>fread\<close> stops at the
  end; \<^verbatim>\<open>fwrite\<close> fills a gap with zeroes and stops at the limit. A null \<^verbatim>\<open>FILE*\<close> is \<open>None\<close>.
\<close>

record stdio_file =
  sf_bytes :: "u8 list"
  sf_position :: nat
  sf_limit :: nat

definition fseek :: "nat \<Rightarrow> stdio_file \<Rightarrow> stdio_file" where
  "fseek offset f = f\<lparr>sf_position := offset\<rparr>"

definition fread :: "nat \<Rightarrow> stdio_file \<Rightarrow> u8 list \<times> stdio_file" where
  "fread n f = (let data = slice (sf_bytes f) (sf_position f) n
     in (data, f\<lparr>sf_position := sf_position f + length data\<rparr>))"

definition fwrite :: "u8 list \<Rightarrow> stdio_file \<Rightarrow> nat \<times> stdio_file" where
  "fwrite data f =
     (let stored = take (sf_limit f - sf_position f) data;
          padded = sf_bytes f @ replicate (sf_position f - length (sf_bytes f)) 0
      in if stored = [] then (0, f)
         else (length stored, f\<lparr>sf_bytes := overlay padded (sf_position f) stored,
                                sf_position := sf_position f + length stored\<rparr>))"

type_synonym image = "stdio_file option"

definition file_read :: "nat \<Rightarrow> nat \<Rightarrow> image \<Rightarrow> u8 list option \<times> image" where
  "file_read offset n file =
     (case file of
        None \<Rightarrow> (None, None)
      | Some f \<Rightarrow> (case fread n (fseek offset f) of
            (data, f') \<Rightarrow> (if length data = n then Some data else None, Some f')))"

definition file_write :: "nat \<Rightarrow> u8 list \<Rightarrow> image \<Rightarrow> bool \<times> image" where
  "file_write offset data file =
     (case file of
        None \<Rightarrow> (False, None)
      | Some f \<Rightarrow> (case fwrite data (fseek offset f) of
            (written, f') \<Rightarrow> (written = length data, Some f')))"

text \<open>The fill loop of \<open>open_image\<close>: \<open>fuel\<close> blocks of 4096 bytes from \<open>offset\<close>.\<close>

function fill_image :: "nat \<Rightarrow> u8 \<Rightarrow> nat \<Rightarrow> stdio_file \<Rightarrow> bool \<times> stdio_file" where
  "fill_image extent fill offset f =
     (if offset < extent then
        (let count = min erase_block_bytes (extent - offset) in
           case fwrite (replicate count fill) f of
             (written, f') \<Rightarrow>
               if written \<noteq> count then (False, f') else fill_image extent fill (offset + erase_block_bytes) f')
      else (True, f))"
  by pat_completeness auto
termination
  by (relation "measure (\<lambda>(extent, fill, offset, f). extent - offset)") (auto simp: erase_block_bytes_def)

declare fill_image.simps [simp del]

text \<open>
  \<open>open_image\<close>: the temporary directory as a map from paths to contents, \<open>name\<close> the path that
  \<^verbatim>\<open>snprintf\<close> produced (\<open>None\<close> when it does not fit), \<open>creatable\<close> whether \<^verbatim>\<open>fopen\<close> may create it.
  The result is success, the created flag and the stream.
\<close>

definition open_image ::
    "(string \<Rightarrow> u8 list option) \<Rightarrow> bool \<Rightarrow> nat \<Rightarrow> string option \<Rightarrow> nat \<Rightarrow> u8 \<Rightarrow> bool \<times> bool \<times> image" where
  "open_image directory creatable limit name extent fill =
     (case name of
        None \<Rightarrow> (False, False, None)
      | Some path \<Rightarrow>
          (case directory path of
             Some contents \<Rightarrow> (True, False, Some \<lparr>sf_bytes = contents, sf_position = 0, sf_limit = limit\<rparr>)
           | None \<Rightarrow>
               if \<not> creatable then (False, True, None)
               else
                 (case fill_image extent fill 0 \<lparr>sf_bytes = [], sf_position = 0, sf_limit = limit\<rparr> of
                    (succeeded, f) \<Rightarrow> (succeeded, True, Some f))))"

definition linux_qspi_read :: "nat \<Rightarrow> nat \<Rightarrow> image \<Rightarrow> u8 list option \<times> image" where
  "linux_qspi_read offset n nor_file =
     (if offset \<le> flash_bytes \<and> n \<le> flash_bytes - offset then file_read offset n nor_file
      else (None, nor_file))"

text \<open>The loop of \<open>qspi_write\<close> on Linux, in chunks of the 256-byte \<open>current\<close> buffer.\<close>

function linux_write_loop :: "nat \<Rightarrow> u8 list \<Rightarrow> image \<Rightarrow> bool \<times> image" where
  "linux_write_loop offset input nor_file =
     (if input = [] then (True, nor_file)
      else
        (let count = min (length input) 256; chunk = take count input in
           case file_read offset count nor_file of
             (None, f1) \<Rightarrow> (False, f1)
           | (Some current, f1) \<Rightarrow>
               if \<not> clears current chunk then (False, f1)
               else
                 (case file_write offset chunk f1 of
                    (succeeded, f2) \<Rightarrow>
                      if succeeded then linux_write_loop (offset + count) (drop count input) f2
                      else (False, f2))))"
  by pat_completeness auto
termination
  by (relation "measure (\<lambda>(offset, input, f). length input)") auto

declare linux_write_loop.simps [simp del]

definition linux_qspi_write :: "nat \<Rightarrow> u8 list \<Rightarrow> image \<Rightarrow> bool \<times> image" where
  "linux_qspi_write offset input nor_file =
     (if offset > flash_bytes \<or> length input > flash_bytes - offset then (False, nor_file)
      else linux_write_loop offset input nor_file)"

definition linux_qspi_erase :: "nat \<Rightarrow> image \<Rightarrow> bool \<times> image" where
  "linux_qspi_erase offset nor_file =
     (if offset < flash_bytes \<and> offset mod erase_block_bytes = 0
      then file_write offset (replicate erase_block_bytes 0xFF) nor_file
      else (False, nor_file))"

text \<open>An image of the right size that the host lets stand.\<close>

definition image_ready :: "nat \<Rightarrow> image \<Rightarrow> bool" where
  "image_ready capacity file \<longleftrightarrow> (\<exists>f. file = Some f \<and> length (sf_bytes f) = capacity \<and> capacity \<le> sf_limit f)"

definition image_bytes :: "image \<Rightarrow> u8 list" where
  "image_bytes file = (case file of None \<Rightarrow> [] | Some f \<Rightarrow> sf_bytes f)"

lemma file_read_run:
  assumes "image_ready capacity file" "offset + n \<le> capacity"
  shows "\<exists>img'. file_read offset n file = (Some (slice (image_bytes file) offset n), img') \<and>
    image_ready capacity img' \<and> image_bytes img' = image_bytes file"
  using assms by (auto simp: image_ready_def image_bytes_def file_read_def fread_def fseek_def Let_def)

lemma file_write_run:
  assumes "image_ready capacity file" "offset + length data \<le> capacity"
  shows "\<exists>img'. file_write offset data file = (True, img') \<and>
    image_ready capacity img' \<and> image_bytes img' = overlay (image_bytes file) offset data"
  using assms by (auto simp: image_ready_def image_bytes_def file_write_def fwrite_def fseek_def Let_def)

lemma fill_image_run:
  assumes "sf_position f = length (sf_bytes f)" "length (sf_bytes f) = min offset extent" "extent \<le> sf_limit f"
  shows "\<exists>f'. fill_image extent fill offset f = (True, f') \<and> sf_limit f' = sf_limit f \<and>
    sf_bytes f' = sf_bytes f @ replicate (extent - offset) fill"
  using assms
proof (induction extent fill offset f rule: fill_image.induct)
  case (1 extent fill offset f)
  show ?case
  proof (cases "offset < extent")
    case True
    define count where "count = min erase_block_bytes (extent - offset)"
    let ?f = "f\<lparr>sf_bytes := sf_bytes f @ replicate count fill, sf_position := sf_position f + count\<rparr>"
    have "0 < count" using True by (simp add: count_def erase_block_bytes_def)
    then have w: "fwrite (replicate count fill) f = (count, ?f)"
      using True "1.prems" by (auto simp: fwrite_def overlay_at_end count_def Let_def)
    have "\<exists>f'. fill_image extent fill (offset + erase_block_bytes) ?f = (True, f') \<and> sf_limit f' = sf_limit ?f \<and>
        sf_bytes f' = sf_bytes ?f @ replicate (extent - (offset + erase_block_bytes)) fill"
      by (rule "1.IH" [OF True refl, folded count_def, OF w [symmetric]])
        (use True "1.prems" in \<open>auto simp: count_def\<close>)
    moreover have "replicate count fill @ replicate (extent - (offset + erase_block_bytes)) fill = replicate (extent - offset) fill"
      using True by (simp add: count_def min_def flip: replicate_add)
    ultimately show ?thesis
      using True by (subst fill_image.simps) (simp add: w Let_def count_def [symmetric])
  next
    case False
    then show ?thesis by (subst fill_image.simps) simp
  qed
qed

lemma clears_append:
  "length a = length c \<Longrightarrow> clears (a @ b) (c @ d) \<longleftrightarrow> clears a c \<and> clears b d"
  by (simp add: clears_def list_all2_append)

lemma clears_split:
  assumes "offset + length input \<le> length bytes" "count \<le> length input"
  shows "clears (slice bytes offset (length input)) input \<longleftrightarrow>
    clears (slice bytes offset count) (take count input) \<and>
    clears (slice bytes (offset + count) (length input - count)) (drop count input)"
proof -
  have "slice bytes offset (length input) = slice bytes offset count @ slice bytes (offset + count) (length input - count)"
    using assms(2) by (metis add.commute drop_drop le_add_diff_inverse take_add)
  moreover have "length (slice bytes offset count) = length (take count input)" using assms by simp
  ultimately show ?thesis
    using clears_append [of "slice bytes offset count" "take count input"
        "slice bytes (offset + count) (length input - count)" "drop count input"]
    by simp
qed

text \<open>
  The loop succeeds exactly when the data clears bits only; when it fails, the chunks before
  the offending one are stored.
\<close>

lemma linux_write_loop_run:
  assumes "image_ready flash_bytes img" "offset + length input \<le> flash_bytes"
  shows "\<exists>img' k. linux_write_loop offset input img =
      (clears (slice (image_bytes img) offset (length input)) input, img') \<and>
    image_ready flash_bytes img' \<and> k \<le> length input \<and>
    image_bytes img' = overlay (image_bytes img) offset (take k input) \<and>
    (clears (slice (image_bytes img) offset (length input)) input \<longrightarrow> k = length input)"
  using assms
proof (induction offset input img rule: linux_write_loop.induct)
  case (1 offset input img)
  have len: "length (image_bytes img) = flash_bytes"
    using "1.prems"(1) by (auto simp: image_ready_def image_bytes_def)
  show ?case
  proof (cases "input = []")
    case True
    then show ?thesis using "1.prems" by (subst linux_write_loop.simps) (auto simp: clears_def)
  next
    case False
    define count where "count = min (length input) 256"
    let ?bytes = "image_bytes img" and ?chunk = "take count input"
    have count: "0 < count" "count \<le> length input" using False by (auto simp: count_def)
    obtain f1 where f1: "file_read offset count img = (Some (slice ?bytes offset count), f1)"
        "image_ready flash_bytes f1" "image_bytes f1 = ?bytes"
      using file_read_run [OF "1.prems"(1), of offset count] "1.prems"(2) count by auto
    note split = clears_split [of offset input ?bytes count, unfolded len, OF "1.prems"(2) count(2)]
    show ?thesis
    proof (cases "clears (slice ?bytes offset count) ?chunk")
      case no: False
      have "linux_write_loop offset input img = (False, f1)"
        using False no f1(1) by (subst linux_write_loop.simps) (simp add: Let_def count_def [symmetric])
      then show ?thesis using f1 no split by (intro exI [of _ f1] exI [of _ 0]) simp
    next
      case yes: True
      obtain f2 where f2: "file_write offset ?chunk f1 = (True, f2)" "image_ready flash_bytes f2"
          "image_bytes f2 = overlay ?bytes offset ?chunk"
        using file_write_run [OF f1(2), of offset ?chunk] "1.prems"(2) count f1(3) by auto
      have same: "slice (image_bytes f2) (offset + count) (length input - count) = slice ?bytes (offset + count) (length input - count)"
        unfolding f2(3) using "1.prems"(2) count len by (intro slice_overlay_disjoint) simp_all
      have "\<exists>img' k. linux_write_loop (offset + count) (drop count input) f2 =
          (clears (slice (image_bytes f2) (offset + count) (length (drop count input))) (drop count input), img') \<and>
        image_ready flash_bytes img' \<and> k \<le> length (drop count input) \<and>
        image_bytes img' = overlay (image_bytes f2) (offset + count) (take k (drop count input)) \<and>
        (clears (slice (image_bytes f2) (offset + count) (length (drop count input))) (drop count input) \<longrightarrow>
           k = length (drop count input))"
        by (rule "1.IH" [OF False count_def refl f1(1) [symmetric] refl, of True f2])
          (use yes f2 count "1.prems"(2) in simp_all)
      then obtain img' k where rest: "linux_write_loop (offset + count) (drop count input) f2 =
          (clears (slice ?bytes (offset + count) (length input - count)) (drop count input), img')"
          "image_ready flash_bytes img'" "k \<le> length input - count"
          "image_bytes img' = overlay (overlay ?bytes offset ?chunk) (offset + count) (take k (drop count input))"
          "clears (slice ?bytes (offset + count) (length input - count)) (drop count input) \<longrightarrow> k = length input - count"
        using same f2(3) by auto
      have "image_bytes img' = overlay ?bytes offset (?chunk @ take k (drop count input))"
        using rest(4) overlay_overlay_adjacent [of offset ?chunk ?bytes] len "1.prems"(2) count by simp
      also have "?chunk @ take k (drop count input) = take (count + k) input" by (simp add: take_add)
      finally have bytes: "image_bytes img' = overlay ?bytes offset (take (count + k) input)" .
      have "linux_write_loop offset input img = (clears (slice ?bytes offset (length input)) input, img')"
        using False yes f1(1) f2(1) rest(1) split
        by (subst linux_write_loop.simps) (simp add: Let_def count_def [symmetric])
      then show ?thesis using bytes rest(2,3,5) count split
        by (intro exI [of _ img'] exI [of _ "count + k"]) auto
    qed
  qed
qed

section \<open>The NOR driver\<close>

datatype lx_status = LX_SUCCESS | LX_ERROR | LX_SECTOR_NOT_FOUND | LX_OTHER nat

text \<open>The byte operations are arguments: the code selects one of two definitions per platform.\<close>

type_synonym 's byte_read = "nat \<Rightarrow> nat \<Rightarrow> 's \<Rightarrow> u8 list option \<times> 's"
type_synonym 's byte_write = "nat \<Rightarrow> u8 list \<Rightarrow> 's \<Rightarrow> bool \<times> 's"
type_synonym 's block_erase = "nat \<Rightarrow> 's \<Rightarrow> bool \<times> 's"

definition byte_offset :: "u32 \<Rightarrow> nat" where
  "byte_offset address = unat (address - levelx_base_address)"

definition nor_driver_read :: "'s byte_read \<Rightarrow> u32 \<Rightarrow> u32 \<Rightarrow> 's \<Rightarrow> (lx_status \<times> u8 list) \<times> 's" where
  "nor_driver_read qspi_read flash_address words s =
     (case qspi_read (byte_offset flash_address) (unat (words * 4)) s of
        (Some data, t) \<Rightarrow> ((LX_SUCCESS, data), t)
      | (None, t) \<Rightarrow> ((LX_ERROR, []), t))"

text \<open>\<open>source\<close> is what the pointer leads to; the first \<open>words * 4\<close> bytes of it are written.\<close>

definition nor_driver_write :: "'s byte_write \<Rightarrow> u32 \<Rightarrow> u8 list \<Rightarrow> u32 \<Rightarrow> 's \<Rightarrow> lx_status \<times> 's" where
  "nor_driver_write qspi_write flash_address source words s =
     (case qspi_write (byte_offset flash_address) (take (unat (words * 4)) source) s of
        (succeeded, t) \<Rightarrow> (if succeeded then LX_SUCCESS else LX_ERROR, t))"

definition nor_driver_erase :: "'s block_erase \<Rightarrow> u32 \<Rightarrow> 's \<Rightarrow> lx_status \<times> 's" where
  "nor_driver_erase qspi_erase block s =
     (if unat block < flash_blocks
      then (case qspi_erase (unat block * erase_block_bytes) s of
              (succeeded, t) \<Rightarrow> (if succeeded then LX_SUCCESS else LX_ERROR, t))
      else (LX_ERROR, s))"

primrec verify_chunks :: "'s byte_read \<Rightarrow> nat \<Rightarrow> nat list \<Rightarrow> 's \<Rightarrow> lx_status \<times> 's" where
  "verify_chunks qspi_read base [] s = (LX_SUCCESS, s)"
| "verify_chunks qspi_read base (offset # offsets) s =
     (case qspi_read (base + offset) verify_bytes s of
        (None, t) \<Rightarrow> (LX_ERROR, t)
      | (Some data, t) \<Rightarrow>
          if list_all (\<lambda>byte. byte = 0xFF) data then verify_chunks qspi_read base offsets t
          else (LX_ERROR, t))"

definition verify_offsets :: "nat list" where
  "verify_offsets = map (\<lambda>i. i * verify_bytes) [0..<erase_block_bytes div verify_bytes]"

definition nor_driver_verify :: "'s byte_read \<Rightarrow> u32 \<Rightarrow> 's \<Rightarrow> lx_status \<times> 's" where
  "nor_driver_verify qspi_read block s =
     (if unat block \<ge> flash_blocks then (LX_ERROR, s)
      else verify_chunks qspi_read (unat block * erase_block_bytes) verify_offsets s)"

section \<open>What a back end promises\<close>

text \<open>
  The contract between the byte operations and the driver: on a ready device, a read in range
  returns the bytes, a write that only clears bits stores its data, an erase sets its block to
  0xFF, and a request out of range is refused without touching the device.
\<close>

locale nor_store =
  fixes rd :: "'s byte_read" and wr :: "'s byte_write" and er :: "'s block_erase"
    and ready :: "'s \<Rightarrow> bool" and content :: "'s \<Rightarrow> u8 list"
  assumes ready_size: "ready s \<Longrightarrow> length (content s) = flash_bytes"
    and rd_in_range: "ready s \<Longrightarrow> offset + n \<le> flash_bytes \<Longrightarrow>
      \<exists>t. rd offset n s = (Some (slice (content s) offset n), t) \<and> ready t \<and> content t = content s"
    and rd_refused: "0 < n \<Longrightarrow> flash_bytes < offset + n \<Longrightarrow> rd offset n s = (None, s)"
    and wr_in_range: "ready s \<Longrightarrow> offset + length data \<le> flash_bytes \<Longrightarrow>
      clears (slice (content s) offset (length data)) data \<Longrightarrow>
      \<exists>t. wr offset data s = (True, t) \<and> ready t \<and> content t = overlay (content s) offset data"
    and wr_refused: "flash_bytes < offset + length data \<Longrightarrow> wr offset data s = (False, s)"
    and er_block: "ready s \<Longrightarrow> block < flash_blocks \<Longrightarrow>
      \<exists>t. er (block * erase_block_bytes) s = (True, t) \<and> ready t \<and>
        content t = overlay (content s) (block * erase_block_bytes) (replicate erase_block_bytes 0xFF)"
begin

lemma verify_chunks_run:
  assumes "ready s" and "\<forall>offset \<in> set offsets. base + offset + verify_bytes \<le> flash_bytes"
  shows "\<exists>t. verify_chunks rd base offsets s =
      (if \<forall>offset \<in> set offsets. \<forall>byte \<in> set (slice (content s) (base + offset) verify_bytes). byte = 0xFF
       then LX_SUCCESS else LX_ERROR, t) \<and> ready t \<and> content t = content s"
  using assms
proof (induction offsets arbitrary: s)
  case (Cons offset offsets)
  obtain t where t: "rd (base + offset) verify_bytes s = (Some (slice (content s) (base + offset) verify_bytes), t)"
      "ready t" "content t = content s"
    using rd_in_range [OF Cons.prems(1), of "base + offset" verify_bytes] Cons.prems(2) by auto
  then show ?case
    using Cons.IH [OF t(2)] Cons.prems(2) by (auto simp: list_all_iff)
qed simp

lemma block_in_flash: "block < flash_blocks \<Longrightarrow> block * erase_block_bytes + erase_block_bytes \<le> flash_bytes"
  by (auto simp: flash_geometry)

lemma chunk_in_block: "offset \<in> set verify_offsets \<Longrightarrow> offset + verify_bytes \<le> erase_block_bytes"
  by (auto simp: verify_offsets_def flash_geometry)

text \<open>Verification reads every byte of the block.\<close>

lemma verify_run:
  assumes "ready s" "unat block < flash_blocks"
  shows "\<exists>t. nor_driver_verify rd block s =
      (if slice (content s) (unat block * erase_block_bytes) erase_block_bytes = replicate erase_block_bytes 0xFF
       then LX_SUCCESS else LX_ERROR, t) \<and> ready t \<and> content t = content s"
proof -
  let ?base = "unat block * erase_block_bytes" and ?block = "slice (content s) (unat block * erase_block_bytes) erase_block_bytes"
  note fits = block_in_flash [OF assms(2)]
  have len: "length ?block = erase_block_bytes" using fits ready_size [OF assms(1)] by simp
  have at: "?block ! i = content s ! (?base + i)" if "i < erase_block_bytes" for i
    using that fits ready_size [OF assms(1)] by simp
  have "(\<forall>offset \<in> set verify_offsets. \<forall>byte \<in> set (slice (content s) (?base + offset) verify_bytes). byte = 0xFF)
      \<longleftrightarrow> (\<forall>i < erase_block_bytes. content s ! (?base + i) = 0xFF)" (is "?L \<longleftrightarrow> ?R")
  proof
    assume L: ?L
    show ?R
    proof (intro allI impI)
      fix i assume i: "i < erase_block_bytes"
      let ?o = "i div verify_bytes * verify_bytes"
      have o: "?o \<in> set verify_offsets" using i by (auto simp: verify_offsets_def flash_geometry)
      have j: "i mod verify_bytes < verify_bytes" "?o + i mod verify_bytes = i" by (simp_all add: verify_bytes_def)
      have "slice (content s) (?base + ?o) verify_bytes ! (i mod verify_bytes) = content s ! (?base + ?o + i mod verify_bytes)"
        using j chunk_in_block [OF o] fits ready_size [OF assms(1)] by (subst nth_take) (auto intro: nth_drop)
      moreover have "slice (content s) (?base + ?o) verify_bytes ! (i mod verify_bytes) \<in> set (slice (content s) (?base + ?o) verify_bytes)"
        using j chunk_in_block [OF o] fits ready_size [OF assms(1)] by (intro nth_mem) simp
      ultimately show "content s ! (?base + i) = 0xFF" using L o j(2) by (metis add.assoc)
    qed
  next
    assume R: ?R
    show ?L
    proof (intro ballI)
      fix offset byte assume o: "offset \<in> set verify_offsets" and "byte \<in> set (slice (content s) (?base + offset) verify_bytes)"
      then obtain j where "j < verify_bytes" "byte = content s ! (?base + offset + j)"
        using fits chunk_in_block [OF o] ready_size [OF assms(1)] by (auto simp: in_set_conv_nth)
      then show "byte = 0xFF" using R chunk_in_block [OF o] by (simp add: add.assoc)
    qed
  qed
  also have "\<dots> \<longleftrightarrow> ?block = replicate erase_block_bytes 0xFF"
    using at len by (auto simp: list_eq_iff_nth_eq)
  finally show ?thesis
    using verify_chunks_run [OF assms(1), of verify_offsets ?base] chunk_in_block fits assms(2)
    by (fastforce simp: nor_driver_verify_def)
qed

lemma erase_verify:
  assumes "ready s" "unat block < flash_blocks"
  shows "\<exists>t u. nor_driver_erase er block s = (LX_SUCCESS, t) \<and> nor_driver_verify rd block t = (LX_SUCCESS, u) \<and>
    content u = overlay (content s) (unat block * erase_block_bytes) (replicate erase_block_bytes 0xFF)"
proof -
  obtain t where t: "er (unat block * erase_block_bytes) s = (True, t)" "ready t"
      "content t = overlay (content s) (unat block * erase_block_bytes) (replicate erase_block_bytes 0xFF)"
    using er_block [OF assms] by blast
  have "slice (content t) (unat block * erase_block_bytes) erase_block_bytes = replicate erase_block_bytes 0xFF"
    unfolding t(3) using slice_overlay [of "unat block * erase_block_bytes" "replicate erase_block_bytes (0xFF :: u8)" "content s"]
      block_in_flash [OF assms(2)] ready_size [OF assms(1)] by simp
  then show ?thesis
    using verify_run [OF t(2) assms(2)] t assms(2) by (auto simp: nor_driver_erase_def)
qed

lemma write_read:
  assumes "ready s" "unat (words * 4) = length data" "byte_offset address + length data \<le> flash_bytes"
    and "clears (slice (content s) (byte_offset address) (length data)) data"
  shows "\<exists>t u. nor_driver_write wr address data words s = (LX_SUCCESS, t) \<and>
    nor_driver_read rd address words t = ((LX_SUCCESS, data), u) \<and>
    content u = overlay (content s) (byte_offset address) data"
proof -
  obtain t where t: "wr (byte_offset address) data s = (True, t)" "ready t"
      "content t = overlay (content s) (byte_offset address) data"
    using wr_in_range [OF assms(1,3,4)] by blast
  obtain u where "rd (byte_offset address) (length data) t = (Some (slice (content t) (byte_offset address) (length data)), u)"
      "content u = content t"
    using rd_in_range [OF t(2) assms(3)] by blast
  moreover have "slice (content t) (byte_offset address) (length data) = data"
    unfolding t(3) using assms(3) ready_size [OF assms(1)] by (intro slice_overlay) simp
  ultimately show ?thesis
    using t assms(2) by (simp add: nor_driver_write_def nor_driver_read_def)
qed

lemma write_refused:
  assumes "flash_bytes < byte_offset address + length data" "unat (words * 4) = length data"
  shows "nor_driver_write wr address data words s = (LX_ERROR, s)"
  using assms wr_refused by (simp add: nor_driver_write_def)

end

text \<open>The image file keeps the contract.\<close>

interpretation linux_nor: nor_store linux_qspi_read linux_qspi_write linux_qspi_erase "image_ready flash_bytes" image_bytes
proof unfold_locales
  show "length (image_bytes s) = flash_bytes" if "image_ready flash_bytes s" for s
    using that by (auto simp: image_ready_def image_bytes_def)
next
  fix s :: image and offset n :: nat
  assume "image_ready flash_bytes s" "offset + n \<le> flash_bytes"
  then show "\<exists>t. linux_qspi_read offset n s = (Some (slice (image_bytes s) offset n), t) \<and>
      image_ready flash_bytes t \<and> image_bytes t = image_bytes s"
    using file_read_run by (auto simp: linux_qspi_read_def)
next
  fix s :: image and offset :: nat and data
  assume "image_ready flash_bytes s" "offset + length data \<le> flash_bytes"
    "clears (slice (image_bytes s) offset (length data)) data"
  then show "\<exists>t. linux_qspi_write offset data s = (True, t) \<and> image_ready flash_bytes t \<and>
      image_bytes t = overlay (image_bytes s) offset data"
    using linux_write_loop_run [of s offset data] by (auto simp: linux_qspi_write_def)
next
  fix s :: image and block :: nat
  assume "image_ready flash_bytes s" "block < flash_blocks"
  moreover from this have "block * erase_block_bytes + erase_block_bytes \<le> flash_bytes" by (auto simp: flash_geometry)
  ultimately show "\<exists>t. linux_qspi_erase (block * erase_block_bytes) s = (True, t) \<and> image_ready flash_bytes t \<and>
      image_bytes t = overlay (image_bytes s) (block * erase_block_bytes) (replicate erase_block_bytes 0xFF)"
    using file_write_run [of flash_bytes s "block * erase_block_bytes" "replicate erase_block_bytes 0xFF"]
    by (auto simp: linux_qspi_erase_def erase_block_bytes_def)
qed (auto simp: linux_qspi_read_def linux_qspi_write_def)

end
