(* ===== verification/Qspi_Flash.thy ===== *)
theory Qspi_Flash
  imports Nor_Flash
begin

text \<open>
  The STM32 back end of the flash device in \<^verbatim>\<open>storage_media.cpp\<close>: QSPI commands to the
  W25Q128. The HAL and the chip behind it are a record of functions over an opaque world; the
  documented behaviour of the chip is \<open>chip_laws\<close>, under which the page-splitting write, the
  read and the erase keep the contract \<open>nor_store\<close>.
\<close>

section \<open>Commands\<close>

datatype hal_status = HAL_OK | HAL_ERROR | HAL_BUSY | HAL_TIMEOUT

primrec hal_status_value :: "hal_status \<Rightarrow> u32" where
  "hal_status_value HAL_OK = 0"
| "hal_status_value HAL_ERROR = 1"
| "hal_status_value HAL_BUSY = 2"
| "hal_status_value HAL_TIMEOUT = 3"

datatype qspi_lines = QSPI_NONE | QSPI_1_LINE | QSPI_4_LINES

text \<open>The fields of \<^verbatim>\<open>QSPI_CommandTypeDef\<close> that differ between commands; the others are constants.\<close>

record qspi_frame =
  q_instruction :: u32
  q_address :: u32
  q_address_mode :: qspi_lines
  q_data_mode :: qspi_lines
  q_count :: u32
  q_dummy_cycles :: u32

definition w25q_write_enable :: u32 where "w25q_write_enable = 0x06"
definition w25q_read_status_1 :: u32 where "w25q_read_status_1 = 0x05"
definition w25q_read_status_2 :: u32 where "w25q_read_status_2 = 0x35"
definition w25q_write_status :: u32 where "w25q_write_status = 0x01"
definition w25q_read_jedec_id :: u32 where "w25q_read_jedec_id = 0x9F"
definition w25q_reset_enable :: u32 where "w25q_reset_enable = 0x66"
definition w25q_reset :: u32 where "w25q_reset = 0x99"
definition w25q_fast_read :: u32 where "w25q_fast_read = 0x0B"
definition w25q_quad_page_program :: u32 where "w25q_quad_page_program = 0x32"
definition w25q_sector_erase :: u32 where "w25q_sector_erase = 0x20"

lemmas w25q_instructions =
  w25q_write_enable_def w25q_read_status_1_def w25q_read_status_2_def w25q_write_status_def
  w25q_read_jedec_id_def w25q_reset_enable_def w25q_reset_def w25q_fast_read_def
  w25q_quad_page_program_def w25q_sector_erase_def

text \<open>
  \<^verbatim>\<open>HAL_QSPI_Receive\<close> delivers the bytes the last command asked for; \<^verbatim>\<open>HAL_QSPI_AutoPolling\<close>
  gets the polling mask and match value and waits for the busy bit to clear.
\<close>

record 'c qspi_hal =
  HAL_QSPI_Command :: "qspi_frame \<Rightarrow> 'c \<Rightarrow> hal_status \<times> 'c"
  HAL_QSPI_Receive :: "'c \<Rightarrow> (hal_status \<times> u8 list) \<times> 'c"
  HAL_QSPI_Transmit :: "u8 list \<Rightarrow> 'c \<Rightarrow> hal_status \<times> 'c"
  HAL_QSPI_AutoPolling :: "qspi_frame \<Rightarrow> u32 \<Rightarrow> u32 \<Rightarrow> 'c \<Rightarrow> hal_status \<times> 'c"
  qspi_ErrorCode :: "'c \<Rightarrow> u32"
  MX_QUADSPI_Init :: "'c \<Rightarrow> 'c"
  HAL_Delay :: "u32 \<Rightarrow> 'c \<Rightarrow> 'c"

text \<open>The chip and the two diagnostics fields these functions write.\<close>

record 'c qspi =
  chip :: 'c
  qspi_error :: u32
  flash_jedec_id :: u32

definition record_error :: "'c qspi_hal \<Rightarrow> hal_status \<Rightarrow> 'c qspi \<Rightarrow> 'c qspi" where
  "record_error hal status s = s\<lparr>qspi_error :=
     (if qspi_ErrorCode hal (chip s) \<noteq> 0 then qspi_ErrorCode hal (chip s) else hal_status_value status)\<rparr>"

text \<open>A HAL call whose failure goes into the diagnostics.\<close>

definition hal_step :: "'c qspi_hal \<Rightarrow> ('c \<Rightarrow> hal_status \<times> 'c) \<Rightarrow> 'c qspi \<Rightarrow> bool \<times> 'c qspi" where
  "hal_step hal f s =
     (case f (chip s) of (status, c) \<Rightarrow>
        let t = s\<lparr>chip := c\<rparr> in
          if status \<noteq> HAL_OK then (False, record_error hal status t) else (True, t))"

definition qspi_command ::
    "'c qspi_hal \<Rightarrow> u32 \<Rightarrow> u32 \<Rightarrow> qspi_lines \<Rightarrow> qspi_lines \<Rightarrow> u32 \<Rightarrow> u32 \<Rightarrow> 'c qspi \<Rightarrow> bool \<times> 'c qspi" where
  "qspi_command hal instruction address address_mode data_mode count dummy_cycles =
     hal_step hal (HAL_QSPI_Command hal
       \<lparr>q_instruction = instruction, q_address = address, q_address_mode = address_mode,
        q_data_mode = data_mode, q_count = count, q_dummy_cycles = dummy_cycles\<rparr>)"

definition qspi_simple :: "'c qspi_hal \<Rightarrow> u32 \<Rightarrow> 'c qspi \<Rightarrow> bool \<times> 'c qspi" where
  "qspi_simple hal instruction = qspi_command hal instruction 0 QSPI_NONE QSPI_NONE 0 0"

definition qspi_receive :: "'c qspi_hal \<Rightarrow> 'c qspi \<Rightarrow> u8 list option \<times> 'c qspi" where
  "qspi_receive hal s =
     (case HAL_QSPI_Receive hal (chip s) of ((status, data), c) \<Rightarrow>
        let t = s\<lparr>chip := c\<rparr> in
          if status \<noteq> HAL_OK then (None, record_error hal status t) else (Some data, t))"

definition qspi_read_register :: "'c qspi_hal \<Rightarrow> u32 \<Rightarrow> 'c qspi \<Rightarrow> u8 option \<times> 'c qspi" where
  "qspi_read_register hal instruction s =
     (case qspi_command hal instruction 0 QSPI_NONE QSPI_1_LINE 1 0 s of
        (False, t) \<Rightarrow> (None, t)
      | (True, t) \<Rightarrow> (case qspi_receive hal t of (data, u) \<Rightarrow> (map_option hd data, u)))"

definition qspi_wait_ready :: "'c qspi_hal \<Rightarrow> 'c qspi \<Rightarrow> bool \<times> 'c qspi" where
  "qspi_wait_ready hal =
     hal_step hal (HAL_QSPI_AutoPolling hal
       \<lparr>q_instruction = w25q_read_status_1, q_address = 0, q_address_mode = QSPI_NONE,
        q_data_mode = QSPI_1_LINE, q_count = 1, q_dummy_cycles = 0\<rparr> 1 0)"

definition qspi_write_enable :: "'c qspi_hal \<Rightarrow> 'c qspi \<Rightarrow> bool \<times> 'c qspi" where
  "qspi_write_enable hal = qspi_simple hal w25q_write_enable"

definition stm32_qspi_read :: "'c qspi_hal \<Rightarrow> nat \<Rightarrow> nat \<Rightarrow> 'c qspi \<Rightarrow> u8 list option \<times> 'c qspi" where
  "stm32_qspi_read hal offset n s =
     (if offset > flash_bytes \<or> n > flash_bytes - offset \<or> n = 0
      then (if n = 0 then Some [] else None, s)
      else
        (case qspi_command hal w25q_fast_read (of_nat offset) QSPI_1_LINE QSPI_1_LINE (of_nat n) 8 s of
           (False, t) \<Rightarrow> (None, t)
         | (True, t) \<Rightarrow> qspi_receive hal t))"

definition program_page :: "'c qspi_hal \<Rightarrow> nat \<Rightarrow> u8 list \<Rightarrow> 'c qspi \<Rightarrow> bool \<times> 'c qspi" where
  "program_page hal offset page =
     andalso (qspi_write_enable hal)
       (andalso (qspi_command hal w25q_quad_page_program (of_nat offset) QSPI_1_LINE QSPI_4_LINES (of_nat (length page)) 0)
          (andalso (hal_step hal (HAL_QSPI_Transmit hal page)) (qspi_wait_ready hal)))"

function stm32_write_loop :: "'c qspi_hal \<Rightarrow> nat \<Rightarrow> u8 list \<Rightarrow> 'c qspi \<Rightarrow> bool \<times> 'c qspi" where
  "stm32_write_loop hal offset input s =
     (if input = [] then (True, s)
      else
        (let page_bytes = min (length input) (256 - offset mod 256) in
           andalso (program_page hal offset (take page_bytes input))
             (stm32_write_loop hal (offset + page_bytes) (drop page_bytes input)) s))"
  by pat_completeness auto
termination
proof (relation "measure (\<lambda>(hal, offset, input, s). length input)")
qed (auto simp: Let_def)

declare stm32_write_loop.simps [simp del]

definition stm32_qspi_write :: "'c qspi_hal \<Rightarrow> nat \<Rightarrow> u8 list \<Rightarrow> 'c qspi \<Rightarrow> bool \<times> 'c qspi" where
  "stm32_qspi_write hal offset input s =
     (if offset > flash_bytes \<or> length input > flash_bytes - offset then (False, s)
      else stm32_write_loop hal offset input s)"

definition stm32_qspi_erase :: "'c qspi_hal \<Rightarrow> nat \<Rightarrow> 'c qspi \<Rightarrow> bool \<times> 'c qspi" where
  "stm32_qspi_erase hal offset s =
     (if offset < flash_bytes \<and> offset mod erase_block_bytes = 0
      then andalso (qspi_write_enable hal)
             (andalso (qspi_command hal w25q_sector_erase (of_nat offset) QSPI_1_LINE QSPI_NONE 0 0)
                (qspi_wait_ready hal)) s
      else (False, s))"

section \<open>Bringing the chip up\<close>

definition fail_with_error_code :: "'c qspi_hal \<Rightarrow> 'c qspi \<Rightarrow> bool \<times> 'c qspi" where
  "fail_with_error_code hal s = (False, s\<lparr>qspi_error := qspi_ErrorCode hal (chip s)\<rparr>)"

text \<open>A HAL call whose status is tested directly, without a diagnostics entry.\<close>

definition hal_test :: "('c \<Rightarrow> hal_status \<times> 'c) \<Rightarrow> 'c qspi \<Rightarrow> bool \<times> 'c qspi" where
  "hal_test f s = (case f (chip s) of (status, c) \<Rightarrow> (status = HAL_OK, s\<lparr>chip := c\<rparr>))"

definition read_jedec_id :: "'c qspi_hal \<Rightarrow> 'c qspi \<Rightarrow> u8 list option \<times> 'c qspi" where
  "read_jedec_id hal s =
     (case qspi_command hal w25q_read_jedec_id 0 QSPI_NONE QSPI_1_LINE 3 0 s of
        (False, t) \<Rightarrow> (None, t)
      | (True, t) \<Rightarrow> (case HAL_QSPI_Receive hal (chip t) of ((status, data), c) \<Rightarrow>
            (if status = HAL_OK then Some data else None, t\<lparr>chip := c\<rparr>)))"

definition jedec_word :: "u8 list \<Rightarrow> u32" where
  "jedec_word jedec = push_bit 16 (ucast (jedec ! 0)) OR push_bit 8 (ucast (jedec ! 1)) OR ucast (jedec ! 2)"

definition quad_enabled :: "'c qspi_hal \<Rightarrow> 'c qspi \<Rightarrow> bool \<times> 'c qspi" where
  "quad_enabled hal s =
     (case qspi_read_register hal w25q_read_status_2 s of
        (None, t) \<Rightarrow> (False, t)
      | (Some status_2, t) \<Rightarrow> (status_2 AND 0x02 \<noteq> 0, t))"

definition enable_quad :: "'c qspi_hal \<Rightarrow> u8 \<Rightarrow> u8 \<Rightarrow> 'c qspi \<Rightarrow> bool \<times> 'c qspi" where
  "enable_quad hal status_1 status_2 s =
     (case andalso (qspi_write_enable hal)
             (andalso (qspi_command hal w25q_write_status 0 QSPI_NONE QSPI_1_LINE 2 0)
                (andalso (hal_test (HAL_QSPI_Transmit hal [status_1, status_2 OR 0x02]))
                   (andalso (qspi_wait_ready hal) (quad_enabled hal)))) s of
        (True, t) \<Rightarrow> (True, t)
      | (False, t) \<Rightarrow> fail_with_error_code hal t)"

definition initialize_qspi :: "'c qspi_hal \<Rightarrow> 'c qspi \<Rightarrow> bool \<times> 'c qspi" where
  "initialize_qspi hal s =
     (case andalso (qspi_simple hal w25q_reset_enable) (qspi_simple hal w25q_reset)
             (s\<lparr>chip := MX_QUADSPI_Init hal (chip s)\<rparr>) of
        (False, t) \<Rightarrow> (False, t)
      | (True, t) \<Rightarrow>
          (case read_jedec_id hal (t\<lparr>chip := HAL_Delay hal 1 (chip t)\<rparr>) of
             (None, u) \<Rightarrow> fail_with_error_code hal u
           | (Some jedec, u) \<Rightarrow>
               let v = u\<lparr>flash_jedec_id := jedec_word jedec\<rparr> in
                 if jedec \<noteq> [0xEF, 0x40, 0x18] then (False, v\<lparr>qspi_error := 0xBAD00001\<rparr>)
                 else
                   (case qspi_read_register hal w25q_read_status_1 v of
                      (None, w) \<Rightarrow> (False, w)
                    | (Some status_1, w) \<Rightarrow>
                        (case qspi_read_register hal w25q_read_status_2 w of
                           (None, x) \<Rightarrow> (False, x)
                         | (Some status_2, x) \<Rightarrow>
                             if status_2 AND 0x02 = 0 then enable_quad hal status_1 status_2 x
                             else (True, x)))))"

section \<open>The chip\<close>

text \<open>
  \<open>idle c\<close>: no operation in progress, quad mode on; \<open>enabled c\<close>: the write-enable latch is
  set; \<open>bytes c\<close>: the contents. A page program must stay within its 256-byte page (the chip
  wraps around otherwise), so the law says nothing about one that does not.
\<close>

definition enable_law :: "'c qspi_hal \<Rightarrow> ('c \<Rightarrow> bool) \<Rightarrow> ('c \<Rightarrow> bool) \<Rightarrow> ('c \<Rightarrow> u8 list) \<Rightarrow> 'c \<Rightarrow> bool" where
  "enable_law hal idle enabled bytes c =
     (case HAL_QSPI_Command hal \<lparr>q_instruction = w25q_write_enable, q_address = 0, q_address_mode = QSPI_NONE,
             q_data_mode = QSPI_NONE, q_count = 0, q_dummy_cycles = 0\<rparr> c of
        (status, c') \<Rightarrow> status = HAL_OK \<and> idle c' \<and> enabled c' \<and> bytes c' = bytes c)"

definition read_law :: "'c qspi_hal \<Rightarrow> ('c \<Rightarrow> bool) \<Rightarrow> ('c \<Rightarrow> u8 list) \<Rightarrow> 'c \<Rightarrow> nat \<Rightarrow> nat \<Rightarrow> bool" where
  "read_law hal idle bytes c offset n =
     (case HAL_QSPI_Command hal \<lparr>q_instruction = w25q_fast_read, q_address = of_nat offset,
             q_address_mode = QSPI_1_LINE, q_data_mode = QSPI_1_LINE, q_count = of_nat n, q_dummy_cycles = 8\<rparr> c of
        (status, c1) \<Rightarrow> status = HAL_OK \<and>
          (case HAL_QSPI_Receive hal c1 of
             ((status, data), c2) \<Rightarrow> status = HAL_OK \<and> data = slice (bytes c) offset n \<and> idle c2 \<and> bytes c2 = bytes c))"

definition polling_law :: "'c qspi_hal \<Rightarrow> ('c \<Rightarrow> bool) \<Rightarrow> ('c \<Rightarrow> u8 list) \<Rightarrow> u8 list \<Rightarrow> 'c \<Rightarrow> bool" where
  "polling_law hal idle bytes result c =
     (case HAL_QSPI_AutoPolling hal \<lparr>q_instruction = w25q_read_status_1, q_address = 0, q_address_mode = QSPI_NONE,
             q_data_mode = QSPI_1_LINE, q_count = 1, q_dummy_cycles = 0\<rparr> 1 0 c of
        (status, c') \<Rightarrow> status = HAL_OK \<and> idle c' \<and> bytes c' = result)"

definition program_law :: "'c qspi_hal \<Rightarrow> ('c \<Rightarrow> bool) \<Rightarrow> ('c \<Rightarrow> u8 list) \<Rightarrow> 'c \<Rightarrow> nat \<Rightarrow> u8 list \<Rightarrow> bool" where
  "program_law hal idle bytes c offset data =
     (case HAL_QSPI_Command hal \<lparr>q_instruction = w25q_quad_page_program, q_address = of_nat offset,
             q_address_mode = QSPI_1_LINE, q_data_mode = QSPI_4_LINES, q_count = of_nat (length data),
             q_dummy_cycles = 0\<rparr> c of
        (status, c1) \<Rightarrow> status = HAL_OK \<and>
          (case HAL_QSPI_Transmit hal data c1 of
             (status, c2) \<Rightarrow> status = HAL_OK \<and> polling_law hal idle bytes (program (bytes c) offset data) c2))"

definition erase_law :: "'c qspi_hal \<Rightarrow> ('c \<Rightarrow> bool) \<Rightarrow> ('c \<Rightarrow> u8 list) \<Rightarrow> 'c \<Rightarrow> nat \<Rightarrow> bool" where
  "erase_law hal idle bytes c offset =
     (case HAL_QSPI_Command hal \<lparr>q_instruction = w25q_sector_erase, q_address = of_nat offset,
             q_address_mode = QSPI_1_LINE, q_data_mode = QSPI_NONE, q_count = 0, q_dummy_cycles = 0\<rparr> c of
        (status, c1) \<Rightarrow> status = HAL_OK \<and>
          polling_law hal idle bytes (overlay (bytes c) offset (replicate erase_block_bytes 0xFF)) c1)"

definition chip_laws :: "'c qspi_hal \<Rightarrow> ('c \<Rightarrow> bool) \<Rightarrow> ('c \<Rightarrow> bool) \<Rightarrow> ('c \<Rightarrow> u8 list) \<Rightarrow> bool" where
  "chip_laws hal idle enabled bytes \<longleftrightarrow>
     (\<forall>c. idle c \<longrightarrow> length (bytes c) = flash_bytes \<and> enable_law hal idle enabled bytes c \<and>
        (\<forall>offset n. 0 < n \<longrightarrow> offset + n \<le> flash_bytes \<longrightarrow> read_law hal idle bytes c offset n) \<and>
        (enabled c \<longrightarrow>
           (\<forall>offset data. data \<noteq> [] \<longrightarrow> offset mod 256 + length data \<le> 256 \<longrightarrow> offset + length data \<le> flash_bytes \<longrightarrow>
              program_law hal idle bytes c offset data) \<and>
           (\<forall>block < flash_blocks. erase_law hal idle bytes c (block * erase_block_bytes))))"

lemma hal_step_ok: "f (chip s) = (HAL_OK, c) \<Longrightarrow> hal_step hal f s = (True, s\<lparr>chip := c\<rparr>)"
  by (simp add: hal_step_def)

lemma enable_run:
  assumes "chip_laws hal idle enabled bytes" "idle (chip s)"
  obtains c where "qspi_write_enable hal s = (True, s\<lparr>chip := c\<rparr>)" "idle c" "enabled c" "bytes c = bytes (chip s)"
proof -
  have "enable_law hal idle enabled bytes (chip s)" using assms by (simp add: chip_laws_def)
  then show ?thesis
    using that by (auto simp: enable_law_def qspi_write_enable_def qspi_simple_def qspi_command_def hal_step_def)
qed

lemma polling_run:
  assumes "polling_law hal idle bytes result (chip s)"
  obtains c where "qspi_wait_ready hal s = (True, s\<lparr>chip := c\<rparr>)" "idle c" "bytes c = result"
  using assms that by (auto simp: polling_law_def qspi_wait_ready_def hal_step_def)

lemma program_page_run:
  assumes laws: "chip_laws hal idle enabled bytes" and "idle (chip s)" and "page \<noteq> []"
    and "offset mod 256 + length page \<le> 256" and "offset + length page \<le> flash_bytes"
  obtains c where "program_page hal offset page s = (True, s\<lparr>chip := c\<rparr>)" "idle c"
    "bytes c = program (bytes (chip s)) offset page"
proof -
  obtain c where c: "qspi_write_enable hal s = (True, s\<lparr>chip := c\<rparr>)" "idle c" "enabled c" "bytes c = bytes (chip s)"
    by (rule enable_run [OF assms(1,2)])
  have "program_law hal idle bytes c offset page" using laws c assms by (simp add: chip_laws_def)
  then obtain c1 c2 where
    "HAL_QSPI_Command hal \<lparr>q_instruction = w25q_quad_page_program, q_address = of_nat offset,
             q_address_mode = QSPI_1_LINE, q_data_mode = QSPI_4_LINES, q_count = of_nat (length page),
             q_dummy_cycles = 0\<rparr> c = (HAL_OK, c1)" "HAL_QSPI_Transmit hal page c1 = (HAL_OK, c2)"
    and p: "polling_law hal idle bytes (program (bytes (chip s)) offset page) c2"
    by (auto simp: program_law_def c(4))
  moreover obtain c3 where "qspi_wait_ready hal (s\<lparr>chip := c2\<rparr>) = (True, s\<lparr>chip := c3\<rparr>)" "idle c3"
      "bytes c3 = program (bytes (chip s)) offset page"
    using polling_run [of hal idle bytes _ "s\<lparr>chip := c2\<rparr>"] p by auto
  ultimately show ?thesis
    using that c(1) by (simp add: program_page_def andalso_def qspi_command_def hal_step_ok)
qed

lemma stm32_write_loop_run:
  assumes laws: "chip_laws hal idle enabled bytes" and "idle (chip s)" and "offset + length input \<le> flash_bytes"
  shows "\<exists>c. stm32_write_loop hal offset input s = (True, s\<lparr>chip := c\<rparr>) \<and> idle c \<and>
    bytes c = program (bytes (chip s)) offset input"
  using assms(2,3)
proof (induction "length input" arbitrary: offset input s rule: less_induct)
  case less
  have len: "length (bytes (chip s)) = flash_bytes" using laws less.prems(1) by (simp add: chip_laws_def)
  show ?case
  proof (cases "input = []")
    case True
    then show ?thesis
      using less.prems by (subst stm32_write_loop.simps) (auto intro!: exI [of _ "chip s"] simp: program_def)
  next
    case False
    define n where "n = min (length input) (256 - offset mod 256)"
    have "offset mod 256 < 256" by simp
    then have n: "0 < n" "n \<le> length input" "offset mod 256 + n \<le> 256" using False by (auto simp: n_def)
    obtain c where c: "program_page hal offset (take n input) s = (True, s\<lparr>chip := c\<rparr>)" "idle c"
        "bytes c = program (bytes (chip s)) offset (take n input)"
      by (rule program_page_run [OF laws less.prems(1), of "take n input" offset]) (use False n less.prems in auto)
    have "\<exists>c'. stm32_write_loop hal (offset + n) (drop n input) (s\<lparr>chip := c\<rparr>) = (True, (s\<lparr>chip := c\<rparr>)\<lparr>chip := c'\<rparr>) \<and>
        idle c' \<and> bytes c' = program (bytes (chip (s\<lparr>chip := c\<rparr>))) (offset + n) (drop n input)"
      by (rule less.hyps) (use n less.prems c(2) in auto)
    then obtain c' where c': "stm32_write_loop hal (offset + n) (drop n input) (s\<lparr>chip := c\<rparr>) = (True, s\<lparr>chip := c'\<rparr>)"
        "idle c'" "bytes c' = program (bytes c) (offset + n) (drop n input)" by auto
    have "bytes c' = program (bytes (chip s)) offset input"
      using program_append [of offset "take n input" "drop n input" "bytes (chip s)"] n len less.prems c(3) c'(3) by simp
    then show ?thesis
      using False c(1) c'(1,2) by (subst stm32_write_loop.simps) (auto simp: Let_def n_def [symmetric] andalso_def)
  qed
qed

section \<open>The contract\<close>

lemma stm32_nor_store:
  assumes laws: "chip_laws hal idle enabled bytes"
  shows "nor_store (stm32_qspi_read hal) (stm32_qspi_write hal) (stm32_qspi_erase hal) (\<lambda>s. idle (chip s)) (\<lambda>s. bytes (chip s))"
proof unfold_locales
  fix s :: "'a qspi"
  assume "idle (chip s)"
  then show "length (bytes (chip s)) = flash_bytes" using laws by (simp add: chip_laws_def)
next
  fix s :: "'a qspi" and offset n :: nat
  assume *: "idle (chip s)" "offset + n \<le> flash_bytes"
  show "\<exists>t. stm32_qspi_read hal offset n s = (Some (slice (bytes (chip s)) offset n), t) \<and> idle (chip t) \<and>
      bytes (chip t) = bytes (chip s)"
  proof (cases "n = 0")
    case False
    then have "read_law hal idle bytes (chip s) offset n" using laws * by (simp add: chip_laws_def)
    then show ?thesis
      using * False by (auto simp: read_law_def stm32_qspi_read_def qspi_command_def hal_step_def qspi_receive_def)
  qed (use * in \<open>auto simp: stm32_qspi_read_def\<close>)
next
  fix s :: "'a qspi" and offset :: nat and data
  assume *: "idle (chip s)" "offset + length data \<le> flash_bytes"
    "clears (slice (bytes (chip s)) offset (length data)) data"
  then show "\<exists>t. stm32_qspi_write hal offset data s = (True, t) \<and> idle (chip t) \<and>
      bytes (chip t) = overlay (bytes (chip s)) offset data"
    using stm32_write_loop_run [OF laws *(1,2)] program_clears [OF *(3)] by (auto simp: stm32_qspi_write_def)
next
  fix s :: "'a qspi" and block :: nat
  assume *: "idle (chip s)" "block < flash_blocks"
  let ?offset = "block * erase_block_bytes"
  obtain c where c: "qspi_write_enable hal s = (True, s\<lparr>chip := c\<rparr>)" "idle c" "enabled c" "bytes c = bytes (chip s)"
    by (rule enable_run [OF laws *(1)])
  have "erase_law hal idle bytes c ?offset" using laws c * by (simp add: chip_laws_def)
  then obtain c1 where c1: "HAL_QSPI_Command hal \<lparr>q_instruction = w25q_sector_erase, q_address = of_nat ?offset,
             q_address_mode = QSPI_1_LINE, q_data_mode = QSPI_NONE, q_count = 0, q_dummy_cycles = 0\<rparr> c = (HAL_OK, c1)"
    and p: "polling_law hal idle bytes (overlay (bytes (chip s)) ?offset (replicate erase_block_bytes 0xFF)) c1"
    by (auto simp: erase_law_def c(4))
  obtain c2 where "qspi_wait_ready hal (s\<lparr>chip := c1\<rparr>) = (True, s\<lparr>chip := c2\<rparr>)" "idle c2"
      "bytes c2 = overlay (bytes (chip s)) ?offset (replicate erase_block_bytes 0xFF)"
    using polling_run [of hal idle bytes _ "s\<lparr>chip := c1\<rparr>"] p by auto
  moreover have "?offset < flash_bytes" "?offset mod erase_block_bytes = 0"
    using *(2) by (auto simp: flash_geometry)
  ultimately show "\<exists>t. stm32_qspi_erase hal ?offset s = (True, t) \<and> idle (chip t) \<and>
      bytes (chip t) = overlay (bytes (chip s)) ?offset (replicate erase_block_bytes 0xFF)"
    using c(1) c1 by (auto simp: stm32_qspi_erase_def andalso_def qspi_command_def hal_step_ok simp del: of_nat_mult)
qed (auto simp: stm32_qspi_read_def stm32_qspi_write_def)

section \<open>A W25Q128\<close>

text \<open>
  A chip that obeys its data sheet where the driver relies on it: the latch, the pending
  command, the status register with the quad-enable bit, and programming that wraps around
  inside its page. It is the concrete device at which the properties are instantiated.
\<close>

record w25q =
  w_bytes :: "u8 list"
  w_latch :: bool
  w_status_2 :: u8
  w_pending :: "qspi_frame option"

definition w25q_program :: "nat \<Rightarrow> u8 list \<Rightarrow> u8 list \<Rightarrow> u8 list" where
  "w25q_program address data bytes =
     fold (\<lambda>(i, b) xs. let p = address div 256 * 256 + (address + i) mod 256 in xs[p := xs ! p AND b])
       (zip [0..<length data] data) bytes"

definition w25q_command :: "qspi_frame \<Rightarrow> w25q \<Rightarrow> hal_status \<times> w25q" where
  "w25q_command f c =
     (if q_instruction f = w25q_write_enable then (HAL_OK, c\<lparr>w_latch := True, w_pending := None\<rparr>)
      else if q_instruction f = w25q_sector_erase \<and> w_latch c
      then (HAL_OK, c\<lparr>w_bytes := overlay (w_bytes c) (unat (q_address f) div erase_block_bytes * erase_block_bytes)
                        (replicate erase_block_bytes 0xFF), w_latch := False, w_pending := None\<rparr>)
      else (HAL_OK, c\<lparr>w_pending := Some f\<rparr>))"

definition w25q_receive :: "w25q \<Rightarrow> (hal_status \<times> u8 list) \<times> w25q" where
  "w25q_receive c =
     (case w_pending c of
        None \<Rightarrow> ((HAL_ERROR, []), c)
      | Some f \<Rightarrow>
          let data = (if q_instruction f = w25q_fast_read then slice (w_bytes c) (unat (q_address f)) (unat (q_count f))
                      else if q_instruction f = w25q_read_jedec_id then [0xEF, 0x40, 0x18]
                      else if q_instruction f = w25q_read_status_2 then [w_status_2 c] else [0])
          in ((HAL_OK, data), c\<lparr>w_pending := None\<rparr>))"

definition w25q_transmit :: "u8 list \<Rightarrow> w25q \<Rightarrow> hal_status \<times> w25q" where
  "w25q_transmit data c =
     (case w_pending c of
        None \<Rightarrow> (HAL_ERROR, c)
      | Some f \<Rightarrow>
          if \<not> w_latch c then (HAL_OK, c\<lparr>w_pending := None\<rparr>)
          else if q_instruction f = w25q_quad_page_program \<and> w_status_2 c AND 2 \<noteq> 0
          then (HAL_OK, c\<lparr>w_bytes := w25q_program (unat (q_address f)) data (w_bytes c),
                          w_latch := False, w_pending := None\<rparr>)
          else if q_instruction f = w25q_write_status
          then (HAL_OK, c\<lparr>w_status_2 := data ! 1, w_latch := False, w_pending := None\<rparr>)
          else (HAL_OK, c\<lparr>w_pending := None\<rparr>))"

definition w25q_hal :: "w25q qspi_hal" where
  "w25q_hal = \<lparr>HAL_QSPI_Command = w25q_command, HAL_QSPI_Receive = w25q_receive,
     HAL_QSPI_Transmit = w25q_transmit, HAL_QSPI_AutoPolling = (\<lambda>f m v c. (HAL_OK, c)),
     qspi_ErrorCode = (\<lambda>c. 0), MX_QUADSPI_Init = (\<lambda>c. c), HAL_Delay = (\<lambda>n c. c)\<rparr>"

definition w25q_idle :: "w25q \<Rightarrow> bool" where
  "w25q_idle c \<longleftrightarrow> length (w_bytes c) = flash_bytes \<and> w_status_2 c AND 2 \<noteq> 0"

lemma w25q_program_in_page:
  assumes "address mod 256 + length data \<le> 256" "address + length data \<le> length bytes"
  shows "w25q_program address data bytes = program bytes address data"
proof -
  define page where "page = address div 256 * 256"
  have address: "page + address mod 256 = address" by (simp add: page_def)
  have "fold (\<lambda>(i, b) xs. let p = page + (address + i) mod 256 in xs[p := xs ! p AND b])
      (zip [k..<k + length data] data) bytes = program bytes (address + k) data"
    if "address mod 256 + k + length data \<le> 256" "address + k + length data \<le> length bytes" for k
    using that
  proof (induction data arbitrary: k bytes)
    case Nil
    then show ?case by (simp add: program_def)
  next
    case (Cons b data)
    have "(address + k) mod 256 = address mod 256 + k"
    proof -
      have "(address + k) mod 256 = (address mod 256 + k) mod 256" by (simp add: mod_add_left_eq)
      also have "\<dots> = address mod 256 + k" using Cons.prems(1) by (intro mod_less) simp
      finally show ?thesis .
    qed
    then have p: "page + (address + k) mod 256 = address + k" using address by simp
    have one: "bytes[address + k := bytes ! (address + k) AND b] = program bytes (address + k) [b]"
      using Cons.prems(2) by (simp add: program_def overlay_def upd_conv_take_nth_drop hd_drop_conv_nth take_Suc)
    have "[k..<k + length (b # data)] = k # [Suc k..<Suc k + length data]"
      by (subst upt_conv_Cons) simp_all
    then show ?case
      using Cons.IH [of "Suc k" "program bytes (address + k) [b]"] Cons.prems
        program_append [of "address + k" "[b]" data bytes]
      by (simp add: Let_def p one)
  qed
  from this [of 0] show ?thesis using assms by (simp add: w25q_program_def page_def)
qed

lemma w25q_laws: "chip_laws w25q_hal w25q_idle w_latch w_bytes"
proof -
  have small: "unat (of_nat n :: u32) = n" if "n \<le> flash_bytes" for n
    using that by (simp add: unat_of_nat flash_bytes_def)
  have "enable_law w25q_hal w25q_idle w_latch w_bytes c" if "w25q_idle c" for c
    using that by (simp add: enable_law_def w25q_hal_def w25q_command_def w25q_idle_def)
  moreover have "read_law w25q_hal w25q_idle w_bytes c offset n" if "w25q_idle c" "offset + n \<le> flash_bytes" for c offset n
    using that by (simp add: read_law_def w25q_hal_def w25q_command_def w25q_receive_def w25q_idle_def
        w25q_instructions small)
  moreover have "program_law w25q_hal w25q_idle w_bytes c offset data"
    if "w25q_idle c" "w_latch c" "offset mod 256 + length data \<le> 256" "offset + length data \<le> flash_bytes" for c offset data
    using that w25q_program_in_page [of offset data "w_bytes c"]
    by (simp add: program_law_def polling_law_def w25q_hal_def w25q_command_def w25q_transmit_def w25q_idle_def
        w25q_instructions small)
  moreover have "erase_law w25q_hal w25q_idle w_bytes c (block * erase_block_bytes)"
    if "w25q_idle c" "w_latch c" "block < flash_blocks" for c block
  proof -
    have fits: "block * erase_block_bytes + erase_block_bytes \<le> flash_bytes" using that(3) by (auto simp: flash_geometry)
    then have "unat (of_nat (block * erase_block_bytes) :: u32) div erase_block_bytes = block"
      by (subst small) (simp_all add: erase_block_bytes_def)
    with that fits show ?thesis
      by (simp add: erase_law_def polling_law_def w25q_hal_def w25q_command_def w25q_idle_def w25q_instructions
          del: of_nat_mult)
  qed
  ultimately show ?thesis
    by (simp add: chip_laws_def) (simp add: w25q_idle_def)
qed

interpretation stm32_nor: nor_store "stm32_qspi_read w25q_hal" "stm32_qspi_write w25q_hal" "stm32_qspi_erase w25q_hal"
    "\<lambda>s. w25q_idle (chip s)" "\<lambda>s. w_bytes (chip s)"
  by (rule stm32_nor_store [OF w25q_laws])

end
