(* ===== verification/Media_Drivers.thy ===== *)
theory Media_Drivers
  imports Qspi_Flash FileX
begin

text \<open>
  The FileX media drivers of \<^verbatim>\<open>storage_media.cpp\<close>: sector transfers to the SD card (through the
  HAL on the STM32, to an image file on Linux), \<open>direct_media_driver\<close> above them, and
  \<open>levelx_media_driver\<close> above LevelX. \<^verbatim>\<open>ULONG\<close> is 32 bits wide. A transfer is \<open>None\<close> when the code
  does not return. What a driver promises FileX is the locale \<open>block_driver\<close>.
\<close>

section \<open>Requests\<close>

definition sector_size :: nat where "sector_size = 512"
definition flash_filex_sectors :: u32 where "flash_filex_sectors = 24 * 1024"

datatype driver_request =
    FX_DRIVER_READ | FX_DRIVER_WRITE | FX_DRIVER_FLUSH | FX_DRIVER_ABORT | FX_DRIVER_INIT
  | FX_DRIVER_BOOT_READ | FX_DRIVER_RELEASE_SECTORS | FX_DRIVER_BOOT_WRITE | FX_DRIVER_UNINIT
  | FX_DRIVER_OTHER nat

text \<open>
  The request members of \<^verbatim>\<open>FX_MEDIA\<close>; \<open>m_buffer\<close> is what \<^verbatim>\<open>fx_media_driver_buffer\<close> points to. A
  driver call yields the driver status, the buffer and the new state. What a failed read leaves in
  the buffer is not modelled: the model returns the buffer unchanged, and FileX discards it.
\<close>

record media_request =
  m_request :: driver_request
  m_logical_sector :: u32
  m_hidden_sectors :: u32
  m_sectors :: u32
  m_buffer :: "u8 list"

type_synonym 's driver = "media_request \<Rightarrow> 's \<Rightarrow> ((fx_status \<times> u8 list) \<times> 's) option"

abbreviation in_range :: "u32 \<Rightarrow> u32 \<Rightarrow> u32 \<Rightarrow> u32 \<Rightarrow> bool" where
  "in_range sector hidden count capacity \<equiv>
     valid_sector_range (ucast sector) (ucast hidden) (ucast count) (ucast capacity)"

lemma in_range_iff:
  "in_range sector hidden count capacity \<longleftrightarrow> unat hidden + unat sector + unat count \<le> unat capacity"
proof -
  have "unat (ucast x :: u64) = unat x" for x :: u32
    using unat_u32_bound [of x] by (simp add: unsigned_ucast_eq take_bit_nat_eq_self)
  then show ?thesis by (simp add: valid_sector_range_iff)
qed

lemma in_range_start:
  "valid_sector_range (ucast sector) 0 (ucast (count :: u32)) (ucast (capacity :: u32)) \<longleftrightarrow>
     unat (sector :: u32) + unat count \<le> unat capacity"
  using in_range_iff [of sector 0 count capacity] by simp

lemma in_range_add:
  "in_range sector hidden count capacity \<Longrightarrow> unat (sector + hidden) = unat sector + unat hidden"
  using unat_u32_bound [of capacity] by (intro unat_add_no_wrap) (simp add: in_range_iff)

section \<open>The SD card on the STM32\<close>

type_synonym 's sector_read = "u32 \<Rightarrow> u32 \<Rightarrow> 's \<Rightarrow> (u8 list option \<times> 's) option"
type_synonym 's sector_write = "u32 \<Rightarrow> u8 list \<Rightarrow> u32 \<Rightarrow> 's \<Rightarrow> (bool \<times> 's) option"

record 'w sd_hal =
  HAL_SD_ReadBlocks :: "u32 \<Rightarrow> 'w \<Rightarrow> (hal_status \<times> u8 list) \<times> 'w"
  HAL_SD_WriteBlocks :: "u32 \<Rightarrow> u8 list \<Rightarrow> 'w \<Rightarrow> hal_status \<times> 'w"
  card_in_transfer :: "'w \<Rightarrow> bool \<times> 'w"
  HAL_GetTick :: "'w \<Rightarrow> u32 \<times> 'w"
  tx_thread_sleep_one :: "'w \<Rightarrow> 'w"
  sd_ErrorCode :: "'w \<Rightarrow> u32"
  LogBlockNbr :: "'w \<Rightarrow> u32"

definition HAL_SD_ERROR_NONE :: u32 where "HAL_SD_ERROR_NONE = 0"
definition HAL_SD_ERROR_TIMEOUT :: u32 where "HAL_SD_ERROR_TIMEOUT = 0x80000000"
definition HAL_SD_ERROR_ADDR_OUT_OF_RANGE :: u32 where "HAL_SD_ERROR_ADDR_OUT_OF_RANGE = 0x02000000"

text \<open>The card and the diagnostics field the transfers write.\<close>

record 'w sd =
  card :: 'w
  sd_error :: u32

text \<open>
  The polling loop of \<open>sd_wait_ready\<close>: it ends when the card is ready or 5000 ticks have passed,
  so a clock that stands still keeps it running.
\<close>

partial_function (option) sd_wait_loop :: "'w sd_hal \<Rightarrow> u32 \<Rightarrow> 'w sd \<Rightarrow> (bool \<times> 'w sd) option" where
  "sd_wait_loop hal started s =
     (case card_in_transfer hal (card s) of (ready, w) \<Rightarrow>
        if ready then Some (True, s\<lparr>card := w\<rparr>)
        else
          (case HAL_GetTick hal w of (now, w') \<Rightarrow>
             if now - started \<ge> 5000
             then Some (False, s\<lparr>card := w',
                    sd_error := (if sd_ErrorCode hal w' \<noteq> HAL_SD_ERROR_NONE then sd_ErrorCode hal w'
                                 else HAL_SD_ERROR_TIMEOUT)\<rparr>)
             else sd_wait_loop hal started (s\<lparr>card := tx_thread_sleep_one hal w'\<rparr>)))"

definition sd_wait_ready :: "'w sd_hal \<Rightarrow> 'w sd \<Rightarrow> (bool \<times> 'w sd) option" where
  "sd_wait_ready hal s = (case HAL_GetTick hal (card s) of (started, w) \<Rightarrow> sd_wait_loop hal started (s\<lparr>card := w\<rparr>))"

text \<open>The sector loops; \<open>index\<close> counts up to \<open>sectors\<close>, here as the list of its values.\<close>

primrec sd_read_loop :: "'w sd_hal \<Rightarrow> u32 \<Rightarrow> nat list \<Rightarrow> u8 list \<Rightarrow> 'w sd \<Rightarrow> (u8 list option \<times> 'w sd) option" where
  "sd_read_loop hal sector [] output s = Some (Some output, s)"
| "sd_read_loop hal sector (index # rest) output s =
     (case HAL_SD_ReadBlocks hal (sector + of_nat index) (card s) of ((status, data), w) \<Rightarrow>
        let t = s\<lparr>card := w\<rparr> in
          if status \<noteq> HAL_OK then Some (None, t\<lparr>sd_error := sd_ErrorCode hal w\<rparr>)
          else
            (case sd_wait_ready hal t of
               None \<Rightarrow> None
             | Some (ready, u) \<Rightarrow>
                 if \<not> ready then Some (None, u) else sd_read_loop hal sector rest (output @ data) u))"

definition stm32_sd_read :: "'w sd_hal \<Rightarrow> 'w sd sector_read" where
  "stm32_sd_read hal sector sectors s =
     (if \<not> in_range sector 0 sectors (LogBlockNbr hal (card s))
      then Some (None, s\<lparr>sd_error := HAL_SD_ERROR_ADDR_OUT_OF_RANGE\<rparr>)
      else sd_read_loop hal sector [0..<unat sectors] [] s)"

primrec sd_write_loop :: "'w sd_hal \<Rightarrow> u32 \<Rightarrow> u8 list \<Rightarrow> nat list \<Rightarrow> 'w sd \<Rightarrow> (bool \<times> 'w sd) option" where
  "sd_write_loop hal sector input [] s = Some (True, s)"
| "sd_write_loop hal sector input (index # rest) s =
     (case HAL_SD_WriteBlocks hal (sector + of_nat index) (slice input (index * sector_size) sector_size) (card s) of
        (status, w) \<Rightarrow>
          let t = s\<lparr>card := w\<rparr> in
            if status \<noteq> HAL_OK then Some (False, t\<lparr>sd_error := sd_ErrorCode hal w\<rparr>)
            else
              (case sd_wait_ready hal t of
                 None \<Rightarrow> None
               | Some (ready, u) \<Rightarrow>
                   if \<not> ready then Some (False, u) else sd_write_loop hal sector input rest u))"

definition stm32_sd_write :: "'w sd_hal \<Rightarrow> 'w sd sector_write" where
  "stm32_sd_write hal sector input sectors s =
     (if \<not> in_range sector 0 sectors (LogBlockNbr hal (card s))
      then Some (False, s\<lparr>sd_error := HAL_SD_ERROR_ADDR_OUT_OF_RANGE\<rparr>)
      else sd_write_loop hal sector input [0..<unat sectors] s)"

section \<open>The SD image on Linux\<close>

record sd_image =
  sd_file :: image
  sd_sectors :: u32

definition linux_sd_read :: "sd_image sector_read" where
  "linux_sd_read sector sectors s =
     Some (if in_range sector 0 sectors (sd_sectors s)
           then (case file_read (unat sector * sector_size) (unat sectors * sector_size) (sd_file s) of
                   (data, f) \<Rightarrow> (data, s\<lparr>sd_file := f\<rparr>))
           else (None, s))"

definition linux_sd_write :: "sd_image sector_write" where
  "linux_sd_write sector input sectors s =
     Some (if in_range sector 0 sectors (sd_sectors s)
           then (case file_write (unat sector * sector_size) (take (unat sectors * sector_size) input) (sd_file s) of
                   (succeeded, f) \<Rightarrow> (succeeded, s\<lparr>sd_file := f\<rparr>))
           else (False, s))"

section \<open>The direct driver\<close>

text \<open>
  \<open>partition_of\<close> is \<^verbatim>\<open>_fx_partition_offset_calculate\<close> for partition 0: the status and the start
  sector. \<open>sd_blocks\<close> is the capacity the diagnostics hold.
\<close>

definition boot_read ::
    "'s sector_read \<Rightarrow> (u8 list \<Rightarrow> fx_status \<times> u32) \<Rightarrow> u8 list \<Rightarrow> 's \<Rightarrow> ((fx_status \<times> u8 list) \<times> 's) option" where
  "boot_read sd_read partition_of buffer s =
     (case sd_read 0 1 s of
        None \<Rightarrow> None
      | Some (None, t) \<Rightarrow> Some ((FX_IO_ERROR, buffer), t)
      | Some (Some boot, t) \<Rightarrow>
          (case partition_of boot of (status, partition_start) \<Rightarrow>
             if status \<noteq> FX_SUCCESS then Some ((FX_IO_ERROR, boot), t)
             else if partition_start = 0 then Some ((FX_SUCCESS, boot), t)
             else
               (case sd_read partition_start 1 t of
                  None \<Rightarrow> None
                | Some (None, u) \<Rightarrow> Some ((FX_IO_ERROR, boot), u)
                | Some (Some data, u) \<Rightarrow> Some ((FX_SUCCESS, data), u))))"

definition finish_read :: "u8 list \<Rightarrow> (u8 list option \<times> 's) option \<Rightarrow> ((fx_status \<times> u8 list) \<times> 's) option" where
  "finish_read buffer = map_option (\<lambda>(data, t).
     (case data of None \<Rightarrow> (FX_IO_ERROR, buffer) | Some d \<Rightarrow> (FX_SUCCESS, d), t))"

definition finish_write :: "u8 list \<Rightarrow> (bool \<times> 's) option \<Rightarrow> ((fx_status \<times> u8 list) \<times> 's) option" where
  "finish_write buffer = map_option (\<lambda>(succeeded, t). ((if succeeded then FX_SUCCESS else FX_IO_ERROR, buffer), t))"

definition direct_media_driver ::
    "'s sector_read \<Rightarrow> 's sector_write \<Rightarrow> (u8 list \<Rightarrow> fx_status \<times> u32) \<Rightarrow> u32 \<Rightarrow> 's driver" where
  "direct_media_driver sd_read sd_write partition_of sd_blocks m s =
     (case m_request m of
        FX_DRIVER_INIT \<Rightarrow> Some ((FX_SUCCESS, m_buffer m), s)
      | FX_DRIVER_UNINIT \<Rightarrow> Some ((FX_SUCCESS, m_buffer m), s)
      | FX_DRIVER_FLUSH \<Rightarrow> Some ((FX_SUCCESS, m_buffer m), s)
      | FX_DRIVER_ABORT \<Rightarrow> Some ((FX_SUCCESS, m_buffer m), s)
      | FX_DRIVER_READ \<Rightarrow>
          if in_range (m_logical_sector m) (m_hidden_sectors m) (m_sectors m) sd_blocks
          then finish_read (m_buffer m) (sd_read (m_logical_sector m + m_hidden_sectors m) (m_sectors m) s)
          else Some ((FX_IO_ERROR, m_buffer m), s)
      | FX_DRIVER_WRITE \<Rightarrow>
          if in_range (m_logical_sector m) (m_hidden_sectors m) (m_sectors m) sd_blocks
          then finish_write (m_buffer m)
                 (sd_write (m_logical_sector m + m_hidden_sectors m) (m_buffer m) (m_sectors m) s)
          else Some ((FX_IO_ERROR, m_buffer m), s)
      | FX_DRIVER_BOOT_READ \<Rightarrow> boot_read sd_read partition_of (m_buffer m) s
      | FX_DRIVER_BOOT_WRITE \<Rightarrow> finish_write (m_buffer m) (sd_write (m_hidden_sectors m) (m_buffer m) 1 s)
      | _ \<Rightarrow> Some ((FX_IO_ERROR, m_buffer m), s))"

section \<open>LevelX\<close>

text \<open>
  LevelX is a submodule: its calls are functions over the world. A sector read delivers the 512
  bytes of a logical sector.
\<close>

record 'w levelx =
  lx_nor_flash_initialize :: "'w \<Rightarrow> 'w"
  lx_nor_flash_open :: "'w \<Rightarrow> lx_status \<times> 'w"
  lx_nor_flash_extended_cache_enable :: "'w \<Rightarrow> lx_status \<times> 'w"
  lx_nor_flash_close :: "'w \<Rightarrow> lx_status \<times> 'w"
  lx_nor_flash_sector_read :: "u32 \<Rightarrow> 'w \<Rightarrow> (lx_status \<times> u8 list) \<times> 'w"
  lx_nor_flash_sector_write :: "u32 \<Rightarrow> u8 list \<Rightarrow> 'w \<Rightarrow> lx_status \<times> 'w"
  lx_nor_flash_sector_release :: "u32 \<Rightarrow> 'w \<Rightarrow> lx_status \<times> 'w"
  lx_nor_flash_mapped_physical_sectors :: "'w \<Rightarrow> nat"

record 'w nor =
  nor_world :: 'w
  nor_open :: bool
  levelx_status :: lx_status

text \<open>The driver callback for system errors.\<close>

definition nor_driver_error :: "lx_status \<Rightarrow> ('w, 'z) nor_scheme \<Rightarrow> lx_status \<times> ('w, 'z) nor_scheme" where
  "nor_driver_error error s = (LX_SUCCESS, s\<lparr>levelx_status := error\<rparr>)"

definition open_levelx :: "'w levelx \<Rightarrow> ('w, 'z) nor_scheme \<Rightarrow> lx_status \<times> ('w, 'z) nor_scheme" where
  "open_levelx lx s =
     (if nor_open s then (LX_SUCCESS, s)
      else
        (case lx_nor_flash_open lx (nor_world s) of (opened, w) \<Rightarrow>
         case (if opened = LX_SUCCESS
               then (case lx_nor_flash_extended_cache_enable lx w of (cached, w') \<Rightarrow>
                       (cached, if cached \<noteq> LX_SUCCESS then snd (lx_nor_flash_close lx w') else w'))
               else (opened, w)) of
           (status, w'') \<Rightarrow>
             (status, s\<lparr>nor_world := w'', nor_open := (status = LX_SUCCESS), levelx_status := status\<rparr>)))"

definition close_levelx :: "'w levelx \<Rightarrow> ('w, 'z) nor_scheme \<Rightarrow> lx_status \<times> ('w, 'z) nor_scheme" where
  "close_levelx lx s =
     (if \<not> nor_open s then (LX_SUCCESS, s)
      else (case lx_nor_flash_close lx (nor_world s) of
              (status, w) \<Rightarrow> (status, s\<lparr>nor_world := w, nor_open := False\<rparr>)))"

primrec levelx_read_loop :: "'w levelx \<Rightarrow> u32 \<Rightarrow> nat list \<Rightarrow> u8 list \<Rightarrow> 'w \<Rightarrow> u8 list option \<times> 'w" where
  "levelx_read_loop lx sector [] destination w = (Some destination, w)"
| "levelx_read_loop lx sector (index # rest) destination w =
     (case lx_nor_flash_sector_read lx (sector + of_nat index) w of ((status, data), w') \<Rightarrow>
        if status \<noteq> LX_SUCCESS then (None, w')
        else levelx_read_loop lx sector rest (destination @ data) w')"

primrec levelx_write_loop :: "'w levelx \<Rightarrow> u32 \<Rightarrow> u8 list \<Rightarrow> nat list \<Rightarrow> 'w \<Rightarrow> bool \<times> 'w" where
  "levelx_write_loop lx sector input [] w = (True, w)"
| "levelx_write_loop lx sector input (index # rest) w =
     (case lx_nor_flash_sector_write lx (sector + of_nat index) (slice input (index * sector_size) sector_size) w of
        (status, w') \<Rightarrow>
          if status \<noteq> LX_SUCCESS then (False, w') else levelx_write_loop lx sector input rest w')"

primrec levelx_release_loop :: "'w levelx \<Rightarrow> u32 \<Rightarrow> nat list \<Rightarrow> 'w \<Rightarrow> bool \<times> 'w" where
  "levelx_release_loop lx sector [] w = (True, w)"
| "levelx_release_loop lx sector (index # rest) w =
     (case lx_nor_flash_sector_release lx (sector + of_nat index) w of (status, w') \<Rightarrow>
        if status \<noteq> LX_SUCCESS \<and> status \<noteq> LX_SECTOR_NOT_FOUND then (False, w')
        else levelx_release_loop lx sector rest w')"

text \<open>The initialisation request also sets \<^verbatim>\<open>fx_media_driver_free_sector_update\<close>.\<close>

definition levelx_media_driver :: "'w levelx \<Rightarrow> 'w nor driver" where
  "levelx_media_driver lx m s =
     (let failed = Some ((FX_IO_ERROR, m_buffer m), s);
          boot = (m_request m = FX_DRIVER_BOOT_READ \<or> m_request m = FX_DRIVER_BOOT_WRITE);
          sector = (if boot then 0 else m_logical_sector m);
          sectors = (if boot then 1 else m_sectors m);
          run_write = (\<lambda>f. case f (nor_world s) of (succeeded, w) \<Rightarrow>
             Some ((if succeeded then FX_SUCCESS else FX_IO_ERROR, m_buffer m), s\<lparr>nor_world := w\<rparr>));
          read = (if \<not> in_range sector 0 sectors flash_filex_sectors then failed
                  else (case levelx_read_loop lx sector [0..<unat sectors] [] (nor_world s) of (data, w) \<Rightarrow>
                          Some (case data of None \<Rightarrow> (FX_IO_ERROR, m_buffer m) | Some d \<Rightarrow> (FX_SUCCESS, d),
                                s\<lparr>nor_world := w\<rparr>)));
          write_request = (if \<not> in_range sector 0 sectors flash_filex_sectors then failed
                   else run_write (levelx_write_loop lx sector (m_buffer m) [0..<unat sectors]))
      in
        (case m_request m of
           FX_DRIVER_INIT \<Rightarrow>
             (case open_levelx lx s of (status, t) \<Rightarrow>
                Some ((if status = LX_SUCCESS then FX_SUCCESS else FX_IO_ERROR, m_buffer m), t))
         | FX_DRIVER_UNINIT \<Rightarrow>
             (case close_levelx lx s of (status, t) \<Rightarrow>
                Some ((if status = LX_SUCCESS then FX_SUCCESS else FX_IO_ERROR, m_buffer m), t))
         | FX_DRIVER_READ \<Rightarrow> read
         | FX_DRIVER_BOOT_READ \<Rightarrow> read
         | FX_DRIVER_WRITE \<Rightarrow> write_request
         | FX_DRIVER_BOOT_WRITE \<Rightarrow> write_request
         | FX_DRIVER_RELEASE_SECTORS \<Rightarrow>
             if \<not> in_range (m_logical_sector m) 0 (m_sectors m) flash_filex_sectors then failed
             else run_write (levelx_release_loop lx (m_logical_sector m) [0..<unat (m_sectors m)])
         | FX_DRIVER_FLUSH \<Rightarrow> Some ((FX_SUCCESS, m_buffer m), s)
         | FX_DRIVER_ABORT \<Rightarrow> Some ((FX_SUCCESS, m_buffer m), s)
         | FX_DRIVER_OTHER _ \<Rightarrow> failed))"

section \<open>The polling loop returns\<close>

text \<open>
  A tick counter behind the world: \<^verbatim>\<open>HAL_GetTick\<close> reads its low 32 bits, a sleep of one tick lets
  at least one tick (and less than \<open>2 ^ 31\<close>) pass, and polling the card takes no time the counter
  shows.
\<close>

definition clock_laws :: "'w sd_hal \<Rightarrow> ('w \<Rightarrow> nat) \<Rightarrow> bool" where
  "clock_laws hal tick \<longleftrightarrow>
     (\<forall>w. tick (snd (card_in_transfer hal w)) = tick w \<and>
        fst (HAL_GetTick hal w) = of_nat (tick w) \<and> tick (snd (HAL_GetTick hal w)) = tick w \<and>
        tick w < tick (tx_thread_sleep_one hal w) \<and> tick (tx_thread_sleep_one hal w) \<le> tick w + 2 ^ 31)"

lemma elapsed_ticks:
  assumes "b \<le> a" "a - b < 2 ^ 32" shows "unat (of_nat a - of_nat b :: u32) = a - b"
proof -
  have "(of_nat a - of_nat b :: u32) = of_nat (a - b)" using assms(1) by simp
  then show ?thesis using assms(2) by (simp add: unat_of_nat)
qed

lemma sd_wait_loop_returns:
  assumes laws: "clock_laws hal tick" and "started \<le> tick (card s)" "tick (card s) - started < 5000 + 2 ^ 31"
  shows "sd_wait_loop hal (of_nat started) s \<noteq> None"
  using assms(2,3)
proof (induction "5000 + 2 ^ 31 - (tick (card s) - started)" arbitrary: s rule: less_induct)
  case less
  obtain r w where poll: "card_in_transfer hal (card s) = (r, w)" by fastforce
  obtain now w' where get: "HAL_GetTick hal w = (now, w')" by fastforce
  have w: "tick w = tick (card s)" "now = of_nat (tick (card s))" "tick w' = tick (card s)"
    using laws poll get unfolding clock_laws_def by (metis fst_conv snd_conv)+
  show ?case
  proof (cases "r \<or> now - of_nat started \<ge> 5000")
    case True
    then show ?thesis by (subst sd_wait_loop.simps) (auto simp: poll get)
  next
    case False
    then have "tick (card s) - started < 5000"
      using elapsed_ticks [of started "tick (card s)"] less.prems by (auto simp: w(2) word_le_nat_alt not_le)
    moreover have "tick w' < tick (tx_thread_sleep_one hal w')" "tick (tx_thread_sleep_one hal w') \<le> tick w' + 2 ^ 31"
      using laws by (simp_all add: clock_laws_def)
    ultimately have "sd_wait_loop hal (of_nat started) (s\<lparr>card := tx_thread_sleep_one hal w'\<rparr>) \<noteq> None"
      using less.prems(1) w by (intro less.hyps) auto
    then show ?thesis using False by (subst sd_wait_loop.simps) (simp add: poll get)
  qed
qed

lemma sd_wait_ready_returns:
  assumes "clock_laws hal tick" shows "sd_wait_ready hal s \<noteq> None"
proof -
  obtain now w where get: "HAL_GetTick hal (card s) = (now, w)" by fastforce
  then have "now = of_nat (tick (card s))" "tick w = tick (card s)"
    using assms unfolding clock_laws_def by (metis fst_conv snd_conv)+
  then show ?thesis
    using sd_wait_loop_returns [OF assms, of "tick (card s)" "s\<lparr>card := w\<rparr>"] by (simp add: sd_wait_ready_def get)
qed

section \<open>What a driver promises\<close>

text \<open>
  The contract between a media driver and FileX: on a ready device, reads and writes of whole
  sectors inside the capacity succeed and act on the flat contents at \<open>place m\<close>; requests that
  leave the capacity are refused without touching the device.
\<close>

definition within :: "nat \<Rightarrow> media_request \<Rightarrow> u32 \<Rightarrow> bool" where
  "within start m capacity \<longleftrightarrow> start + unat (m_sectors m) \<le> unat capacity"

locale block_driver =
  fixes drive :: "'s driver" and ready :: "'s \<Rightarrow> bool" and content :: "'s \<Rightarrow> u8 list"
    and place :: "media_request \<Rightarrow> nat" and capacity :: u32
  assumes ready_size: "ready s \<Longrightarrow> length (content s) = unat capacity * sector_size"
    and read_in_range: "ready s \<Longrightarrow> m_request m = FX_DRIVER_READ \<Longrightarrow> within (place m) m capacity \<Longrightarrow>
      \<exists>t. drive m s = Some ((FX_SUCCESS, slice (content s) (place m * sector_size) (unat (m_sectors m) * sector_size)), t) \<and>
        ready t \<and> content t = content s"
    and write_in_range: "ready s \<Longrightarrow> m_request m = FX_DRIVER_WRITE \<Longrightarrow> within (place m) m capacity \<Longrightarrow>
      length (m_buffer m) = unat (m_sectors m) * sector_size \<Longrightarrow>
      \<exists>t. drive m s = Some ((FX_SUCCESS, m_buffer m), t) \<and>
        ready t \<and> content t = overlay (content s) (place m * sector_size) (m_buffer m)"
    and refused: "ready s \<Longrightarrow> m_request m \<in> {FX_DRIVER_READ, FX_DRIVER_WRITE} \<Longrightarrow> \<not> within (place m) m capacity \<Longrightarrow>
      drive m s = Some ((FX_IO_ERROR, m_buffer m), s)"
begin

lemma byte_range: "within (place m) m capacity \<Longrightarrow> ready s \<Longrightarrow>
    place m * sector_size + unat (m_sectors m) * sector_size \<le> length (content s)"
proof -
  assume "within (place m) m capacity" "ready s"
  moreover from this have "(place m + unat (m_sectors m)) * sector_size \<le> unat capacity * sector_size"
    by (intro mult_le_mono1) (simp add: within_def)
  ultimately show ?thesis by (simp add: ready_size add_mult_distrib)
qed

lemma write_read:
  assumes "ready s" "m_request m = FX_DRIVER_WRITE" "within (place m) m capacity"
    and "length (m_buffer m) = unat (m_sectors m) * sector_size"
    and "m_request r = FX_DRIVER_READ" "place r = place m" "m_sectors r = m_sectors m"
  shows "\<exists>t u. drive m s = Some ((FX_SUCCESS, m_buffer m), t) \<and> drive r t = Some ((FX_SUCCESS, m_buffer m), u)"
proof -
  obtain t where t: "drive m s = Some ((FX_SUCCESS, m_buffer m), t)" "ready t"
      "content t = overlay (content s) (place m * sector_size) (m_buffer m)"
    using write_in_range [OF assms(1-4)] by blast
  have "within (place r) r capacity" using assms(3,6,7) by (simp add: within_def)
  moreover have "slice (content t) (place m * sector_size) (unat (m_sectors m) * sector_size) = m_buffer m"
    using slice_overlay [of "place m * sector_size" "m_buffer m" "content s"] byte_range [OF assms(3,1)] assms(4) t(3)
    by simp
  ultimately show ?thesis
    using t(1) read_in_range [OF t(2) assms(5)] assms(6,7) by auto
qed

lemma write_keeps_others:
  assumes "ready s" "m_request m = FX_DRIVER_WRITE" "within (place m) m capacity"
    and "length (m_buffer m) = unat (m_sectors m) * sector_size"
    and "m_request r = FX_DRIVER_READ" "within (place r) r capacity"
    and "place r + unat (m_sectors r) \<le> place m \<or> place m + unat (m_sectors m) \<le> place r"
    and "drive r s = Some ((FX_SUCCESS, data), s')"
  shows "\<exists>t u. drive m s = Some ((FX_SUCCESS, m_buffer m), t) \<and> drive r t = Some ((FX_SUCCESS, data), u)"
proof -
  obtain t where t: "drive m s = Some ((FX_SUCCESS, m_buffer m), t)" "ready t"
      "content t = overlay (content s) (place m * sector_size) (m_buffer m)"
    using write_in_range [OF assms(1-4)] by blast
  have "place r * sector_size + unat (m_sectors r) * sector_size \<le> place m * sector_size \<or>
      place m * sector_size + length (m_buffer m) \<le> place r * sector_size"
    using assms(7) unfolding assms(4) by (metis add_mult_distrib mult_le_mono1)
  then have "slice (content t) (place r * sector_size) (unat (m_sectors r) * sector_size) =
      slice (content s) (place r * sector_size) (unat (m_sectors r) * sector_size)"
    unfolding t(3) using byte_range [OF assms(3,1)] assms(4) by (intro slice_overlay_disjoint) simp_all
  then show ?thesis
    using t(1) read_in_range [OF t(2) assms(5,6)] read_in_range [OF assms(1,5,6)] assms(8) by auto
qed

end

definition direct_place :: "media_request \<Rightarrow> nat" where
  "direct_place m = unat (m_logical_sector m) + unat (m_hidden_sectors m)"

definition levelx_place :: "media_request \<Rightarrow> nat" where
  "levelx_place m = unat (m_logical_sector m)"

section \<open>The direct driver on an image\<close>

definition linux_sd_sectors :: u32 where "linux_sd_sectors = 128 * 1024"

definition linux_sd_ready :: "sd_image \<Rightarrow> bool" where
  "linux_sd_ready s \<longleftrightarrow> image_ready (unat linux_sd_sectors * sector_size) (sd_file s) \<and> sd_sectors s = linux_sd_sectors"

lemma direct_range: "in_range (m_logical_sector m) (m_hidden_sectors m) (m_sectors m) capacity \<longleftrightarrow>
    within (direct_place m) m capacity"
  by (simp add: in_range_iff within_def direct_place_def add.commute)

lemma direct_sum:
  assumes "within (direct_place m) m capacity"
  shows "unat (m_logical_sector m + m_hidden_sectors m) = direct_place m"
    and "in_range (m_logical_sector m + m_hidden_sectors m) 0 (m_sectors m) capacity"
proof -
  show sum: "unat (m_logical_sector m + m_hidden_sectors m) = direct_place m"
    using in_range_add [of "m_logical_sector m" "m_hidden_sectors m" "m_sectors m" capacity] assms
    by (simp only: direct_range direct_place_def)
  show "in_range (m_logical_sector m + m_hidden_sectors m) 0 (m_sectors m) capacity"
    using assms by (simp only: in_range_iff sum within_def) simp
qed

text \<open>The contract of the direct driver from that of the two transfer functions below it.\<close>

lemma direct_block_driver:
  assumes size: "\<And>s. ready s \<Longrightarrow> length (content s) = unat capacity * sector_size"
    and rd: "\<And>s sector n. ready s \<Longrightarrow> in_range sector 0 n capacity \<Longrightarrow>
      \<exists>t. sd_read sector n s = Some (Some (slice (content s) (unat sector * sector_size) (unat n * sector_size)), t) \<and>
        ready t \<and> content t = content s"
    and wr: "\<And>s sector n data. ready s \<Longrightarrow> in_range sector 0 n capacity \<Longrightarrow> length data = unat n * sector_size \<Longrightarrow>
      \<exists>t. sd_write sector data n s = Some (True, t) \<and> ready t \<and> content t = overlay (content s) (unat sector * sector_size) data"
  shows "block_driver (direct_media_driver sd_read sd_write partition_of capacity) ready content direct_place capacity"
proof unfold_locales
  show "length (content s) = unat capacity * sector_size" if "ready s" for s
    using that by (rule size)
next
  fix s and m :: media_request
  assume *: "ready s" "m_request m = FX_DRIVER_READ" "within (direct_place m) m capacity"
  then show "\<exists>t. direct_media_driver sd_read sd_write partition_of capacity m s =
      Some ((FX_SUCCESS, slice (content s) (direct_place m * sector_size) (unat (m_sectors m) * sector_size)), t) \<and>
      ready t \<and> content t = content s"
    using rd [OF *(1) direct_sum(2) [OF *(3)]]
    by (auto simp: direct_media_driver_def finish_read_def direct_range direct_sum(1) [OF *(3)])
next
  fix s and m :: media_request
  assume *: "ready s" "m_request m = FX_DRIVER_WRITE" "within (direct_place m) m capacity"
    "length (m_buffer m) = unat (m_sectors m) * sector_size"
  then show "\<exists>t. direct_media_driver sd_read sd_write partition_of capacity m s = Some ((FX_SUCCESS, m_buffer m), t) \<and>
      ready t \<and> content t = overlay (content s) (direct_place m * sector_size) (m_buffer m)"
    using wr [OF *(1) direct_sum(2) [OF *(3)] *(4)]
    by (auto simp: direct_media_driver_def finish_write_def direct_range direct_sum(1) [OF *(3)])
next
  fix s and m :: media_request
  assume "m_request m \<in> {FX_DRIVER_READ, FX_DRIVER_WRITE}" "\<not> within (direct_place m) m capacity"
  then show "direct_media_driver sd_read sd_write partition_of capacity m s = Some ((FX_IO_ERROR, m_buffer m), s)"
    by (auto simp: direct_media_driver_def direct_range)
qed

lemma linux_sd_block_driver:
  "block_driver (direct_media_driver linux_sd_read linux_sd_write partition_of linux_sd_sectors)
     linux_sd_ready (\<lambda>s. image_bytes (sd_file s)) direct_place linux_sd_sectors"
proof (rule direct_block_driver)
  show "length (image_bytes (sd_file s)) = unat linux_sd_sectors * sector_size" if "linux_sd_ready s" for s
    using that by (auto simp: linux_sd_ready_def image_ready_def image_bytes_def)
next
  have bytes: "unat sector * sector_size + unat n * sector_size \<le> unat linux_sd_sectors * sector_size"
    if "in_range sector 0 n linux_sd_sectors" for sector n :: u32
  proof -
    have "unat sector + unat n \<le> unat linux_sd_sectors" using that by (simp add: in_range_start)
    then show ?thesis by (metis add_mult_distrib mult_le_mono1)
  qed
  fix s :: sd_image and sector n :: u32
  assume *: "linux_sd_ready s" "in_range sector 0 n linux_sd_sectors"
  then have ready: "image_ready (unat linux_sd_sectors * sector_size) (sd_file s)" "sd_sectors s = linux_sd_sectors"
    by (simp_all add: linux_sd_ready_def)
  show "\<exists>t. linux_sd_read sector n s =
      Some (Some (slice (image_bytes (sd_file s)) (unat sector * sector_size) (unat n * sector_size)), t) \<and>
      linux_sd_ready t \<and> image_bytes (sd_file t) = image_bytes (sd_file s)"
    using file_read_run [OF ready(1) bytes [OF *(2)]] *(2) ready(2)
    by (auto simp: linux_sd_read_def linux_sd_ready_def)
  fix data :: "u8 list"
  assume len: "length data = unat n * sector_size"
  then show "\<exists>t. linux_sd_write sector data n s = Some (True, t) \<and> linux_sd_ready t \<and>
      image_bytes (sd_file t) = overlay (image_bytes (sd_file s)) (unat sector * sector_size) data"
    using file_write_run [OF ready(1), of "unat sector * sector_size" data] bytes [OF *(2)] *(2) ready(2)
    by (auto simp: linux_sd_write_def linux_sd_ready_def)
qed

interpretation linux_sd: block_driver "direct_media_driver linux_sd_read linux_sd_write partition_of linux_sd_sectors"
    linux_sd_ready "\<lambda>s. image_bytes (sd_file s)" direct_place linux_sd_sectors
  by (rule linux_sd_block_driver)

end
