(* ===== verification/Media_Contracts.thy ===== *)
theory Media_Contracts
  imports Media_Drivers
begin

text \<open>
  The contract \<open>block_driver\<close> for the remaining two devices of \<^verbatim>\<open>storage_media.cpp\<close>: the SD card
  behind the STM32 HAL and the flash behind LevelX, each from named laws of the component below,
  with a concrete card and a concrete LevelX that satisfy them.
\<close>

section \<open>Sector arithmetic\<close>

lemma sector_index:
  assumes "unat (sector :: u32) + k < unat (capacity :: u32)"
  shows "unat (sector + of_nat k) = unat sector + k"
proof -
  have "unat (of_nat k :: u32) = k" using assms unat_u32_bound [of capacity] by (simp add: unat_of_nat)
  then show ?thesis using assms unat_u32_bound [of capacity] by (subst unat_add_no_wrap) simp_all
qed

lemma slice_step:
  "k < n \<Longrightarrow> slice xs ((b + k) * c) c @ slice xs ((b + Suc k) * c) ((n - Suc k) * c) = slice xs ((b + k) * c) ((n - k) * c)"
proof -
  assume "k < n"
  then have n: "(n - k) * c = c + (n - Suc k) * c" by (metis Suc_diff_Suc mult_Suc)
  have m: "(b + Suc k) * c = (b + k) * c + c" by simp
  show ?thesis unfolding n m by (simp only: take_add drop_drop add.commute)
qed

lemma overlay_step:
  assumes "k < n" "length input = n * c" "(b + n) * c \<le> length xs"
  shows "overlay (overlay xs ((b + k) * c) (slice input (k * c) c)) ((b + Suc k) * c) (drop (Suc k * c) input) =
    overlay xs ((b + k) * c) (drop (k * c) input)"
proof -
  have "k * c + c \<le> n * c" using assms(1) by (metis Suc_leI add.commute mult_Suc mult_le_mono1)
  then have len: "length (slice input (k * c) c) = c" using assms(2) by simp
  have fits: "(b + k) * c + length (slice input (k * c) c) \<le> length xs"
    using assms(3) \<open>k * c + c \<le> n * c\<close> unfolding len by (simp add: add_mult_distrib)
  have m: "(b + Suc k) * c = (b + k) * c + length (slice input (k * c) c)" unfolding len by simp
  have "slice input (k * c) c @ drop (Suc k * c) input = drop (k * c) input"
    by (metis add.commute append_take_drop_id drop_drop mult_Suc)
  then show ?thesis unfolding m overlay_overlay_adjacent [OF fits] by simp
qed

section \<open>A card that settles\<close>

text \<open>
  \<open>alive\<close>: the card answers; \<open>busy\<close>: the ticks until it is back in the transfer state, at most
  4999 after a transfer; \<open>bytes\<close>: its contents.
\<close>

definition poll_laws ::
    "'w sd_hal \<Rightarrow> ('w \<Rightarrow> bool) \<Rightarrow> ('w \<Rightarrow> nat) \<Rightarrow> ('w \<Rightarrow> nat) \<Rightarrow> ('w \<Rightarrow> u8 list) \<Rightarrow> 'w \<Rightarrow> bool" where
  "poll_laws hal alive busy tick bytes w \<longleftrightarrow>
     card_in_transfer hal w = (busy w = 0, w) \<and> HAL_GetTick hal w = (of_nat (tick w), w) \<and>
     alive (tx_thread_sleep_one hal w) \<and> bytes (tx_thread_sleep_one hal w) = bytes w \<and>
     tick w < tick (tx_thread_sleep_one hal w) \<and>
     busy (tx_thread_sleep_one hal w) = busy w - (tick (tx_thread_sleep_one hal w) - tick w)"

definition transfer_laws ::
    "'w sd_hal \<Rightarrow> ('w \<Rightarrow> bool) \<Rightarrow> ('w \<Rightarrow> nat) \<Rightarrow> ('w \<Rightarrow> u8 list) \<Rightarrow> u32 \<Rightarrow> 'w \<Rightarrow> bool" where
  "transfer_laws hal alive busy bytes capacity w \<longleftrightarrow>
     LogBlockNbr hal w = capacity \<and> length (bytes w) = unat capacity * sector_size \<and>
     (\<forall>sector. unat sector < unat capacity \<longrightarrow>
        (case HAL_SD_ReadBlocks hal sector w of ((status, data), w') \<Rightarrow>
           status = HAL_OK \<and> data = slice (bytes w) (unat sector * sector_size) sector_size \<and>
           alive w' \<and> busy w' < 5000 \<and> bytes w' = bytes w) \<and>
        (\<forall>data. length data = sector_size \<longrightarrow>
           (case HAL_SD_WriteBlocks hal sector data w of (status, w') \<Rightarrow>
              status = HAL_OK \<and> alive w' \<and> busy w' < 5000 \<and>
              bytes w' = overlay (bytes w) (unat sector * sector_size) data)))"

definition card_laws ::
    "'w sd_hal \<Rightarrow> ('w \<Rightarrow> bool) \<Rightarrow> ('w \<Rightarrow> nat) \<Rightarrow> ('w \<Rightarrow> nat) \<Rightarrow> ('w \<Rightarrow> u8 list) \<Rightarrow> u32 \<Rightarrow> bool" where
  "card_laws hal alive busy tick bytes capacity \<longleftrightarrow>
     (\<forall>w. alive w \<longrightarrow> poll_laws hal alive busy tick bytes w \<and> transfer_laws hal alive busy bytes capacity w)"

lemma transfer_read:
  assumes "transfer_laws hal alive busy bytes capacity w" "unat sector < unat capacity"
  obtains w' where "HAL_SD_ReadBlocks hal sector w = ((HAL_OK, slice (bytes w) (unat sector * sector_size) sector_size), w')"
    "alive w'" "busy w' < 5000" "bytes w' = bytes w"
proof -
  obtain status data w' where r: "HAL_SD_ReadBlocks hal sector w = ((status, data), w')" by (metis prod.collapse)
  moreover have "case HAL_SD_ReadBlocks hal sector w of ((status, data), w') \<Rightarrow>
      status = HAL_OK \<and> data = slice (bytes w) (unat sector * sector_size) sector_size \<and>
      alive w' \<and> busy w' < 5000 \<and> bytes w' = bytes w"
    by (rule assms(1) [unfolded transfer_laws_def, THEN conjunct2, THEN conjunct2, THEN spec, THEN mp, OF assms(2), THEN conjunct1])
  ultimately show ?thesis using that by simp
qed

lemma transfer_write:
  assumes "transfer_laws hal alive busy bytes capacity w" "unat sector < unat capacity" "length data = sector_size"
  obtains w' where "HAL_SD_WriteBlocks hal sector data w = (HAL_OK, w')"
    "alive w'" "busy w' < 5000" "bytes w' = overlay (bytes w) (unat sector * sector_size) data"
proof -
  obtain status w' where r: "HAL_SD_WriteBlocks hal sector data w = (status, w')" by (metis prod.collapse)
  moreover have "case HAL_SD_WriteBlocks hal sector data w of (status, w') \<Rightarrow>
      status = HAL_OK \<and> alive w' \<and> busy w' < 5000 \<and> bytes w' = overlay (bytes w) (unat sector * sector_size) data"
    by (rule assms(1) [unfolded transfer_laws_def, THEN conjunct2, THEN conjunct2, THEN spec, THEN mp, OF assms(2),
        THEN conjunct2, THEN spec, THEN mp, OF assms(3)])
  ultimately show ?thesis using that by simp
qed

lemma sd_wait_loop_run:
  assumes laws: "card_laws hal alive busy tick bytes capacity"
    and "alive (card s)" "started \<le> tick (card s)"
    and "busy (card s) = 0 \<or> tick (card s) - started + busy (card s) < 5000"
  shows "\<exists>w. sd_wait_loop hal (of_nat started) s = Some (True, s\<lparr>card := w\<rparr>) \<and> alive w \<and> bytes w = bytes (card s)"
  using assms(2-)
proof (induction "busy (card s)" arbitrary: s rule: less_induct)
  case less
  have poll: "poll_laws hal alive busy tick bytes (card s)" using laws less.prems(1) by (simp add: card_laws_def)
  show ?case
  proof (cases "busy (card s) = 0")
    case True
    then show ?thesis using poll less.prems(1)
      by (subst sd_wait_loop.simps) (auto simp: poll_laws_def intro!: exI [of _ "card s"])
  next
    case False
    let ?w = "tx_thread_sleep_one hal (card s)"
    have elapsed: "unat (of_nat (tick (card s)) - of_nat started :: u32) = tick (card s) - started"
      using less.prems False by (intro elapsed_ticks) auto
    then have early: "\<not> (5000 :: u32) \<le> of_nat (tick (card s)) - of_nat started"
      using less.prems(3) False by (simp add: word_le_nat_alt)
    have "\<exists>w. sd_wait_loop hal (of_nat started) (s\<lparr>card := ?w\<rparr>) = Some (True, (s\<lparr>card := ?w\<rparr>)\<lparr>card := w\<rparr>) \<and>
        alive w \<and> bytes w = bytes (card (s\<lparr>card := ?w\<rparr>))"
      by (rule less.hyps) (use poll less.prems False in \<open>auto simp: poll_laws_def\<close>)
    then show ?thesis
      using poll False early by (subst sd_wait_loop.simps) (auto simp: poll_laws_def)
  qed
qed

lemma sd_wait_ready_run:
  assumes "card_laws hal alive busy tick bytes capacity" "alive (card s)" "busy (card s) < 5000"
  shows "\<exists>w. sd_wait_ready hal s = Some (True, s\<lparr>card := w\<rparr>) \<and> alive w \<and> bytes w = bytes (card s)"
proof -
  have "HAL_GetTick hal (card s) = (of_nat (tick (card s)), card s)"
    using assms(1,2) by (simp add: card_laws_def poll_laws_def)
  then show ?thesis
    using sd_wait_loop_run [OF assms(1,2), of "tick (card s)"] assms(3) by (simp add: sd_wait_ready_def)
qed

lemma sd_read_loop_run:
  assumes laws: "card_laws hal alive busy tick bytes capacity"
    and "alive (card s)" "unat sector + n \<le> unat capacity" "k \<le> n"
  shows "\<exists>w. sd_read_loop hal sector [k..<n] acc s =
      Some (Some (acc @ slice (bytes (card s)) ((unat sector + k) * sector_size) ((n - k) * sector_size)), s\<lparr>card := w\<rparr>) \<and>
    alive w \<and> bytes w = bytes (card s)"
  using assms(2-)
proof (induction "n - k" arbitrary: k acc s)
  case 0
  then show ?case by (auto intro!: exI [of _ "card s"])
next
  case (Suc d)
  then have k: "k < n" and sector: "unat (sector + of_nat k) = unat sector + k"
    using sector_index [of sector k capacity] by auto
  have "transfer_laws hal alive busy bytes capacity (card s)" using laws Suc.prems(1) by (simp add: card_laws_def)
  from this obtain w where w: "HAL_SD_ReadBlocks hal (sector + of_nat k) (card s) =
        ((HAL_OK, slice (bytes (card s)) ((unat sector + k) * sector_size) sector_size), w)"
      "alive w" "busy w < 5000" "bytes w = bytes (card s)"
    using transfer_read [of hal alive busy bytes capacity "card s" "sector + of_nat k"] k Suc.prems(2) by (auto simp: sector)
  obtain v where v: "sd_wait_ready hal (s\<lparr>card := w\<rparr>) = Some (True, s\<lparr>card := v\<rparr>)" "alive v" "bytes v = bytes (card s)"
    using sd_wait_ready_run [OF laws, of "s\<lparr>card := w\<rparr>"] w by auto
  let ?o = "acc @ slice (bytes (card s)) ((unat sector + k) * sector_size) sector_size"
  have "\<exists>u. sd_read_loop hal sector [Suc k..<n] ?o (s\<lparr>card := v\<rparr>) =
      Some (Some (?o @ slice (bytes (card (s\<lparr>card := v\<rparr>))) ((unat sector + Suc k) * sector_size) ((n - Suc k) * sector_size)),
        (s\<lparr>card := v\<rparr>)\<lparr>card := u\<rparr>) \<and> alive u \<and> bytes u = bytes (card (s\<lparr>card := v\<rparr>))"
    by (rule Suc.hyps(1)) (use Suc v in auto)
  then show ?case
    using w(1) v slice_step [OF k, where xs = "bytes (card s)" and b = "unat sector" and c = sector_size] k
    by (auto simp: upt_conv_Cons)
qed

lemma sd_write_loop_run:
  assumes laws: "card_laws hal alive busy tick bytes capacity"
    and "alive (card s)" "unat sector + n \<le> unat capacity" "k \<le> n" "length input = n * sector_size"
  shows "\<exists>w. sd_write_loop hal sector input [k..<n] s = Some (True, s\<lparr>card := w\<rparr>) \<and> alive w \<and>
    bytes w = overlay (bytes (card s)) ((unat sector + k) * sector_size) (drop (k * sector_size) input)"
  using assms(2-)
proof (induction "n - k" arbitrary: k s)
  case 0
  then show ?case by (auto intro!: exI [of _ "card s"])
next
  case (Suc d)
  then have k: "k < n" and sector: "unat (sector + of_nat k) = unat sector + k"
    using sector_index [of sector k capacity] by auto
  let ?data = "slice input (k * sector_size) sector_size"
  have fit: "k * sector_size + sector_size \<le> n * sector_size" using k by (metis Suc_leI add.commute mult_Suc mult_le_mono1)
  have laws_s: "transfer_laws hal alive busy bytes capacity (card s)" using laws Suc.prems(1) by (simp add: card_laws_def)
  then obtain w where w: "HAL_SD_WriteBlocks hal (sector + of_nat k) ?data (card s) = (HAL_OK, w)"
      "alive w" "busy w < 5000" "bytes w = overlay (bytes (card s)) ((unat sector + k) * sector_size) ?data"
    using transfer_write [of hal alive busy bytes capacity "card s" "sector + of_nat k" ?data] k Suc.prems(2,4) fit
    by (auto simp: sector)
  obtain v where v: "sd_wait_ready hal (s\<lparr>card := w\<rparr>) = Some (True, s\<lparr>card := v\<rparr>)" "alive v" "bytes v = bytes w"
    using sd_wait_ready_run [OF laws, of "s\<lparr>card := w\<rparr>"] w by auto
  have "\<exists>u. sd_write_loop hal sector input [Suc k..<n] (s\<lparr>card := v\<rparr>) = Some (True, (s\<lparr>card := v\<rparr>)\<lparr>card := u\<rparr>) \<and>
      alive u \<and> bytes u = overlay (bytes (card (s\<lparr>card := v\<rparr>))) ((unat sector + Suc k) * sector_size) (drop (Suc k * sector_size) input)"
    by (rule Suc.hyps(1)) (use Suc v in auto)
  moreover have "(unat sector + n) * sector_size \<le> length (bytes (card s))"
    using laws_s Suc.prems(2) by (simp add: transfer_laws_def)
  ultimately show ?case
    using w v overlay_step [OF k Suc.prems(4)] k by (auto simp: upt_conv_Cons)
qed

lemma stm32_sd_block_driver:
  assumes laws: "card_laws hal alive busy tick bytes capacity"
  shows "block_driver (direct_media_driver (stm32_sd_read hal) (stm32_sd_write hal) partition_of capacity)
     (\<lambda>s. alive (card s)) (\<lambda>s. bytes (card s)) direct_place capacity"
proof (rule direct_block_driver)
  fix s :: "'a sd" and sector n :: u32
  assume "alive (card s)"
  then have blocks: "LogBlockNbr hal (card s) = capacity" and "length (bytes (card s)) = unat capacity * sector_size"
    using laws by (simp_all add: card_laws_def transfer_laws_def)
  then show "length (bytes (card s)) = unat capacity * sector_size" by simp
  assume range: "in_range sector 0 n capacity"
  then have le: "unat sector + unat n \<le> unat capacity" by (simp add: in_range_start)
  show "\<exists>t. stm32_sd_read hal sector n s =
      Some (Some (slice (bytes (card s)) (unat sector * sector_size) (unat n * sector_size)), t) \<and>
      alive (card t) \<and> bytes (card t) = bytes (card s)"
    using sd_read_loop_run [OF laws \<open>alive (card s)\<close> le, of 0 "[]"] range by (auto simp: stm32_sd_read_def blocks)
  fix data :: "u8 list"
  assume "length data = unat n * sector_size"
  then show "\<exists>t. stm32_sd_write hal sector data n s = Some (True, t) \<and> alive (card t) \<and>
      bytes (card t) = overlay (bytes (card s)) (unat sector * sector_size) data"
    using sd_write_loop_run [OF laws \<open>alive (card s)\<close> le, of 0 data] range by (auto simp: stm32_sd_write_def blocks)
qed

text \<open>A card of eight sectors that is busy for two ticks after every transfer.\<close>

record memory_card =
  mc_bytes :: "u8 list"
  mc_busy :: nat
  mc_tick :: nat

definition memory_card_hal :: "memory_card sd_hal" where
  "memory_card_hal = \<lparr>
     HAL_SD_ReadBlocks = (\<lambda>sector w. ((HAL_OK, slice (mc_bytes w) (unat sector * sector_size) sector_size), w\<lparr>mc_busy := 2\<rparr>)),
     HAL_SD_WriteBlocks = (\<lambda>sector data w.
       (HAL_OK, w\<lparr>mc_bytes := overlay (mc_bytes w) (unat sector * sector_size) data, mc_busy := 2\<rparr>)),
     card_in_transfer = (\<lambda>w. (mc_busy w = 0, w)),
     HAL_GetTick = (\<lambda>w. (of_nat (mc_tick w), w)),
     tx_thread_sleep_one = (\<lambda>w. w\<lparr>mc_tick := mc_tick w + 1, mc_busy := mc_busy w - 1\<rparr>),
     sd_ErrorCode = (\<lambda>w. 0), LogBlockNbr = (\<lambda>w. 8)\<rparr>"

definition memory_card_alive :: "memory_card \<Rightarrow> bool" where
  "memory_card_alive w \<longleftrightarrow> length (mc_bytes w) = 8 * sector_size"

lemma memory_card_laws: "card_laws memory_card_hal memory_card_alive mc_busy mc_tick mc_bytes 8"
proof -
  have "unat sector * sector_size + sector_size \<le> 8 * sector_size" if "unat sector < 8" for sector :: u32
    using that by (simp add: sector_size_def)
  then show ?thesis
    by (auto simp: card_laws_def poll_laws_def transfer_laws_def memory_card_hal_def memory_card_alive_def)
qed

interpretation stm32_sd: block_driver
    "direct_media_driver (stm32_sd_read memory_card_hal) (stm32_sd_write memory_card_hal) partition_of 8"
    "\<lambda>s. memory_card_alive (card s)" "\<lambda>s. mc_bytes (card s)" direct_place 8
  by (rule stm32_sd_block_driver [OF memory_card_laws])

section \<open>LevelX\<close>

text \<open>
  The documented behaviour of LevelX's sector calls on an open instance: a flat array of
  logical sectors, whatever LevelX does to place them in the flash. Releasing is not constrained.
\<close>

definition levelx_sector_laws :: "'w levelx \<Rightarrow> ('w \<Rightarrow> bool) \<Rightarrow> ('w \<Rightarrow> u8 list) \<Rightarrow> 'w \<Rightarrow> u32 \<Rightarrow> bool" where
  "levelx_sector_laws lx mapped bytes w sector \<longleftrightarrow>
     (case lx_nor_flash_sector_read lx sector w of ((status, data), w') \<Rightarrow>
        status = LX_SUCCESS \<and> data = slice (bytes w) (unat sector * sector_size) sector_size \<and>
        mapped w' \<and> bytes w' = bytes w) \<and>
     (\<forall>data. length data = sector_size \<longrightarrow>
        (case lx_nor_flash_sector_write lx sector data w of (status, w') \<Rightarrow>
           status = LX_SUCCESS \<and> mapped w' \<and> bytes w' = overlay (bytes w) (unat sector * sector_size) data))"

definition levelx_laws :: "'w levelx \<Rightarrow> ('w \<Rightarrow> bool) \<Rightarrow> ('w \<Rightarrow> u8 list) \<Rightarrow> bool" where
  "levelx_laws lx mapped bytes \<longleftrightarrow>
     (\<forall>w. mapped w \<longrightarrow> length (bytes w) = unat flash_filex_sectors * sector_size \<and>
        (\<forall>sector. unat sector < unat flash_filex_sectors \<longrightarrow> levelx_sector_laws lx mapped bytes w sector))"

lemma levelx_sector:
  assumes "levelx_laws lx mapped bytes" "mapped w" "unat sector < unat flash_filex_sectors"
  shows "levelx_sector_laws lx mapped bytes w sector"
  using assms by (simp add: levelx_laws_def)

lemma levelx_read_loop_run:
  assumes laws: "levelx_laws lx mapped bytes"
    and "mapped w" "unat sector + n \<le> unat flash_filex_sectors" "k \<le> n"
  shows "\<exists>w'. levelx_read_loop lx sector [k..<n] acc w =
      (Some (acc @ slice (bytes w) ((unat sector + k) * sector_size) ((n - k) * sector_size)), w') \<and>
    mapped w' \<and> bytes w' = bytes w"
  using assms(2-)
proof (induction "n - k" arbitrary: k acc w)
  case (Suc d)
  then have k: "k < n" and sector: "unat (sector + of_nat k) = unat sector + k"
    using sector_index [of sector k flash_filex_sectors] by auto
  have "levelx_sector_laws lx mapped bytes w (sector + of_nat k)"
    using k Suc.prems by (intro levelx_sector [OF laws]) (simp_all add: sector)
  then obtain v where v: "lx_nor_flash_sector_read lx (sector + of_nat k) w =
        ((LX_SUCCESS, slice (bytes w) ((unat sector + k) * sector_size) sector_size), v)"
      "mapped v" "bytes v = bytes w"
    by (auto simp: levelx_sector_laws_def sector)
  let ?acc = "acc @ slice (bytes w) ((unat sector + k) * sector_size) sector_size"
  have "\<exists>w'. levelx_read_loop lx sector [Suc k..<n] ?acc v =
      (Some (?acc @ slice (bytes v) ((unat sector + Suc k) * sector_size) ((n - Suc k) * sector_size)), w') \<and>
      mapped w' \<and> bytes w' = bytes v"
    by (rule Suc.hyps(1)) (use Suc v in auto)
  then show ?case
    using v slice_step [OF k, where xs = "bytes w" and b = "unat sector" and c = sector_size] k
    by (auto simp: upt_conv_Cons)
qed simp

lemma levelx_write_loop_run:
  assumes laws: "levelx_laws lx mapped bytes"
    and "mapped w" "unat sector + n \<le> unat flash_filex_sectors" "k \<le> n" "length input = n * sector_size"
  shows "\<exists>w'. levelx_write_loop lx sector input [k..<n] w = (True, w') \<and> mapped w' \<and>
    bytes w' = overlay (bytes w) ((unat sector + k) * sector_size) (drop (k * sector_size) input)"
  using assms(2-)
proof (induction "n - k" arbitrary: k w)
  case (Suc d)
  then have k: "k < n" and sector: "unat (sector + of_nat k) = unat sector + k"
    using sector_index [of sector k flash_filex_sectors] by auto
  let ?data = "slice input (k * sector_size) sector_size"
  have fit: "k * sector_size + sector_size \<le> n * sector_size" using k by (metis Suc_leI add.commute mult_Suc mult_le_mono1)
  have "levelx_sector_laws lx mapped bytes w (sector + of_nat k)"
    using k Suc.prems by (intro levelx_sector [OF laws]) (simp_all add: sector)
  moreover have "length ?data = sector_size" using fit Suc.prems(4) by simp
  ultimately obtain v where v: "lx_nor_flash_sector_write lx (sector + of_nat k) ?data w = (LX_SUCCESS, v)"
      "mapped v" "bytes v = overlay (bytes w) ((unat sector + k) * sector_size) ?data"
    unfolding levelx_sector_laws_def sector by fastforce
  have "\<exists>w'. levelx_write_loop lx sector input [Suc k..<n] v = (True, w') \<and> mapped w' \<and>
      bytes w' = overlay (bytes v) ((unat sector + Suc k) * sector_size) (drop (Suc k * sector_size) input)"
    by (rule Suc.hyps(1)) (use Suc v in auto)
  moreover have "(unat sector + n) * sector_size \<le> length (bytes w)"
    using laws Suc.prems(1,2) by (simp add: levelx_laws_def)
  ultimately show ?case
    using v overlay_step [OF k Suc.prems(4)] k by (auto simp: upt_conv_Cons)
qed simp

lemma levelx_block_driver:
  assumes laws: "levelx_laws lx mapped bytes"
  shows "block_driver (levelx_media_driver lx) (\<lambda>s. mapped (nor_world s)) (\<lambda>s. bytes (nor_world s))
     levelx_place flash_filex_sectors"
proof unfold_locales
  show "length (bytes (nor_world s)) = unat flash_filex_sectors * sector_size" if "mapped (nor_world s)" for s :: "'a nor"
    using that laws by (simp add: levelx_laws_def)
next
  fix s :: "'a nor" and m :: media_request
  assume *: "mapped (nor_world s)" "m_request m = FX_DRIVER_READ" "within (levelx_place m) m flash_filex_sectors"
  then show "\<exists>t. levelx_media_driver lx m s =
      Some ((FX_SUCCESS, slice (bytes (nor_world s)) (levelx_place m * sector_size) (unat (m_sectors m) * sector_size)), t) \<and>
      mapped (nor_world t) \<and> bytes (nor_world t) = bytes (nor_world s)"
    using levelx_read_loop_run [OF laws *(1), of "m_logical_sector m" "unat (m_sectors m)" 0 "[]"]
    by (auto simp: levelx_media_driver_def Let_def in_range_start within_def levelx_place_def)
next
  fix s :: "'a nor" and m :: media_request
  assume *: "mapped (nor_world s)" "m_request m = FX_DRIVER_WRITE" "within (levelx_place m) m flash_filex_sectors"
    "length (m_buffer m) = unat (m_sectors m) * sector_size"
  then show "\<exists>t. levelx_media_driver lx m s = Some ((FX_SUCCESS, m_buffer m), t) \<and> mapped (nor_world t) \<and>
      bytes (nor_world t) = overlay (bytes (nor_world s)) (levelx_place m * sector_size) (m_buffer m)"
    using levelx_write_loop_run [OF laws *(1), of "m_logical_sector m" "unat (m_sectors m)" 0 "m_buffer m"]
    by (auto simp: levelx_media_driver_def Let_def in_range_start within_def levelx_place_def)
next
  fix s :: "'a nor" and m :: media_request
  assume "m_request m \<in> {FX_DRIVER_READ, FX_DRIVER_WRITE}" "\<not> within (levelx_place m) m flash_filex_sectors"
  then show "levelx_media_driver lx m s = Some ((FX_IO_ERROR, m_buffer m), s)"
    by (auto simp: levelx_media_driver_def Let_def in_range_start within_def levelx_place_def)
qed

text \<open>A LevelX that keeps its logical sectors in one list; \<open>ra_mapped\<close> counts mapped sectors.\<close>

record ram_array =
  ra_bytes :: "u8 list"
  ra_mapped :: nat

definition ram_levelx :: "ram_array levelx" where
  "ram_levelx = \<lparr>lx_nor_flash_initialize = id, lx_nor_flash_open = (\<lambda>w. (LX_SUCCESS, w)),
     lx_nor_flash_extended_cache_enable = (\<lambda>w. (LX_SUCCESS, w)), lx_nor_flash_close = (\<lambda>w. (LX_SUCCESS, w)),
     lx_nor_flash_sector_read = (\<lambda>sector w.
       ((LX_SUCCESS, slice (ra_bytes w) (unat sector * sector_size) sector_size), w)),
     lx_nor_flash_sector_write = (\<lambda>sector data w.
       (LX_SUCCESS, w\<lparr>ra_bytes := overlay (ra_bytes w) (unat sector * sector_size) data, ra_mapped := ra_mapped w + 1\<rparr>)),
     lx_nor_flash_sector_release = (\<lambda>sector w. (LX_SECTOR_NOT_FOUND, w)),
     lx_nor_flash_mapped_physical_sectors = ra_mapped\<rparr>"

definition ram_ready :: "ram_array \<Rightarrow> bool" where
  "ram_ready w \<longleftrightarrow> length (ra_bytes w) = unat flash_filex_sectors * sector_size"

lemma ram_levelx_laws: "levelx_laws ram_levelx ram_ready ra_bytes"
proof -
  have "unat sector * sector_size + sector_size \<le> unat flash_filex_sectors * sector_size"
    if "unat sector < unat flash_filex_sectors" for sector :: u32
    using that by (metis Suc_leI add.commute mult_Suc mult_le_mono1)
  then show ?thesis by (auto simp: levelx_laws_def levelx_sector_laws_def ram_levelx_def ram_ready_def)
qed

interpretation ram_flash: block_driver "levelx_media_driver ram_levelx" "\<lambda>s. ram_ready (nor_world s)"
    "\<lambda>s. ra_bytes (nor_world s)" levelx_place flash_filex_sectors
  by (rule levelx_block_driver [OF ram_levelx_laws])

end
