(* ===== verification/Media_Startup.thy ===== *)
theory Media_Startup
  imports Media_Contracts
begin

text \<open>
  Start-up of the storage devices in \<^verbatim>\<open>storage_media.cpp\<close>: bringing up the flash and the SD card,
  mounting (and, for a blank device, formatting) their volumes, the one-bit retry of the SD
  card, and the cached result of \<open>initialize\<close>. The state is that of the NOR part extended with
  the remaining file-scope objects; FileX calls back into the driver, so its calls act on all of it.
\<close>

section \<open>State\<close>

text \<open>The members of \<^verbatim>\<open>hsd1\<close> the code reads; the other initialisation members are constants.\<close>

record sd_handle =
  h_bus_wide :: u8
  h_ErrorCode :: u32
  h_LogBlockNbr :: u32

definition empty_handle :: sd_handle where
  "empty_handle = \<lparr>h_bus_wide = 0, h_ErrorCode = 0, h_LogBlockNbr = 0\<rparr>"

record 'w storage = "'w nor" +
  hsd1 :: sd_handle
  d_flash_jedec_id :: u32
  d_flash_blocks :: nat
  d_flash_logical_sectors :: u32
  d_sd_blocks :: u32
  d_qspi_error :: u32
  d_sd_error :: u32
  d_sd_fallback_error :: u32
  d_flash_filex_status :: fx_status
  d_sd_filex_status :: fx_status
  d_flash_mounted :: bool
  d_sd_mounted :: bool
  d_flash_was_formatted :: bool
  d_sd_detect_level :: bool
  d_sd_bus_width :: u8
  d_sd_fallback_used :: bool
  flash_mounted_flag :: bool
  sd_mounted_flag :: bool
  initialization_attempted :: bool

text \<open>\<^verbatim>\<open>runtime_storage_diagnostics = {}\<close>\<close>

definition clear_diagnostics :: "'w storage \<Rightarrow> 'w storage" where
  "clear_diagnostics s = s\<lparr>levelx_status := LX_SUCCESS, d_flash_jedec_id := 0, d_flash_blocks := 0,
     d_flash_logical_sectors := 0, d_sd_blocks := 0, d_qspi_error := 0, d_sd_error := 0,
     d_sd_fallback_error := 0, d_flash_filex_status := FX_SUCCESS, d_sd_filex_status := FX_SUCCESS,
     d_flash_mounted := False, d_sd_mounted := False, d_flash_was_formatted := False,
     d_sd_detect_level := False, d_sd_bus_width := 0, d_sd_fallback_used := False\<rparr>"

text \<open>FileX's format and open, with the arguments the code gives for each volume.\<close>

record 's media_calls =
  fx_media_format :: "Volume \<Rightarrow> 's \<Rightarrow> fx_status \<times> 's"
  fx_media_open :: "Volume \<Rightarrow> 's \<Rightarrow> fx_status \<times> 's"

section \<open>The flash volume\<close>

primrec erase_blocks :: "'c qspi_hal \<Rightarrow> nat list \<Rightarrow> 'c qspi \<Rightarrow> bool \<times> 'c qspi" where
  "erase_blocks hal [] s = (True, s)"
| "erase_blocks hal (block # blocks) s =
     (case stm32_qspi_erase hal (block * erase_block_bytes) s of
        (succeeded, t) \<Rightarrow> if succeeded then erase_blocks hal blocks t else (False, t))"

text \<open>\<open>erase_on_boot\<close> is \<^verbatim>\<open>RUNTIME_STORAGE_ERASE_FLASH_ON_BOOT\<close>.\<close>

definition stm32_flash_bring_up :: "'w qspi_hal \<Rightarrow> bool \<Rightarrow> 'w storage \<Rightarrow> bool \<times> 'w storage" where
  "stm32_flash_bring_up hal erase_on_boot s =
     (case initialize_qspi hal \<lparr>chip = nor_world s, qspi_error = d_qspi_error s, flash_jedec_id = d_flash_jedec_id s\<rparr> of
        (succeeded, q) \<Rightarrow>
          (case (if succeeded \<and> erase_on_boot then erase_blocks hal [0..<flash_blocks] q else (succeeded, q)) of
             (ready, q') \<Rightarrow>
               (ready, s\<lparr>nor_world := chip q', d_qspi_error := qspi_error q',
                         d_flash_jedec_id := flash_jedec_id q'\<rparr>)))"

text \<open>The files of the Linux build.\<close>

record linux_files =
  tmp_directory :: "string \<Rightarrow> u8 list option"
  tmp_creatable :: bool
  tmp_limit :: nat
  flash_image_name :: "string option"
  sd_image_name :: "string option"
  nor_file :: image
  sd_device :: sd_image

definition linux_flash_bring_up :: "linux_files storage \<Rightarrow> bool \<times> linux_files storage" where
  "linux_flash_bring_up s =
     (let w = nor_world s in
        case open_image (tmp_directory w) (tmp_creatable w) (tmp_limit w) (flash_image_name w) flash_bytes 0xFF of
          (succeeded, created, f) \<Rightarrow>
            let t = s\<lparr>nor_world := w\<lparr>nor_file := f\<rparr>\<rparr> in
              if succeeded then (True, t\<lparr>d_flash_jedec_id := 0xEF4018\<rparr>) else (False, t))"

definition mount_flash :: "'w storage media_calls \<Rightarrow> 'w storage \<Rightarrow> bool \<times> 'w storage" where
  "mount_flash fx s =
     (case fx_media_open fx Flash s of (open_status, t) \<Rightarrow>
        (open_status = FX_SUCCESS,
         t\<lparr>d_flash_filex_status := open_status, flash_mounted_flag := (open_status = FX_SUCCESS),
           d_flash_mounted := (open_status = FX_SUCCESS)\<rparr>))"

definition initialize_flash_media ::
    "('w storage \<Rightarrow> bool \<times> 'w storage) \<Rightarrow> 'w levelx \<Rightarrow> 'w storage media_calls \<Rightarrow> 'w storage \<Rightarrow> bool \<times> 'w storage" where
  "initialize_flash_media bring_up lx fx s =
     (case bring_up s of (succeeded, s1) \<Rightarrow>
        if \<not> succeeded then (False, s1)
        else
          (case open_levelx lx (s1\<lparr>d_flash_blocks := flash_blocks,
                                  nor_world := lx_nor_flash_initialize lx (nor_world s1)\<rparr>) of (opened, s2) \<Rightarrow>
             if opened \<noteq> LX_SUCCESS then (False, s2)
             else
               (let empty = (lx_nor_flash_mapped_physical_sectors lx (nor_world s2) = 0) in
                case close_levelx lx (s2\<lparr>d_flash_logical_sectors := flash_filex_sectors\<rparr>) of (closed, s3) \<Rightarrow>
                  if closed \<noteq> LX_SUCCESS then (False, s3)
                  else if empty
                  then (case fx_media_format fx Flash s3 of (format_status, s4) \<Rightarrow>
                          if format_status \<noteq> FX_SUCCESS then (False, s4\<lparr>d_flash_filex_status := format_status\<rparr>)
                          else mount_flash fx (s4\<lparr>d_flash_was_formatted := True\<rparr>))
                  else mount_flash fx s3)))"

section \<open>The SD volume\<close>

definition sd_data_crc_error :: u32 where "sd_data_crc_error = 0x00000002"

definition should_retry_sd_mount_in_one_bit :: "u8 \<Rightarrow> fx_status \<Rightarrow> u32 \<Rightarrow> bool" where
  "should_retry_sd_mount_in_one_bit bus_width filex_status error \<longleftrightarrow>
     bus_width = 4 \<and> filex_status = FX_BOOT_ERROR \<and> error AND sd_data_crc_error \<noteq> 0"

text \<open>
  The HAL calls on \<^verbatim>\<open>hsd1\<close>: they take the handle and return it. \<open>clear_sd_media\<close> empties the
  media object and its cache.
\<close>

record 'w card_hal =
  HAL_SD_Init :: "sd_handle \<Rightarrow> 'w \<Rightarrow> (hal_status \<times> sd_handle) \<times> 'w"
  HAL_SD_GetCardInfo :: "sd_handle \<Rightarrow> 'w \<Rightarrow> (hal_status \<times> u32 \<times> sd_handle) \<times> 'w"
  HAL_SD_DeInit :: "sd_handle \<Rightarrow> 'w \<Rightarrow> sd_handle \<times> 'w"
  sd_card_detect :: "'w \<Rightarrow> bool"
  clear_sd_media :: "'w \<Rightarrow> 'w"

definition configure_sd_handle :: "u8 \<Rightarrow> sd_handle" where
  "configure_sd_handle bus_width = empty_handle\<lparr>h_bus_wide := bus_width\<rparr>"

text \<open>The \<^verbatim>\<open>SDMMC_BUS_WIDE\<close> code is identified with the reported width, 1 or 4.\<close>

definition initialize_sd_card :: "'w card_hal \<Rightarrow> u8 \<Rightarrow> 'w storage \<Rightarrow> bool \<times> 'w storage" where
  "initialize_sd_card hal bus_width s =
     (let s1 = s\<lparr>hsd1 := configure_sd_handle bus_width, d_sd_bus_width := 0\<rparr> in
        case HAL_SD_Init hal (hsd1 s1) (nor_world s1) of ((status, h), w) \<Rightarrow>
          let s2 = s1\<lparr>hsd1 := h, nor_world := w\<rparr> in
            if status \<noteq> HAL_OK
            then (False, s2\<lparr>d_sd_error := h_ErrorCode h, d_sd_blocks := h_LogBlockNbr h\<rparr>)
            else
              (case HAL_SD_GetCardInfo hal h w of ((status, blocks, h'), w') \<Rightarrow>
                 let s3 = s2\<lparr>hsd1 := h', nor_world := w'\<rparr> in
                   if status \<noteq> HAL_OK
                   then (False, s3\<lparr>d_sd_error := h_ErrorCode h', d_sd_blocks := h_LogBlockNbr h'\<rparr>)
                   else (True, s3\<lparr>d_sd_error := HAL_SD_ERROR_NONE, d_sd_blocks := blocks,
                                  d_sd_bus_width := bus_width\<rparr>)))"

definition deinit_sd :: "'w card_hal \<Rightarrow> 'w storage \<Rightarrow> 'w storage" where
  "deinit_sd hal s = (case HAL_SD_DeInit hal (hsd1 s) (nor_world s) of (h, w) \<Rightarrow> s\<lparr>hsd1 := h, nor_world := w\<rparr>)"

definition prepare_sd_mount_retry :: "'w card_hal \<Rightarrow> 'w storage \<Rightarrow> 'w storage" where
  "prepare_sd_mount_retry hal s =
     (let t = deinit_sd hal s in
        t\<lparr>hsd1 := empty_handle, nor_world := clear_sd_media hal (nor_world t), sd_mounted_flag := False,
          d_sd_mounted := False, d_sd_bus_width := 0\<rparr>)"

definition finish_sd_mount :: "fx_status \<Rightarrow> 'w storage \<Rightarrow> bool \<times> 'w storage" where
  "finish_sd_mount open_status s =
     (open_status = FX_SUCCESS,
      s\<lparr>d_sd_filex_status := open_status, sd_mounted_flag := (open_status = FX_SUCCESS),
        d_sd_mounted := (open_status = FX_SUCCESS)\<rparr>)"

text \<open>When a retry cannot reach the card either, the block count of the first try is kept.\<close>

definition keep_blocks :: "u32 \<Rightarrow> 'w storage \<Rightarrow> 'w storage" where
  "keep_blocks blocks s = (if d_sd_blocks s = 0 then s\<lparr>d_sd_blocks := blocks\<rparr> else s)"

definition find_sd_card :: "'w card_hal \<Rightarrow> 'w storage \<Rightarrow> bool \<times> 'w storage" where
  "find_sd_card hal s =
     (case initialize_sd_card hal 4 (s\<lparr>d_sd_detect_level := sd_card_detect hal (nor_world s)\<rparr>) of (found, t) \<Rightarrow>
        if found then (True, t)
        else
          (case initialize_sd_card hal 1
                  (deinit_sd hal (t\<lparr>d_sd_fallback_error := h_ErrorCode (hsd1 t), d_sd_fallback_used := True\<rparr>)) of
             (found', u) \<Rightarrow> if found' then (True, u) else (False, keep_blocks (h_LogBlockNbr (hsd1 t)) u)))"

definition mount_sd :: "'w card_hal \<Rightarrow> 'w storage media_calls \<Rightarrow> 'w storage \<Rightarrow> bool \<times> 'w storage" where
  "mount_sd hal fx s =
     (case fx_media_open fx Sd s of (open_status, t) \<Rightarrow>
        if should_retry_sd_mount_in_one_bit (d_sd_bus_width t) open_status (d_sd_error t)
        then
          (case initialize_sd_card hal 1
                  (prepare_sd_mount_retry hal (t\<lparr>d_sd_fallback_error := d_sd_error t, d_sd_fallback_used := True\<rparr>)) of
             (found, u) \<Rightarrow>
               if \<not> found then (False, (keep_blocks (d_sd_blocks t) u)\<lparr>d_sd_filex_status := open_status\<rparr>)
               else (case fx_media_open fx Sd u of (status', v) \<Rightarrow> finish_sd_mount status' v))
        else finish_sd_mount open_status t)"

definition stm32_initialize_sd_media ::
    "'w card_hal \<Rightarrow> 'w storage media_calls \<Rightarrow> 'w storage \<Rightarrow> bool \<times> 'w storage" where
  "stm32_initialize_sd_media hal fx s =
     (case find_sd_card hal s of (found, t) \<Rightarrow> if \<not> found then (False, t) else mount_sd hal fx t)"

definition linux_initialize_sd_media ::
    "linux_files storage media_calls \<Rightarrow> linux_files storage \<Rightarrow> bool \<times> linux_files storage" where
  "linux_initialize_sd_media fx s =
     (let w = nor_world s in
        case open_image (tmp_directory w) (tmp_creatable w) (tmp_limit w) (sd_image_name w)
               (unat linux_sd_sectors * sector_size) 0 of
          (succeeded, created, f) \<Rightarrow>
            if \<not> succeeded then (False, s\<lparr>nor_world := w\<lparr>sd_device := (sd_device w)\<lparr>sd_file := f\<rparr>\<rparr>\<rparr>)
            else
              (let t = s\<lparr>nor_world := w\<lparr>sd_device := \<lparr>sd_file = f, sd_sectors = linux_sd_sectors\<rparr>\<rparr>,
                         d_sd_blocks := linux_sd_sectors\<rparr> in
               case (if created then fx_media_format fx Sd t else (FX_SUCCESS, t)) of (format_status, u) \<Rightarrow>
                 if format_status \<noteq> FX_SUCCESS then (False, u\<lparr>d_sd_filex_status := format_status\<rparr>)
                 else (case fx_media_open fx Sd u of (open_status, v) \<Rightarrow> finish_sd_mount open_status v)))"

section \<open>Both volumes\<close>

text \<open>
  \<open>volume_mask\<close> is \<^verbatim>\<open>hardware_storage_startup_test_volume_mask\<close> in the build that has it. The two
  initialisations are the platform's.
\<close>

definition storage_initialize ::
    "u32 option \<Rightarrow> ('w storage \<Rightarrow> bool \<times> 'w storage) \<Rightarrow> ('w storage \<Rightarrow> bool \<times> 'w storage) \<Rightarrow>
     'w storage \<Rightarrow> bool \<times> 'w storage" where
  "storage_initialize volume_mask flash_init sd_init s =
     (if initialization_attempted s then (flash_mounted_flag s \<or> sd_mounted_flag s, s)
      else
        (let selected = (\<lambda>k. case volume_mask of None \<Rightarrow> True | Some m \<Rightarrow> m AND k \<noteq> 0) in
         case (if selected 1 then flash_init (clear_diagnostics s) else (False, clear_diagnostics s)) of (flash_ok, t) \<Rightarrow>
         case (if selected 2 then sd_init t else (False, t)) of (sd_ok, u) \<Rightarrow>
           (flash_ok \<or> sd_ok, u\<lparr>initialization_attempted := True\<rparr>)))"

definition storage_mounted :: "'w storage \<Rightarrow> Volume \<Rightarrow> bool" where
  "storage_mounted s volume = (if volume = Flash then flash_mounted_flag s else sd_mounted_flag s)"

section \<open>Mount flags\<close>

text \<open>
  \<open>marks\<close>: the flags only this file sets. FileX and LevelX reach the state through the media
  drivers, which leave them alone; \<open>media_frame\<close> states it of FileX's two calls.
\<close>

definition marks :: "'w storage \<Rightarrow> bool \<times> bool \<times> bool \<times> bool" where
  "marks s = (flash_mounted_flag s, sd_mounted_flag s, initialization_attempted s, d_flash_was_formatted s)"

definition media_frame :: "'w storage media_calls \<Rightarrow> bool" where
  "media_frame fx \<longleftrightarrow>
     (\<forall>v s. marks (snd (fx_media_open fx v s)) = marks s \<and> marks (snd (fx_media_format fx v s)) = marks s)"

lemma media_frame_run:
  assumes "media_frame fx"
  shows "fx_media_open fx v s = (status, t) \<Longrightarrow> marks t = marks s"
    and "fx_media_format fx v s = (status, t) \<Longrightarrow> marks t = marks s"
  using assms by (auto simp: media_frame_def dest: spec [of _ v] spec [of _ s]) (metis snd_conv)+

lemma marks_simps [simp]:
  "marks (s\<lparr>nor_world := w\<rparr>) = marks s" "marks (s\<lparr>nor_open := op\<rparr>) = marks s"
  "marks (s\<lparr>levelx_status := l\<rparr>) = marks s" "marks (s\<lparr>hsd1 := h\<rparr>) = marks s"
  "marks (s\<lparr>d_flash_blocks := n\<rparr>) = marks s" "marks (s\<lparr>d_flash_logical_sectors := x\<rparr>) = marks s"
  "marks (s\<lparr>d_flash_jedec_id := x\<rparr>) = marks s" "marks (s\<lparr>d_qspi_error := x\<rparr>) = marks s"
  "marks (s\<lparr>d_sd_blocks := x\<rparr>) = marks s" "marks (s\<lparr>d_sd_error := x\<rparr>) = marks s"
  "marks (s\<lparr>d_sd_fallback_error := x\<rparr>) = marks s" "marks (s\<lparr>d_flash_filex_status := f\<rparr>) = marks s"
  "marks (s\<lparr>d_sd_filex_status := f\<rparr>) = marks s" "marks (s\<lparr>d_flash_mounted := b\<rparr>) = marks s"
  "marks (s\<lparr>d_sd_mounted := b\<rparr>) = marks s" "marks (s\<lparr>d_sd_detect_level := b\<rparr>) = marks s"
  "marks (s\<lparr>d_sd_bus_width := y\<rparr>) = marks s" "marks (s\<lparr>d_sd_fallback_used := b\<rparr>) = marks s"
  by (simp_all add: marks_def)

lemma marks_levelx:
  "open_levelx lx s = (status, t) \<Longrightarrow> marks t = marks (s :: 'w storage)"
  "close_levelx lx s = (status, t) \<Longrightarrow> marks t = marks s"
  by (auto simp: open_levelx_def close_levelx_def split: if_splits prod.splits)

lemma marks_card:
  "initialize_sd_card hal width s = (found, t) \<Longrightarrow> marks t = marks (s :: 'w storage)"
  by (auto simp: initialize_sd_card_def Let_def split: if_splits prod.splits)

lemma marks_deinit [simp]: "marks (deinit_sd hal s) = marks s"
  by (simp add: deinit_sd_def split: prod.split)

lemma marks_keep [simp]: "marks (keep_blocks n s) = marks s"
  by (simp add: keep_blocks_def)

lemma marks_stm32_bring_up: "stm32_flash_bring_up hal erase s = (r, t) \<Longrightarrow> marks t = marks s"
  by (auto simp: stm32_flash_bring_up_def split: prod.splits)

lemma marks_linux_bring_up: "linux_flash_bring_up s = (r, t) \<Longrightarrow> marks t = marks s"
  by (auto simp: linux_flash_bring_up_def Let_def split: prod.splits if_splits)

lemma mount_flash_flags:
  assumes "media_frame fx" "mount_flash fx s = (r, t)"
  shows "flash_mounted_flag t = r \<and> sd_mounted_flag t = sd_mounted_flag s \<and>
    initialization_attempted t = initialization_attempted s \<and> d_flash_was_formatted t = d_flash_was_formatted s"
  using assms(2) media_frame_run(1) [OF assms(1)] by (fastforce simp: mount_flash_def marks_def split: prod.splits)

lemma flash_flags:
  assumes "media_frame fx" and "\<And>s r t. bring_up s = (r, t) \<Longrightarrow> marks t = marks s"
    and "initialize_flash_media bring_up lx fx s = (r, t)" and "\<not> flash_mounted_flag s"
  shows "flash_mounted_flag t = r \<and> sd_mounted_flag t = sd_mounted_flag s \<and>
    initialization_attempted t = initialization_attempted s"
proof -
  obtain b s1 where 1: "bring_up s = (b, s1)" by fastforce
  obtain opened s2 where 2: "open_levelx lx (s1\<lparr>d_flash_blocks := flash_blocks,
      nor_world := lx_nor_flash_initialize lx (nor_world s1)\<rparr>) = (opened, s2)" by fastforce
  obtain closed s3 where 3: "close_levelx lx (s2\<lparr>d_flash_logical_sectors := flash_filex_sectors\<rparr>) = (closed, s3)" by fastforce
  obtain f s4 where 4: "fx_media_format fx Flash s3 = (f, s4)" by fastforce
  have m1: "marks s1 = marks s" using assms(2) [OF 1] .
  have m2: "marks s2 = marks s" using marks_levelx(1) [OF 2] m1 by simp
  have m3: "marks s3 = marks s" using marks_levelx(2) [OF 3] m2 by simp
  have m4: "marks s4 = marks s" using media_frame_run(2) [OF assms(1) 4] m3 by simp
  show ?thesis
    using assms(3,4) m1 m2 m3 m4 mount_flash_flags [OF assms(1), of s3 r t]
      mount_flash_flags [OF assms(1), of "s4\<lparr>d_flash_was_formatted := True\<rparr>" r t]
    by (simp add: initialize_flash_media_def 1 2 3 4 Let_def split: if_splits) (auto simp: marks_def)
qed

lemma finish_flags:
  "finish_sd_mount status s = (r, t) \<Longrightarrow> sd_mounted_flag t = r \<and> flash_mounted_flag t = flash_mounted_flag s \<and>
     initialization_attempted t = initialization_attempted s"
  by (auto simp: finish_sd_mount_def)

lemma sd_flags_stm32:
  assumes "media_frame fx" and "stm32_initialize_sd_media hal fx s = (r, t)" and "\<not> sd_mounted_flag s"
  shows "sd_mounted_flag t = r \<and> flash_mounted_flag t = flash_mounted_flag s \<and>
    initialization_attempted t = initialization_attempted s"
proof -
  obtain found u where find: "find_sd_card hal s = (found, u)" by fastforce
  have mu: "marks u = marks s"
    using find by (auto simp: find_sd_card_def split: prod.splits if_splits dest!: marks_card)
  obtain status v where op: "fx_media_open fx Sd u = (status, v)" by fastforce
  have mv: "marks v = marks s" using media_frame_run(1) [OF assms(1) op] mu by simp
  obtain found' w where card: "initialize_sd_card hal 1 (prepare_sd_mount_retry hal
      (v\<lparr>d_sd_fallback_error := d_sd_error v, d_sd_fallback_used := True\<rparr>)) = (found', w)" by fastforce
  have mw: "marks w = (flash_mounted_flag s, False, initialization_attempted s, d_flash_was_formatted s)"
    using marks_card [OF card] mv marks_deinit [of hal "v\<lparr>d_sd_fallback_error := d_sd_error v, d_sd_fallback_used := True\<rparr>"]
    by (simp add: prepare_sd_mount_retry_def Let_def marks_def)
  obtain status' x where op': "fx_media_open fx Sd w = (status', x)" by fastforce
  have mx: "marks x = marks w" by (rule media_frame_run(1) [OF assms(1) op'])
  have keep: "sd_mounted_flag (keep_blocks n y) = sd_mounted_flag y" "flash_mounted_flag (keep_blocks n y) = flash_mounted_flag y"
    "initialization_attempted (keep_blocks n y) = initialization_attempted y" for n and y :: "'a storage"
    by (simp_all add: keep_blocks_def)
  have mount: "mount_sd hal fx u = (if should_retry_sd_mount_in_one_bit (d_sd_bus_width v) status (d_sd_error v)
      then (if \<not> found' then (False, (keep_blocks (d_sd_blocks v) w)\<lparr>d_sd_filex_status := status\<rparr>) else finish_sd_mount status' x)
      else finish_sd_mount status v)"
    by (simp add: mount_sd_def op card op')
  show ?thesis
    using assms(2,3) mu mv mw mx
    by (simp add: stm32_initialize_sd_media_def find mount split: if_splits)
      (auto simp: marks_def keep dest!: finish_flags)
qed

lemma sd_flags_linux:
  assumes "media_frame fx" and "linux_initialize_sd_media fx s = (r, t)" and "\<not> sd_mounted_flag s"
  shows "sd_mounted_flag t = r \<and> flash_mounted_flag t = flash_mounted_flag s \<and>
    initialization_attempted t = initialization_attempted s"
proof -
  let ?w = "nor_world s"
  obtain succeeded created f where img: "open_image (tmp_directory ?w) (tmp_creatable ?w) (tmp_limit ?w) (sd_image_name ?w)
      (unat linux_sd_sectors * sector_size) 0 = (succeeded, created, f)" by (metis prod.collapse)
  let ?u = "s\<lparr>nor_world := ?w\<lparr>sd_device := \<lparr>sd_file = f, sd_sectors = linux_sd_sectors\<rparr>\<rparr>, d_sd_blocks := linux_sd_sectors\<rparr>"
  obtain status u where fmt: "(if created then fx_media_format fx Sd ?u else (FX_SUCCESS, ?u)) = (status, u)" by fastforce
  obtain opened v where op: "fx_media_open fx Sd u = (opened, v)" by fastforce
  have "marks u = marks s" using fmt media_frame_run(2) [OF assms(1), of Sd ?u status u] by (auto split: if_splits)
  moreover have "marks v = marks u" by (rule media_frame_run(1) [OF assms(1) op])
  ultimately show ?thesis
    using assms(2,3) by (simp add: linux_initialize_sd_media_def Let_def img fmt op split: if_splits)
      (auto simp: marks_def dest!: finish_flags)
qed

section \<open>The cached result\<close>

lemma storage_initialize_flags:
  assumes flash: "\<And>r t. flash_init (clear_diagnostics s) = (r, t) \<Longrightarrow> flash_mounted_flag t = r \<and>
      sd_mounted_flag t = sd_mounted_flag s \<and> initialization_attempted t = initialization_attempted s"
    and sd: "\<And>u r t. \<not> sd_mounted_flag u \<Longrightarrow> sd_init u = (r, t) \<Longrightarrow> sd_mounted_flag t = r \<and>
      flash_mounted_flag t = flash_mounted_flag u \<and> initialization_attempted t = initialization_attempted u"
    and "\<not> initialization_attempted s" "\<not> flash_mounted_flag s" "\<not> sd_mounted_flag s"
    and "storage_initialize volume_mask flash_init sd_init s = (r, t)"
  shows "r = (storage_mounted t Flash \<or> storage_mounted t Sd) \<and> initialization_attempted t"
proof -
  have c: "flash_mounted_flag (clear_diagnostics s) = flash_mounted_flag s" "sd_mounted_flag (clear_diagnostics s) = sd_mounted_flag s"
    by (simp_all add: clear_diagnostics_def)
  obtain b1 b2 where run: "(case (if b1 then flash_init (clear_diagnostics s) else (False, clear_diagnostics s)) of (flash_ok, t) \<Rightarrow>
         case (if b2 then sd_init t else (False, t)) of (sd_ok, u) \<Rightarrow>
           (flash_ok \<or> sd_ok, u\<lparr>initialization_attempted := True\<rparr>)) = (r, t)"
    using assms(3,6) by (simp add: storage_initialize_def Let_def)
  obtain f u where 1: "(if b1 then flash_init (clear_diagnostics s) else (False, clear_diagnostics s)) = (f, u)" by fastforce
  have u: "flash_mounted_flag u = f" "\<not> sd_mounted_flag u" using 1 flash [of f u] assms(4,5) c by (auto split: if_splits)
  obtain d v where 2: "(if b2 then sd_init u else (False, u)) = (d, v)" by fastforce
  have "flash_mounted_flag v = f" "sd_mounted_flag v = d" using 2 sd [OF u(2), of d v] u by (auto split: if_splits)
  then show ?thesis using run unfolding 1 2 prod.case by (auto simp: storage_mounted_def 2)
qed

end
