(* ===== verification/Storage_Properties.thy ===== *)
theory Storage_Properties
  imports Media_Startup
begin

text \<open>The properties of the storage devices, with the concrete instances that show each can hold.\<close>

section \<open>Ranges\<close>

text \<open>C20: The range policy is exact: it accepts a request if and only if hidden sectors, sector and
  count together do not pass the capacity, whatever wrap-around the 64-bit subtractions could
  produce; and the 32-bit sector sum the driver then computes does not wrap.\<close>

theorem sector_range_exact:
  "(valid_sector_range sector hidden count capacity \<longleftrightarrow> unat hidden + unat sector + unat count \<le> unat capacity) \<and>
   (in_range a b n c \<longrightarrow> unat (a + b) = unat a + unat b)"
  using valid_sector_range_iff in_range_add by blast

theorem sector_range_exact_witness:
  "valid_sector_range 2 8 4 16 \<and> \<not> valid_sector_range 5 8 4 16 \<and> unat ((2 :: u32) + 8) = 10"
  using sector_range_exact [where sector = 2 and hidden = 8 and count = 4 and capacity = 16
      and a = 2 and b = 8 and n = 4 and c = 16]
    sector_range_exact [where sector = 5 and hidden = 8 and count = 4 and capacity = 16]
  by (simp add: in_range_iff)

section \<open>The flash\<close>

text \<open>C21: On the W25Q128, \<open>qspi_write\<close> of data that fits the device programs exactly the bytes from
  its offset, whatever page boundaries lie in between: every page program stays inside its page,
  and the device ends idle. Data that does not fit is refused without a command.\<close>

theorem page_split_write:
  assumes "chip_laws hal idle enabled bytes" and "idle (chip s)"
  shows "if offset + length input \<le> flash_bytes
    then \<exists>c. stm32_qspi_write hal offset input s = (True, s\<lparr>chip := c\<rparr>) \<and> idle c \<and>
      bytes c = program (bytes (chip s)) offset input
    else stm32_qspi_write hal offset input s = (False, s)"
  using stm32_write_loop_run [OF assms, of offset input] by (auto simp: stm32_qspi_write_def)

definition blank_chip :: "w25q qspi" where
  "blank_chip = \<lparr>chip = \<lparr>w_bytes = replicate flash_bytes 0xFF, w_latch = False, w_status_2 = 2, w_pending = None\<rparr>,
     qspi_error = 0, flash_jedec_id = 0\<rparr>"

lemma blank_chip_idle: "w25q_idle (chip blank_chip)" "w_bytes (chip blank_chip) = replicate flash_bytes 0xFF"
  by (simp_all add: blank_chip_def w25q_idle_def)

theorem page_split_write_witness:
  "\<exists>c. stm32_qspi_write w25q_hal 254 [1, 2, 3, 4] blank_chip = (True, blank_chip\<lparr>chip := c\<rparr>) \<and>
     w_bytes c = program (replicate flash_bytes 0xFF) 254 [1, 2, 3, 4]"
proof -
  have "254 + length [1, 2, 3, 4 :: u8] \<le> flash_bytes" by (simp add: flash_bytes_def)
  note fits = this
  show ?thesis
    using page_split_write [OF w25q_laws blank_chip_idle(1), of 254 "[1, 2, 3, 4]"]
    unfolding blank_chip_idle(2) if_P [OF fits] by blast
qed

text \<open>C22: The Linux image emulates the chip: on the same contents, its \<open>qspi_write\<close> succeeds exactly
  when the data clears bits only, and then leaves the contents the chip ends with.\<close>

theorem image_emulates_chip:
  assumes "chip_laws hal idle enabled bytes" and "idle (chip s)"
    and "image_ready flash_bytes img" and "image_bytes img = bytes (chip s)"
    and "offset + length input \<le> flash_bytes"
  shows "\<exists>succeeded img' c. linux_qspi_write offset input img = (succeeded, img') \<and>
    stm32_qspi_write hal offset input s = (True, s\<lparr>chip := c\<rparr>) \<and>
    (succeeded \<longleftrightarrow> clears (slice (bytes (chip s)) offset (length input)) input) \<and>
    (succeeded \<longrightarrow> image_bytes img' = bytes c)"
proof -
  obtain c where c: "stm32_qspi_write hal offset input s = (True, s\<lparr>chip := c\<rparr>)"
      "bytes c = program (bytes (chip s)) offset input"
  proof -
    have "stm32_qspi_write hal offset input s = stm32_write_loop hal offset input s"
      using assms(5) by (auto simp: stm32_qspi_write_def not_less)
    then show ?thesis using that stm32_write_loop_run [OF assms(1,2,5)] by auto
  qed
  obtain img' where "linux_qspi_write offset input img =
        (clears (slice (image_bytes img) offset (length input)) input, img')"
      "clears (slice (image_bytes img) offset (length input)) input \<longrightarrow> image_bytes img' = overlay (image_bytes img) offset input"
  proof -
    have "linux_qspi_write offset input img = linux_write_loop offset input img"
      using assms(5) by (auto simp: linux_qspi_write_def not_less)
    then show ?thesis using that linux_write_loop_run [OF assms(3,5)] by auto
  qed
  then show ?thesis using c program_clears [where bytes = "bytes (chip s)" and data = input] assms(4)
    by (intro exI [of _ "clears (slice (bytes (chip s)) offset (length input)) input"] exI [of _ img'] exI [of _ c]) simp
qed

definition blank_image :: image where
  "blank_image = Some \<lparr>sf_bytes = replicate flash_bytes 0xFF, sf_position = 0, sf_limit = flash_bytes\<rparr>"

theorem image_emulates_chip_witness:
  "\<exists>succeeded img' c. linux_qspi_write 254 [1, 2, 3] blank_image = (succeeded, img') \<and>
     stm32_qspi_write w25q_hal 254 [1, 2, 3] blank_chip = (True, blank_chip\<lparr>chip := c\<rparr>) \<and>
     (succeeded \<longrightarrow> image_bytes img' = w_bytes c)"
proof -
  have "image_ready flash_bytes blank_image" "image_bytes blank_image = w_bytes (chip blank_chip)"
    by (simp_all add: image_ready_def image_bytes_def blank_image_def blank_chip_idle)
  moreover have "254 + length [1, 2, 3 :: u8] \<le> flash_bytes" by (simp add: flash_bytes_def)
  ultimately show ?thesis
    using image_emulates_chip [OF w25q_laws blank_chip_idle(1), of blank_image 254 "[1, 2, 3]"] by blast
qed

text \<open>A block that LevelX erases through the driver verifies as erased afterwards, and the rest
  of the flash is as it was.\<close>

theorem erased_block_verifies:
  assumes "chip_laws hal idle enabled bytes" and "idle (chip s)" and "unat block < flash_blocks"
  shows "\<exists>t u. nor_driver_erase (stm32_qspi_erase hal) block s = (LX_SUCCESS, t) \<and>
    nor_driver_verify (stm32_qspi_read hal) block t = (LX_SUCCESS, u) \<and>
    bytes (chip u) = overlay (bytes (chip s)) (unat block * erase_block_bytes) (replicate erase_block_bytes 0xFF)"
  by (rule nor_store.erase_verify [OF stm32_nor_store [OF assms(1)] assms(2,3)])

theorem erased_block_verifies_witness:
  "\<exists>t u. nor_driver_erase (stm32_qspi_erase w25q_hal) 3 blank_chip = (LX_SUCCESS, t) \<and>
     nor_driver_verify (stm32_qspi_read w25q_hal) 3 t = (LX_SUCCESS, u)"
  using erased_block_verifies [OF w25q_laws blank_chip_idle(1), of 3] by (auto simp: flash_geometry)

section \<open>The SD card\<close>

text \<open>Waiting for the card always ends, whatever the card answers, as long as the tick counter
  advances during a sleep: by the card becoming ready or after 5000 ticks.\<close>

theorem sd_wait_terminates:
  assumes "clock_laws hal tick"
  shows "\<exists>ready t. sd_wait_ready hal s = Some (ready, t)"
  using sd_wait_ready_returns [OF assms, of s] by auto

theorem sd_wait_terminates_witness:
  "\<exists>ready t. sd_wait_ready memory_card_hal \<lparr>card = \<lparr>mc_bytes = [], mc_busy = 100000, mc_tick = 4294967295\<rparr>, sd_error = 0\<rparr> =
     Some (ready, t)"
proof -
  have "clock_laws memory_card_hal mc_tick" by (simp add: clock_laws_def memory_card_hal_def)
  then show ?thesis by (rule sd_wait_terminates)
qed

text \<open>C25: Through the direct driver on a card that settles, FileX reads back what it wrote, at the
  partition's offset; a write leaves every sector outside its range alone; and a request that
  passes the end of the card is refused with FX_IO_ERROR and reaches no sector.\<close>

theorem direct_driver_contract:
  assumes "card_laws hal alive busy tick bytes capacity" and "alive (card s)"
    and "m_request m = FX_DRIVER_WRITE" and "length (m_buffer m) = unat (m_sectors m) * sector_size"
  shows "let drive = direct_media_driver (stm32_sd_read hal) (stm32_sd_write hal) partition_of capacity in
    if within (direct_place m) m capacity
    then \<exists>t u. drive m s = Some ((FX_SUCCESS, m_buffer m), t) \<and>
      drive (m\<lparr>m_request := FX_DRIVER_READ\<rparr>) t = Some ((FX_SUCCESS, m_buffer m), u) \<and>
      bytes (card t) = overlay (bytes (card s)) (direct_place m * sector_size) (m_buffer m)
    else drive m s = Some ((FX_IO_ERROR, m_buffer m), s)"
proof -
  define drive where "drive = direct_media_driver (stm32_sd_read hal) (stm32_sd_write hal) partition_of capacity"
  have d: "block_driver drive (\<lambda>s. alive (card s)) (\<lambda>s. bytes (card s)) direct_place capacity"
    unfolding drive_def by (rule stm32_sd_block_driver [OF assms(1)])
  let ?r = "m\<lparr>m_request := FX_DRIVER_READ\<rparr>"
  have r: "m_request ?r = FX_DRIVER_READ" "direct_place ?r = direct_place m" "m_sectors ?r = m_sectors m"
    by (simp_all add: direct_place_def)
  show ?thesis
  proof (cases "within (direct_place m) m capacity")
    case True
    obtain t where "drive m s = Some ((FX_SUCCESS, m_buffer m), t)"
        "bytes (card t) = overlay (bytes (card s)) (direct_place m * sector_size) (m_buffer m)"
      using block_driver.write_in_range [OF d assms(2,3) True assms(4)] by blast
    then show ?thesis
      using block_driver.write_read [OF d assms(2,3) True assms(4) r] True by (auto simp: drive_def)
  next
    case False
    then show ?thesis using block_driver.refused [OF d assms(2) _ False] assms(3) by (simp add: drive_def)
  qed
qed

definition example_card :: "memory_card sd" where
  "example_card = \<lparr>card = \<lparr>mc_bytes = replicate (8 * sector_size) 0, mc_busy = 0, mc_tick = 7\<rparr>, sd_error = 0\<rparr>"

definition write_request :: "u32 \<Rightarrow> u32 \<Rightarrow> u8 \<Rightarrow> media_request" where
  "write_request sector hidden byte = \<lparr>m_request = FX_DRIVER_WRITE, m_logical_sector = sector,
     m_hidden_sectors = hidden, m_sectors = 1, m_buffer = replicate sector_size byte\<rparr>"

lemma write_request_simps:
  "m_request (write_request sector hidden byte) = FX_DRIVER_WRITE"
  "length (m_buffer (write_request sector hidden byte)) = unat (m_sectors (write_request sector hidden byte)) * sector_size"
  "m_buffer (write_request sector hidden byte) = replicate sector_size byte"
  by (simp_all add: write_request_def)

definition unpartitioned :: "u8 list \<Rightarrow> fx_status \<times> u32" where
  "unpartitioned boot = (FX_SUCCESS, 2)"

theorem direct_driver_contract_witness:
  "(\<exists>t u. direct_media_driver (stm32_sd_read memory_card_hal) (stm32_sd_write memory_card_hal) unpartitioned 8
        (write_request 1 2 9) example_card = Some ((FX_SUCCESS, replicate sector_size 9), t) \<and>
      direct_media_driver (stm32_sd_read memory_card_hal) (stm32_sd_write memory_card_hal) unpartitioned 8
        ((write_request 1 2 9)\<lparr>m_request := FX_DRIVER_READ\<rparr>) t = Some ((FX_SUCCESS, replicate sector_size 9), u)) \<and>
   direct_media_driver (stm32_sd_read memory_card_hal) (stm32_sd_write memory_card_hal) unpartitioned 8
     (write_request 0xFFFFFFFF 2 9) example_card = Some ((FX_IO_ERROR, replicate sector_size 9), example_card)"
proof -
  have alive: "memory_card_alive (card example_card)" by (simp add: memory_card_alive_def example_card_def)
  have "within (direct_place (write_request 1 2 9)) (write_request 1 2 9) 8"
    "\<not> within (direct_place (write_request 0xFFFFFFFF 2 9)) (write_request 0xFFFFFFFF 2 9) 8"
    by (simp_all add: within_def direct_place_def write_request_def)
  then show ?thesis
    using direct_driver_contract [where partition_of = unpartitioned and m = "write_request 1 2 9",
        OF memory_card_laws alive write_request_simps(1,2)]
      direct_driver_contract [where partition_of = unpartitioned and m = "write_request 0xFFFFFFFF 2 9",
        OF memory_card_laws alive write_request_simps(1,2)]
    unfolding write_request_simps(3) Let_def by (simp only: if_True if_False) blast
qed

text \<open>C26: Through the LevelX driver, a write request followed by a read of the same sectors
  returns the data, and requests beyond the 24 Ki sectors are refused; the driver ignores the
  hidden-sector count, which the flash volume does not use.\<close>

theorem levelx_driver_contract:
  assumes "levelx_laws lx mapped bytes" and "mapped (nor_world s)"
    and "m_request m = FX_DRIVER_WRITE" and "length (m_buffer m) = unat (m_sectors m) * sector_size"
  shows "if unat (m_logical_sector m) + unat (m_sectors m) \<le> unat flash_filex_sectors
    then \<exists>t u. levelx_media_driver lx m s = Some ((FX_SUCCESS, m_buffer m), t) \<and>
      levelx_media_driver lx (m\<lparr>m_request := FX_DRIVER_READ\<rparr>) t = Some ((FX_SUCCESS, m_buffer m), u)
    else levelx_media_driver lx m s = Some ((FX_IO_ERROR, m_buffer m), s)"
proof -
  note d = levelx_block_driver [OF assms(1)]
  let ?r = "m\<lparr>m_request := FX_DRIVER_READ\<rparr>"
  have r: "m_request ?r = FX_DRIVER_READ" "levelx_place ?r = levelx_place m" "m_sectors ?r = m_sectors m"
    by (simp_all add: levelx_place_def)
  have w: "within (levelx_place m) m flash_filex_sectors \<longleftrightarrow>
      unat (m_logical_sector m) + unat (m_sectors m) \<le> unat flash_filex_sectors"
    by (simp add: within_def levelx_place_def)
  show ?thesis
    using block_driver.write_read [OF d assms(2,3) _ assms(4) r] block_driver.refused [OF d assms(2), of m] assms(3)
    unfolding w by auto
qed

theorem levelx_driver_contract_witness:
  "\<exists>t u. levelx_media_driver ram_levelx (write_request 5 0 7)
       \<lparr>nor_world = \<lparr>ra_bytes = replicate (unat flash_filex_sectors * sector_size) 0, ra_mapped = 0\<rparr>, nor_open = True,
        levelx_status = LX_SUCCESS\<rparr> = Some ((FX_SUCCESS, replicate sector_size 7), t) \<and>
     levelx_media_driver ram_levelx ((write_request 5 0 7)\<lparr>m_request := FX_DRIVER_READ\<rparr>) t =
       Some ((FX_SUCCESS, replicate sector_size 7), u)"
proof -
  let ?s = "\<lparr>nor_world = \<lparr>ra_bytes = replicate (unat flash_filex_sectors * sector_size) 0, ra_mapped = 0\<rparr>, nor_open = True,
        levelx_status = LX_SUCCESS\<rparr>"
  have "ram_ready (nor_world ?s)" by (simp add: ram_ready_def)
  moreover have "unat (m_logical_sector (write_request 5 0 7)) + unat (m_sectors (write_request 5 0 7)) \<le> unat flash_filex_sectors"
    by (simp add: write_request_def flash_filex_sectors_def)
  ultimately show ?thesis
    using levelx_driver_contract [OF ram_levelx_laws _ write_request_simps(1,2), of ?s 5 0 7]
    unfolding write_request_simps(3) by (simp only: if_True)
qed

section \<open>Start-up\<close>

text \<open>On the STM32, the first \<open>initialize\<close> from the initial state reports success exactly when
  a volume ends up mounted, and every later call returns that result without touching the devices.\<close>

theorem initialize_caches_result:
  assumes "media_frame fx" and "\<not> initialization_attempted s" and "\<not> flash_mounted_flag s" and "\<not> sd_mounted_flag s"
    and "storage_initialize volume_mask (initialize_flash_media (stm32_flash_bring_up qspi erase) lx fx)
           (stm32_initialize_sd_media hal fx) s = (r, t)"
  shows "r = (storage_mounted t Flash \<or> storage_mounted t Sd) \<and>
    storage_initialize volume_mask' flash_init sd_init t = (r, t)"
proof -
  have flags: "\<not> flash_mounted_flag (clear_diagnostics s)" "sd_mounted_flag (clear_diagnostics s) = sd_mounted_flag s"
    "initialization_attempted (clear_diagnostics s) = initialization_attempted s"
    using assms(3) by (simp_all add: clear_diagnostics_def)
  have "r = (storage_mounted t Flash \<or> storage_mounted t Sd) \<and> initialization_attempted t"
    by (rule storage_initialize_flags [OF _ _ assms(2-5)])
      (use flash_flags [OF assms(1) marks_stm32_bring_up _ flags(1)] sd_flags_stm32 [OF assms(1)] flags(2,3) in auto)
  then show ?thesis by (auto simp: storage_initialize_def storage_mounted_def)
qed

definition example_levelx :: "nat \<Rightarrow> w25q levelx" where
  "example_levelx n = \<lparr>lx_nor_flash_initialize = id, lx_nor_flash_open = (\<lambda>w. (LX_SUCCESS, w)),
     lx_nor_flash_extended_cache_enable = (\<lambda>w. (LX_SUCCESS, w)), lx_nor_flash_close = (\<lambda>w. (LX_SUCCESS, w)),
     lx_nor_flash_sector_read = (\<lambda>sector w. ((LX_ERROR, []), w)), lx_nor_flash_sector_write = (\<lambda>sector d w. (LX_ERROR, w)),
     lx_nor_flash_sector_release = (\<lambda>sector w. (LX_SUCCESS, w)), lx_nor_flash_mapped_physical_sectors = (\<lambda>w. n)\<rparr>"

definition example_card_hal :: "w25q card_hal" where
  "example_card_hal = \<lparr>HAL_SD_Init = (\<lambda>h w. ((HAL_OK, h), w)), HAL_SD_GetCardInfo = (\<lambda>h w. ((HAL_OK, 100, h), w)),
     HAL_SD_DeInit = (\<lambda>h w. (h, w)), sd_card_detect = (\<lambda>w. True), clear_sd_media = id\<rparr>"

definition example_media :: "fx_status \<Rightarrow> w25q storage media_calls" where
  "example_media status = \<lparr>fx_media_format = (\<lambda>v s. (FX_SUCCESS, s)), fx_media_open = (\<lambda>v s. (status, s))\<rparr>"

definition example_storage :: "w25q storage" where
  "example_storage = clear_diagnostics \<lparr>nor_world = chip blank_chip, nor_open = False, levelx_status = LX_SUCCESS,
     hsd1 = empty_handle, d_flash_jedec_id = 0, d_flash_blocks = 0, d_flash_logical_sectors = 0, d_sd_blocks = 0,
     d_qspi_error = 0, d_sd_error = 0, d_sd_fallback_error = 0, d_flash_filex_status = FX_SUCCESS,
     d_sd_filex_status = FX_SUCCESS, d_flash_mounted = False, d_sd_mounted = False, d_flash_was_formatted = False,
     d_sd_detect_level = False, d_sd_bus_width = 0, d_sd_fallback_used = False, flash_mounted_flag = False,
     sd_mounted_flag = False, initialization_attempted = False\<rparr>"

lemma example_media_frame: "media_frame (example_media status)"
  by (simp add: media_frame_def example_media_def)

lemma example_storage_flags:
  "\<not> initialization_attempted example_storage" "\<not> flash_mounted_flag example_storage" "\<not> sd_mounted_flag example_storage"
  by (simp_all add: example_storage_def clear_diagnostics_def)

theorem initialize_caches_result_witness:
  "\<exists>r t. storage_initialize None (initialize_flash_media (stm32_flash_bring_up w25q_hal False) (example_levelx 0) (example_media FX_SUCCESS))
       (stm32_initialize_sd_media example_card_hal (example_media FX_SUCCESS)) example_storage = (r, t) \<and>
     r = (storage_mounted t Flash \<or> storage_mounted t Sd) \<and> storage_initialize None (\<lambda>s. (False, s)) (\<lambda>s. (False, s)) t = (r, t)"
proof -
  obtain r t where run: "storage_initialize None (initialize_flash_media (stm32_flash_bring_up w25q_hal False) (example_levelx 0) (example_media FX_SUCCESS))
       (stm32_initialize_sd_media example_card_hal (example_media FX_SUCCESS)) example_storage = (r, t)" by fastforce
  from initialize_caches_result [OF example_media_frame example_storage_flags run] run show ?thesis by blast
qed

text \<open>C28: A flash that has mapped sectors is never formatted: whatever the format call would do, the
  outcome of the initialisation is the same, in the state and in the result.\<close>

theorem mapped_flash_not_formatted:
  assumes "bring_up s = (True, s1)"
    and "open_levelx lx (s1\<lparr>d_flash_blocks := flash_blocks, nor_world := lx_nor_flash_initialize lx (nor_world s1)\<rparr>) = (opened, s2)"
    and "lx_nor_flash_mapped_physical_sectors lx (nor_world s2) \<noteq> 0"
  shows "initialize_flash_media bring_up lx (fx\<lparr>fx_media_format := f\<rparr>) s = initialize_flash_media bring_up lx fx s"
proof -
  have "mount_flash (fx\<lparr>fx_media_format := f\<rparr>) t = mount_flash fx t" for t by (simp add: mount_flash_def)
  then show ?thesis using assms by (simp add: initialize_flash_media_def Let_def split: prod.split)
qed

theorem mapped_flash_not_formatted_witness:
  "initialize_flash_media (\<lambda>s. (True, s)) (example_levelx 5)
     ((example_media FX_SUCCESS)\<lparr>fx_media_format := (\<lambda>v s. (FX_NO_MORE_SPACE, s\<lparr>nor_open := True\<rparr>))\<rparr>) example_storage =
   initialize_flash_media (\<lambda>s. (True, s)) (example_levelx 5) (example_media FX_SUCCESS) example_storage"
proof (rule mapped_flash_not_formatted [OF refl])
  let ?s = "example_storage\<lparr>d_flash_blocks := flash_blocks, nor_world := lx_nor_flash_initialize (example_levelx 5) (nor_world example_storage)\<rparr>"
  show "open_levelx (example_levelx 5) ?s = (fst (open_levelx (example_levelx 5) ?s), snd (open_levelx (example_levelx 5) ?s))" by simp
  show "lx_nor_flash_mapped_physical_sectors (example_levelx 5) (nor_world (snd (open_levelx (example_levelx 5) ?s))) \<noteq> 0"
    by (simp add: example_levelx_def)
qed

end
