(* ===== verification/Runtime_Time.thy ===== *)
theory Runtime_Time
  imports Nucleo_Prelude
begin

text \<open>
  Time in \<^verbatim>\<open>platform/runtime/libstdcxx/backend.cpp\<close>: the 64-bit extension of the ThreadX tick
  counter, the conversions between ticks, counter ticks and nanoseconds, the reconstruction of
  elapsed time from a wrapping high-resolution counter, waits against a deadline, and sleeping.
  Unsigned 64-bit values are words, so that wrap-around is that of the code; signed 64-bit values
  are integers, every result being checked against \<open>int64_max\<close> before it is formed.
\<close>

section \<open>Constants\<close>

definition int64_max :: int where "int64_max = 9223372036854775807"
definition maximum_ns :: u64 where "maximum_ns = 9223372036854775807"
definition tick_rate :: u64 where "tick_rate = 1000"
definition nanoseconds_per_second :: u64 where "nanoseconds_per_second = 1000000000"
definition TX_NO_WAIT :: u32 where "TX_NO_WAIT = 0"
definition TX_WAIT_FOREVER :: u32 where "TX_WAIT_FOREVER = 0xFFFFFFFF"
definition MAX_FINITE_WAIT :: u32 where "MAX_FINITE_WAIT = TX_WAIT_FOREVER - 1"

lemmas time_constants =
  int64_max_def maximum_ns_def tick_rate_def nanoseconds_per_second_def TX_NO_WAIT_def
  TX_WAIT_FOREVER_def MAX_FINITE_WAIT_def

section \<open>Conversions\<close>

definition ticks_to_nanoseconds :: "u64 \<Rightarrow> int" where
  "ticks_to_nanoseconds ticks =
     (let seconds = ticks div tick_rate;
          remainder = ticks mod tick_rate;
          fractional_nanoseconds = remainder * nanoseconds_per_second div tick_rate
      in if seconds > (maximum_ns - fractional_nanoseconds) div nanoseconds_per_second then int64_max
         else uint (seconds * nanoseconds_per_second + fractional_nanoseconds))"

definition thread_ticks_to_counter_ticks :: "u64 \<Rightarrow> u64 \<Rightarrow> u64 option" where
  "thread_ticks_to_counter_ticks ticks frequency =
     (let seconds = ticks div tick_rate;
          remainder = ticks mod tick_rate;
          fractional_ticks = remainder * frequency div tick_rate
      in if seconds > (- 1 - fractional_ticks) div frequency then None
         else Some (seconds * frequency + fractional_ticks))"

definition counter_ticks_to_nanoseconds :: "u64 \<Rightarrow> u64 \<Rightarrow> int option" where
  "counter_ticks_to_nanoseconds ticks frequency =
     (let seconds = ticks div frequency;
          remainder = ticks mod frequency;
          fractional_nanoseconds = remainder * nanoseconds_per_second div frequency
      in if seconds > (maximum_ns - fractional_nanoseconds) div nanoseconds_per_second then None
         else Some (uint (seconds * nanoseconds_per_second + fractional_nanoseconds)))"

definition duration_to_ticks :: "u64 \<Rightarrow> u32" where
  "duration_to_ticks nanoseconds =
     (if nanoseconds = 0 then TX_NO_WAIT
      else
        (let whole_seconds = nanoseconds div nanoseconds_per_second;
             remainder = nanoseconds mod nanoseconds_per_second
         in if whole_seconds > 0xFFFFFFFF div tick_rate then MAX_FINITE_WAIT
            else
              (let ticks = whole_seconds * tick_rate +
                     (remainder * tick_rate + nanoseconds_per_second - 1) div nanoseconds_per_second
               in ucast (min ticks (ucast MAX_FINITE_WAIT)))))"

text \<open>
  The loop of \<open>sleep_for\<close>: the arguments of the \<^verbatim>\<open>tx_thread_sleep\<close> calls, for a number of ticks.
\<close>

function sleep_chunks :: "u64 \<Rightarrow> u32 list" where
  "sleep_chunks ticks =
     (if ticks = 0 then []
      else (let chunk = ucast (min ticks (ucast (MAX_FINITE_WAIT - 1))) :: u32
            in (chunk + 1) # sleep_chunks (ticks - ucast chunk)))"
  by pat_completeness auto
termination
proof (relation "measure unat")
  fix ticks :: u64 and c :: u32
  assume nz: "\<not> ticks = 0" and c: "c = ucast (min ticks (ucast (MAX_FINITE_WAIT - 1)))"
  have "unat (min ticks (ucast (MAX_FINITE_WAIT - 1))) = min (unat ticks) 4294967293"
    by (simp add: min_def word_le_nat_alt time_constants)
  then have "unat c = min (unat ticks) 4294967293"
    unfolding c by (simp add: unsigned_ucast_eq take_bit_nat_eq_self)
  then have *: "unat (ucast c :: u64) = min (unat ticks) 4294967293"
    by (simp add: unsigned_ucast_eq take_bit_nat_eq_self)
  then have "ucast c \<le> ticks" by (simp add: word_le_nat_alt)
  then have "unat (ticks - ucast c) = unat ticks - min (unat ticks) 4294967293"
    by (simp add: unat_sub *)
  moreover have "0 < unat ticks" using nz by (simp add: unat_gt_0)
  ultimately show "(ticks - ucast c, ticks) \<in> measure unat" by simp
qed simp

declare sleep_chunks.simps [simp del]

section \<open>What the conversions compute\<close>

text \<open>Scaling whole units and the remainder separately loses nothing.\<close>

lemma split_scale: "0 < r \<Longrightarrow> t div r * f + t mod r * f div r = t * f div (r :: nat)"
proof -
  assume "0 < r"
  have "t * f = t div r * f * r + t mod r * f"
    by (metis add_mult_distrib div_mult_mod_eq mult.assoc mult.commute)
  then show ?thesis using \<open>0 < r\<close> by simp
qed

text \<open>The overflow test: the quotient comparison is the comparison of the scaled value.\<close>

lemma overflow_test:
  assumes "unat (fraction :: u64) \<le> unat maximum" "0 < unat unit"
  shows "seconds > (maximum - fraction) div unit \<longleftrightarrow> unat seconds * unat unit + unat fraction > unat maximum"
proof -
  have "fraction \<le> maximum" using assms(1) by (simp add: word_le_nat_alt)
  then have "unat ((maximum - fraction) div unit) = (unat maximum - unat fraction) div unat unit"
    by (simp add: unat_div unat_sub)
  then have "seconds > (maximum - fraction) div unit \<longleftrightarrow> unat maximum - unat fraction < unat seconds * unat unit"
    using assms(2) by (simp add: word_less_nat_alt div_less_iff_less_mult)
  then show ?thesis using assms(1) by linarith
qed

lemma scaled_sum:
  assumes "unat seconds * unat unit + unat (fraction :: u64) < 2 ^ 64"
  shows "unat (seconds * unit + fraction) = unat seconds * unat unit + unat fraction"
  using assms by (simp add: unat_add_no_wrap unat_mult_no_wrap)

lemma unat_fraction:
  assumes "unat (remainder :: u64) * unat scale < 2 ^ 64"
  shows "unat (remainder * scale div unit) = unat remainder * unat scale div unat unit"
  using assms by (simp add: unat_div unat_mult_no_wrap)

lemma unat_constants [simp]:
  "unat tick_rate = 1000" "unat nanoseconds_per_second = 1000000000" "unat maximum_ns = 9223372036854775807"
  "unat MAX_FINITE_WAIT = 4294967294"
  by (simp_all add: time_constants)

lemma ticks_to_nanoseconds_exact:
  "ticks_to_nanoseconds ticks = min (int (unat ticks) * 1000000) int64_max"
proof -
  define seconds remainder fraction where "seconds = ticks div tick_rate" and "remainder = ticks mod tick_rate"
    and "fraction = remainder * nanoseconds_per_second div tick_rate"
  have rem: "unat remainder = unat ticks mod 1000" by (simp add: remainder_def unat_mod)
  have "unat remainder * unat nanoseconds_per_second < 2 ^ 64" using rem by simp
  then have frac: "unat fraction = unat ticks mod 1000 * 1000000000 div 1000"
    unfolding fraction_def by (simp add: unat_fraction rem)
  have sec: "unat seconds = unat ticks div 1000" by (simp add: seconds_def unat_div)
  have sum: "unat seconds * unat nanoseconds_per_second + unat fraction = unat ticks * 1000000"
    using split_scale [of 1000 "unat ticks" 1000000000] by (simp add: sec frac)
  have "unat fraction \<le> unat maximum_ns" using frac by simp
  then have test: "seconds > (maximum_ns - fraction) div nanoseconds_per_second \<longleftrightarrow> unat ticks * 1000000 > 9223372036854775807"
    using overflow_test [of fraction maximum_ns nanoseconds_per_second seconds] unfolding sum by simp
  show ?thesis
  proof (cases "unat ticks * 1000000 > 9223372036854775807")
    case True
    then have "int (unat ticks * 1000000) > 9223372036854775807" by linarith
    then show ?thesis using test True
      by (simp add: ticks_to_nanoseconds_def Let_def seconds_def remainder_def fraction_def int64_max_def)
  next
    case False
    then have "unat (seconds * nanoseconds_per_second + fraction) = unat ticks * 1000000"
      using scaled_sum [of seconds nanoseconds_per_second fraction] unfolding sum by simp
    then have "int (unat (seconds * nanoseconds_per_second + fraction)) = int (unat ticks * 1000000)" by (rule arg_cong)
    then have "uint (seconds * nanoseconds_per_second + fraction) = int (unat ticks) * 1000000" by simp
    moreover have "int (unat ticks * 1000000) \<le> 9223372036854775807" using False by linarith
    ultimately show ?thesis using test False
      by (simp add: ticks_to_nanoseconds_def Let_def seconds_def remainder_def fraction_def int64_max_def)
  qed
qed

lemma thread_ticks_exact:
  assumes "frequency \<noteq> 0" "unat frequency \<le> 1000000000"
  shows "map_option unat (thread_ticks_to_counter_ticks ticks frequency) =
    (if unat ticks * unat frequency div 1000 < 2 ^ 64 then Some (unat ticks * unat frequency div 1000) else None)"
proof -
  define seconds remainder fraction where "seconds = ticks div tick_rate" and "remainder = ticks mod tick_rate"
    and "fraction = remainder * frequency div tick_rate"
  have rem: "unat remainder = unat ticks mod 1000" by (simp add: remainder_def unat_mod)
  then have "unat remainder \<le> 999" by simp
  then have small: "unat remainder * unat frequency \<le> 999 * 1000000000" using assms(2) by (rule mult_le_mono)
  then have frac: "unat fraction = unat ticks mod 1000 * unat frequency div 1000"
    unfolding fraction_def by (simp add: unat_fraction rem)
  have sec: "unat seconds = unat ticks div 1000" by (simp add: seconds_def unat_div)
  have sum: "unat seconds * unat frequency + unat fraction = unat ticks * unat frequency div 1000"
    using split_scale [of 1000 "unat ticks" "unat frequency"] by (simp add: sec frac)
  have max: "unat (- 1 :: u64) = 18446744073709551615" by (simp add: unsigned_minus_1_eq_mask mask_eq_exp_minus_1)
  have "unat fraction \<le> 999 * 1000000000" using small unfolding frac rem by (metis div_le_dividend le_trans)
  then have "unat fraction \<le> unat (- 1 :: u64)" unfolding max by linarith
  moreover have "0 < unat frequency" using assms(1) by (simp add: unat_gt_0)
  ultimately have test: "seconds > (- 1 - fraction) div frequency \<longleftrightarrow> unat ticks * unat frequency div 1000 > 18446744073709551615"
    using overflow_test [of fraction "- 1" frequency seconds] unfolding sum max by simp
  show ?thesis
    using test scaled_sum [of seconds frequency fraction] unfolding sum
    by (simp add: thread_ticks_to_counter_ticks_def Let_def seconds_def remainder_def fraction_def)
qed

lemma counter_ticks_exact:
  assumes "frequency \<noteq> 0" "unat frequency \<le> 1000000000"
  shows "counter_ticks_to_nanoseconds ticks frequency =
    (if unat ticks * 1000000000 div unat frequency \<le> 9223372036854775807
     then Some (int (unat ticks * 1000000000 div unat frequency)) else None)"
proof -
  define seconds remainder fraction where "seconds = ticks div frequency" and "remainder = ticks mod frequency"
    and "fraction = remainder * nanoseconds_per_second div frequency"
  have f: "0 < unat frequency" using assms(1) by (simp add: unat_gt_0)
  have rem: "unat remainder = unat ticks mod unat frequency" by (simp add: remainder_def unat_mod)
  then have "unat remainder < unat frequency" using f by simp
  then have less: "unat remainder * 1000000000 < unat frequency * 1000000000" by simp
  then have "unat remainder * unat nanoseconds_per_second < 2 ^ 64" using assms(2) by simp
  then have frac: "unat fraction = unat ticks mod unat frequency * 1000000000 div unat frequency"
    unfolding fraction_def by (simp add: unat_fraction rem)
  have small: "unat fraction < 1000000000"
    using less f unfolding frac rem by (simp add: div_less_iff_less_mult mult.commute)
  have sec: "unat seconds = unat ticks div unat frequency" by (simp add: seconds_def unat_div)
  have sum: "unat seconds * unat nanoseconds_per_second + unat fraction = unat ticks * 1000000000 div unat frequency"
    using split_scale [OF f, of "unat ticks" 1000000000] by (simp add: sec frac)
  have test: "seconds > (maximum_ns - fraction) div nanoseconds_per_second \<longleftrightarrow>
      unat ticks * 1000000000 div unat frequency > 9223372036854775807"
    using overflow_test [of fraction maximum_ns nanoseconds_per_second seconds] small unfolding sum by simp
  show ?thesis
  proof (cases "unat ticks * 1000000000 div unat frequency \<le> 9223372036854775807")
    case True
    then have "unat (seconds * nanoseconds_per_second + fraction) = unat ticks * 1000000000 div unat frequency"
      using scaled_sum [of seconds nanoseconds_per_second fraction] unfolding sum by simp
    then have "uint (seconds * nanoseconds_per_second + fraction) = int (unat ticks * 1000000000 div unat frequency)"
      by (metis uint_nat)
    then show ?thesis using test True
      by (simp add: counter_ticks_to_nanoseconds_def Let_def seconds_def remainder_def fraction_def)
  next
    case False
    then show ?thesis using test
      by (simp add: counter_ticks_to_nanoseconds_def Let_def seconds_def remainder_def fraction_def)
  qed
qed

text \<open>The ticks that cover a duration: the quotient rounded up.\<close>

definition covering_ticks :: "nat \<Rightarrow> nat" where
  "covering_ticks ns = (ns + 999999) div 1000000"

lemma covering_ticks_split: "covering_ticks ns = ns div 1000000000 * 1000 + (ns mod 1000000000 * 1000 + 999999999) div 1000000000"
proof -
  let ?q = "ns div 1000000000" and ?r = "ns mod 1000000000"
  have "(?r * 1000 + 999999999) div 1000000000 = ((?r * 1000 + 999999999) div 1000) div 1000000"
    by (simp flip: div_mult2_eq)
  also have "(?r * 1000 + 999999999) div 1000 = ?r + 999999" by simp
  finally have rest: "(?r * 1000 + 999999999) div 1000000000 = (?r + 999999) div 1000000" .
  have "ns + 999999 = (?r + 999999) + ?q * 1000 * 1000000"
    using div_mult_mod_eq [of ns 1000000000] by simp
  then have "covering_ticks ns = ((?r + 999999) + ?q * 1000 * 1000000) div 1000000"
    unfolding covering_ticks_def by (rule arg_cong)
  also have "\<dots> = ?q * 1000 + (?r + 999999) div 1000000" by (rule div_mult_self1) simp
  finally have "covering_ticks ns = ?q * 1000 + (?r + 999999) div 1000000" .
  then show ?thesis unfolding rest .
qed

definition sleep_ticks :: "u64 \<Rightarrow> u64" where
  "sleep_ticks nanoseconds =
     nanoseconds div nanoseconds_per_second * tick_rate +
       (nanoseconds mod nanoseconds_per_second * tick_rate + nanoseconds_per_second - 1) div nanoseconds_per_second"

lemma sleep_ticks_exact: "unat (sleep_ticks ns) = covering_ticks (unat ns)"
proof -
  define w r where "w = ns div nanoseconds_per_second" and "r = ns mod nanoseconds_per_second"
  have w: "unat w = unat ns div 1000000000" "unat w \<le> 18446744073"
    using unat_u64_bound [of ns] by (simp_all add: w_def unat_div)
  have r: "unat r = unat ns mod 1000000000" "unat r < 1000000000" by (simp_all add: r_def unat_mod)
  have "unat (r * tick_rate) = unat r * 1000" using r by (simp add: unat_mult_no_wrap)
  then have "unat (r * tick_rate + nanoseconds_per_second) = unat r * 1000 + 1000000000"
    using r by (simp add: unat_add_no_wrap)
  then have "unat (r * tick_rate + nanoseconds_per_second - 1) = unat r * 1000 + 999999999"
    by (subst unat_sub) (simp_all add: word_le_nat_alt)
  then have c: "unat ((r * tick_rate + nanoseconds_per_second - 1) div nanoseconds_per_second) =
      (unat r * 1000 + 999999999) div 1000000000"
    by (simp add: unat_div)
  then have "unat ((r * tick_rate + nanoseconds_per_second - 1) div nanoseconds_per_second) \<le> 1000"
    using r(2) by simp
  moreover have "unat (w * tick_rate) = unat w * 1000" using w by (simp add: unat_mult_no_wrap)
  ultimately have "unat (sleep_ticks ns) = unat w * 1000 + (unat r * 1000 + 999999999) div 1000000000"
    using w(2) c by (simp add: sleep_ticks_def flip: w_def r_def) (simp add: unat_add_no_wrap)
  then show ?thesis using w r by (simp add: covering_ticks_split)
qed

lemma duration_to_ticks_exact: "unat (duration_to_ticks ns) = min (covering_ticks (unat ns)) 4294967294"
proof (cases "ns = 0")
  case True
  then show ?thesis by (simp add: duration_to_ticks_def TX_NO_WAIT_def covering_ticks_def)
next
  case False
  have cast: "unat (ucast (x :: u64) :: u32) = unat x" if "unat x < 4294967296" for x
    using that by (simp add: unsigned_ucast_eq take_bit_nat_eq_self)
  have big: "ns div nanoseconds_per_second > 0xFFFFFFFF div tick_rate \<longleftrightarrow> unat ns div 1000000000 > 4294967"
    by (simp add: word_less_nat_alt unat_div)
  have m: "ucast MAX_FINITE_WAIT = (4294967294 :: u64)" by (simp add: time_constants)
  show ?thesis
  proof (cases "unat ns div 1000000000 > 4294967")
    case True
    then have "covering_ticks (unat ns) \<ge> 4294967294" by (simp add: covering_ticks_split)
    then show ?thesis using False True by (simp add: duration_to_ticks_def Let_def big)
  next
    case le: False
    have "duration_to_ticks ns = ucast (min (sleep_ticks ns) (4294967294 :: u64))"
      using False le by (simp add: duration_to_ticks_def Let_def big sleep_ticks_def m)
    moreover have "unat (min (sleep_ticks ns) (4294967294 :: u64)) = min (covering_ticks (unat ns)) 4294967294"
      by (simp add: min_def word_le_nat_alt sleep_ticks_exact)
    ultimately show ?thesis by (simp add: cast)
  qed
qed

text \<open>\<open>sleep_for\<close>: the calls of \<^verbatim>\<open>tx_thread_sleep\<close> it makes; a call that fails ends the program.\<close>

definition sleep_for :: "bool \<Rightarrow> u64 \<Rightarrow> u32 list" where
  "sleep_for thread_context nanoseconds =
     (if \<not> thread_context \<or> nanoseconds = 0 then [] else sleep_chunks (sleep_ticks nanoseconds))"

text \<open>A sleep of \<open>n\<close> ticks lasts at least \<open>n - 1\<close> full tick periods.\<close>

lemma sleep_chunks_cover:
  "sum_list (map (\<lambda>c. unat c - 1) (sleep_chunks ticks)) = unat ticks \<and> (\<forall>c \<in> set (sleep_chunks ticks). 0 < unat c)"
proof (induction ticks rule: sleep_chunks.induct)
  case (1 ticks)
  show ?case
  proof (cases "ticks = 0")
    case True
    then show ?thesis by (subst (1 2) sleep_chunks.simps) simp
  next
    case False
    define chunk where "chunk = (ucast (min ticks (ucast (MAX_FINITE_WAIT - 1))) :: u32)"
    have "unat (min ticks (ucast (MAX_FINITE_WAIT - 1))) = min (unat ticks) 4294967293"
      by (simp add: min_def word_le_nat_alt time_constants)
    then have c: "unat chunk = min (unat ticks) 4294967293"
      unfolding chunk_def by (simp add: unsigned_ucast_eq take_bit_nat_eq_self)
    then have up: "unat (ucast chunk :: u64) = min (unat ticks) 4294967293"
      by (simp add: unsigned_ucast_eq take_bit_nat_eq_self)
    then have le: "ucast chunk \<le> ticks" by (simp add: word_le_nat_alt)
    have rest: "unat (ticks - ucast chunk) = unat ticks - min (unat ticks) 4294967293"
      using le by (simp add: unat_sub up)
    have plus: "unat (chunk + 1) = unat chunk + 1" using c by (simp add: unat_add_no_wrap)
    have "sleep_chunks ticks = (chunk + 1) # sleep_chunks (ticks - ucast chunk)"
      using False by (subst sleep_chunks.simps) (simp add: Let_def chunk_def)
    then show ?thesis
      using "1.IH" [OF False chunk_def] plus c rest by (auto simp del: unat_0_iff)
  qed
qed

end
