(* ===== verification/Runtime_Clock.thy ===== *)
theory Runtime_Clock
  imports Runtime_Time
begin

text \<open>
  The clocks of \<^verbatim>\<open>backend.cpp\<close>: steady ticks, the high-resolution counter, system time and waits
  against a deadline. The clock state is the set of file-scope variables these functions use; the
  hardware counter is given by what a reading of it delivers.
\<close>

section \<open>Steady ticks\<close>

text \<open>The result, the new epoch and the new previous reading.\<close>

definition extend_tick_counter :: "u64 \<Rightarrow> u32 \<Rightarrow> u32 \<Rightarrow> u64 \<times> u64 \<times> u32" where
  "extend_tick_counter epoch previous current =
     (let epoch' = (if current < previous then epoch + push_bit 32 1 else epoch)
      in (epoch' OR ucast current, epoch', current))"

text \<open>\<open>tracks T epoch previous\<close>: the two variables hold the true tick count \<open>T\<close>.\<close>

definition tracks :: "nat \<Rightarrow> u64 \<Rightarrow> u32 \<Rightarrow> bool" where
  "tracks T epoch previous \<longleftrightarrow> T < 2 ^ 64 \<and> unat epoch = T div 2 ^ 32 * 2 ^ 32 \<and> unat previous = T mod 2 ^ 32"

lemma or_low_bits:
  assumes "unat (hi :: u64) = k * 2 ^ 32"
  shows "unat (hi OR ucast (lo :: u32)) = k * 2 ^ 32 + unat lo"
proof -
  have "hi AND ucast lo = 0"
  proof (rule bit_word_eqI)
    fix n assume "n < LENGTH(64)"
    have "bit hi n \<Longrightarrow> 32 \<le> n"
    proof -
      have "take_bit 32 (unat hi) = 0" using assms by (simp add: take_bit_eq_mod)
      then have "unat (take_bit 32 hi) = 0" by (simp add: unsigned_take_bit_eq)
      then have "take_bit 32 hi = 0" by (simp add: unat_eq_zero)
      then have "\<not> bit (take_bit 32 hi) n" by simp
      then show "bit hi n \<Longrightarrow> 32 \<le> n" by (auto simp: bit_take_bit_iff)
    qed
    moreover have "bit (ucast lo :: u64) n \<Longrightarrow> n < 32"
      using bit_imp_le_length [of lo n] by (simp add: bit_ucast_iff)
    ultimately show "bit (hi AND ucast lo) n = bit (0 :: u64) n" by (auto simp: bit_and_iff)
  qed
  then have "hi OR ucast lo = hi + ucast lo" by (simp add: disjunctive_add_eq_or)
  moreover have lo: "unat (ucast lo :: u64) = unat lo"
    using unat_u32_bound [of lo] by (simp add: unsigned_ucast_eq take_bit_nat_eq_self)
  moreover have "k < 2 ^ 32" using assms unat_u64_bound [of hi] by simp
  then have "unat hi + unat (ucast lo :: u64) < 2 ^ 64" using assms lo unat_u32_bound [of lo] by simp
  ultimately show ?thesis using assms by (simp add: unat_add_no_wrap)
qed

lemma quotient_step:
  assumes "0 < (B :: nat)" "T \<le> T'" "T' < T + B"
  shows "T' div B = (if T' mod B < T mod B then T div B + 1 else T div B)"
proof -
  define q q' r r' where "q = T div B" and "q' = T' div B" and "r = T mod B" and "r' = T' mod B"
  have T: "T = q * B + r" "r < B" "T' = q' * B + r'" "r' < B" using assms(1) by (simp_all add: q_def q'_def r_def r'_def)
  have "q \<le> q'" using assms(2) by (simp add: q_def q'_def div_le_mono)
  moreover have "q' \<le> q + 1"
  proof -
    have "q' * B < (q + 2) * B" using T assms(3) by (simp add: add_mult_distrib)
    then have "q' < q + 2" by (simp only: mult_less_cancel2)
    then show ?thesis by simp
  qed
  ultimately consider "q' = q" | "q' = q + 1" by linarith
  then have "q' = (if r' < r then q + 1 else q)"
  proof cases
    case 1
    then show ?thesis using T assms(2) by simp
  next
    case 2
    then have "r' < r" using T assms(3) by (simp add: add_mult_distrib)
    then show ?thesis using 2 by simp
  qed
  then show ?thesis by (simp add: q_def q'_def r_def r'_def)
qed

lemma extend_tick_counter_step:
  assumes "tracks T epoch previous" "T \<le> T'" "T' < T + 2 ^ 32" "T' < 2 ^ 64"
    and "extend_tick_counter epoch previous (of_nat T') = (result, epoch', previous')"
  shows "unat result = T' \<and> tracks T' epoch' previous'"
proof -
  have cur: "unat (of_nat T' :: u32) = T' mod 2 ^ 32" by (simp add: unat_of_nat)
  have wrap: "of_nat T' < previous \<longleftrightarrow> T' mod 2 ^ 32 < T mod 2 ^ 32"
    using assms(1) by (simp add: word_less_nat_alt cur tracks_def)
  define q where "q = T div 2 ^ 32"
  have q': "T' div 2 ^ 32 = (if T' mod 2 ^ 32 < T mod 2 ^ 32 then q + 1 else q)"
    unfolding q_def by (rule quotient_step [OF _ assms(2,3)]) simp
  have e: "unat epoch' = T' div 2 ^ 32 * 2 ^ 32"
  proof (cases "T' mod 2 ^ 32 < T mod 2 ^ 32")
    case True
    have "epoch' = epoch + push_bit 32 1" using assms(5) True wrap by (auto simp: extend_tick_counter_def Let_def)
    moreover have "unat (push_bit 32 1 :: u64) = 2 ^ 32" by simp
    moreover have "unat epoch = q * 2 ^ 32" using assms(1) by (simp add: tracks_def q_def)
    moreover have "(q + 1) * 2 ^ 32 \<le> T'" using True q' by (metis div_times_less_eq_dividend)
    ultimately show ?thesis using True q' assms(4) by (simp add: unat_add_no_wrap)
  next
    case False
    then have "epoch' = epoch" using assms(5) wrap by (auto simp: extend_tick_counter_def Let_def)
    then show ?thesis using False q' assms(1) by (simp add: tracks_def q_def)
  qed
  have r: "result = epoch' OR ucast (of_nat T' :: u32)" "previous' = of_nat T'"
    using assms(5) by (auto simp: extend_tick_counter_def Let_def)
  have "unat result = T' div 2 ^ 32 * 2 ^ 32 + T' mod 2 ^ 32"
    unfolding r(1) or_low_bits [OF e] cur ..
  then have "unat result = T'" by simp
  moreover have "tracks T' epoch' previous'"
    using e r(2) cur assms(4) by (simp add: tracks_def)
  ultimately show ?thesis by blast
qed


section \<open>The clock state\<close>

record HighResolutionCounter =
  hr_ticks :: u64
  ticks_per_second :: u64
  modulus :: u64
  state_version :: u32

record clock =
  tick_epoch :: u64
  last_tick :: u32
  epoch_nanoseconds :: int
  epoch_ticks :: u64
  last_system_time :: int
  counter_epoch :: HighResolutionCounter
  epoch_available :: bool
  counter_available :: bool

text \<open>\<open>now\<close> is what \<^verbatim>\<open>tx_time_get\<close> returns.\<close>

definition steady_ticks :: "u32 \<Rightarrow> clock \<Rightarrow> u64 \<times> clock" where
  "steady_ticks now c =
     (let (result, epoch', previous') = extend_tick_counter (tick_epoch c) (last_tick c) now
      in (result, c\<lparr>tick_epoch := epoch', last_tick := previous'\<rparr>))"

definition steady_time_nanoseconds :: "u32 \<Rightarrow> clock \<Rightarrow> int \<times> clock" where
  "steady_time_nanoseconds now c =
     (let (result, c') = steady_ticks now c in (ticks_to_nanoseconds result, c'))"

text \<open>A sequence of samples, each less than a full turn of the 32-bit counter after the last.\<close>

fun steady_samples :: "nat list \<Rightarrow> clock \<Rightarrow> u64 list \<times> clock" where
  "steady_samples [] c = ([], c)"
| "steady_samples (t # ts) c =
     (let (result, c') = steady_ticks (of_nat t) c; (rest, c'') = steady_samples ts c' in (result # rest, c''))"

fun spaced :: "nat \<Rightarrow> nat list \<Rightarrow> bool" where
  "spaced T [] \<longleftrightarrow> True"
| "spaced T (t # ts) \<longleftrightarrow> T \<le> t \<and> t < T + 2 ^ 32 \<and> t < 2 ^ 64 \<and> spaced t ts"

lemma steady_ticks_step:
  assumes "tracks T (tick_epoch c) (last_tick c)" "T \<le> T'" "T' < T + 2 ^ 32" "T' < 2 ^ 64"
  shows "unat (fst (steady_ticks (of_nat T') c)) = T' \<and>
    tracks T' (tick_epoch (snd (steady_ticks (of_nat T') c))) (last_tick (snd (steady_ticks (of_nat T') c)))"
proof -
  obtain result epoch' previous'
    where run: "extend_tick_counter (tick_epoch c) (last_tick c) (of_nat T') = (result, epoch', previous')"
    using prod_cases3 by blast
  show ?thesis using extend_tick_counter_step [OF assms run] by (simp add: steady_ticks_def run)
qed

lemma steady_samples_exact:
  assumes "tracks T (tick_epoch c) (last_tick c)" "spaced T ts"
  shows "map unat (fst (steady_samples ts c)) = ts"
  using assms
proof (induction ts arbitrary: T c)
  case Nil
  then show ?case by simp
next
  case (Cons t ts)
  then show ?case using steady_ticks_step [of T c t] by (auto simp: case_prod_beta Let_def)
qed

section \<open>The high-resolution counter\<close>

definition valid_high_resolution_counter :: "HighResolutionCounter \<Rightarrow> bool" where
  "valid_high_resolution_counter counter \<longleftrightarrow>
     ticks_per_second counter \<noteq> 0 \<and> ticks_per_second counter \<le> nanoseconds_per_second \<and>
       (modulus counter = 0 \<or> hr_ticks counter < modulus counter)"

text \<open>The values the calls on the timer deliver, in the order of the calls.\<close>

record timer_reading =
  version_before :: u32
  running_before :: bool
  read_counter :: u32
  read_frequency :: u32
  read_auto_reload :: u32
  running_after :: bool
  version_after :: u32

text \<open>Whether the reading is usable, and the counter filled in. No timer is \<open>None\<close>.\<close>

definition read_high_resolution_counter ::
  "timer_reading option \<Rightarrow> HighResolutionCounter \<Rightarrow> bool \<times> HighResolutionCounter" where
  "read_high_resolution_counter timer counter =
     (case timer of
        None \<Rightarrow> (False, counter)
      | Some r \<Rightarrow>
          if \<not> running_before r then (False, counter)
          else
            (let counter' = \<lparr>hr_ticks = ucast (read_counter r), ticks_per_second = ucast (read_frequency r),
                   modulus = ucast (read_auto_reload r) + 1, state_version = version_before r\<rparr>
             in (running_after r \<and> version_after r = version_before r \<and> valid_high_resolution_counter counter', counter')))"

definition modular_elapsed :: "u64 \<Rightarrow> u64 \<Rightarrow> u64 \<Rightarrow> u64" where
  "modular_elapsed start current m = (if start \<le> current then current - start else m - start + current)"

text \<open>
  The number of whole turns of the counter that brings the modular reading closest to the coarse
  one; \<open>None\<close> when the coarse clock cannot corroborate the reading.
\<close>

definition whole_turns :: "u64 \<Rightarrow> u64 \<Rightarrow> u64 \<Rightarrow> u64 option" where
  "whole_turns coarse modular m =
     (if coarse \<ge> modular then
        (let difference = coarse - modular; wraps = difference div m; remainder = difference mod m
         in Some (if remainder \<ge> m - remainder then wraps + 1 else wraps))
      else if modular - coarse > m div 2 then None
      else Some 0)"

definition reconstruct_elapsed :: "u64 \<Rightarrow> HighResolutionCounter \<Rightarrow> clock \<Rightarrow> u64 option" where
  "reconstruct_elapsed current_ticks current c =
     (if modulus current = 0 then
        (if hr_ticks current < hr_ticks (counter_epoch c) then None
         else Some (hr_ticks current - hr_ticks (counter_epoch c)))
      else
        (let m = modulus current; modular = modular_elapsed (hr_ticks (counter_epoch c)) (hr_ticks current) m
         in case thread_ticks_to_counter_ticks (current_ticks - epoch_ticks c) (ticks_per_second current) of
              None \<Rightarrow> None
            | Some coarse \<Rightarrow>
                (case whole_turns coarse modular m of
                   None \<Rightarrow> None
                 | Some wraps \<Rightarrow> if wraps > (- 1 - modular) div m then None else Some (modular + wraps * m))))"

definition high_resolution_elapsed_nanoseconds :: "timer_reading option \<Rightarrow> u64 \<Rightarrow> clock \<Rightarrow> int option \<times> clock" where
  "high_resolution_elapsed_nanoseconds timer current_ticks c =
     (if \<not> counter_available c then (None, c)
      else
        (let (usable, current) = read_high_resolution_counter timer
               \<lparr>hr_ticks = 0, ticks_per_second = 0, modulus = 0, state_version = 0\<rparr>
         in if \<not> usable \<or> state_version current \<noteq> state_version (counter_epoch c) \<or>
               ticks_per_second current \<noteq> ticks_per_second (counter_epoch c) \<or>
               modulus current \<noteq> modulus (counter_epoch c)
            then (None, c\<lparr>counter_available := False\<rparr>)
            else
              (case reconstruct_elapsed current_ticks current c of
                 None \<Rightarrow> (None, c)
               | Some elapsed \<Rightarrow> (counter_ticks_to_nanoseconds elapsed (ticks_per_second current), c))))"

section \<open>The reconstruction is exact\<close>

text \<open>If the coarse reading is off by less than half a turn, the nearest number of turns is the true one.\<close>

lemma nearest_turn:
  assumes "(m :: nat) < M" and near: "2 * C < 2 * (m + k * M) + M" "2 * (m + k * M) < 2 * C + M"
  shows "if m \<le> C then (C - m) div M + (if M - (C - m) mod M \<le> (C - m) mod M then 1 else 0) = k
    else k = 0 \<and> m - C \<le> M div 2"
proof (cases "m \<le> C")
  case True
  define q r where "q = (C - m) div M" and "r = (C - m) mod M"
  have M: "0 < M" using assms(1) by simp
  then have r: "r < M" "C = m + q * M + r" using True by (simp_all add: q_def r_def)
  have up: "k < q + 2"
  proof (rule ccontr)
    assume "\<not> k < q + 2"
    then have "(q + 2) * M \<le> k * M" by (intro mult_le_mono1) simp
    then show False using near r by (simp add: add_mult_distrib)
  qed
  moreover have "q < k + 1"
  proof (rule ccontr)
    assume "\<not> q < k + 1"
    then have "(k + 1) * M \<le> q * M" by (intro mult_le_mono1) simp
    then show False using near r by (simp add: add_mult_distrib)
  qed
  ultimately consider "k = q" | "k = q + 1" by linarith
  then have "q + (if M - r \<le> r then 1 else 0) = k"
  proof cases
    case 1
    then have "2 * r < M" using near r by simp
    then show ?thesis using 1 by simp
  next
    case 2
    then have "M < 2 * r" using near r by (simp add: add_mult_distrib)
    then show ?thesis using 2 by simp
  qed
  then show ?thesis using True by (simp add: q_def r_def)
next
  case False
  have "k = 0"
  proof (rule ccontr)
    assume "k \<noteq> 0"
    then have "M \<le> k * M" by simp
    then have "M + M \<le> 2 * (k * M)" by linarith
    moreover have "2 * (m + k * M) = 2 * m + 2 * (k * M)" by simp
    ultimately show False using False near(2) assms(1) by linarith
  qed
  then show ?thesis using False assms by simp
qed

lemma whole_turns_exact:
  assumes "modular < m" "unat modular + k * unat m < 2 ^ 64"
    and "2 * unat coarse < 2 * (unat modular + k * unat m) + unat m"
    and "2 * (unat modular + k * unat m) < 2 * unat coarse + unat m"
  shows "whole_turns coarse modular m = Some (of_nat k)"
proof -
  define M a C where "M = unat m" and "a = unat modular" and "C = unat coarse"
  have "a < M" using assms(1) by (simp add: word_less_nat_alt M_def a_def)
  then have M: "1 \<le> M" by simp
  then have "k \<le> k * unat m" using M unfolding M_def by simp
  then have k: "k < 2 ^ 64" using assms(2) by linarith
  note turn = nearest_turn [OF \<open>a < M\<close>, of C k, folded M_def a_def C_def]
  have t: "if a \<le> C then (C - a) div M + (if M - (C - a) mod M \<le> (C - a) mod M then 1 else 0) = k
      else k = 0 \<and> a - C \<le> M div 2"
    using assms(3,4) by (intro turn) (simp_all add: M_def a_def C_def)
  show ?thesis
  proof (cases "modular \<le> coarse")
    case True
    then have le: "a \<le> C" by (simp add: word_le_nat_alt a_def C_def)
    define difference where "difference = coarse - modular"
    note fold = difference_def [symmetric]
    have d: "unat difference = C - a" using True by (simp add: difference_def unat_sub a_def C_def)
    have small: "(C - a) div M < 18446744073709551616"
      using unat_u64_bound [of coarse] unfolding C_def by (meson div_le_dividend diff_le_self le_less_trans)
    have r: "unat (difference mod m) = (C - a) mod M" by (simp add: unat_mod d M_def)
    have "difference mod m \<le> m" using r M by (simp add: word_le_nat_alt M_def)
    then have "m - difference mod m \<le> difference mod m \<longleftrightarrow> M - (C - a) mod M \<le> (C - a) mod M"
      by (simp add: word_le_nat_alt unat_sub r M_def)
    moreover have w: "difference div m = of_nat ((C - a) div M)"
      using small by (simp add: word_unat_eq_iff unat_of_nat unat_div d M_def)
    ultimately have "(if m - difference mod m \<le> difference mod m then difference div m + 1 else difference div m) =
        of_nat ((C - a) div M + (if M - (C - a) mod M \<le> (C - a) mod M then 1 else 0))"
      by simp
    also have "\<dots> = of_nat k" using t le by (simp only: if_True)
    finally show ?thesis using True unfolding whole_turns_def Let_def fold by simp
  next
    case False
    then have lt: "\<not> a \<le> C" by (simp add: word_le_nat_alt a_def C_def)
    then have t': "k = 0" "a - C \<le> M div 2" using t by auto
    have "unat (modular - coarse) = a - C" using False by (simp add: unat_sub a_def C_def)
    moreover have "unat (m div 2) = M div 2" by (simp add: unat_div M_def)
    ultimately have "\<not> modular - coarse > m div 2" using t'(2) by (simp add: word_less_nat_alt)
    then show ?thesis using False t'(1) by (simp add: whole_turns_def)
  qed
qed

lemma modular_elapsed_exact:
  assumes "start < m" "current < m" "unat current = (unat start + E) mod unat m"
  shows "unat (modular_elapsed start current m) = E mod unat m" "modular_elapsed start current m < m"
proof -
  define s M where "s = unat start" and "M = unat m"
  define r where "r = E mod M"
  have s: "s < M" using assms(1) by (simp add: word_less_nat_alt s_def M_def)
  then have r: "r < M" by (simp add: r_def)
  have cur: "unat current = (s + r) mod M" using assms(3) by (simp add: r_def s_def M_def mod_add_right_eq)
  show *: "unat (modular_elapsed start current m) = E mod unat m"
  proof (cases "s + r < M")
    case True
    then have "unat current = s + r" using cur by simp
    then show ?thesis by (simp add: modular_elapsed_def word_le_nat_alt unat_sub s_def r_def M_def)
  next
    case False
    then have "(s + r) mod M = s + r - M" using s r by (simp add: mod_if)
    then have c: "unat current = s + r - M" using cur by simp
    then have "\<not> start \<le> current" using s r False by (simp add: word_le_nat_alt s_def)
    moreover have "unat (m - start) = M - s" using assms(1) by (simp add: unat_sub s_def M_def)
    ultimately have "unat (modular_elapsed start current m) = (M - s) + (s + r - M)"
      using c r s False unat_u64_bound [of m] by (simp add: modular_elapsed_def unat_add_no_wrap M_def)
    then show ?thesis using s r False by (simp add: r_def M_def)
  qed
  then show "modular_elapsed start current m < m" using r by (simp add: word_less_nat_alt r_def M_def)
qed

lemma reconstruct_elapsed_exact:
  assumes epoch: "hr_ticks (counter_epoch c) < modulus current" and now: "hr_ticks current < modulus current"
    and counter: "unat (hr_ticks current) = (unat (hr_ticks (counter_epoch c)) + E) mod unat (modulus current)"
    and coarse: "thread_ticks_to_counter_ticks (current_ticks - epoch_ticks c) (ticks_per_second current) = Some coarse"
    and near: "2 * unat coarse < 2 * E + unat (modulus current)" "2 * E < 2 * unat coarse + unat (modulus current)"
    and E: "E < 2 ^ 64"
  shows "reconstruct_elapsed current_ticks current c = Some (of_nat E)"
proof -
  define m modular where "m = modulus current"
    and "modular = modular_elapsed (hr_ticks (counter_epoch c)) (hr_ticks current) m"
  define k where "k = E div unat m"
  have a: "unat modular = E mod unat m" "modular < m"
    using modular_elapsed_exact [OF epoch now counter] by (simp_all add: modular_def m_def)
  have sum: "unat modular + k * unat m = E" by (simp add: a k_def)
  have "modular < m" by (rule a)
  have turns: "whole_turns coarse modular m = Some (of_nat k)"
    using near E by (intro whole_turns_exact [OF \<open>modular < m\<close>]) (simp_all only: sum flip: m_def)
  have m: "m \<noteq> 0" using a(2) by auto
  then have m1: "1 \<le> unat m" using unat_gt_0 [of m] by linarith
  have "k \<le> k * unat m" using m1 by simp
  then have "k < 2 ^ 64" using E sum by linarith
  then have k: "unat (of_nat k :: u64) = k" by (simp add: unat_of_nat)
  have max: "unat (- 1 :: u64) = 18446744073709551615" by (simp add: unsigned_minus_1_eq_mask mask_eq_exp_minus_1)
  have "\<not> (of_nat k :: u64) > (- 1 - modular) div m"
    using overflow_test [of modular "- 1" m "of_nat k"] unat_u64_bound [of modular] m1 sum E
    unfolding max k by simp
  moreover have "modular + of_nat k * m = of_nat E"
  proof -
    have sum': "k * unat m + unat modular = E" using sum by linarith
    have "unat (of_nat k * m + modular) = E"
      by (rule trans [OF scaled_sum]) (simp_all only: k sum' E)
    then show ?thesis using E unfolding word_unat_eq_iff add.commute [of modular] by (simp add: unat_of_nat take_bit_nat_eq_self)
  qed
  ultimately show ?thesis
    using m turns coarse
    unfolding reconstruct_elapsed_def Let_def m_def [symmetric] modular_def [symmetric] by simp
qed

text \<open>The true elapsed time, when the timer has been running undisturbed since the epoch.\<close>

definition undisturbed :: "timer_reading \<Rightarrow> clock \<Rightarrow> nat \<Rightarrow> bool" where
  "undisturbed r c E \<longleftrightarrow>
     running_before r \<and> running_after r \<and> version_before r = version_after r \<and>
     version_before r = state_version (counter_epoch c) \<and>
     ucast (read_frequency r) = ticks_per_second (counter_epoch c) \<and>
     ucast (read_auto_reload r) + 1 = modulus (counter_epoch c) \<and>
     valid_high_resolution_counter (counter_epoch c) \<and> read_counter r \<le> read_auto_reload r \<and>
     unat (read_counter r) = (unat (hr_ticks (counter_epoch c)) + E) mod unat (modulus (counter_epoch c))"

lemma unat_ucast_up: "unat (ucast (x :: u32) :: u64) = unat x"
  using unat_u32_bound [of x] by (simp add: unsigned_ucast_eq take_bit_nat_eq_self)

lemma high_resolution_elapsed_exact:
  assumes "counter_available c" "undisturbed r c E" "E < 2 ^ 64"
    and "thread_ticks_to_counter_ticks (current_ticks - epoch_ticks c) (ticks_per_second (counter_epoch c)) = Some coarse"
    and "2 * unat coarse < 2 * E + unat (modulus (counter_epoch c))"
    and "2 * E < 2 * unat coarse + unat (modulus (counter_epoch c))"
    and "E * 1000000000 div unat (ticks_per_second (counter_epoch c)) \<le> 9223372036854775807"
  shows "high_resolution_elapsed_nanoseconds (Some r) current_ticks c =
    (Some (int (E * 1000000000 div unat (ticks_per_second (counter_epoch c)))), c)"
proof -
  define current where "current = \<lparr>hr_ticks = ucast (read_counter r), ticks_per_second = ucast (read_frequency r),
    modulus = ucast (read_auto_reload r) + 1, state_version = version_before r\<rparr>"
  define m f where "m = modulus (counter_epoch c)" and "f = ticks_per_second (counter_epoch c)"
  have epoch: "valid_high_resolution_counter (counter_epoch c)" using assms(2) by (simp add: undisturbed_def)
  have cur: "modulus current = m" "ticks_per_second current = f" "state_version current = state_version (counter_epoch c)"
    "unat (hr_ticks current) = unat (read_counter r)"
    using assms(2) by (auto simp: current_def undisturbed_def m_def f_def unat_ucast_up)
  have "m = ucast (read_auto_reload r) + 1" using assms(2) by (simp add: undisturbed_def m_def)
  then have "unat m = unat (read_auto_reload r) + 1"
    using unat_u32_bound [of "read_auto_reload r"] by (simp add: unat_add_no_wrap unat_ucast_up)
  moreover have "unat (read_counter r) \<le> unat (read_auto_reload r)"
    using assms(2) by (simp add: undisturbed_def word_le_nat_alt)
  ultimately have small: "hr_ticks current < modulus current" by (simp add: word_less_nat_alt cur)
  have f: "f \<noteq> 0" "unat f \<le> 1000000000" using epoch
    by (simp_all add: valid_high_resolution_counter_def f_def word_le_nat_alt)
  have "m \<noteq> 0" using \<open>unat m = _\<close> by auto
  then have start: "hr_ticks (counter_epoch c) < modulus current"
    using epoch cur(1) by (auto simp: valid_high_resolution_counter_def m_def)
  have "valid_high_resolution_counter current"
    using epoch small cur by (simp add: valid_high_resolution_counter_def f_def)
  moreover have "running_before r" "running_after r" "version_after r = version_before r"
    using assms(2) by (auto simp: undisturbed_def)
  ultimately have read: "read_high_resolution_counter (Some r) z = (True, current)" for z
    by (simp add: read_high_resolution_counter_def Let_def flip: current_def)
  have "reconstruct_elapsed current_ticks current c = Some (of_nat E)"
    using assms by (intro reconstruct_elapsed_exact [OF start small]) (simp_all add: cur undisturbed_def m_def f_def)
  moreover have "unat (of_nat E :: u64) = E" using assms(3) by (simp add: unat_of_nat take_bit_nat_eq_self)
  ultimately show ?thesis
    using assms(1,7) read cur counter_ticks_exact [OF f, of "of_nat E"]
    by (simp add: high_resolution_elapsed_nanoseconds_def m_def f_def)
qed

section \<open>System time\<close>

definition publish_system_time :: "int \<Rightarrow> clock \<Rightarrow> int \<times> clock" where
  "publish_system_time candidate c =
     (if candidate > last_system_time c then (candidate, c\<lparr>last_system_time := candidate\<rparr>)
      else (last_system_time c, c))"

definition system_time_nanoseconds :: "u32 \<Rightarrow> timer_reading option \<Rightarrow> clock \<Rightarrow> int \<times> clock" where
  "system_time_nanoseconds now timer c =
     (let (current_ticks, c) = steady_ticks now c
      in if \<not> epoch_available c then publish_system_time (ticks_to_nanoseconds current_ticks) c
         else
           (let (precise, c) = high_resolution_elapsed_nanoseconds timer current_ticks c;
                elapsed = (case precise of Some e \<Rightarrow> e | None \<Rightarrow> ticks_to_nanoseconds (current_ticks - epoch_ticks c))
            in if elapsed = int64_max \<or> epoch_nanoseconds c > int64_max - elapsed
               then publish_system_time int64_max c
               else publish_system_time (epoch_nanoseconds c + elapsed) c))"

text \<open>
  The loop of \<open>publish_system_time\<close> as threads execute it: a load, then compare-exchanges on the
  shared value, each of which may be overtaken by another thread or fail spuriously.
\<close>

datatype publisher = Idle | Loaded int int | Returned int int

inductive publish_step :: "int \<times> (nat \<Rightarrow> publisher) \<Rightarrow> int \<times> (nat \<Rightarrow> publisher) \<Rightarrow> bool" where
  load: "publish_step (shared, p) (shared, p(t := Loaded candidate shared))" if "\<forall>c v. p t \<noteq> Loaded c v"
| exchange: "publish_step (shared, p) (candidate, p(t := Returned candidate candidate))"
    if "p t = Loaded candidate previous" and "candidate > previous" and "shared = previous"
| retry: "publish_step (shared, p) (shared, p(t := Loaded candidate shared))"
    if "p t = Loaded candidate previous" and "candidate > previous"
| newer: "publish_step (shared, p) (shared, p(t := Returned candidate previous))"
    if "p t = Loaded candidate previous" and "\<not> candidate > previous"

inductive_cases publish_stepE: "publish_step s s'"

abbreviation publish_steps :: "int \<times> (nat \<Rightarrow> publisher) \<Rightarrow> int \<times> (nat \<Rightarrow> publisher) \<Rightarrow> bool" where
  "publish_steps \<equiv> publish_step\<^sup>*\<^sup>*"

fun seen :: "int \<Rightarrow> publisher \<Rightarrow> bool" where
  "seen shared Idle \<longleftrightarrow> True"
| "seen shared (Loaded candidate previous) \<longleftrightarrow> previous \<le> shared"
| "seen shared (Returned candidate result) \<longleftrightarrow> result \<le> shared \<and> candidate \<le> result"

lemma seen_mono: "seen a q \<Longrightarrow> a \<le> b \<Longrightarrow> seen b q"
  by (cases q) auto

lemma publish_steps_monotone:
  assumes "publish_steps (a, p) (b, q)" "\<And>t. seen a (p t)"
  shows "a \<le> b \<and> (\<forall>t. seen b (q t))"
  using assms(1)
proof (induction "(b, q)" arbitrary: b q rule: rtranclp_induct)
  case base
  then show ?case using assms(2) by simp
next
  case (step y)
  obtain b' q' where y: "y = (b', q')" by fastforce
  have IH: "a \<le> b'" "\<And>t. seen b' (q' t)" using step(3) y by auto
  have "b' \<le> b \<and> (\<forall>t. seen b (q t))"
    using step(2) [unfolded y] IH(2)
    by (cases rule: publish_step.cases)
      (auto intro: seen_mono [OF IH(2)] less_imp_le, metis seen.simps(2))
  then show ?case using IH(1) by simp
qed

text \<open>A thread that is publishing holds a value at least as new as the one at its call.\<close>

definition fresh :: "int \<Rightarrow> publisher \<Rightarrow> bool" where
  "fresh bound q \<longleftrightarrow> (case q of Idle \<Rightarrow> True | Loaded candidate previous \<Rightarrow> bound \<le> previous | Returned candidate result \<Rightarrow> bound \<le> result)"

lemma publish_steps_fresh:
  assumes "publish_steps (a, p) (b, q)" "bound \<le> a" "fresh bound (p t)"
  shows "bound \<le> b \<and> fresh bound (q t)"
  using assms(1)
proof (induction "(b, q)" arbitrary: b q rule: rtranclp_induct)
  case base
  then show ?case using assms by simp
next
  case (step y)
  obtain b' q' where y: "y = (b', q')" by fastforce
  have IH: "bound \<le> b'" "fresh bound (q' t)" using step(3) y by auto
  show ?case using step(2) [unfolded y] IH
    by (cases rule: publish_step.cases) (auto simp: fresh_def split: publisher.splits if_splits)
qed

text \<open>No interleaving lets system time go backwards: a call that starts after another has returned
  returns at least that value, and at least its own candidate.\<close>

lemma publish_order:
  assumes "\<And>t. seen a (p t)" "publish_steps (a, p) (b, q)" "q s = Returned d v"
    and "\<forall>c u. q t \<noteq> Loaded c u" "publish_steps (b, q(t := Loaded candidate b)) (x, u)" "u t = Returned e w"
  shows "v \<le> w \<and> e \<le> w"
proof -
  have before: "\<forall>t. seen b (q t)" using publish_steps_monotone assms(1,2) by blast
  then have "v \<le> b" using assms(3) by (metis seen.simps(3))
  then have "v \<le> w"
    using publish_steps_fresh [OF assms(5), of v t] assms(6) by (simp add: fresh_def)
  moreover have "\<And>r. seen b ((q(t := Loaded candidate b)) r)" using before by simp
  then have "\<forall>r. seen x (u r)" using publish_steps_monotone assms(5) by blast
  then have "e \<le> w" using assms(6) by (metis seen.simps(3))
  ultimately show ?thesis ..
qed

text \<open>A thread that is not interrupted computes the sequential definition.\<close>

lemma publish_sequential:
  assumes "\<forall>c v. p t \<noteq> Loaded c v" "publish_system_time candidate c = (result, c')"
  shows "publish_steps (last_system_time c, p) (last_system_time c', p(t := Returned candidate result))"
proof -
  let ?p = "p(t := Loaded candidate (last_system_time c))"
  have "publish_step (last_system_time c, p) (last_system_time c, ?p)" using assms(1) by (rule publish_step.load)
  moreover have "publish_step (last_system_time c, ?p) (last_system_time c', ?p(t := Returned candidate result))"
  proof (cases "candidate > last_system_time c")
    case True
    then have "result = candidate" "last_system_time c' = candidate"
      using assms(2) by (auto simp: publish_system_time_def)
    then show ?thesis using True publish_step.exchange [of ?p t candidate "last_system_time c"] by simp
  next
    case False
    then have "result = last_system_time c" "c' = c" using assms(2) by (auto simp: publish_system_time_def)
    then show ?thesis using False publish_step.newer [of ?p t candidate "last_system_time c"] by simp
  qed
  then have "publish_step (last_system_time c, ?p) (last_system_time c', p(t := Returned candidate result))" by simp
  ultimately show ?thesis by (meson converse_rtranclp_into_rtranclp r_into_rtranclp)
qed

lemma system_time_not_earlier:
  assumes "system_time_nanoseconds now timer c = (t, c')"
  shows "last_system_time c \<le> t \<and> last_system_time c' = t"
proof -
  have keep: "last_system_time (snd (steady_ticks now c)) = last_system_time c"
    "last_system_time (snd (high_resolution_elapsed_nanoseconds timer n k)) = last_system_time k" for n k
    by (simp_all add: steady_ticks_def high_resolution_elapsed_nanoseconds_def case_prod_beta Let_def split: option.split)
  have publish: "last_system_time k \<le> fst (publish_system_time x k) \<and>
      last_system_time (snd (publish_system_time x k)) = fst (publish_system_time x k)" for x k
    by (simp add: publish_system_time_def)
  show ?thesis
    using assms publish keep
    by (auto simp: system_time_nanoseconds_def case_prod_beta Let_def split: if_splits) (metis fst_conv snd_conv)+
qed

end
