(* ===== verification/Runtime_Start.thy ===== *)
theory Runtime_Start
  imports Runtime_Clock
begin

text \<open>
  \<open>runtime::initialize\<close> in \<^verbatim>\<open>platform/runtime/libstdcxx/backend.cpp\<close> with \<open>initialize_cxx_guard\<close> and
  \<open>destroy_cxx_guard\<close> of \<^verbatim>\<open>cxx_guard.cpp\<close>, and the entry point of \<open>std::this_thread::sleep_for\<close> in
  \<^verbatim>\<open>sleep.cpp\<close>. The answers of ThreadX and of the hardware clocks are arguments.
\<close>

section \<open>The clock epoch\<close>

record Timestamp =
  seconds_since_epoch :: int
  ts_nanoseconds :: u32

definition usable_timestamp :: "Timestamp \<Rightarrow> bool" where
  "usable_timestamp t \<longleftrightarrow>
     (let maximum_seconds = int64_max div 1000000000
      in seconds_since_epoch t \<ge> 0 \<and> ts_nanoseconds t < 1000000000 \<and> seconds_since_epoch t \<le> maximum_seconds \<and>
         (seconds_since_epoch t \<noteq> maximum_seconds \<or> uint (ts_nanoseconds t) \<le> int64_max mod 1000000000))"

text \<open>The time is \<open>None\<close> without a clock or on its error.\<close>

definition set_system_epoch :: "Timestamp option \<Rightarrow> clock \<Rightarrow> clock" where
  "set_system_epoch time c =
     (case time of
        None \<Rightarrow> c\<lparr>epoch_available := False\<rparr>
      | Some t \<Rightarrow>
          if usable_timestamp t
          then c\<lparr>epoch_available := True, epoch_nanoseconds := seconds_since_epoch t * 1000000000 + uint (ts_nanoseconds t)\<rparr>
          else c\<lparr>epoch_available := False\<rparr>)"

definition set_counter_epoch :: "bool \<Rightarrow> timer_reading option \<Rightarrow> clock \<Rightarrow> clock" where
  "set_counter_epoch timer_started timer c =
     (if timer = None \<or> \<not> timer_started then c\<lparr>counter_available := False\<rparr>
      else
        (let (usable, counter) = read_high_resolution_counter timer (counter_epoch c)
         in c\<lparr>counter_available := usable, counter_epoch := counter\<rparr>))"

text \<open>\<open>now\<close> and \<open>now'\<close> are two readings of \<^verbatim>\<open>tx_time_get\<close>.\<close>

definition initialize_clock ::
  "u32 \<Rightarrow> u32 \<Rightarrow> Timestamp option \<Rightarrow> bool \<Rightarrow> timer_reading option \<Rightarrow> clock \<Rightarrow> clock" where
  "initialize_clock now now' time timer_started timer c =
     (let (start, c) = steady_ticks now' (c\<lparr>last_tick := now, tick_epoch := 0\<rparr>)
      in set_counter_epoch timer_started timer (set_system_epoch time (c\<lparr>epoch_ticks := start\<rparr>)))"

lemma usable_timestamp_range:
  assumes "usable_timestamp t"
  shows "0 \<le> seconds_since_epoch t * 1000000000 + uint (ts_nanoseconds t) \<and>
    seconds_since_epoch t * 1000000000 + uint (ts_nanoseconds t) \<le> int64_max"
proof -
  have t: "0 \<le> seconds_since_epoch t" "uint (ts_nanoseconds t) < 1000000000" "seconds_since_epoch t \<le> 9223372036"
    "seconds_since_epoch t \<noteq> 9223372036 \<or> uint (ts_nanoseconds t) \<le> 854775807"
    using assms by (auto simp: usable_timestamp_def int64_max_def word_less_def)
  then show ?thesis by (auto simp: int64_max_def)
qed

lemma read_counter_valid:
  "read_high_resolution_counter timer z = (True, counter) \<Longrightarrow> valid_high_resolution_counter counter"
  by (auto simp: read_high_resolution_counter_def Let_def split: option.splits if_splits)

text \<open>The epoch is a value of the 64-bit type, and the ticks and the counter are in order from the start.\<close>

lemma set_system_epoch_range:
  "epoch_available (set_system_epoch time c) \<Longrightarrow>
    0 \<le> epoch_nanoseconds (set_system_epoch time c) \<and> epoch_nanoseconds (set_system_epoch time c) \<le> int64_max"
  using usable_timestamp_range by (auto simp: set_system_epoch_def split: option.splits if_splits)

lemma set_counter_epoch_valid:
  "counter_available (set_counter_epoch started timer c) \<Longrightarrow>
    valid_high_resolution_counter (counter_epoch (set_counter_epoch started timer c))"
  using read_counter_valid by (auto simp: set_counter_epoch_def split: if_splits prod.splits)

lemma epoch_frames:
  "tick_epoch (set_system_epoch time c) = tick_epoch c" "last_tick (set_system_epoch time c) = last_tick c"
  "epoch_ticks (set_system_epoch time c) = epoch_ticks c"
  "tick_epoch (set_counter_epoch started timer c) = tick_epoch c" "last_tick (set_counter_epoch started timer c) = last_tick c"
  "epoch_ticks (set_counter_epoch started timer c) = epoch_ticks c"
  "epoch_available (set_counter_epoch started timer c) = epoch_available c"
  "epoch_nanoseconds (set_counter_epoch started timer c) = epoch_nanoseconds c"
  by (simp_all add: set_system_epoch_def set_counter_epoch_def split: option.split prod.split)

lemma initialize_clock_ok:
  assumes "unat now \<le> unat now'" and c': "c' = initialize_clock now now' time started timer c"
  shows "tracks (unat now') (tick_epoch c') (last_tick c') \<and> unat (epoch_ticks c') = unat now' \<and>
    (epoch_available c' \<longrightarrow> 0 \<le> epoch_nanoseconds c' \<and> epoch_nanoseconds c' \<le> int64_max) \<and>
    (counter_available c' \<longrightarrow> valid_high_resolution_counter (counter_epoch c'))"
proof -
  have n: "unat now' < 2 ^ 32" using unat_u32_bound [of now'] by simp
  define c0 where "c0 = c\<lparr>last_tick := now, tick_epoch := 0\<rparr>"
  have "tracks (unat now) (tick_epoch c0) (last_tick c0)"
    using unat_u32_bound [of now] by (simp add: tracks_def c0_def)
  then have "unat (fst (steady_ticks now' c0)) = unat now' \<and>
      tracks (unat now') (tick_epoch (snd (steady_ticks now' c0))) (last_tick (snd (steady_ticks now' c0)))"
    using steady_ticks_step [of "unat now" c0 "unat now'"] assms(1) n by simp
  moreover have "c' = set_counter_epoch started timer
      (set_system_epoch time ((snd (steady_ticks now' c0))\<lparr>epoch_ticks := fst (steady_ticks now' c0)\<rparr>))"
    by (simp add: c' initialize_clock_def c0_def case_prod_beta)
  ultimately show ?thesis
    using set_system_epoch_range set_counter_epoch_valid by (simp add: epoch_frames)
qed

section \<open>The ThreadX objects\<close>

datatype runtime_object = Initialization_mutex | Cxx_guard_mutex | Cleanup_queue | Rollover_timer | Reaper_thread

record runtime_state =
  objects :: "runtime_object list"
  cxx_guard_mutex_ready :: bool
  runtime_initialized :: bool
  runtime_clock :: clock

definition create_object :: "tx_status \<Rightarrow> runtime_object \<Rightarrow> runtime_state \<Rightarrow> tx_status \<times> runtime_state" where
  "create_object status x s = (status, if status = TX_SUCCESS then s\<lparr>objects := x # objects s\<rparr> else s)"

definition delete_object :: "runtime_object \<Rightarrow> runtime_state \<Rightarrow> runtime_state" where
  "delete_object x s = s\<lparr>objects := remove1 x (objects s)\<rparr>"

definition initialize_cxx_guard :: "tx_status \<Rightarrow> runtime_state \<Rightarrow> tx_status \<times> runtime_state" where
  "initialize_cxx_guard status s =
     (if cxx_guard_mutex_ready s then (TX_SUCCESS, s)
      else
        (let (status, s) = create_object status Cxx_guard_mutex s
         in (status, if status = TX_SUCCESS then s\<lparr>cxx_guard_mutex_ready := True\<rparr> else s)))"

definition destroy_cxx_guard :: "runtime_state \<Rightarrow> runtime_state" where
  "destroy_cxx_guard s =
     (if \<not> cxx_guard_mutex_ready s then s else (delete_object Cxx_guard_mutex s)\<lparr>cxx_guard_mutex_ready := False\<rparr>)"

record start_answers =
  answer_mutex :: tx_status
  answer_guard :: tx_status
  answer_queue :: tx_status
  answer_timer :: tx_status
  answer_thread :: tx_status

definition runtime_initialize :: "(clock \<Rightarrow> clock) \<Rightarrow> start_answers \<Rightarrow> runtime_state \<Rightarrow> tx_status \<times> runtime_state" where
  "runtime_initialize set_clock a s =
     (if runtime_initialized s then (TX_SUCCESS, s)
      else
        (let s = s\<lparr>runtime_clock := set_clock (runtime_clock s)\<rparr>;
             (status, s) = create_object (answer_mutex a) Initialization_mutex s
         in if status \<noteq> TX_SUCCESS then (status, s)
            else
              (let (status, s) = initialize_cxx_guard (answer_guard a) s
               in if status \<noteq> TX_SUCCESS then (status, delete_object Initialization_mutex s)
                  else
                    (let (status, s) = create_object (answer_queue a) Cleanup_queue s
                     in if status \<noteq> TX_SUCCESS then (status, delete_object Initialization_mutex (destroy_cxx_guard s))
                        else
                          (let (status, s) = create_object (answer_timer a) Rollover_timer s
                           in if status \<noteq> TX_SUCCESS
                              then (status, delete_object Initialization_mutex (destroy_cxx_guard (delete_object Cleanup_queue s)))
                              else
                                (let (status, s) = create_object (answer_thread a) Reaper_thread s
                                 in if status \<noteq> TX_SUCCESS
                                    then (status, delete_object Initialization_mutex (destroy_cxx_guard
                                      (delete_object Cleanup_queue (delete_object Rollover_timer s))))
                                    else (TX_SUCCESS, s\<lparr>runtime_initialized := True\<rparr>)))))))"

text \<open>A failure leaves no object behind; success leaves all five, and a later call changes nothing.\<close>

lemma runtime_initialize_all_or_nothing:
  assumes "objects s = []" "\<not> cxx_guard_mutex_ready s" "\<not> runtime_initialized s"
    and "runtime_initialize set_clock a s = (status, s')"
  shows "if status = TX_SUCCESS
    then set (objects s') = {Initialization_mutex, Cxx_guard_mutex, Cleanup_queue, Rollover_timer, Reaper_thread} \<and>
      cxx_guard_mutex_ready s' \<and> runtime_initialized s' \<and> (\<forall>set_clock' a'. runtime_initialize set_clock' a' s' = (TX_SUCCESS, s'))
    else objects s' = [] \<and> \<not> cxx_guard_mutex_ready s' \<and> \<not> runtime_initialized s'"
  using assms
  by (auto simp: runtime_initialize_def initialize_cxx_guard_def destroy_cxx_guard_def create_object_def
      delete_object_def Let_def split: if_splits)

section \<open>\<open>std::this_thread::sleep_for\<close>\<close>

text \<open>The nanoseconds handed to \<open>sleep_for\<close>, or \<open>None\<close> when it returns at once.\<close>

definition this_thread_sleep :: "int \<Rightarrow> int \<Rightarrow> u64 option" where
  "this_thread_sleep seconds nanoseconds =
     (if seconds < 0 \<or> nanoseconds < 0 then None
      else
        (let seconds_count = word_of_int seconds :: u64
         in if seconds_count > - 1 div 1000000000 then Some (- 1)
            else Some (seconds_count * 1000000000 + word_of_int nanoseconds)))"

text \<open>
  The request is passed on exactly, or saturated, except in the last second of the range, where the
  sum of the two parts wraps and the sleep becomes shorter than a second.
\<close>

lemma this_thread_sleep_exact:
  assumes "0 \<le> seconds" "seconds \<le> int64_max" "0 \<le> nanoseconds" "nanoseconds < 1000000000"
    and "seconds * 1000000000 + nanoseconds < 2 ^ 64"
  shows "this_thread_sleep seconds nanoseconds = Some (word_of_int (seconds * 1000000000 + nanoseconds))"
proof -
  have s: "seconds \<le> 18446744073" using assms(3,5) by simp
  have "unat (word_of_int seconds :: u64) = nat seconds" using assms(1) s by (intro unat_word_of_int) simp_all
  moreover have "unat (- 1 div 1000000000 :: u64) = 18446744073"
    by (simp add: unat_div unsigned_minus_1_eq_mask mask_eq_exp_minus_1)
  ultimately have "\<not> (word_of_int seconds :: u64) > - 1 div 1000000000" using assms(1) s by (simp add: word_less_nat_alt)
  then show ?thesis using assms(1,3) by (simp add: this_thread_sleep_def Let_def wi_hom_add wi_hom_mult)
qed

lemma this_thread_sleep_wraps: "this_thread_sleep 18446744073 999999999 = Some 290448383"
  by (simp add: this_thread_sleep_def Let_def) 

end
