(* ===== verification/Runtime_Context.thy ===== *)
theory Runtime_Context
  imports Runtime_Clock
begin

text \<open>
  The calling context and the attributes of standard threads in
  \<^verbatim>\<open>platform/runtime/libstdcxx/backend.cpp\<close>: who may call, and how a requested priority, stack size
  and name become those given to ThreadX. The configuration of ThreadX (the number of priorities,
  the smallest stack) is an argument; sizes are those of the 32-bit target.
\<close>

section \<open>Who may call\<close>

record caller =
  initialized :: bool
  interrupt_context :: bool
  current_thread :: "nat option"

definition require_thread_context :: "caller \<Rightarrow> errno option" where
  "require_thread_context c =
     (if \<not> initialized c then Some EAGAIN
      else if interrupt_context c \<or> current_thread c = None then Some EPERM
      else None)"

definition in_thread_context :: "caller \<Rightarrow> bool" where
  "in_thread_context c \<longleftrightarrow> initialized c \<and> \<not> interrupt_context c \<and> current_thread c \<noteq> None"

lemma require_thread_context_ok: "require_thread_context c = None \<longleftrightarrow> in_thread_context c"
  by (simp add: require_thread_context_def in_thread_context_def)

definition thread_yield :: "caller \<Rightarrow> errno option" where
  "thread_yield c = (if require_thread_context c \<noteq> None then Some EPERM else None)"

section \<open>Attributes\<close>

record Attributes =
  attr_name :: string
  attr_priority :: int
  attr_stack_size :: u32

definition RUNTIME_STD_THREAD_STACK_SIZE :: u32 where "RUNTIME_STD_THREAD_STACK_SIZE = 4096"
definition RUNTIME_STD_THREAD_PRIORITY :: int where "RUNTIME_STD_THREAD_PRIORITY = 16"
definition STACK_ALIGNMENT :: u32 where "STACK_ALIGNMENT = 8"

definition validate_thread_priority :: "int \<Rightarrow> int \<Rightarrow> int option" where
  "validate_thread_priority max_priorities requested =
     (let requested = (if requested = - 1 then RUNTIME_STD_THREAD_PRIORITY else requested)
      in if requested < 0 \<or> requested \<ge> max_priorities then None else Some requested)"

definition normalize_thread_stack_size :: "u32 \<Rightarrow> u32 \<Rightarrow> u32 option" where
  "normalize_thread_stack_size minimum_stack requested =
     (let requested = (if requested = 0 then RUNTIME_STD_THREAD_STACK_SIZE else requested);
          alignment_mask = STACK_ALIGNMENT - 1
      in if requested < minimum_stack \<or> requested > - 1 - alignment_mask then None
         else Some ((requested + alignment_mask) AND NOT alignment_mask))"

lemma and_not_mask: "unat (x AND - 8 :: u32) = unat x div 8 * 8"
proof -
  have "- 8 = NOT (mask 3 :: u32)" by (simp add: mask_eq_exp_minus_1)
  then show ?thesis using and_not_mask_unat [of x 3] by (simp add: minus_mod_eq_div_mult)
qed

text \<open>The granted size is the requested one rounded up to the alignment, and nothing wraps.\<close>

lemma normalize_thread_stack_size_exact:
  assumes "normalize_thread_stack_size minimum requested = Some granted"
  shows "unat granted mod 8 = 0 \<and> unat granted < unat (if requested = 0 then 4096 else requested) + 8 \<and>
    unat (if requested = 0 then 4096 else requested) \<le> unat granted \<and> minimum \<le> granted"
proof -
  define n where "n = (if requested = 0 then 4096 else requested)"
  have n: "minimum \<le> n" "n \<le> - 8" "granted = (n + 7) AND NOT 7"
    using assms by (auto simp: normalize_thread_stack_size_def n_def RUNTIME_STD_THREAD_STACK_SIZE_def
      STACK_ALIGNMENT_def Let_def not_less split: if_splits)
  have "unat (- 8 :: u32) = 4294967288" by simp
  then have "unat n \<le> 4294967288" using n(2) by (simp add: word_le_nat_alt)
  then have "unat (n + 7) = unat n + 7" by (simp add: unat_add_no_wrap)
  then have g: "unat granted = (unat n + 7) div 8 * 8" by (simp add: n(3) and_not_mask)
  then have "unat n \<le> unat granted" "unat granted < unat n + 8" "unat granted mod 8 = 0" by presburger+
  moreover from this have "minimum \<le> granted" using n(1) by (simp add: word_le_nat_alt)
  ultimately show ?thesis unfolding n_def by blast
qed

section \<open>Names\<close>

definition toupper :: "char \<Rightarrow> char" where
  "toupper c = (if CHR ''a'' \<le> c \<and> c \<le> CHR ''z'' then char_of (of_char c - 32 :: nat) else c)"

text \<open>The loop: what has been written, the room that is left, and whether the next letter is a capital.\<close>

fun snake_loop :: "string \<Rightarrow> nat \<Rightarrow> bool \<Rightarrow> string \<Rightarrow> string option" where
  "snake_loop [] capacity capitalize_next written = Some written"
| "snake_loop (c # input) capacity capitalize_next written =
     (if c = CHR ''_'' then snake_loop input capacity (written \<noteq> []) written
      else if length written = capacity then None
      else snake_loop input capacity False (written @ [if capitalize_next then toupper c else c]))"

definition snake_to_camel :: "string \<Rightarrow> nat \<Rightarrow> string option" where
  "snake_to_camel input capacity = snake_loop input capacity True []"

fun decimal :: "nat \<Rightarrow> string" where
  "decimal n = (if n < 10 then [char_of (48 + n)] else decimal (n div 10) @ [char_of (48 + n mod 10)])"

declare decimal.simps [simp del]

text \<open>\<open>snprintf\<close> into the 32-byte name: at most 31 characters.\<close>

definition thread_name :: "string \<Rightarrow> u32 \<Rightarrow> string" where
  "thread_name name number =
     take 31 (if name = [] then ''std::thread '' @ decimal (unat number)
              else (case snake_to_camel name 32 of Some converted \<Rightarrow> converted | None \<Rightarrow> ''Unknown'') @ '' Thread'')"

text \<open>What the loop computes, word by word.\<close>

fun camel_words :: "bool \<Rightarrow> string \<Rightarrow> string" where
  "camel_words capital [] = []"
| "camel_words capital (c # s) =
     (if c = CHR ''_'' then camel_words True s else (if capital then toupper c else c) # camel_words False s)"

lemma toupper_underscore [simp]: "toupper c = CHR ''_'' \<longleftrightarrow> c = CHR ''_''"
proof (cases "CHR ''a'' \<le> c \<and> c \<le> CHR ''z''")
  case True
  then have "97 \<le> (of_char c :: nat)" "(of_char c :: nat) \<le> 122" by (simp_all add: less_eq_char_def)
  then have "(of_char (toupper c) :: nat) \<noteq> 95" using True by (simp add: toupper_def of_char_of)
  then have "toupper c \<noteq> CHR ''_''" by auto
  moreover have "c \<noteq> CHR ''_''" using True by (auto simp: less_eq_char_def)
  ultimately show ?thesis by simp
next
  case False
  then show ?thesis by (auto simp: toupper_def)
qed

lemma toupper_underscore' [simp]: "CHR ''_'' = toupper c \<longleftrightarrow> c = CHR ''_''"
  by (metis toupper_underscore)

lemma snake_loop_words:
  "written \<noteq> [] \<Longrightarrow> length written \<le> capacity \<Longrightarrow> snake_loop input capacity capital written =
    (if length written + length (camel_words capital input) \<le> capacity
     then Some (written @ camel_words capital input) else None)"
  by (induction input capacity capital written rule: snake_loop.induct) auto

lemma snake_to_camel_words:
  assumes "name \<noteq> []" "hd name \<noteq> CHR ''_''"
  shows "snake_to_camel name capacity =
    (if length (camel_words True name) \<le> capacity then Some (camel_words True name) else None)"
  using assms by (cases name) (auto simp: snake_to_camel_def snake_loop_words)

lemma camel_words_no_underscore: "c \<in> set (camel_words capital input) \<Longrightarrow> c \<noteq> CHR ''_''"
  by (induction capital input rule: camel_words.induct) (auto split: if_splits)

end
