(* ===== verification/Runtime_Waits.thy ===== *)
theory Runtime_Waits
  imports Runtime_Clock
begin

text \<open>
  Waits against an absolute deadline in \<^verbatim>\<open>platform/runtime/libstdcxx/backend.cpp\<close>. The clock and the
  ThreadX call that waits are arguments; both act on a state that stands for everything that may
  happen meanwhile. A wait that is repeated for ever is \<open>None\<close>.
\<close>

section \<open>Deadlines\<close>

record TimePoint =
  tv_sec :: int
  tv_nsec :: int

definition timespec_to_nanoseconds :: "TimePoint \<Rightarrow> int" where
  "timespec_to_nanoseconds time =
     (if tv_sec time \<ge> int64_max div 1000000000 then int64_max
      else if tv_sec time < 0 then - 1
      else tv_sec time * 1000000000 + min (max (tv_nsec time) 0) 999999999)"

text \<open>The result of every branch is a value of the 64-bit type.\<close>

lemma timespec_to_nanoseconds_bounds:
  "- 1 \<le> timespec_to_nanoseconds time \<and> timespec_to_nanoseconds time \<le> int64_max"
  by (simp add: timespec_to_nanoseconds_def int64_max_def) linarith

definition deadline_wait_ticks :: "('s \<Rightarrow> int \<times> 's) \<Rightarrow> TimePoint option \<Rightarrow> 's \<Rightarrow> u32 \<times> 's" where
  "deadline_wait_ticks clock deadline s =
     (case deadline of
        None \<Rightarrow> (TX_NO_WAIT, s)
      | Some d \<Rightarrow>
          (let deadline_ns = timespec_to_nanoseconds d; (now_ns, s) = clock s
           in if deadline_ns \<le> now_ns then (TX_NO_WAIT, s)
              else (min (duration_to_ticks (word_of_int (deadline_ns - now_ns))) MAX_FINITE_WAIT, s)))"

lemma duration_to_ticks_zero: "duration_to_ticks ns = TX_NO_WAIT \<longleftrightarrow> ns = 0"
proof (cases "ns = 0")
  case True
  then show ?thesis by (simp add: duration_to_ticks_def)
next
  case False
  then have "0 < unat ns" by (simp add: unat_gt_0)
  then have "0 < unat (duration_to_ticks ns)"
    by (simp add: duration_to_ticks_exact covering_ticks_def div_greater_zero_iff)
  then have "duration_to_ticks ns \<noteq> TX_NO_WAIT" by (auto simp: time_constants)
  then show ?thesis using False by simp
qed

section \<open>The loop\<close>

definition try_once :: "(u32 \<Rightarrow> 's \<Rightarrow> tx_status \<times> 's) \<Rightarrow> 's \<Rightarrow> errno option \<times> 's" where
  "try_once wait s =
     (let (status, s) = wait TX_NO_WAIT s in (if status = TX_SUCCESS then None else Some ETIMEDOUT, s))"

partial_function (option) wait_until ::
  "('s \<Rightarrow> int \<times> 's) \<Rightarrow> (u32 \<Rightarrow> 's \<Rightarrow> tx_status \<times> 's) \<Rightarrow> TimePoint option \<Rightarrow> 's \<Rightarrow> (errno option \<times> 's) option" where
  "wait_until clock wait deadline s =
     (let (wait_ticks, s) = deadline_wait_ticks clock deadline s
      in if wait_ticks = TX_NO_WAIT then Some (try_once wait s)
         else
           (let (status, s) = wait wait_ticks s
            in if status = TX_SUCCESS then Some (None, s)
               else if status \<noteq> TX_NO_INSTANCE \<and> status \<noteq> TX_NOT_AVAILABLE then Some (Some EINVAL, s)
               else wait_until clock wait deadline s))"

text \<open>A timeout is reported only after a clock reading at or past the deadline and a last attempt.\<close>

definition justified :: "('s \<Rightarrow> int \<times> 's) \<Rightarrow> (u32 \<Rightarrow> 's \<Rightarrow> tx_status \<times> 's) \<Rightarrow> TimePoint option \<Rightarrow> errno option \<times> 's \<Rightarrow> bool" where
  "justified clock wait deadline y \<longleftrightarrow>
     (fst y = Some ETIMEDOUT \<longrightarrow> (\<forall>d. deadline = Some d \<longrightarrow>
        (\<exists>t status. timespec_to_nanoseconds d \<le> fst (clock t) \<and>
          wait TX_NO_WAIT (snd (clock t)) = (status, snd y) \<and> status \<noteq> TX_SUCCESS)))"

lemma remaining_time:
  assumes "0 \<le> now" "now < timespec_to_nanoseconds d"
  shows "min (duration_to_ticks (word_of_int (timespec_to_nanoseconds d - now))) MAX_FINITE_WAIT \<noteq> TX_NO_WAIT"
proof -
  define r where "r = timespec_to_nanoseconds d - now"
  have "0 < r" "r < 2 ^ 64" using assms timespec_to_nanoseconds_bounds [of d] by (simp_all add: int64_max_def r_def)
  then have "uint (word_of_int r :: u64) = r" by (simp add: uint_word_of_int_eq take_bit_int_eq_self)
  then have "(word_of_int r :: u64) \<noteq> 0" using \<open>0 < r\<close> by (metis less_irrefl uint_0_eq)
  then have "duration_to_ticks (word_of_int r) \<noteq> TX_NO_WAIT" by (simp add: duration_to_ticks_zero)
  then show ?thesis by (simp add: min_def time_constants flip: r_def)
qed

lemma deadline_wait_none:
  assumes "deadline_wait_ticks clock (Some d) s = (n, t)" "0 \<le> fst (clock s)"
  shows "t = snd (clock s) \<and> (n = TX_NO_WAIT \<longleftrightarrow> timespec_to_nanoseconds d \<le> fst (clock s))"
proof (cases "fst (clock s) < timespec_to_nanoseconds d")
  case True
  then show ?thesis using assms(1) remaining_time [OF assms(2) True]
    by (auto simp: deadline_wait_ticks_def case_prod_beta Let_def)
next
  case False
  then show ?thesis using assms(1) by (auto simp: deadline_wait_ticks_def case_prod_beta Let_def)
qed

lemma wait_until_justified:
  fixes clock :: "'s \<Rightarrow> int \<times> 's" and y :: "errno option \<times> 's"
  assumes major: "wait_until clock wait deadline s = Some y" and positive: "\<forall>s. 0 \<le> fst (clock s)"
  shows "justified clock wait deadline y"
proof -
  define P where "P = (\<lambda>(clock :: 's \<Rightarrow> int \<times> 's) wait deadline (s :: 's) y.
    (\<forall>s. 0 \<le> fst (clock s)) \<longrightarrow> justified clock wait deadline y)"
  have "P clock wait deadline s y"
  proof (rule wait_until.raw_induct [where P = P, OF _ major])
    fix rec and clock :: "'s \<Rightarrow> int \<times> 's" and wait deadline s y
    assume IH: "\<And>clock wait deadline s y. rec clock wait deadline s = Some y \<Longrightarrow> P clock wait deadline s y"
      and step: "(let (wait_ticks, s) = deadline_wait_ticks clock deadline s
        in if wait_ticks = TX_NO_WAIT then Some (try_once wait s)
           else (let (status, s) = wait wait_ticks s
             in if status = TX_SUCCESS then Some (None, s)
                else if status \<noteq> TX_NO_INSTANCE \<and> status \<noteq> TX_NOT_AVAILABLE then Some (Some EINVAL, s)
                else rec clock wait deadline s)) = Some y"
    obtain n t where n: "deadline_wait_ticks clock deadline s = (n, t)" by fastforce
    obtain status u where w: "wait n t = (status, u)" by fastforce
    show "P clock wait deadline s y"
      unfolding P_def
    proof
      assume positive: "\<forall>s. 0 \<le> fst (clock s)"
      show "justified clock wait deadline y"
      proof (cases "n = TX_NO_WAIT")
        case True
        then have y: "y = try_once wait t" using step n by simp
        have "timespec_to_nanoseconds d \<le> fst (clock s) \<and> t = snd (clock s)" if "deadline = Some d" for d
          using deadline_wait_none [OF n [unfolded that]] positive True by simp
        moreover have wt: "wait TX_NO_WAIT t = (status, u)" using w True by simp
        then have "snd y = u" "fst y = Some ETIMEDOUT \<longrightarrow> status \<noteq> TX_SUCCESS" by (simp_all add: y try_once_def)
        ultimately show ?thesis using wt unfolding justified_def by metis
      next
        case False
        then have "y = (None, u) \<or> y = (Some EINVAL, u) \<or> rec clock wait deadline u = Some y"
          using step n w by (auto split: if_splits)
        then show ?thesis using IH [of clock wait deadline u y] positive by (auto simp: justified_def P_def)
      qed
    qed
  qed
  then show ?thesis using positive by (simp add: P_def)
qed

text \<open>If every failing wait moves the clock, the loop ends.\<close>

definition waits_progress :: "('s \<Rightarrow> int \<times> 's) \<Rightarrow> (u32 \<Rightarrow> 's \<Rightarrow> tx_status \<times> 's) \<Rightarrow> bool" where
  "waits_progress clock wait \<longleftrightarrow>
     (\<forall>s n status t. n \<noteq> TX_NO_WAIT \<longrightarrow> wait n (snd (clock s)) = (status, t) \<longrightarrow>
        status = TX_NO_INSTANCE \<or> status = TX_NOT_AVAILABLE \<longrightarrow> fst (clock s) < int64_max \<longrightarrow>
        fst (clock s) < fst (clock t))"

lemma wait_until_returns:
  assumes "waits_progress clock wait" "\<forall>s. 0 \<le> fst (clock s)"
  shows "\<exists>y. wait_until clock wait deadline s = Some y"
proof (cases deadline)
  case None
  then show ?thesis by (subst wait_until.simps) (simp add: deadline_wait_ticks_def)
next
  case (Some d)
  show ?thesis
  proof (induction "nat (timespec_to_nanoseconds d - fst (clock s))" arbitrary: s rule: less_induct)
    case less
    obtain n t where n: "deadline_wait_ticks clock deadline s = (n, t)" by fastforce
    obtain status u where w: "wait n t = (status, u)" by fastforce
    note first = deadline_wait_none [OF n [unfolded Some] spec [OF assms(2)]]
    show ?case
    proof (cases "n = TX_NO_WAIT \<or> status \<noteq> TX_NO_INSTANCE \<and> status \<noteq> TX_NOT_AVAILABLE")
      case True
      then show ?thesis using n w by (subst wait_until.simps) auto
    next
      case False
      then have "fst (clock s) < timespec_to_nanoseconds d" using first by simp
      moreover from this have "fst (clock s) < int64_max" using timespec_to_nanoseconds_bounds [of d] by simp
      then have "fst (clock s) < fst (clock u)"
        using assms(1) False w first unfolding waits_progress_def by blast
      ultimately obtain y where "wait_until clock wait deadline u = Some y" using less [of u] by auto
      then show ?thesis using False n w by (subst wait_until.simps) auto
    qed
  qed
qed

end
