(* ===== verification/Runtime_Locks.thy ===== *)
theory Runtime_Locks
  imports Runtime_Context Runtime_Waits
begin

text \<open>
  Mutexes and semaphores in \<^verbatim>\<open>platform/runtime/libstdcxx/backend.cpp\<close>: the ThreadX object behind a
  handle is made at the first use, and every answer of ThreadX becomes an errno value. ThreadX and
  the allocator are the record \<open>kernel\<close>, as seen by the calling thread; a handle is the address of its
  implementation, \<open>None\<close> when null. \<open>raw_mutex_get\<close> and \<open>raw_mutex_put\<close> of the initialisation mutex,
  which end the program when they fail, are left out.
\<close>

section \<open>ThreadX\<close>

type_synonym 'k call = "nat \<Rightarrow> 'k \<Rightarrow> tx_status \<times> 'k"

record 'k kernel =
  tx_mutex_create :: "'k call"
  tx_mutex_delete :: "'k call"
  tx_mutex_get :: "u32 \<Rightarrow> 'k call"
  tx_mutex_put :: "'k call"
  tx_mutex_owner :: "nat \<Rightarrow> 'k \<Rightarrow> nat option"
  tx_semaphore_create :: "u32 \<Rightarrow> 'k call"
  tx_semaphore_delete :: "'k call"
  tx_semaphore_get :: "u32 \<Rightarrow> 'k call"
  tx_semaphore_put :: "'k call"
  allocate :: "'k \<Rightarrow> nat option \<times> 'k"
  release :: "nat \<Rightarrow> 'k \<Rightarrow> 'k"

section \<open>Handles\<close>

text \<open>\<open>ensure_mutex\<close> and \<open>ensure_semaphore\<close> differ in the object they create.\<close>

definition ensure_object ::
  "'k kernel \<Rightarrow> 'k call \<Rightarrow> caller \<Rightarrow> bool \<Rightarrow> nat option \<Rightarrow> 'k \<Rightarrow> nat option \<times> nat option \<times> 'k" where
  "ensure_object api create c given handle k =
     (if \<not> given \<or> require_thread_context c \<noteq> None then (None, handle, k)
      else
        (case handle of
           Some m \<Rightarrow> (Some m, handle, k)
         | None \<Rightarrow>
             (case allocate api k of
                (None, k) \<Rightarrow> (None, handle, k)
              | (Some m, k) \<Rightarrow>
                  (let (status, k) = create m k
                   in if status = TX_SUCCESS then (Some m, Some m, k) else (None, handle, release api m k)))))"

abbreviation ensure_mutex :: "'k kernel \<Rightarrow> caller \<Rightarrow> bool \<Rightarrow> nat option \<Rightarrow> 'k \<Rightarrow> nat option \<times> nat option \<times> 'k" where
  "ensure_mutex api \<equiv> ensure_object api (tx_mutex_create api)"

definition ensure_semaphore ::
  "'k kernel \<Rightarrow> caller \<Rightarrow> bool \<Rightarrow> u32 \<Rightarrow> nat option \<Rightarrow> 'k \<Rightarrow> nat option \<times> nat option \<times> 'k" where
  "ensure_semaphore api c given initial_count = ensure_object api (tx_semaphore_create api initial_count) c given"

text \<open>A condition has a ThreadX mutex and no waiters; it is made in the same way.\<close>

definition ensure_condition :: "'k kernel \<Rightarrow> caller \<Rightarrow> bool \<Rightarrow> nat option \<Rightarrow> 'k \<Rightarrow> nat option \<times> nat option \<times> 'k" where
  "ensure_condition api = ensure_object api (tx_mutex_create api)"

text \<open>\<open>mutex_init\<close>, \<open>recursive_mutex_init\<close> and \<open>condition_init\<close>: nothing is made yet.\<close>

definition handle_init :: "bool \<Rightarrow> nat option \<Rightarrow> nat option" where
  "handle_init given handle = (if given then None else handle)"

definition semaphore_init :: "bool \<Rightarrow> u32 \<Rightarrow> nat option \<times> u32 \<Rightarrow> errno option \<times> nat option \<times> u32" where
  "semaphore_init given value handle =
     (if \<not> given then (Some EINVAL, handle) else (None, None, value))"

definition destroy_mutex :: "'k kernel \<Rightarrow> bool \<Rightarrow> nat option \<Rightarrow> 'k \<Rightarrow> errno option \<times> nat option \<times> 'k" where
  "destroy_mutex api given handle k =
     (if \<not> given then (Some EINVAL, handle, k)
      else
        (case handle of
           None \<Rightarrow> (None, None, k)
         | Some m \<Rightarrow>
             (let (status, k) = tx_mutex_delete api m k
              in if status \<noteq> TX_SUCCESS then (Some (if status = TX_DELETE_ERROR then EBUSY else EINVAL), handle, k)
                 else (None, None, release api m k))))"

section \<open>Mutexes\<close>

definition lock_status :: "tx_status \<Rightarrow> errno option" where
  "lock_status status =
     (case status of
        TX_SUCCESS \<Rightarrow> None
      | TX_NOT_AVAILABLE \<Rightarrow> Some EBUSY
      | TX_NO_INSTANCE \<Rightarrow> Some ETIMEDOUT
      | _ \<Rightarrow> Some EINVAL)"

definition lock_mutex ::
  "'k kernel \<Rightarrow> caller \<Rightarrow> bool \<Rightarrow> bool \<Rightarrow> u32 \<Rightarrow> nat option \<Rightarrow> 'k \<Rightarrow> errno option \<times> nat option \<times> 'k" where
  "lock_mutex api c given recursive wait_option handle k =
     (case require_thread_context c of
        Some e \<Rightarrow> (Some e, handle, k)
      | None \<Rightarrow>
          (case ensure_mutex api c given handle k of
             (None, handle, k) \<Rightarrow> (Some ENOMEM, handle, k)
           | (Some m, handle, k) \<Rightarrow>
               if \<not> recursive \<and> tx_mutex_owner api m k = current_thread c
               then (Some (if wait_option = TX_NO_WAIT then EBUSY else EDEADLK), handle, k)
               else (let (status, k) = tx_mutex_get api wait_option m k in (lock_status status, handle, k))))"

definition unlock_mutex :: "'k kernel \<Rightarrow> caller \<Rightarrow> bool \<Rightarrow> nat option \<Rightarrow> 'k \<Rightarrow> errno option \<times> 'k" where
  "unlock_mutex api c given handle k =
     (case require_thread_context c of
        Some e \<Rightarrow> (Some e, k)
      | None \<Rightarrow>
          if \<not> given then (Some EPERM, k)
          else
            (case handle of
               None \<Rightarrow> (Some EPERM, k)
             | Some m \<Rightarrow> (let (status, k) = tx_mutex_put api m k in (if status = TX_SUCCESS then None else Some EPERM, k))))"

definition mutex_lock :: "'k kernel \<Rightarrow> caller \<Rightarrow> bool \<Rightarrow> nat option \<Rightarrow> 'k \<Rightarrow> errno option \<times> nat option \<times> 'k" where
  "mutex_lock api c given = lock_mutex api c given False TX_WAIT_FOREVER"

definition mutex_try_lock :: "'k kernel \<Rightarrow> caller \<Rightarrow> bool \<Rightarrow> nat option \<Rightarrow> 'k \<Rightarrow> errno option \<times> nat option \<times> 'k" where
  "mutex_try_lock api c given = lock_mutex api c given False TX_NO_WAIT"

definition recursive_mutex_lock :: "'k kernel \<Rightarrow> caller \<Rightarrow> bool \<Rightarrow> nat option \<Rightarrow> 'k \<Rightarrow> errno option \<times> nat option \<times> 'k" where
  "recursive_mutex_lock api c given = lock_mutex api c given True TX_WAIT_FOREVER"

definition recursive_mutex_try_lock :: "'k kernel \<Rightarrow> caller \<Rightarrow> bool \<Rightarrow> nat option \<Rightarrow> 'k \<Rightarrow> errno option \<times> nat option \<times> 'k" where
  "recursive_mutex_try_lock api c given = lock_mutex api c given True TX_NO_WAIT"

definition timed_lock ::
  "'k kernel \<Rightarrow> ('k \<Rightarrow> int \<times> 'k) \<Rightarrow> bool \<Rightarrow> caller \<Rightarrow> bool \<Rightarrow> TimePoint option \<Rightarrow> nat option \<Rightarrow> 'k \<Rightarrow>
   (errno option \<times> nat option \<times> 'k) option" where
  "timed_lock api clock recursive c given deadline handle k =
     (case require_thread_context c of
        Some e \<Rightarrow> Some (Some e, handle, k)
      | None \<Rightarrow>
          (case ensure_mutex api c given handle k of
             (None, handle, k) \<Rightarrow> Some (Some ENOMEM, handle, k)
           | (Some m, handle, k) \<Rightarrow>
               if \<not> recursive \<and> tx_mutex_owner api m k = current_thread c then Some (Some EDEADLK, handle, k)
               else map_option (\<lambda>(r, k). (r, handle, k)) (wait_until clock (\<lambda>t. tx_mutex_get api t m) deadline k)))"

definition mutex_timed_lock ::
  "'k kernel \<Rightarrow> ('k \<Rightarrow> int \<times> 'k) \<Rightarrow> caller \<Rightarrow> bool \<Rightarrow> TimePoint option \<Rightarrow> nat option \<Rightarrow> 'k \<Rightarrow>
   (errno option \<times> nat option \<times> 'k) option" where
  "mutex_timed_lock api clock = timed_lock api clock False"

definition recursive_mutex_timed_lock ::
  "'k kernel \<Rightarrow> ('k \<Rightarrow> int \<times> 'k) \<Rightarrow> caller \<Rightarrow> bool \<Rightarrow> TimePoint option \<Rightarrow> nat option \<Rightarrow> 'k \<Rightarrow>
   (errno option \<times> nat option \<times> 'k) option" where
  "recursive_mutex_timed_lock api clock = timed_lock api clock True"

section \<open>Semaphores\<close>

definition semaphore_call ::
  "'k kernel \<Rightarrow> caller \<Rightarrow> bool \<Rightarrow> u32 \<Rightarrow> 'k call \<Rightarrow> errno \<Rightarrow> nat option \<Rightarrow> 'k \<Rightarrow> errno option \<times> nat option \<times> 'k" where
  "semaphore_call api c given initial_count call failure handle k =
     (case require_thread_context c of
        Some e \<Rightarrow> (Some e, handle, k)
      | None \<Rightarrow>
          (case ensure_semaphore api c given initial_count handle k of
             (None, handle, k) \<Rightarrow> (Some ENOMEM, handle, k)
           | (Some m, handle, k) \<Rightarrow>
               (let (status, k) = call m k in (if status = TX_SUCCESS then None else Some failure, handle, k))))"

definition semaphore_wait :: "'k kernel \<Rightarrow> caller \<Rightarrow> bool \<Rightarrow> u32 \<Rightarrow> nat option \<Rightarrow> 'k \<Rightarrow> errno option \<times> nat option \<times> 'k" where
  "semaphore_wait api c given n = semaphore_call api c given n (tx_semaphore_get api TX_WAIT_FOREVER) EINVAL"

definition semaphore_try_wait :: "'k kernel \<Rightarrow> caller \<Rightarrow> bool \<Rightarrow> u32 \<Rightarrow> nat option \<Rightarrow> 'k \<Rightarrow> errno option \<times> nat option \<times> 'k" where
  "semaphore_try_wait api c given n = semaphore_call api c given n (tx_semaphore_get api TX_NO_WAIT) EAGAIN"

definition semaphore_post :: "'k kernel \<Rightarrow> caller \<Rightarrow> bool \<Rightarrow> u32 \<Rightarrow> nat option \<Rightarrow> 'k \<Rightarrow> errno option \<times> nat option \<times> 'k" where
  "semaphore_post api c given n = semaphore_call api c given n (tx_semaphore_put api) EOVERFLOW"

definition semaphore_timed_wait ::
  "'k kernel \<Rightarrow> ('k \<Rightarrow> int \<times> 'k) \<Rightarrow> caller \<Rightarrow> bool \<Rightarrow> u32 \<Rightarrow> TimePoint option \<Rightarrow> nat option \<Rightarrow> 'k \<Rightarrow>
   (errno option \<times> nat option \<times> 'k) option" where
  "semaphore_timed_wait api clock c given initial_count deadline handle k =
     (case require_thread_context c of
        Some e \<Rightarrow> Some (Some e, handle, k)
      | None \<Rightarrow>
          (case ensure_semaphore api c given initial_count handle k of
             (None, handle, k) \<Rightarrow> Some (Some ENOMEM, handle, k)
           | (Some m, handle, k) \<Rightarrow>
               map_option (\<lambda>(r, k). (r, handle, k)) (wait_until clock (\<lambda>t. tx_semaphore_get api t m) deadline k)))"

definition semaphore_destroy :: "'k kernel \<Rightarrow> bool \<Rightarrow> nat option \<Rightarrow> 'k \<Rightarrow> errno option \<times> nat option \<times> 'k" where
  "semaphore_destroy api given handle k =
     (if \<not> given then (Some EINVAL, handle, k)
      else
        (case handle of
           None \<Rightarrow> (None, None, k)
         | Some m \<Rightarrow>
             (let (status, k) = tx_semaphore_delete api m k
              in if status \<noteq> TX_SUCCESS then (Some EBUSY, handle, k) else (None, None, release api m k))))"

section \<open>What ThreadX mutexes promise\<close>

text \<open>
  \<open>holds m k\<close> is the owner of a mutex and how often it owns it; \<open>me\<close> is the calling thread. These are
  the documented outcomes of the calls on a created mutex that can be decided without waiting.
\<close>

definition mutex_laws :: "'k kernel \<Rightarrow> nat \<Rightarrow> (nat \<Rightarrow> 'k \<Rightarrow> (nat \<times> nat) option) \<Rightarrow> bool" where
  "mutex_laws api me holds \<longleftrightarrow>
     (\<forall>m k. tx_mutex_owner api m k = map_option fst (holds m k)) \<and>
     (\<forall>m k w. holds m k = None \<longrightarrow> (\<exists>k'. tx_mutex_get api w m k = (TX_SUCCESS, k') \<and> holds m k' = Some (me, 1))) \<and>
     (\<forall>m k w n. holds m k = Some (me, n) \<longrightarrow> (\<exists>k'. tx_mutex_get api w m k = (TX_SUCCESS, k') \<and> holds m k' = Some (me, n + 1))) \<and>
     (\<forall>m k t n. holds m k = Some (t, n) \<longrightarrow> t \<noteq> me \<longrightarrow> tx_mutex_get api TX_NO_WAIT m k = (TX_NOT_AVAILABLE, k)) \<and>
     (\<forall>m k n. holds m k = Some (me, n) \<longrightarrow>
        (\<exists>k'. tx_mutex_put api m k = (TX_SUCCESS, k') \<and> holds m k' = (if n \<le> 1 then None else Some (me, n - 1)))) \<and>
     (\<forall>m k. (\<forall>n. holds m k \<noteq> Some (me, n)) \<longrightarrow> (\<exists>s. s \<noteq> TX_SUCCESS \<and> tx_mutex_put api m k = (s, k)))"

lemma ensure_existing:
  "in_thread_context c \<Longrightarrow> ensure_object api create c True (Some m) k = (Some m, Some m, k)"
  by (simp add: ensure_object_def require_thread_context_ok [symmetric])

lemma lock_mutex_existing:
  assumes "in_thread_context c"
  shows "lock_mutex api c True recursive w (Some m) k =
    (if \<not> recursive \<and> tx_mutex_owner api m k = current_thread c
     then (Some (if w = TX_NO_WAIT then EBUSY else EDEADLK), Some m, k)
     else (lock_status (fst (tx_mutex_get api w m k)), Some m, snd (tx_mutex_get api w m k)))"
  using assms by (simp add: lock_mutex_def ensure_existing case_prod_beta Let_def flip: require_thread_context_ok)

lemma unlock_mutex_existing:
  assumes "in_thread_context c"
  shows "unlock_mutex api c True (Some m) k =
    (if fst (tx_mutex_put api m k) = TX_SUCCESS then None else Some EPERM, snd (tx_mutex_put api m k))"
  using assms by (simp add: unlock_mutex_def case_prod_beta Let_def flip: require_thread_context_ok)

lemma mutex_outcomes:
  assumes "mutex_laws api me holds" "in_thread_context c" "current_thread c = Some me"
  shows "case holds m k of
      None \<Rightarrow>
        (\<exists>k' k''. mutex_try_lock api c True (Some m) k = (None, Some m, k') \<and> holds m k' = Some (me, 1) \<and>
          unlock_mutex api c True (Some m) k' = (None, k'') \<and> holds m k'' = None) \<and>
        unlock_mutex api c True (Some m) k = (Some EPERM, k)
    | Some (t, n) \<Rightarrow>
        if t = me
        then mutex_try_lock api c True (Some m) k = (Some EBUSY, Some m, k) \<and>
          mutex_lock api c True (Some m) k = (Some EDEADLK, Some m, k) \<and>
          (\<exists>k'. recursive_mutex_lock api c True (Some m) k = (None, Some m, k') \<and> holds m k' = Some (me, n + 1))
        else mutex_try_lock api c True (Some m) k = (Some EBUSY, Some m, k) \<and>
          unlock_mutex api c True (Some m) k = (Some EPERM, k)"
proof -
  note lock = lock_mutex_existing [OF assms(2)] and unlock = unlock_mutex_existing [OF assms(2)]
  note defs = mutex_try_lock_def mutex_lock_def recursive_mutex_lock_def lock unlock
  have owner: "tx_mutex_owner api m k = map_option fst (holds m k)" for m k using assms(1) by (simp add: mutex_laws_def)
  have not_mine: "\<exists>s. s \<noteq> TX_SUCCESS \<and> tx_mutex_put api m k = (s, k)" if "\<forall>n. holds m k \<noteq> Some (me, n)" for m k
    using assms(1) that by (simp add: mutex_laws_def)
  show ?thesis
  proof (cases "holds m k")
    case None
    obtain k' where k': "tx_mutex_get api TX_NO_WAIT m k = (TX_SUCCESS, k')" "holds m k' = Some (me, 1)"
      using assms(1) None unfolding mutex_laws_def by blast
    obtain k'' where k'': "tx_mutex_put api m k' = (TX_SUCCESS, k'')" "holds m k'' = None"
      using assms(1) k'(2) unfolding mutex_laws_def by (metis le_refl)
    obtain s where "s \<noteq> TX_SUCCESS" "tx_mutex_put api m k = (s, k)" using not_mine [of m k] None by auto
    then show ?thesis using None k' k'' owner assms(3) by (simp add: defs lock_status_def)
  next
    case (Some h)
    obtain t n where h: "h = (t, n)" by fastforce
    show ?thesis
    proof (cases "t = me")
      case True
      obtain k' where "tx_mutex_get api TX_WAIT_FOREVER m k = (TX_SUCCESS, k')" "holds m k' = Some (me, n + 1)"
        using assms(1) Some h True unfolding mutex_laws_def by blast
      then show ?thesis using Some h True owner assms(3) by (simp add: defs lock_status_def time_constants)
    next
      case False
      then have "tx_mutex_get api TX_NO_WAIT m k = (TX_NOT_AVAILABLE, k)"
        using assms(1) Some h unfolding mutex_laws_def by blast
      moreover obtain s where "s \<noteq> TX_SUCCESS" "tx_mutex_put api m k = (s, k)"
        using not_mine [of m k] Some h False by auto
      ultimately show ?thesis using Some h False owner assms(3) by (simp add: defs lock_status_def)
    qed
  qed
qed

text \<open>An object is made once, and a failing creation gives its memory back.\<close>

lemma ensure_object_outcome:
  "ensure_object api create c given handle k = (r, handle', k') \<Longrightarrow>
    r \<noteq> None \<longrightarrow> handle' = r \<and> (handle \<noteq> None \<longrightarrow> r = handle \<and> k' = k)"
  by (auto simp: ensure_object_def Let_def split: if_splits option.splits prod.splits)

end
