(* ===== verification/Runtime_Keys.thy ===== *)
theory Runtime_Keys
  imports Runtime_Context
begin

text \<open>
  Thread-specific storage in \<^verbatim>\<open>platform/runtime/libstdcxx/backend.cpp\<close>: the table of keys, the values
  each ThreadX thread carries, the destructors run at thread exit, and the hooks ThreadX calls when
  it creates, starts and ends a thread. A pointer is \<open>None\<close> when null.
\<close>

section \<open>Handles\<close>

definition RUNTIME_THREAD_KEY_COUNT :: nat where "RUNTIME_THREAD_KEY_COUNT = 16"
definition KEY_INDEX_MASK :: u32 where "KEY_INDEX_MASK = push_bit 8 1 - 1"
definition KEY_GENERATION_MASK :: u32 where "KEY_GENERATION_MASK = NOT KEY_INDEX_MASK"

definition make_key :: "nat \<Rightarrow> u32 \<Rightarrow> u32" where
  "make_key index generation = push_bit 8 generation OR of_nat index"

definition key_index :: "u32 \<Rightarrow> nat" where
  "key_index key = unat (key AND KEY_INDEX_MASK)"

definition key_generation :: "u32 \<Rightarrow> u32" where
  "key_generation key = drop_bit 8 key"

lemma KEY_INDEX_MASK_eq: "KEY_INDEX_MASK = mask 8"
  by (simp add: KEY_INDEX_MASK_def mask_eq_exp_minus_1)

lemma key_index_less: "key_index key < 256"
proof -
  have "unat (take_bit 8 key) = unat key mod 256" by (simp only: unsigned_take_bit_eq) (simp add: take_bit_eq_mod)
  then show ?thesis by (simp add: key_index_def KEY_INDEX_MASK_eq flip: take_bit_eq_mask)
qed

lemma make_key_parts:
  assumes "index < 256" "generation < push_bit 24 1"
  shows "key_index (make_key index generation) = index" "key_generation (make_key index generation) = generation"
proof -
  have low: "bit (of_nat index :: u32) n \<Longrightarrow> n < 8" for n
  proof (rule ccontr)
    assume "bit (of_nat index :: u32) n" "\<not> n < 8"
    then have "bit index n" by (simp add: bit_of_nat_iff)
    then have "odd (index div 2 ^ n)" by (simp add: bit_iff_odd)
    then have "index div 2 ^ n \<noteq> 0" by (metis even_zero)
    moreover have "(2 :: nat) ^ 8 \<le> 2 ^ n" using \<open>\<not> n < 8\<close> by (intro power_increasing) auto
    ultimately show False using assms(1) by simp
  qed
  have "unat generation < 2 ^ 24" using assms(2) by (simp add: word_less_nat_alt push_bit_eq_mult)
  then have "unat (take_bit 24 generation) = unat generation" by (simp only: unsigned_take_bit_eq take_bit_nat_eq_self)
  then have *: "generation = take_bit 24 generation" by (simp only: word_unat_eq_iff)
  have high: "bit generation n \<Longrightarrow> n < 24" for n
    by (subst (asm) *) (simp add: bit_take_bit_iff)
  have "make_key index generation AND KEY_INDEX_MASK = of_nat index"
    unfolding KEY_INDEX_MASK_eq make_key_def
    using low by (auto intro!: bit_word_eqI simp: bit_and_iff bit_or_iff bit_mask_iff bit_push_bit_iff)
  then show "key_index (make_key index generation) = index"
    using assms(1) by (simp add: key_index_def unat_of_nat)
  show "key_generation (make_key index generation) = generation"
    unfolding key_generation_def make_key_def
    using low high by (fastforce intro!: bit_word_eqI simp: bit_or_iff bit_push_bit_iff bit_drop_bit_eq)
qed

section \<open>The table\<close>

record KeyDefinition =
  destructor :: "nat option"
  generation :: u32
  allocated :: bool

record tls =
  tls_values :: "nat option list"
  tls_generations :: "u32 list"

text \<open>A handle is usable when its slot is in range, allocated and of the same generation.\<close>

definition key_in_range :: "u32 \<Rightarrow> bool" where
  "key_in_range key \<longleftrightarrow> key_index key < RUNTIME_THREAD_KEY_COUNT \<and> key_generation key \<noteq> 0"

definition key_live :: "KeyDefinition list \<Rightarrow> u32 \<Rightarrow> bool" where
  "key_live keys key \<longleftrightarrow>
     allocated (keys ! key_index key) \<and> generation (keys ! key_index key) = key_generation key"

text \<open>The first slot that is not allocated, from an index on.\<close>

fun free_slot :: "KeyDefinition list \<Rightarrow> nat \<Rightarrow> nat option" where
  "free_slot [] index = None"
| "free_slot (k # keys) index = (if \<not> allocated k then Some index else free_slot keys (index + 1))"

definition next_generation :: "u32 \<Rightarrow> u32" where
  "next_generation g =
     (let g' = (g + 1) AND drop_bit 8 KEY_GENERATION_MASK in if g' = 0 then g' + 1 else g')"

definition key_create :: "caller \<Rightarrow> bool \<Rightarrow> nat option \<Rightarrow> KeyDefinition list \<Rightarrow> (errno + u32) \<times> KeyDefinition list" where
  "key_create c key_given d keys =
     (case require_thread_context c of
        Some e \<Rightarrow> (Inl e, keys)
      | None \<Rightarrow>
          if \<not> key_given then (Inl EINVAL, keys)
          else
            (case free_slot keys 0 of
               None \<Rightarrow> (Inl EAGAIN, keys)
             | Some index \<Rightarrow>
                 (let g = next_generation (generation (keys ! index))
                  in (Inr (make_key index g), keys[index := \<lparr>destructor = d, generation = g, allocated = True\<rparr>]))))"

definition key_delete :: "caller \<Rightarrow> u32 \<Rightarrow> KeyDefinition list \<Rightarrow> errno option \<times> KeyDefinition list" where
  "key_delete c key keys =
     (case require_thread_context c of
        Some e \<Rightarrow> (Some e, keys)
      | None \<Rightarrow>
          if \<not> key_in_range key \<or> \<not> key_live keys key then (Some EINVAL, keys)
          else (None, keys[key_index key := (keys ! key_index key)\<lparr>allocated := False, destructor := None\<rparr>]))"

definition key_get :: "caller \<Rightarrow> KeyDefinition list \<Rightarrow> u32 \<Rightarrow> tls \<Rightarrow> nat option" where
  "key_get c keys key t =
     (if require_thread_context c \<noteq> None \<or> \<not> key_in_range key then None
      else if \<not> key_live keys key \<or> tls_generations t ! key_index key \<noteq> key_generation key then None
      else tls_values t ! key_index key)"

definition key_set :: "caller \<Rightarrow> KeyDefinition list \<Rightarrow> u32 \<Rightarrow> nat option \<Rightarrow> tls \<Rightarrow> errno option \<times> tls" where
  "key_set c keys key value t =
     (case require_thread_context c of
        Some e \<Rightarrow> (Some e, t)
      | None \<Rightarrow>
          if \<not> key_in_range key \<or> \<not> key_live keys key then (Some EINVAL, t)
          else (None, t\<lparr>tls_generations := (tls_generations t)[key_index key := key_generation key],
                 tls_values := (tls_values t)[key_index key := value]\<rparr>))"

section \<open>Handles do not outlive their key\<close>

definition keys_ok :: "KeyDefinition list \<Rightarrow> bool" where
  "keys_ok keys \<longleftrightarrow> length keys = RUNTIME_THREAD_KEY_COUNT \<and>
     (\<forall>k \<in> set keys. generation k < push_bit 24 1 \<and> (allocated k \<longrightarrow> generation k \<noteq> 0))"

definition initial_keys :: "KeyDefinition list" where
  "initial_keys = replicate RUNTIME_THREAD_KEY_COUNT \<lparr>destructor = None, generation = 0, allocated = False\<rparr>"

lemma initial_keys_ok: "keys_ok initial_keys"
  by (simp add: keys_ok_def initial_keys_def)

lemma next_generation_value:
  assumes "g < push_bit 24 1"
  shows "unat (next_generation g) = (if unat g = 16777215 then 1 else unat g + 1)"
proof -
  have g: "unat g < 16777216" using assms by (simp add: word_less_nat_alt push_bit_eq_mult)
  have "drop_bit 8 KEY_GENERATION_MASK = mask 24"
    unfolding KEY_GENERATION_MASK_def KEY_INDEX_MASK_eq
    by (auto intro!: bit_word_eqI simp: bit_drop_bit_eq bit_not_iff bit_mask_iff)
  then have m: "(g + 1) AND drop_bit 8 KEY_GENERATION_MASK = take_bit 24 (g + 1)" by (simp add: take_bit_eq_mask)
  have "unat (take_bit 24 (g + 1)) = (unat g + 1) mod 16777216"
    using g by (simp only: unsigned_take_bit_eq) (simp add: unat_add_no_wrap take_bit_eq_mod)
  then have v: "unat (take_bit 24 (g + 1)) = (if unat g = 16777215 then 0 else unat g + 1)" using g by auto
  show ?thesis
  proof (cases "unat g = 16777215")
    case True
    then have "take_bit 24 (g + 1) = 0" using v by (simp add: unat_eq_zero)
    then show ?thesis using True by (simp add: next_generation_def m Let_def)
  next
    case False
    then have "take_bit 24 (g + 1) \<noteq> 0" using v by (metis Suc_eq_plus1 nat.distinct(1) unat_0)
    then show ?thesis using False v by (simp add: next_generation_def m Let_def)
  qed
qed

lemma next_generation_ok:
  assumes "g < push_bit 24 1"
  shows "next_generation g < push_bit 24 1" "next_generation g \<noteq> 0"
proof -
  have "unat g < 16777216" using assms by (simp add: word_less_nat_alt push_bit_eq_mult)
  then show "next_generation g < push_bit 24 1"
    by (auto simp: word_less_nat_alt push_bit_eq_mult next_generation_value [OF assms])
  have "unat (next_generation g) \<noteq> 0" by (simp add: next_generation_value [OF assms])
  then show "next_generation g \<noteq> 0" by auto
qed

lemma free_slot_some:
  "free_slot keys n = Some i \<Longrightarrow> n \<le> i \<and> i < n + length keys \<and> \<not> allocated (keys ! (i - n)) \<and>
    (\<forall>j < i - n. allocated (keys ! j))"
proof (induction keys n rule: free_slot.induct)
  case (2 k keys index)
  show ?case
  proof (cases "allocated k")
    case True
    then have IH: "index + 1 \<le> i" "i < index + 1 + length keys" "\<not> allocated (keys ! (i - (index + 1)))"
      "\<forall>j < i - (index + 1). allocated (keys ! j)" using 2 by simp_all
    then have "i - index = Suc (i - (index + 1))" by simp
    then show ?thesis using IH True by (auto simp: less_Suc_eq_0_disj)
  next
    case False
    then show ?thesis using 2 by simp
  qed
qed simp

lemma free_slot_none: "free_slot keys n = None \<longleftrightarrow> (\<forall>k \<in> set keys. allocated k)"
  by (induction keys n rule: free_slot.induct) auto

lemma keys_ok_update:
  assumes "keys_ok keys" "generation k < push_bit 24 1" "allocated k \<Longrightarrow> generation k \<noteq> 0"
  shows "keys_ok (keys[i := k])"
proof -
  have "set (keys[i := k]) \<subseteq> insert k (set keys)" by (rule set_update_subset_insert)
  then show ?thesis using assms unfolding keys_ok_def by (metis insert_iff length_list_update subset_iff)
qed

lemma keys_ok_nth: "keys_ok keys \<Longrightarrow> i < 16 \<Longrightarrow> generation (keys ! i) < push_bit 24 1"
  by (simp add: keys_ok_def RUNTIME_THREAD_KEY_COUNT_def)

lemma key_create_ok:
  assumes "keys_ok keys" "key_create c given d keys = (Inr key, keys')"
  shows "keys_ok keys' \<and> key_in_range key \<and> key_live keys' key \<and> \<not> allocated (keys ! key_index key) \<and>
    key_generation key = next_generation (generation (keys ! key_index key)) \<and>
    destructor (keys' ! key_index key) = d \<and> (\<forall>i. i \<noteq> key_index key \<longrightarrow> keys' ! i = keys ! i)"
proof -
  obtain index where i: "free_slot keys 0 = Some index" "key = make_key index (next_generation (generation (keys ! index)))"
    "keys' = keys[index := \<lparr>destructor = d, generation = next_generation (generation (keys ! index)), allocated = True\<rparr>]"
    using assms(2) by (auto simp: key_create_def Let_def split: option.splits if_splits)
  have len: "length keys = 16" using assms(1) by (simp add: keys_ok_def RUNTIME_THREAD_KEY_COUNT_def)
  have slot: "index < 16" "\<not> allocated (keys ! index)" using free_slot_some [OF i(1)] len by auto
  then have g: "generation (keys ! index) < push_bit 24 1" using assms(1) by (intro keys_ok_nth)
  have parts: "key_index key = index" "key_generation key = next_generation (generation (keys ! index))"
    using make_key_parts [of index] slot next_generation_ok [OF g] by (auto simp: i(2))
  have "keys_ok keys'"
    unfolding i(3) using assms(1) next_generation_ok [OF g] by (intro keys_ok_update) auto
  moreover have "key_in_range key" using slot(1) next_generation_ok(2) [OF g]
    by (simp only: key_in_range_def parts RUNTIME_THREAD_KEY_COUNT_def simp_thms)
  moreover have "key_live keys' key" using slot(1) len by (simp add: key_live_def parts i(3))
  moreover have "destructor (keys' ! key_index key) = d" using slot(1) len by (simp add: parts i(3))
  moreover have "\<forall>j. j \<noteq> key_index key \<longrightarrow> keys' ! j = keys ! j" by (simp add: parts i(3))
  ultimately show ?thesis using slot(2) parts by blast
qed

lemma key_create_inl: "key_create c given d keys = (Inl e, keys') \<Longrightarrow> keys' = keys"
  by (auto simp: key_create_def Let_def split: option.splits if_splits)

lemma key_delete_ok:
  assumes "keys_ok keys" "key_delete c key keys = (r, keys')"
  shows "keys_ok keys' \<and> (r = None \<longrightarrow> key_in_range key \<and> key_live keys key \<and> \<not> allocated (keys' ! key_index key)) \<and>
    (\<forall>i. generation (keys' ! i) = generation (keys ! i)) \<and> (\<forall>i. allocated (keys' ! i) \<longrightarrow> allocated (keys ! i))"
proof -
  have "keys' = keys \<and> r \<noteq> None \<or> r = None \<and> key_in_range key \<and> key_live keys key \<and>
      keys' = keys[key_index key := (keys ! key_index key)\<lparr>allocated := False, destructor := None\<rparr>]"
  proof (cases "require_thread_context c")
    case None
    have "(if \<not> key_in_range key \<or> \<not> key_live keys key then (Some EINVAL, keys)
        else (None, keys[key_index key := (keys ! key_index key)\<lparr>allocated := False, destructor := None\<rparr>])) = (r, keys')"
      using assms(2) None by (simp only: key_delete_def option.case)
    then show ?thesis by (cases "key_in_range key \<and> key_live keys key") auto
  next
    case (Some e)
    then show ?thesis using assms(2) unfolding key_delete_def by auto
  qed
  then consider "keys' = keys" "r \<noteq> None"
    | "r = None" "key_in_range key" "key_live keys key"
      "keys' = keys[key_index key := (keys ! key_index key)\<lparr>allocated := False, destructor := None\<rparr>]"
    by blast
  then show ?thesis
  proof cases
    case 1
    then show ?thesis using assms(1) by auto
  next
    case 2
    have len: "key_index key < length keys" using 2(2) assms(1) by (simp add: key_in_range_def keys_ok_def)
    have "generation (keys ! key_index key) < push_bit 24 1" using assms(1) len by (simp add: keys_ok_def)
    then have "keys_ok keys'" unfolding 2(4) using assms(1) by (intro keys_ok_update) simp_all
    moreover have "generation (keys' ! i) = generation (keys ! i)" "allocated (keys' ! i) \<Longrightarrow> allocated (keys ! i)" for i
      unfolding 2(4) using len by (cases "i = key_index key"; simp)+
    moreover have "\<not> allocated (keys' ! key_index key)" unfolding 2(4) using len by simp
    ultimately show ?thesis using 2 by blast
  qed
qed

text \<open>A sequence of creations and deletions, by any threads, and how many creations it has.\<close>

datatype key_op = Create "nat option" | Delete u32

fun key_run :: "caller \<Rightarrow> key_op list \<Rightarrow> KeyDefinition list \<Rightarrow> KeyDefinition list" where
  "key_run c [] keys = keys"
| "key_run c (Create d # ops) keys = key_run c ops (snd (key_create c True d keys))"
| "key_run c (Delete key # ops) keys = key_run c ops (snd (key_delete c key keys))"

fun creations :: "key_op list \<Rightarrow> nat" where
  "creations [] = 0"
| "creations (Create d # ops) = creations ops + 1"
| "creations (Delete key # ops) = creations ops"

text \<open>\<open>reused g n k\<close>: the slot last had generation \<open>g\<close> allocated, and at most \<open>n\<close> creations since.\<close>

definition reused :: "u32 \<Rightarrow> nat \<Rightarrow> KeyDefinition \<Rightarrow> bool" where
  "reused g n k \<longleftrightarrow> (\<exists>m \<le> n. generation k = (next_generation ^^ m) g \<and> (m = 0 \<longrightarrow> \<not> allocated k))"

lemma generation_orbit:
  assumes "g < push_bit 24 1" "g \<noteq> 0"
  shows "(next_generation ^^ m) g < push_bit 24 1 \<and> unat ((next_generation ^^ m) g) = (unat g - 1 + m) mod 16777215 + 1"
proof (induction m)
  case 0
  have "unat g < 16777216" "0 < unat g" using assms by (simp_all add: word_less_nat_alt push_bit_eq_mult unat_gt_0)
  then show ?case using assms by simp
next
  case (Suc m)
  define r where "r = (unat g - 1 + m) mod 16777215"
  have "r < 16777215" by (simp add: r_def)
  have "(unat g - 1 + Suc m) mod 16777215 = (r + 1) mod 16777215" by (simp add: r_def mod_Suc_eq)
  also have "\<dots> = (if r = 16777214 then 0 else r + 1)" using \<open>r < 16777215\<close> by auto
  finally have step: "(unat g - 1 + Suc m) mod 16777215 = (if r = 16777214 then 0 else r + 1)" .
  have "unat ((next_generation ^^ m) g) = r + 1" using Suc by (simp add: r_def)
  then show ?case
    unfolding step using next_generation_value next_generation_ok Suc by simp
qed

lemma reused_dead:
  assumes "reused g n k" "g < push_bit 24 1" "g \<noteq> 0" "n < 16777215"
  shows "\<not> (allocated k \<and> generation k = g)"
proof
  assume live: "allocated k \<and> generation k = g"
  then obtain m where m: "0 < m" "m \<le> n" "(next_generation ^^ m) g = g" using assms(1) by (auto simp: reused_def)
  define a where "a = unat g - 1"
  have a: "unat g = a + 1" "a < 16777215"
    using assms(2,3) by (simp_all add: a_def word_less_nat_alt push_bit_eq_mult unat_gt_0)
  have "(a + m) mod 16777215 = a" using generation_orbit [OF assms(2,3), of m] m(3) a by simp
  then have "(a + m) mod 16777215 = (a + 0) mod 16777215" using a(2) by simp
  then have "m mod 16777215 = 0 mod 16777215" by (metis add_diff_cancel_left' le_add1 mod_eq_dvd_iff_nat add.right_neutral dvd_eq_mod_eq_0 mod_0)
  then show False using m assms(4) by simp
qed

lemma key_run_reused:
  assumes "keys_ok keys" "i < 16" "g < push_bit 24 1" "reused g n (keys ! i)"
  shows "keys_ok (key_run c ops keys) \<and> reused g (n + creations ops) (key_run c ops keys ! i)"
  using assms
proof (induction c ops keys arbitrary: n rule: key_run.induct)
  case (1 c keys)
  then show ?case by simp
next
  case (2 c d ops keys)
  obtain r keys' where run: "key_create c True d keys = (r, keys')" by fastforce
  have "keys_ok keys' \<and> reused g (n + 1) (keys' ! i)"
  proof (cases r)
    case (Inl e)
    then have "keys' = keys" using key_create_inl run by blast
    moreover have "reused g (n + 1) (keys ! i)" using 2(5) unfolding reused_def by (meson le_add1 le_trans)
    ultimately show ?thesis using 2(2) by simp
  next
    case (Inr key)
    note new = key_create_ok [OF 2(2) run [unfolded Inr]]
    obtain m where m: "m \<le> n" "generation (keys ! i) = (next_generation ^^ m) g" "m = 0 \<longrightarrow> \<not> allocated (keys ! i)"
      using 2 by (auto simp: reused_def)
    show ?thesis
    proof (cases "i = key_index key")
      case True
      have "generation (keys' ! i) = (next_generation ^^ Suc m) g"
        using new m(2) True by (simp add: key_live_def)
      then have "reused g (n + 1) (keys' ! i)" unfolding reused_def using m(1) by (intro exI [of _ "Suc m"]) simp
      then show ?thesis using new by blast
    next
      case False
      then show ?thesis using new m unfolding reused_def by (metis le_add1 le_trans)
    qed
  qed
  then show ?case using "2.IH" [of "n + 1"] 2 run by (simp add: ac_simps)
next
  case (3 c key ops keys)
  obtain r keys' where run: "key_delete c key keys = (r, keys')" by fastforce
  note gone = key_delete_ok [OF 3(2) run]
  then have "reused g n (keys' ! i)" using 3 unfolding reused_def by metis
  then show ?case using "3.IH" [of n] 3 run gone by simp
qed

lemma key_stays_dead:
  assumes "keys_ok keys" "key_delete c key keys = (None, keys')" "creations ops < 16777215"
  shows "\<not> key_live (key_run c' ops keys') key"
proof -
  note gone = key_delete_ok [OF assms(1,2)]
  have range: "key_index key < 16" "key_generation key \<noteq> 0" using gone by (auto simp: key_in_range_def RUNTIME_THREAD_KEY_COUNT_def)
  have g: "generation (keys ! key_index key) = key_generation key" using gone by (simp add: key_live_def)
  have small: "key_generation key < push_bit 24 1" using keys_ok_nth [OF assms(1) range(1)] g by simp
  have "reused (key_generation key) 0 (keys' ! key_index key)" using gone g by (simp add: reused_def)
  then have "reused (key_generation key) (creations ops) (key_run c' ops keys' ! key_index key)"
    using key_run_reused [of keys' "key_index key" "key_generation key" 0 c' ops] gone range small by simp
  then show ?thesis using reused_dead small range(2) assms(3) unfolding key_live_def by blast
qed

section \<open>Values\<close>

definition tls_ok :: "tls \<Rightarrow> bool" where
  "tls_ok t \<longleftrightarrow> length (tls_values t) = RUNTIME_THREAD_KEY_COUNT \<and> length (tls_generations t) = RUNTIME_THREAD_KEY_COUNT"

definition fresh_tls :: tls where
  "fresh_tls = \<lparr>tls_values = replicate RUNTIME_THREAD_KEY_COUNT None, tls_generations = replicate RUNTIME_THREAD_KEY_COUNT 0\<rparr>"

lemma fresh_tls_ok: "tls_ok fresh_tls"
  by (simp add: tls_ok_def fresh_tls_def)

lemma key_set_get:
  assumes "tls_ok t" "key_set c keys key v t = (None, t')"
  shows "tls_ok t' \<and> key_get c keys key t' = v \<and>
    (\<forall>other. key_index other \<noteq> key_index key \<longrightarrow> key_get c keys other t' = key_get c keys other t)"
proof -
  have r: "require_thread_context c = None" "key_in_range key" "key_live keys key"
    "t' = t\<lparr>tls_generations := (tls_generations t)[key_index key := key_generation key],
       tls_values := (tls_values t)[key_index key := v]\<rparr>"
    using assms(2) unfolding key_set_def
    by (cases "require_thread_context c"; cases "key_in_range key \<and> key_live keys key"; auto)+
  have "key_index key < 16" using r(2) by (simp add: key_in_range_def RUNTIME_THREAD_KEY_COUNT_def)
  then have "key_get c keys key t' = v"
    using assms(1) r by (simp add: key_get_def tls_ok_def RUNTIME_THREAD_KEY_COUNT_def)
  moreover have "key_get c keys other t' = key_get c keys other t" if "key_index other \<noteq> key_index key" for other
    using that by (simp add: key_get_def r(4))
  moreover have "tls_ok t'" using assms(1) by (simp add: tls_ok_def r(4))
  ultimately show ?thesis by blast
qed

lemma key_set_refused: "key_set c keys key v t = (Some e, t') \<Longrightarrow> t' = t"
  unfolding key_set_def by (cases "require_thread_context c"; cases "key_in_range key \<and> key_live keys key"; auto)

lemma dead_key_refused:
  assumes "\<not> key_live keys key"
  shows "key_get c keys key t = None \<and> fst (key_set c keys key v t) \<noteq> None \<and> snd (key_set c keys key v t) = t \<and>
    fst (key_delete c key keys) \<noteq> None"
  using assms by (auto simp: key_get_def key_set_def key_delete_def split: option.split)

section \<open>Destructors\<close>

text \<open>
  The state during thread exit: the keys, the thread's values, and everything else; a destructor
  (its address and argument are given) may change all of it.
\<close>

type_synonym 'w exit_state = "KeyDefinition list \<times> tls \<times> 'w"

definition destructor_slot ::
  "(nat \<Rightarrow> nat \<Rightarrow> 'w exit_state \<Rightarrow> 'w exit_state) \<Rightarrow> nat \<Rightarrow> bool \<times> 'w exit_state \<Rightarrow> bool \<times> 'w exit_state" where
  "destructor_slot call index = (\<lambda>(invoked, keys, t, w).
     (let d = (if allocated (keys ! index) then destructor (keys ! index) else None);
          g = generation (keys ! index)
      in case (d, tls_values t ! index) of
           (Some f, Some v) \<Rightarrow>
             if tls_generations t ! index = g
             then (True, call f v (keys, t\<lparr>tls_values := (tls_values t)[index := None]\<rparr>, w))
             else (invoked, keys, t, w)
         | _ \<Rightarrow> (invoked, keys, t, w)))"

definition destructor_pass ::
  "(nat \<Rightarrow> nat \<Rightarrow> 'w exit_state \<Rightarrow> 'w exit_state) \<Rightarrow> 'w exit_state \<Rightarrow> bool \<times> 'w exit_state" where
  "destructor_pass call s = fold (destructor_slot call) [0..<RUNTIME_THREAD_KEY_COUNT] (False, s)"

fun destructor_passes ::
  "nat \<Rightarrow> (nat \<Rightarrow> nat \<Rightarrow> 'w exit_state \<Rightarrow> 'w exit_state) \<Rightarrow> 'w exit_state \<Rightarrow> 'w exit_state" where
  "destructor_passes 0 call s = s"
| "destructor_passes (Suc n) call s =
     (let (invoked, s) = destructor_pass call s in if \<not> invoked then s else destructor_passes n call s)"

definition run_thread_specific_destructors ::
  "bool \<Rightarrow> (nat \<Rightarrow> nat \<Rightarrow> 'w exit_state \<Rightarrow> 'w exit_state) \<Rightarrow> 'w exit_state \<Rightarrow> 'w exit_state" where
  "run_thread_specific_destructors started call s = (if \<not> started then s else destructor_passes 4 call s)"

text \<open>Destructors that leave thread-specific storage alone and only act on the rest.\<close>

definition acts_on_world :: "(nat \<Rightarrow> nat \<Rightarrow> 'w \<Rightarrow> 'w) \<Rightarrow> nat \<Rightarrow> nat \<Rightarrow> 'w exit_state \<Rightarrow> 'w exit_state" where
  "acts_on_world act f v = (\<lambda>(keys, t, w). (keys, t, act f v w))"

definition due :: "KeyDefinition list \<Rightarrow> tls \<Rightarrow> nat \<Rightarrow> (nat \<times> nat) option" where
  "due keys t i =
     (if allocated (keys ! i) \<and> tls_generations t ! i = generation (keys ! i)
      then (case (destructor (keys ! i), tls_values t ! i) of (Some f, Some v) \<Rightarrow> Some (f, v) | _ \<Rightarrow> None) else None)"

definition dues :: "KeyDefinition list \<Rightarrow> tls \<Rightarrow> nat list \<Rightarrow> (nat \<times> nat) list" where
  "dues keys t is = List.map_filter (due keys t) is"

lemma destructor_slot_due:
  "destructor_slot (acts_on_world act) i (invoked, keys, t, w) =
    (case due keys t i of
       None \<Rightarrow> (invoked, keys, t, w)
     | Some (f, v) \<Rightarrow> (True, keys, t\<lparr>tls_values := (tls_values t)[i := None]\<rparr>, act f v w))"
  by (auto simp: destructor_slot_def due_def acts_on_world_def Let_def split: option.splits)

definition cleared :: "nat list \<Rightarrow> KeyDefinition list \<Rightarrow> tls \<Rightarrow> tls" where
  "cleared is keys t = t\<lparr>tls_values :=
     map (\<lambda>i. if i \<in> set is \<and> due keys t i \<noteq> None then None else tls_values t ! i) [0..<length (tls_values t)]\<rparr>"

lemma due_other: "i \<noteq> j \<Longrightarrow> due keys (t\<lparr>tls_values := (tls_values t)[i := x]\<rparr>) j = due keys t j"
  by (simp add: due_def)

lemma cleared_step:
  assumes "due keys t i \<noteq> None" "i \<notin> set is"
  shows "cleared is keys (t\<lparr>tls_values := (tls_values t)[i := None]\<rparr>) = cleared (i # is) keys t"
proof -
  have "due keys (t\<lparr>tls_values := (tls_values t)[i := None]\<rparr>) j = due keys t j" if "j \<in> set is" for j
    using that assms(2) by (intro due_other) auto
  moreover have "(tls_values t)[i := None] ! j = (if j = i then None else tls_values t ! j)"
    if "j < length (tls_values t)" for j using that by (cases "j = i") simp_all
  ultimately show ?thesis
    using assms by (auto simp: cleared_def intro!: tls.equality)
qed

lemma dues_cong: "(\<And>j. j \<in> set is \<Longrightarrow> due keys t j = due keys u j) \<Longrightarrow> dues keys t is = dues keys u is"
  unfolding dues_def by (induction "is") (auto simp: List.map_filter_simps split: option.split)

lemma destructor_fold:
  assumes "distinct is"
  shows "fold (destructor_slot (acts_on_world act)) is (invoked, keys, t, w) =
    (invoked \<or> dues keys t is \<noteq> [], keys, cleared is keys t, fold (\<lambda>(f, v). act f v) (dues keys t is) w)"
  using assms
proof (induction "is" arbitrary: invoked t w)
  case Nil
  have "t\<lparr>tls_values := map (\<lambda>i. tls_values t ! i) [0..<length (tls_values t)]\<rparr> = t" by (simp add: map_nth)
  then show ?case by (simp add: cleared_def dues_def List.map_filter_def)
next
  case (Cons i "is")
  show ?case
  proof (cases "due keys t i")
    case None
    then have "cleared is keys t = cleared (i # is) keys t" by (auto simp: cleared_def)
    then show ?thesis using Cons None by (simp add: destructor_slot_due dues_def List.map_filter_simps)
  next
    case (Some fv)
    obtain f v where fv: "fv = (f, v)" by fastforce
    define t' where "t' = t\<lparr>tls_values := (tls_values t)[i := None]\<rparr>"
    have "dues keys t' is = dues keys t is"
      unfolding t'_def using Cons(2) by (intro dues_cong due_other) auto
    moreover have "cleared is keys t' = cleared (i # is) keys t"
      unfolding t'_def using Some Cons(2) by (intro cleared_step) auto
    ultimately show ?thesis
      using Cons(1) [of True t' "act f v w"] Cons(2) Some fv
      by (simp add: destructor_slot_due dues_def List.map_filter_simps t'_def)
  qed
qed

lemma due_cleared:
  assumes "i < length (tls_values t)" "i \<in> set is"
  shows "due keys (cleared is keys t) i = None"
  using assms by (auto simp: due_def cleared_def split: option.splits)

lemma dues_cleared:
  assumes "tls_ok t"
  shows "dues keys (cleared [0..<RUNTIME_THREAD_KEY_COUNT] keys t) [0..<RUNTIME_THREAD_KEY_COUNT] = []"
proof -
  have "due keys (cleared [0..<RUNTIME_THREAD_KEY_COUNT] keys t) i = None" if "i < RUNTIME_THREAD_KEY_COUNT" for i
    using that assms by (intro due_cleared) (simp_all add: tls_ok_def)
  then show ?thesis by (auto simp: dues_def List.map_filter_def filter_empty_conv)
qed

text \<open>Every value that is due is destroyed, once, in the order of the slots; then nothing is due.\<close>

lemma destructors_run_once:
  assumes "tls_ok t"
  shows "run_thread_specific_destructors True (acts_on_world act) (keys, t, w) =
    (keys, cleared [0..<RUNTIME_THREAD_KEY_COUNT] keys t,
     fold (\<lambda>(f, v). act f v) (dues keys t [0..<RUNTIME_THREAD_KEY_COUNT]) w)"
proof -
  let ?is = "[0..<RUNTIME_THREAD_KEY_COUNT]"
  have pass: "destructor_pass (acts_on_world act) (keys, u, x) =
      (dues keys u ?is \<noteq> [], keys, cleared ?is keys u, fold (\<lambda>(f, v). act f v) (dues keys u ?is) x)" for u x
    by (simp add: destructor_pass_def destructor_fold)
  have same: "cleared ?is keys u = u" if "dues keys u ?is = []" "length (tls_values u) = RUNTIME_THREAD_KEY_COUNT" for u
  proof -
    have none: "due keys u i = None" if "i < RUNTIME_THREAD_KEY_COUNT" for i
      using that \<open>dues keys u ?is = []\<close>
      by (cases "due keys u i") (auto simp: dues_def List.map_filter_def filter_empty_conv)
    have "map (\<lambda>i. if i \<in> set ?is \<and> due keys u i \<noteq> None then None else tls_values u ! i) [0..<length (tls_values u)] =
        tls_values u"
      by (rule nth_equalityI) (auto simp: none that)
    then show ?thesis by (simp add: cleared_def)
  qed
  have len: "length (tls_values (cleared ?is keys t)) = RUNTIME_THREAD_KEY_COUNT"
    using assms by (simp add: cleared_def tls_ok_def)
  have four: "(4 :: nat) = Suc (Suc (Suc (Suc 0)))" by simp
  show ?thesis
    using same [OF dues_cleared [OF assms, of keys] len]
    by (auto simp: run_thread_specific_destructors_def four pass dues_cleared [OF assms])
qed

section \<open>The ThreadX hooks\<close>

text \<open>The part of the ThreadX control block the runtime adds, and the entry point it replaces.\<close>

record thread_block =
  thread_tls :: tls
  thread_entry_point :: nat
  thread_entry_parameter :: nat
  runtime_entry :: "nat option"
  runtime_entry_parameter :: nat
  cleanup_started :: bool

definition libstdcxx_thread_create :: "nat \<Rightarrow> thread_block \<Rightarrow> thread_block" where
  "libstdcxx_thread_create wrapper b =
     b\<lparr>thread_tls := fresh_tls, runtime_entry := Some (thread_entry_point b),
       runtime_entry_parameter := thread_entry_parameter b, cleanup_started := False,
       thread_entry_point := wrapper, thread_entry_parameter := 0\<rparr>"

text \<open>\<open>None\<close>: the exit notification cannot be registered, and the program ends.\<close>

definition libstdcxx_thread_started :: "tx_status \<Rightarrow> thread_block \<Rightarrow> thread_block option" where
  "libstdcxx_thread_started status b =
     (if status \<noteq> TX_SUCCESS then None else Some (b\<lparr>thread_tls := fresh_tls, cleanup_started := False\<rparr>))"

text \<open>\<open>tls_exit\<close> runs the destructors of \<^verbatim>\<open>thread_local\<close> objects on the STM32 and nothing on Linux.\<close>

definition cleanup_thread_runtime ::
  "bool \<Rightarrow> ('w exit_state \<Rightarrow> 'w exit_state) \<Rightarrow> (nat \<Rightarrow> nat \<Rightarrow> 'w exit_state \<Rightarrow> 'w exit_state) \<Rightarrow>
   thread_block \<times> KeyDefinition list \<times> 'w \<Rightarrow> thread_block \<times> KeyDefinition list \<times> 'w" where
  "cleanup_thread_runtime started tls_exit call = (\<lambda>(b, keys, w).
     if cleanup_started b then (b, keys, w)
     else
       (let (keys', t', w') = run_thread_specific_destructors started call (tls_exit (keys, thread_tls b, w))
        in (b\<lparr>cleanup_started := True, thread_tls := t'\<rparr>, keys', w')))"

definition libstdcxx_thread_entry ::
  "bool \<Rightarrow> ('w exit_state \<Rightarrow> 'w exit_state) \<Rightarrow> (nat \<Rightarrow> nat \<Rightarrow> 'w exit_state \<Rightarrow> 'w exit_state) \<Rightarrow>
   (nat \<Rightarrow> nat \<Rightarrow> thread_block \<times> KeyDefinition list \<times> 'w \<Rightarrow> (thread_block \<times> KeyDefinition list \<times> 'w) option) \<Rightarrow>
   thread_block \<times> KeyDefinition list \<times> 'w \<Rightarrow> (thread_block \<times> KeyDefinition list \<times> 'w) option" where
  "libstdcxx_thread_entry started tls_exit call body s =
     (case runtime_entry (fst s) of
        None \<Rightarrow> None
      | Some entry \<Rightarrow>
          map_option (cleanup_thread_runtime started tls_exit call) (body entry (runtime_entry_parameter (fst s)) s))"

definition libstdcxx_thread_notify ::
  "bool \<Rightarrow> ('w exit_state \<Rightarrow> 'w exit_state) \<Rightarrow> (nat \<Rightarrow> nat \<Rightarrow> 'w exit_state \<Rightarrow> 'w exit_state) \<Rightarrow> bool \<Rightarrow> bool \<Rightarrow>
   thread_block \<times> KeyDefinition list \<times> 'w \<Rightarrow> thread_block \<times> KeyDefinition list \<times> 'w" where
  "libstdcxx_thread_notify started tls_exit call is_exit is_self s =
     (if is_exit \<and> is_self then cleanup_thread_runtime started tls_exit call s else s)"

lemma cleanup_once:
  "cleanup_thread_runtime started tls_exit call (cleanup_thread_runtime started tls_exit call s) =
   cleanup_thread_runtime started tls_exit call s"
  by (auto simp: cleanup_thread_runtime_def split: prod.split)

lemma exit_after_return:
  assumes "libstdcxx_thread_entry started tls_exit call body s = Some s'"
  shows "libstdcxx_thread_notify started tls_exit call is_exit is_self s' = s'"
  using assms by (auto simp: libstdcxx_thread_entry_def libstdcxx_thread_notify_def cleanup_once split: option.splits)

end
