(* ===== verification/Runtime_Waiters.thy ===== *)
theory Runtime_Waiters
  imports Nucleo_Prelude
begin

text \<open>
  The queue of waiters of a condition variable in \<^verbatim>\<open>platform/runtime/libstdcxx/backend.cpp\<close>: a doubly
  linked list through the \<open>Waiter\<close> objects on the stacks of the waiting threads. The store maps the
  address of a waiter to its fields. What the queue promises to the condition variable is the locale
  \<open>waiter_queue\<close>.
\<close>

section \<open>The code\<close>

record Waiter =
  prev_waiter :: "nat option"
  next_waiter :: "nat option"
  linked :: bool

record waiters =
  store :: "nat \<Rightarrow> Waiter"
  first_waiter :: "nat option"
  last_waiter :: "nat option"

definition set_next :: "nat \<Rightarrow> nat option \<Rightarrow> waiters \<Rightarrow> waiters" where
  "set_next w n q = q\<lparr>store := (store q)(w := (store q w)\<lparr>next_waiter := n\<rparr>)\<rparr>"

definition set_prev :: "nat \<Rightarrow> nat option \<Rightarrow> waiters \<Rightarrow> waiters" where
  "set_prev w p q = q\<lparr>store := (store q)(w := (store q w)\<lparr>prev_waiter := p\<rparr>)\<rparr>"

definition set_linked :: "nat \<Rightarrow> bool \<Rightarrow> waiters \<Rightarrow> waiters" where
  "set_linked w l q = q\<lparr>store := (store q)(w := (store q w)\<lparr>linked := l\<rparr>)\<rparr>"

definition append_waiter :: "nat \<Rightarrow> waiters \<Rightarrow> waiters" where
  "append_waiter w q =
     (let q = set_linked w True (set_next w None (set_prev w (last_waiter q) q));
          q = (case last_waiter q of Some l \<Rightarrow> set_next l (Some w) q | None \<Rightarrow> q\<lparr>first_waiter := Some w\<rparr>)
      in q\<lparr>last_waiter := Some w\<rparr>)"

definition remove_waiter :: "nat \<Rightarrow> waiters \<Rightarrow> waiters" where
  "remove_waiter w q =
     (if \<not> linked (store q w) then q
      else
        (let q = (case prev_waiter (store q w) of
                    Some p \<Rightarrow> set_next p (next_waiter (store q w)) q
                  | None \<Rightarrow> q\<lparr>first_waiter := next_waiter (store q w)\<rparr>);
             q = (case next_waiter (store q w) of
                    Some n \<Rightarrow> set_prev n (prev_waiter (store q w)) q
                  | None \<Rightarrow> q\<lparr>last_waiter := prev_waiter (store q w)\<rparr>)
         in set_linked w False q))"

section \<open>The abstraction\<close>

definition head_or :: "nat list \<Rightarrow> nat option \<Rightarrow> nat option" where
  "head_or xs n = (case xs of [] \<Rightarrow> n | x # _ \<Rightarrow> Some x)"

definition last_or :: "nat list \<Rightarrow> nat option \<Rightarrow> nat option" where
  "last_or xs p = (if xs = [] then p else Some (last xs))"

lemma head_or_simps [simp]: "head_or [] n = n" "head_or (x # xs) n = Some x"
  by (simp_all add: head_or_def)

lemma last_or_simps [simp]: "last_or [] p = p" "last_or (x # xs) p = last_or xs (Some x)"
  "last_or (xs @ [x]) p = Some x"
  by (simp_all add: last_or_def)

lemma head_or_append [simp]: "head_or (xs @ ys) n = head_or xs (head_or ys n)"
  by (cases xs) simp_all

text \<open>\<open>chain h p xs n\<close>: the waiters \<open>xs\<close> are linked in this order, after \<open>p\<close> and before \<open>n\<close>.\<close>

fun chain :: "(nat \<Rightarrow> Waiter) \<Rightarrow> nat option \<Rightarrow> nat list \<Rightarrow> nat option \<Rightarrow> bool" where
  "chain h p [] n \<longleftrightarrow> True"
| "chain h p (x # xs) n \<longleftrightarrow> prev_waiter (h x) = p \<and> next_waiter (h x) = head_or xs n \<and> chain h (Some x) xs n"

definition waiting_queue :: "waiters \<Rightarrow> nat list \<Rightarrow> bool" where
  "waiting_queue q xs \<longleftrightarrow>
     distinct xs \<and> first_waiter q = head_or xs None \<and> last_waiter q = last_or xs None \<and>
     chain (store q) None xs None \<and> (\<forall>w. linked (store q w) \<longleftrightarrow> w \<in> set xs)"

lemma chain_append: "chain h p (xs @ ys) n \<longleftrightarrow> chain h p xs (head_or ys n) \<and> chain h (last_or xs p) ys n"
  by (induction xs arbitrary: p) auto

lemma chain_cong:
  "(\<And>x. x \<in> set xs \<Longrightarrow> prev_waiter (h x) = prev_waiter (h' x) \<and> next_waiter (h x) = next_waiter (h' x)) \<Longrightarrow>
    chain h p xs n = chain h' p xs n"
  by (induction xs arbitrary: p) auto

lemma chain_set_next:
  assumes "chain h p (xs @ [x]) n" "x \<notin> set xs"
  shows "chain (h(x := (h x)\<lparr>next_waiter := m\<rparr>)) p (xs @ [x]) m"
proof -
  have "chain (h(x := (h x)\<lparr>next_waiter := m\<rparr>)) p xs (Some x) = chain h p xs (Some x)"
    using assms(2) by (intro chain_cong) auto
  then show ?thesis using assms(1) by (simp add: chain_append)
qed

lemma chain_set_prev:
  assumes "chain h p (x # xs) n" "x \<notin> set xs"
  shows "chain (h(x := (h x)\<lparr>prev_waiter := m\<rparr>)) m (x # xs) n"
proof -
  have "chain (h(x := (h x)\<lparr>prev_waiter := m\<rparr>)) (Some x) xs n = chain h (Some x) xs n"
    using assms(2) by (intro chain_cong) auto
  then show ?thesis using assms(1) by simp
qed

lemma append_waiter_queue:
  assumes "waiting_queue q xs" "w \<notin> set xs"
  shows "waiting_queue (append_waiter w q) (xs @ [w])"
proof (cases xs rule: rev_cases)
  case Nil
  then show ?thesis using assms
    by (auto simp: waiting_queue_def append_waiter_def set_next_def set_prev_def set_linked_def)
next
  case (snoc ys l)
  define h where "h = (store q)(w := (store q w)\<lparr>prev_waiter := Some l, next_waiter := None, linked := True\<rparr>)"
  have "l \<noteq> w" using assms(2) snoc by auto
  have last: "last_waiter q = Some l" using assms(1) by (simp add: waiting_queue_def snoc)
  have run: "append_waiter w q = q\<lparr>store := h(l := (h l)\<lparr>next_waiter := Some w\<rparr>), last_waiter := Some w\<rparr>"
    using last \<open>l \<noteq> w\<close> by (auto simp: append_waiter_def set_next_def set_prev_def set_linked_def h_def Let_def)
  have "chain h None (ys @ [l]) None = chain (store q) None (ys @ [l]) None"
    using assms(2) snoc by (intro chain_cong) (auto simp: h_def)
  then have "chain h None (ys @ [l]) None" using assms(1) by (simp add: waiting_queue_def snoc)
  then have "chain (h(l := (h l)\<lparr>next_waiter := Some w\<rparr>)) None (ys @ [l]) (Some w)"
    using assms(1) snoc by (intro chain_set_next) (auto simp: waiting_queue_def)
  moreover have "chain (h(l := (h l)\<lparr>next_waiter := Some w\<rparr>)) (Some l) [w] None"
    using \<open>l \<noteq> w\<close> by (simp add: h_def)
  ultimately have "chain (h(l := (h l)\<lparr>next_waiter := Some w\<rparr>)) None (xs @ [w]) None"
    using chain_append [of _ None "ys @ [l]" "[w]" None] by (simp add: snoc)
  moreover have "distinct (xs @ [w])" "first_waiter q = head_or (xs @ [w]) None"
    using assms by (simp_all add: waiting_queue_def snoc)
  moreover have "linked ((h(l := (h l)\<lparr>next_waiter := Some w\<rparr>)) v) \<longleftrightarrow> v \<in> set (xs @ [w])" for v
    using assms(1) by (simp add: waiting_queue_def h_def snoc)
  ultimately show ?thesis by (simp add: waiting_queue_def run)
qed

text \<open>Removal, first of the links on either side, then of the mark.\<close>

lemma remove_waiter_absent: "waiting_queue q xs \<Longrightarrow> w \<notin> set xs \<Longrightarrow> remove_waiter w q = q"
  by (simp add: waiting_queue_def remove_waiter_def)

lemma bypass_next:
  assumes "chain h p ys n" "distinct ys"
  shows "chain (case last_or ys None of Some l \<Rightarrow> h(l := (h l)\<lparr>next_waiter := m\<rparr>) | None \<Rightarrow> h) p ys m"
proof (cases ys rule: rev_cases)
  case (snoc zs l)
  then show ?thesis using chain_set_next [of h p zs l n m] assms by simp
qed simp

lemma bypass_prev:
  assumes "chain h p zs n" "distinct zs"
  shows "chain (case head_or zs None of Some f \<Rightarrow> h(f := (h f)\<lparr>prev_waiter := m\<rparr>) | None \<Rightarrow> h) m zs n"
proof (cases zs)
  case (Cons f fs)
  then show ?thesis using chain_set_prev [of h p f fs n m] assms by simp
qed simp

lemma remove_waiter_queue:
  assumes "waiting_queue q (ys @ w # zs)"
  shows "waiting_queue (remove_waiter w q) (ys @ zs)"
proof -
  have q: "distinct (ys @ w # zs)" "first_waiter q = head_or (ys @ w # zs) None"
    "last_waiter q = last_or (ys @ w # zs) None" "chain (store q) None (ys @ w # zs) None"
    "\<And>v. linked (store q v) \<longleftrightarrow> v \<in> set (ys @ w # zs)"
    using assms by (auto simp: waiting_queue_def)
  define p n where "p = last_or ys None" and "n = head_or zs None"
  define h1 where "h1 = (case p of Some l \<Rightarrow> (store q)(l := (store q l)\<lparr>next_waiter := n\<rparr>) | None \<Rightarrow> store q)"
  define h2 where "h2 = (case n of Some f \<Rightarrow> h1(f := (h1 f)\<lparr>prev_waiter := p\<rparr>) | None \<Rightarrow> h1)"
  have c: "chain (store q) None ys (Some w)" "chain (store q) (Some w) zs None"
    and w: "prev_waiter (store q w) = p" "next_waiter (store q w) = n"
    using q(4) by (simp_all add: chain_append p_def n_def)
  have pn: "p \<noteq> Some w" "n \<noteq> Some w" "\<And>l f. p = Some l \<Longrightarrow> l \<in> set ys" "\<And>f. n = Some f \<Longrightarrow> f \<in> set zs"
    using q(1) by (auto simp: p_def n_def last_or_def head_or_def split: list.splits if_splits)
  have run: "remove_waiter w q = q\<lparr>store := h2(w := (h2 w)\<lparr>linked := False\<rparr>),
      first_waiter := (if p = None then n else first_waiter q),
      last_waiter := (if n = None then p else last_waiter q)\<rparr>"
    using q(5) [of w] w pn by (cases p; cases n)
      (auto simp: remove_waiter_def set_next_def set_prev_def set_linked_def h1_def h2_def Let_def)
  have "chain h1 None ys n"
    unfolding h1_def p_def using bypass_next [OF c(1)] q(1) by simp
  moreover have "chain h2 None ys n = chain h1 None ys n"
    using pn(4) q(1) by (intro chain_cong) (auto simp: h2_def split: option.split)
  moreover have "chain h1 (Some w) zs None = chain (store q) (Some w) zs None"
    using pn(3) q(1) by (intro chain_cong) (auto simp: h1_def split: option.split)
  then have "chain h2 p zs None"
    unfolding h2_def n_def using bypass_prev [of h1 "Some w" zs None p] c(2) q(1) by simp
  ultimately have "chain h2 None (ys @ zs) None"
    by (simp add: chain_append flip: p_def n_def)
  moreover have "chain (h2(w := (h2 w)\<lparr>linked := False\<rparr>)) None (ys @ zs) None = chain h2 None (ys @ zs) None"
    using q(1) by (intro chain_cong) auto
  moreover have "linked ((h2(w := (h2 w)\<lparr>linked := False\<rparr>)) v) \<longleftrightarrow> v \<in> set (ys @ zs)" for v
    using q(1,5) by (auto simp: h1_def h2_def split: option.split)
  moreover have "first_waiter (remove_waiter w q) = head_or (ys @ zs) None"
    using q(2) by (cases ys) (auto simp: run p_def n_def last_or_def)
  moreover have "last_waiter (remove_waiter w q) = last_or (ys @ zs) None"
    using q(3) by (cases zs) (auto simp: run p_def n_def last_or_def)
  ultimately show ?thesis using q(1) by (simp add: waiting_queue_def run)
qed

lemma empty_queue: "first_waiter q = None \<Longrightarrow> last_waiter q = None \<Longrightarrow> \<forall>w. \<not> linked (store q w) \<Longrightarrow> waiting_queue q []"
  by (simp add: waiting_queue_def)

section \<open>The contract\<close>

locale waiter_queue =
  fixes queue :: "'q \<Rightarrow> 'w list \<Rightarrow> bool"
    and add :: "'w \<Rightarrow> 'q \<Rightarrow> 'q"
    and discard :: "'w \<Rightarrow> 'q \<Rightarrow> 'q"
    and front :: "'q \<Rightarrow> 'w option"
    and queued :: "'q \<Rightarrow> 'w \<Rightarrow> bool"
  assumes distinct_queue: "queue q xs \<Longrightarrow> distinct xs"
    and front_queue: "queue q xs \<Longrightarrow> front q = (case xs of [] \<Rightarrow> None | x # _ \<Rightarrow> Some x)"
    and queued_queue: "queue q xs \<Longrightarrow> queued q w \<longleftrightarrow> w \<in> set xs"
    and add_queue: "queue q xs \<Longrightarrow> w \<notin> set xs \<Longrightarrow> queue (add w q) (xs @ [w])"
    and discard_queue: "queue q (ys @ w # zs) \<Longrightarrow> queue (discard w q) (ys @ zs)"
begin

text \<open>Taking the front waiter off is taking the oldest one.\<close>

lemma take_front: "queue q (x # xs) \<Longrightarrow> front q = Some x \<and> queue (discard x q) xs \<and> \<not> queued (discard x q) x"
  using front_queue [of q "x # xs"] discard_queue [of q "[]" x xs] distinct_queue [of q "x # xs"]
    queued_queue [of "discard x q" xs x]
  by simp

text \<open>Leaving from any place keeps the order of the others.\<close>

lemma leave: "queue q xs \<Longrightarrow> queued q w \<Longrightarrow> queue (discard w q) (remove1 w xs)"
proof -
  assume q: "queue q xs" "queued q w"
  then have "w \<in> set xs" using queued_queue by blast
  then obtain ys zs where xs: "xs = ys @ w # zs" "w \<notin> set ys" by (meson split_list_first)
  then show ?thesis using discard_queue q(1) by (simp add: remove1_append)
qed

text \<open>Removing waiters from the front in turn visits them in order and leaves nothing.\<close>

lemma drain: "queue q xs \<Longrightarrow> queue (fold discard xs q) []"
proof (induction xs arbitrary: q)
  case (Cons x xs)
  then show ?case using take_front by simp
qed simp

end

interpretation waiter_list: waiter_queue waiting_queue append_waiter remove_waiter first_waiter "\<lambda>q w. linked (store q w)"
proof
  show "waiting_queue q xs \<Longrightarrow> first_waiter q = (case xs of [] \<Rightarrow> None | x # _ \<Rightarrow> Some x)"
    and "waiting_queue q xs \<Longrightarrow> distinct xs"
    and "waiting_queue q xs \<Longrightarrow> linked (store q w) \<longleftrightarrow> w \<in> set xs" for q xs w
    by (simp_all add: waiting_queue_def head_or_def)
qed (fact append_waiter_queue remove_waiter_queue)+

end
