(* ===== verification/Runtime_Conditions.thy ===== *)
theory Runtime_Conditions
  imports Runtime_Waiters Runtime_Context
begin

text \<open>
  Condition variables in \<^verbatim>\<open>platform/runtime/libstdcxx/backend.cpp\<close>. A condition is its queue of waiters
  and, for each waiter, the count of the ThreadX semaphore the waiter sleeps on. Every definition
  here is one critical section under the mutex of the condition; the step relation interleaves the
  sections of any number of threads. A ThreadX mutex or semaphore call that fails on a valid object
  ends the program and is left out.
\<close>

section \<open>The code\<close>

record condition =
  c_queue :: waiters
  c_count :: "nat \<Rightarrow> nat"

definition semaphore_put :: "nat \<Rightarrow> condition \<Rightarrow> condition" where
  "semaphore_put w c = c\<lparr>c_count := (c_count c)(w := c_count c w + 1)\<rparr>"

text \<open>\<open>None\<close> is success.\<close>

definition semaphore_take :: "nat \<Rightarrow> condition \<Rightarrow> bool \<times> condition" where
  "semaphore_take w c = (if c_count c w = 0 then (False, c) else (True, c\<lparr>c_count := (c_count c)(w := c_count c w - 1)\<rparr>))"

definition dequeue :: "nat \<Rightarrow> condition \<Rightarrow> condition" where
  "dequeue w c = c\<lparr>c_queue := remove_waiter w (c_queue c)\<rparr>"

definition signal_first :: "condition \<Rightarrow> condition" where
  "signal_first c = (case first_waiter (c_queue c) of None \<Rightarrow> c | Some w \<Rightarrow> semaphore_put w (dequeue w c))"

partial_function (option) broadcast_loop :: "condition \<Rightarrow> condition option" where
  "broadcast_loop c =
     (if first_waiter (c_queue c) = None then Some c
      else broadcast_loop (semaphore_put (the (first_waiter (c_queue c))) (dequeue (the (first_waiter (c_queue c))) c)))"

text \<open>The implementation is \<open>None\<close> for a null handle or a condition nobody has waited on.\<close>

definition condition_signal :: "caller \<Rightarrow> condition option \<Rightarrow> errno option \<times> condition option" where
  "condition_signal t impl =
     (case require_thread_context t of
        Some e \<Rightarrow> (Some e, impl)
      | None \<Rightarrow> (None, map_option signal_first impl))"

definition condition_broadcast :: "caller \<Rightarrow> condition option \<Rightarrow> (errno option \<times> condition option) option" where
  "condition_broadcast t impl =
     (case require_thread_context t of
        Some e \<Rightarrow> Some (Some e, impl)
      | None \<Rightarrow>
          (case impl of
             None \<Rightarrow> Some (None, None)
           | Some c \<Rightarrow> map_option (\<lambda>c'. (None, Some c')) (broadcast_loop c)))"

text \<open>\<open>condition_wait_common\<close>: the checks, and its sections up to the final lock.\<close>

definition condition_wait_guard :: "caller \<Rightarrow> bool \<Rightarrow> bool \<Rightarrow> bool \<Rightarrow> tx_status \<Rightarrow> errno option" where
  "condition_wait_guard t condition_available mutex_given mutex_created create_status =
     (case require_thread_context t of
        Some e \<Rightarrow> Some e
      | None \<Rightarrow>
          if \<not> condition_available \<or> \<not> mutex_given \<or> \<not> mutex_created then Some EINVAL
          else if create_status \<noteq> TX_SUCCESS then Some EAGAIN
          else None)"

definition enter_wait :: "nat \<Rightarrow> condition \<Rightarrow> condition" where
  "enter_wait w c = c\<lparr>c_queue := append_waiter w (c_queue c)\<rparr>"

definition settle_wait :: "nat \<Rightarrow> errno option \<Rightarrow> condition \<Rightarrow> errno option \<times> condition" where
  "settle_wait w wait_status c =
     (if wait_status = None then (wait_status, c)
      else if linked (store (c_queue c) w) then (wait_status, dequeue w c)
      else (let (notified, c) = semaphore_take w c in (if notified then None else wait_status, c)))"

definition wait_result :: "errno option \<Rightarrow> errno option \<Rightarrow> errno option" where
  "wait_result lock_status wait_status = (if lock_status = None then wait_status else lock_status)"

text \<open>A recursive mutex may be waited with only when the caller owns it exactly once.\<close>

definition condition_wait_recursive_guard :: "caller \<Rightarrow> (nat option \<times> nat) option \<Rightarrow> errno option" where
  "condition_wait_recursive_guard t mutex =
     (case mutex of
        None \<Rightarrow> Some EINVAL
      | Some (owner, count) \<Rightarrow> if owner \<noteq> current_thread t \<or> count \<noteq> 1 then Some EINVAL else None)"

definition condition_destroy :: "bool \<Rightarrow> condition option \<Rightarrow> tx_status \<Rightarrow> errno option \<times> condition option" where
  "condition_destroy given impl delete_status =
     (if \<not> given then (Some EINVAL, impl)
      else
        (case impl of
           None \<Rightarrow> (None, None)
         | Some c \<Rightarrow>
             if first_waiter (c_queue c) \<noteq> None then (Some EBUSY, Some c)
             else if delete_status \<noteq> TX_SUCCESS then (Some EBUSY, Some c)
             else (None, None)))"

section \<open>Signals reach the oldest waiters\<close>

lemma dequeue_simps [simp]:
  "c_queue (dequeue w c) = remove_waiter w (c_queue c)" "c_count (dequeue w c) = c_count c"
  "c_queue (semaphore_put w c) = c_queue c" "c_count (semaphore_put w c) = (c_count c)(w := c_count c w + 1)"
  by (simp_all add: dequeue_def semaphore_put_def)

lemma signal_first_queue:
  assumes "waiting_queue (c_queue c) xs"
  shows "case xs of
      [] \<Rightarrow> signal_first c = c
    | x # rest \<Rightarrow> waiting_queue (c_queue (signal_first c)) rest \<and>
        c_count (signal_first c) = (c_count c)(x := c_count c x + 1)"
proof (cases xs)
  case Nil
  then show ?thesis using waiter_list.front_queue [OF assms] by (simp add: signal_first_def)
next
  case (Cons x rest)
  then show ?thesis using waiter_list.take_front [of "c_queue c" x rest] assms by (simp add: signal_first_def)
qed

lemma broadcast_queue:
  assumes "waiting_queue (c_queue c) xs"
  shows "\<exists>c'. broadcast_loop c = Some c' \<and> waiting_queue (c_queue c') [] \<and>
    c_count c' = (\<lambda>w. if w \<in> set xs then c_count c w + 1 else c_count c w)"
  using assms
proof (induction xs arbitrary: c)
  case Nil
  then have "first_waiter (c_queue c) = None" using waiter_list.front_queue by fastforce
  then show ?case using Nil by (subst broadcast_loop.simps) simp
next
  case (Cons x rest)
  let ?c = "semaphore_put x (dequeue x c)"
  have front: "first_waiter (c_queue c) = Some x" "waiting_queue (c_queue ?c) rest"
    using waiter_list.take_front [OF Cons(2)] by simp_all
  have "x \<notin> set rest" using waiter_list.distinct_queue [OF Cons(2)] by simp
  obtain c' where "broadcast_loop ?c = Some c'" "waiting_queue (c_queue c') []"
      "c_count c' = (\<lambda>w. if w \<in> set rest then c_count ?c w + 1 else c_count ?c w)"
    using Cons(1) [OF front(2)] by blast
  then show ?case using front(1) \<open>x \<notin> set rest\<close> by (subst broadcast_loop.simps) auto
qed

section \<open>Threads\<close>

datatype phase = Outside | Waiting | Unlock_failed errno | Leaving "errno option" | Finished "errno option" | Refused errno

text \<open>The set remembers which waiters a signal or broadcast has released.\<close>

type_synonym cond_state = "condition \<times> (nat \<Rightarrow> phase) \<times> nat set"

inductive cond_step :: "cond_state \<Rightarrow> cond_state \<Rightarrow> bool" where
  enter: "cond_step (c, p, n) (enter_wait w c, p(w := Waiting), n)" if "p w = Outside"
| enter_failed: "cond_step (c, p, n) (enter_wait w c, p(w := Unlock_failed e), n)" if "p w = Outside"
| refuse: "cond_step (c, p, n) (dequeue w c, p(w := Refused e), n)" if "p w = Unlock_failed e"
| woken: "cond_step (c, p, n) (c', p(w := Leaving None), n)" if "p w = Waiting" and "semaphore_take w c = (True, c')"
| interrupted: "cond_step (c, p, n) (c, p(w := Leaving (Some e)), n)" if "p w = Waiting"
| settle: "cond_step (c, p, n) (c', p(w := Finished r'), n)" if "p w = Leaving r" and "settle_wait w r c = (r', c')"
| signal: "cond_step (c, p, n) (signal_first c, p, n \<union> set_option (first_waiter (c_queue c)))"
| broadcast: "cond_step (c, p, n) (c', p, n \<union> {w. linked (store (c_queue c) w)})" if "broadcast_loop c = Some c'"

fun waiter_ok :: "bool \<Rightarrow> nat \<Rightarrow> bool \<Rightarrow> phase \<Rightarrow> bool" where
  "waiter_ok queued count notified Outside \<longleftrightarrow> \<not> queued \<and> count = 0 \<and> \<not> notified"
| "waiter_ok queued count notified (Leaving None) \<longleftrightarrow> \<not> queued \<and> count = 0 \<and> notified"
| "waiter_ok queued count notified (Finished r) \<longleftrightarrow> \<not> queued \<and> count = 0 \<and> (r = None \<longleftrightarrow> notified)"
| "waiter_ok queued count notified (Refused e) \<longleftrightarrow> \<not> queued"
| "waiter_ok queued count notified _ \<longleftrightarrow> count = (if queued then 0 else 1) \<and> notified = (\<not> queued)"

lemma waiter_ok_Leaving:
  "waiter_ok queued count notified (Leaving r) \<longleftrightarrow>
    (if r = None then \<not> queued \<and> count = 0 \<and> notified else count = (if queued then 0 else 1) \<and> notified = (\<not> queued))"
  by (cases r) auto

definition cond_ok :: "cond_state \<Rightarrow> bool" where
  "cond_ok = (\<lambda>(c, p, n). \<exists>xs. waiting_queue (c_queue c) xs \<and> (\<forall>w. waiter_ok (w \<in> set xs) (c_count c w) (w \<in> n) (p w)))"

lemma cond_okI:
  "waiting_queue (c_queue c) xs \<Longrightarrow> (\<And>w. waiter_ok (w \<in> set xs) (c_count c w) (w \<in> n) (p w)) \<Longrightarrow> cond_ok (c, p, n)"
  by (auto simp: cond_ok_def)

lemma enter_ok:
  assumes "cond_ok (c, p, n)" "p w = Outside" "ph = Waiting \<or> ph = Unlock_failed e"
  shows "cond_ok (enter_wait w c, p(w := ph), n)"
proof -
  obtain xs where xs: "waiting_queue (c_queue c) xs" "\<And>v. waiter_ok (v \<in> set xs) (c_count c v) (v \<in> n) (p v)"
    using assms(1) by (auto simp: cond_ok_def)
  have "w \<notin> set xs" "c_count c w = 0" "w \<notin> n" using xs(2) [of w] assms(2) by simp_all
  then have "waiting_queue (c_queue (enter_wait w c)) (xs @ [w])" "c_count (enter_wait w c) = c_count c"
    using waiter_list.add_queue [OF xs(1)] by (simp_all add: enter_wait_def)
  moreover have "waiter_ok (v \<in> set (xs @ [w])) (c_count c v) (v \<in> n) ((p(w := ph)) v)" for v
    using xs(2) [of v] \<open>c_count c w = 0\<close> \<open>w \<notin> n\<close> assms(3) by auto
  ultimately show ?thesis by (intro cond_okI [of _ "xs @ [w]"]) (simp_all only:)
qed

lemma dequeue_ok:
  assumes "waiting_queue (c_queue c) xs"
  shows "waiting_queue (c_queue (dequeue w c)) (remove1 w xs)" "w \<notin> set (remove1 w xs)"
proof -
  show "waiting_queue (c_queue (dequeue w c)) (remove1 w xs)"
  proof (cases "w \<in> set xs")
    case True
    then show ?thesis using waiter_list.leave [OF assms] waiter_list.queued_queue [OF assms] by simp
  next
    case False
    then show ?thesis using remove_waiter_absent [OF assms] assms by (simp add: remove1_idem)
  qed
  show "w \<notin> set (remove1 w xs)" using waiter_list.distinct_queue [OF assms] by simp
qed

lemma cond_step_ok:
  assumes "cond_step s s'" "cond_ok s"
  shows "cond_ok s'"
  using assms
proof (induction rule: cond_step.induct)
  case (enter p w c n)
  then show ?case using enter_ok by blast
next
  case (enter_failed p w c n e)
  then show ?case using enter_ok by blast
next
  case (refuse p w e c n)
  obtain xs where xs: "waiting_queue (c_queue c) xs" "\<And>v. waiter_ok (v \<in> set xs) (c_count c v) (v \<in> n) (p v)"
    using refuse(2) by (auto simp: cond_ok_def)
  have "waiter_ok (v \<in> set (remove1 w xs)) (c_count c v) (v \<in> n) ((p(w := Refused e)) v)" for v
    using xs(2) [of v] dequeue_ok(2) [OF xs(1), of w] by (cases "v = w") simp_all
  then show ?case by (intro cond_okI [OF dequeue_ok(1) [OF xs(1)]]) (simp only: dequeue_simps)
next
  case (woken p w c c' n)
  obtain xs where xs: "waiting_queue (c_queue c) xs" "\<And>v. waiter_ok (v \<in> set xs) (c_count c v) (v \<in> n) (p v)"
    using woken(3) by (auto simp: cond_ok_def)
  have c': "c' = c\<lparr>c_count := (c_count c)(w := c_count c w - 1)\<rparr>" "c_count c w \<noteq> 0"
    using woken(2) by (auto simp: semaphore_take_def split: if_splits)
  have "waiter_ok (v \<in> set xs) (c_count c' v) (v \<in> n) ((p(w := Leaving None)) v)" for v
    using xs(2) [of v] c' woken(1) by (cases "v = w") (auto split: if_splits)
  then show ?case using xs(1) c' by (intro cond_okI [of _ xs]) simp_all
next
  case (interrupted p w c n e)
  obtain xs where xs: "waiting_queue (c_queue c) xs" "\<And>v. waiter_ok (v \<in> set xs) (c_count c v) (v \<in> n) (p v)"
    using interrupted(2) by (auto simp: cond_ok_def)
  have "waiter_ok (v \<in> set xs) (c_count c v) (v \<in> n) ((p(w := Leaving (Some e))) v)" for v
    using xs(2) [of v] interrupted(1) by (cases "v = w") simp_all
  then show ?case by (intro cond_okI [OF xs(1)])
next
  case (settle p w r c r' c' n)
  obtain xs where xs: "waiting_queue (c_queue c) xs" "\<And>v. waiter_ok (v \<in> set xs) (c_count c v) (v \<in> n) (p v)"
    using settle(3) by (auto simp: cond_ok_def)
  note queued = waiter_list.queued_queue [OF xs(1), of w]
  have other: "waiter_ok (v \<in> set (remove1 w xs)) (c_count c v) (v \<in> n) ((p(w := Finished r')) v)"
    if "v \<noteq> w" for v using xs(2) [of v] that by simp
  show ?case
  proof (cases r)
    case None
    then have "r' = None" "c' = c" using settle(2) by (simp_all add: settle_wait_def)
    moreover have "waiter_ok (v \<in> set xs) (c_count c v) (v \<in> n) ((p(w := Finished None)) v)" for v
      using xs(2) [of v] settle(1) None by (cases "v = w") simp_all
    ultimately show ?thesis by (intro cond_okI [of _ xs]) (simp_all only: xs(1))
  next
    case (Some e)
    show ?thesis
    proof (cases "w \<in> set xs")
      case True
      then have s: "r' = Some e" "c' = dequeue w c" using settle(2) queued by (simp_all add: settle_wait_def Some)
      have "waiter_ok (v \<in> set (remove1 w xs)) (c_count c v) (v \<in> n) ((p(w := Finished r')) v)" for v
        using other [of v] xs(2) [of w] dequeue_ok(2) [OF xs(1), of w] True settle(1) Some s(1)
        by (cases "v = w") auto
      then show ?thesis unfolding s(2) by (intro cond_okI [OF dequeue_ok(1) [OF xs(1)]]) (simp only: dequeue_simps)
    next
      case False
      then have "c_count c w = 1" "w \<in> n" using xs(2) [of w] settle(1) Some by simp_all
      then have s: "r' = None" "c' = c\<lparr>c_count := (c_count c)(w := 0)\<rparr>"
        using settle(2) queued False by (auto simp: settle_wait_def Some semaphore_take_def)
      have "waiter_ok (v \<in> set xs) (c_count c' v) (v \<in> n) ((p(w := Finished r')) v)" for v
        using xs(2) [of v] False \<open>w \<in> n\<close> s by (cases "v = w") simp_all
      then show ?thesis using xs(1) s(2) by (intro cond_okI [of _ xs]) simp_all
    qed
  qed
next
  case (signal c p n)
  obtain xs where xs: "waiting_queue (c_queue c) xs" "\<And>v. waiter_ok (v \<in> set xs) (c_count c v) (v \<in> n) (p v)"
    using signal by (auto simp: cond_ok_def)
  show ?case
  proof (cases xs)
    case Nil
    then show ?thesis using signal_first_queue [OF xs(1)] waiter_list.front_queue [OF xs(1)] signal by simp
  next
    case (Cons x rest)
    then have q: "waiting_queue (c_queue (signal_first c)) rest" "x \<notin> set rest"
        "c_count (signal_first c) = (c_count c)(x := c_count c x + 1)" "first_waiter (c_queue c) = Some x"
      using signal_first_queue [OF xs(1)] waiter_list.front_queue [OF xs(1)] waiter_list.distinct_queue [OF xs(1)] by simp_all
    have "waiter_ok (v \<in> set rest) (c_count (signal_first c) v) (v \<in> insert x n) (p v)" for v
      using xs(2) [of v] q(2,3) Cons by (cases "v = x"; cases "p v") (auto simp: waiter_ok_Leaving split: if_splits)
    then show ?thesis using q(1,4) by (intro cond_okI [of _ rest]) simp_all
  qed
next
  case (broadcast c c' p n)
  obtain xs where xs: "waiting_queue (c_queue c) xs" "\<And>v. waiter_ok (v \<in> set xs) (c_count c v) (v \<in> n) (p v)"
    using broadcast(2) by (auto simp: cond_ok_def)
  have q: "waiting_queue (c_queue c') []" "c_count c' = (\<lambda>w. if w \<in> set xs then c_count c w + 1 else c_count c w)"
    using broadcast_queue [OF xs(1)] broadcast(1) by auto
  have "waiter_ok (v \<in> set []) (c_count c' v) (v \<in> n \<union> set xs) (p v)" for v
    using xs(2) [of v] q(2) by (cases "p v") (auto simp: waiter_ok_Leaving split: if_splits)
  then show ?case using q(1) waiter_list.queued_queue [OF xs(1)] by (intro cond_okI [of _ "[]"]) simp_all
qed

section \<open>No wake-up is lost\<close>

lemma cond_steps_ok: "cond_step\<^sup>*\<^sup>* s s' \<Longrightarrow> cond_ok s \<Longrightarrow> cond_ok s'"
  by (induction rule: rtranclp_induct) (auto intro: cond_step_ok)

definition idle_condition :: cond_state where
  "idle_condition =
     (\<lparr>c_queue = \<lparr>store = (\<lambda>w. \<lparr>prev_waiter = None, next_waiter = None, linked = False\<rparr>), first_waiter = None, last_waiter = None\<rparr>,
       c_count = (\<lambda>w. 0)\<rparr>, (\<lambda>w. Outside), {})"

lemma idle_condition_ok: "cond_ok idle_condition"
  unfolding idle_condition_def by (rule cond_okI [where xs = "[]"]) (simp_all add: empty_queue)

text \<open>A wait that has ended reports success if and only if a signal or broadcast released it.\<close>

lemma wait_result_exact:
  assumes "cond_step\<^sup>*\<^sup>* idle_condition (c, p, n)" "p w = Finished r"
  shows "(r = None \<longleftrightarrow> w \<in> n) \<and> \<not> linked (store (c_queue c) w) \<and> c_count c w = 0"
proof -
  obtain xs where xs: "waiting_queue (c_queue c) xs" "waiter_ok (w \<in> set xs) (c_count c w) (w \<in> n) (p w)"
    using cond_steps_ok [OF assms(1) idle_condition_ok] by (auto simp: cond_ok_def)
  then show ?thesis using assms(2) waiter_list.queued_queue [OF xs(1)] by simp
qed

text \<open>Every signal finds a waiter if there is one, and broadcasts always return.\<close>

lemma reachable_queue:
  assumes "cond_step\<^sup>*\<^sup>* idle_condition (c, p, n)"
  shows "\<exists>xs. waiting_queue (c_queue c) xs \<and> (\<exists>c'. broadcast_loop c = Some c')"
  using cond_steps_ok [OF assms idle_condition_ok] broadcast_queue by (fastforce simp: cond_ok_def)

end
