(* ===== verification/Runtime_Threads.thy ===== *)
theory Runtime_Threads
  imports Runtime_Context
begin

text \<open>
  The life cycle of standard threads in \<^verbatim>\<open>platform/runtime/libstdcxx/backend.cpp\<close>: creation with its
  roll-back, the registry of control blocks, and the hand-over of finished threads to the reaper.
  Every critical section under the life-cycle mutex is a definition; the step relation interleaves
  the threads, their joiners and detachers, and the reaper. A control block is named by its address.
\<close>

section \<open>The registry\<close>

type_synonym registry = "(nat \<times> u32) list"

definition register_thread :: "nat \<Rightarrow> registry \<times> u32 \<Rightarrow> registry \<times> u32" where
  "register_thread p = (\<lambda>(reg, next_registry_id).
     (let next_id = next_registry_id + 1 in ((p, next_registry_id) # reg, if next_id = 0 then 1 else next_id)))"

fun unregister_thread :: "nat \<Rightarrow> registry \<Rightarrow> registry" where
  "unregister_thread p [] = []"
| "unregister_thread p (x # reg) = (if fst x = p then reg else x # unregister_thread p reg)"

fun find_thread :: "u32 \<Rightarrow> registry \<Rightarrow> nat option" where
  "find_thread rid [] = None"
| "find_thread rid (x # reg) = (if snd x = rid then Some (fst x) else find_thread rid reg)"

lemma find_thread_unique: "distinct (map snd reg) \<Longrightarrow> find_thread rid reg = Some p \<longleftrightarrow> (p, rid) \<in> set reg"
  by (induction reg) (auto simp: rev_image_eqI)

lemma unregister_thread_set: "distinct (map fst reg) \<Longrightarrow> set (unregister_thread p reg) = {x \<in> set reg. fst x \<noteq> p}"
  by (induction reg) (auto simp: rev_image_eqI)

lemma unregister_thread_distinct:
  "distinct (map snd reg) \<Longrightarrow> distinct (map snd (unregister_thread p reg))"
  "distinct (map fst reg) \<Longrightarrow> distinct (map fst (unregister_thread p reg))"
proof -
  have sub: "set (unregister_thread p reg) \<subseteq> set reg" for reg by (induction reg) auto
  show "distinct (map snd reg) \<Longrightarrow> distinct (map snd (unregister_thread p reg))"
    by (induction reg) (auto dest!: sub [THEN subsetD] simp: rev_image_eqI)
  show "distinct (map fst reg) \<Longrightarrow> distinct (map fst (unregister_thread p reg))"
    by (induction reg) (auto dest!: sub [THEN subsetD] simp: rev_image_eqI)
qed

section \<open>Creation\<close>

text \<open>What is in use, and what the allocator and ThreadX answer.\<close>

record resources =
  control_blocks :: nat
  stacks :: nat
  lifecycle_mutexes :: nat
  completions :: nat
  kernel_threads :: nat
  thread_registry :: registry
  registry_next_id :: u32
  thread_number :: u32

record create_answers =
  control_address :: "nat option"
  stack_allocated :: bool
  mutex_create_status :: tx_status
  semaphore_create_status :: tx_status
  thread_create_status :: tx_status

definition release_memory :: "resources \<Rightarrow> resources" where
  "release_memory r = r\<lparr>stacks := stacks r - 1, control_blocks := control_blocks r - 1\<rparr>"

definition numbered :: "string \<Rightarrow> resources \<Rightarrow> resources" where
  "numbered name r = (if name = [] then r\<lparr>thread_number := thread_number r + 1\<rparr> else r)"

definition create_control ::
  "create_answers \<Rightarrow> string \<Rightarrow> nat \<Rightarrow> resources \<Rightarrow> (errno + nat) \<times> resources" where
  "create_control a name p r =
     (if \<not> stack_allocated a then (Inl EAGAIN, r\<lparr>control_blocks := control_blocks r - 1\<rparr>)
      else
        (let r = numbered name (r\<lparr>stacks := stacks r + 1\<rparr>)
         in if mutex_create_status a \<noteq> TX_SUCCESS then (Inl EAGAIN, release_memory r)
            else
              (let r = r\<lparr>lifecycle_mutexes := lifecycle_mutexes r + 1\<rparr>
               in if semaphore_create_status a \<noteq> TX_SUCCESS
                  then (Inl EAGAIN, release_memory (r\<lparr>lifecycle_mutexes := lifecycle_mutexes r - 1\<rparr>))
                  else
                    (let r = r\<lparr>completions := completions r + 1\<rparr>;
                         (reg, next_id) = register_thread p (thread_registry r, registry_next_id r);
                         r = r\<lparr>thread_registry := reg, registry_next_id := next_id\<rparr>
                     in if thread_create_status a \<noteq> TX_SUCCESS
                        then (Inl EAGAIN, release_memory (r\<lparr>thread_registry := unregister_thread p (thread_registry r),
                          completions := completions r - 1, lifecycle_mutexes := lifecycle_mutexes r - 1\<rparr>))
                        else (Inr p, r\<lparr>kernel_threads := kernel_threads r + 1\<rparr>)))))"

definition thread_create ::
  "caller \<Rightarrow> u32 \<Rightarrow> int \<Rightarrow> bool \<Rightarrow> bool \<Rightarrow> Attributes \<Rightarrow> create_answers \<Rightarrow> resources \<Rightarrow> (errno + nat) \<times> resources" where
  "thread_create c minimum_stack max_priorities thread_given entry_given attributes a r =
     (case require_thread_context c of
        Some e \<Rightarrow> (Inl e, r)
      | None \<Rightarrow>
          if \<not> thread_given \<or> \<not> entry_given then (Inl EINVAL, r)
          else if normalize_thread_stack_size minimum_stack (attr_stack_size attributes) = None then (Inl EINVAL, r)
          else if validate_thread_priority max_priorities (attr_priority attributes) = None then (Inl EINVAL, r)
          else
            (case control_address a of
               None \<Rightarrow> (Inl EAGAIN, r)
             | Some p \<Rightarrow> create_control a (attr_name attributes) p (r\<lparr>control_blocks := control_blocks r + 1\<rparr>)))"

text \<open>All that a failing creation leaves behind is the use of a number and an identifier.\<close>

definition same_resources :: "resources \<Rightarrow> resources \<Rightarrow> bool" where
  "same_resources r r' \<longleftrightarrow> control_blocks r' = control_blocks r \<and> stacks r' = stacks r \<and>
     lifecycle_mutexes r' = lifecycle_mutexes r \<and> completions r' = completions r \<and>
     kernel_threads r' = kernel_threads r \<and> thread_registry r' = thread_registry r"

lemma thread_create_rollback:
  "thread_create c minimum priorities given entry attributes a r = (Inl e, r') \<Longrightarrow> same_resources r r'"
  by (auto simp: thread_create_def create_control_def same_resources_def release_memory_def numbered_def
      register_thread_def Let_def split: option.splits if_splits)

lemma thread_create_success:
  "thread_create c minimum priorities given entry attributes a r = (Inr p, r') \<Longrightarrow>
    control_address a = Some p \<and> kernel_threads r' = kernel_threads r + 1 \<and> control_blocks r' = control_blocks r + 1 \<and>
    stacks r' = stacks r + 1 \<and> lifecycle_mutexes r' = lifecycle_mutexes r + 1 \<and> completions r' = completions r + 1 \<and>
    thread_registry r' = (p, registry_next_id r) # thread_registry r"
  by (auto simp: thread_create_def create_control_def numbered_def
      register_thread_def Let_def split: option.splits if_splits)

lemma register_thread_nonzero:
  "snd s \<noteq> 0 \<Longrightarrow> snd (register_thread p s) \<noteq> 0"
  by (auto simp: register_thread_def Let_def split: prod.splits)

section \<open>The life cycle\<close>

record thread_control =
  registry_id :: u32
  cleanup_ack :: "nat option"
  detached :: bool
  finished :: bool
  cleanup_queued :: bool
  completion :: nat

definition new_control :: "u32 \<Rightarrow> thread_control" where
  "new_control rid = \<lparr>registry_id = rid, cleanup_ack = None, detached = False, finished = False, cleanup_queued = False, completion = 0\<rparr>"

text \<open>The sections of \<open>thread_entry\<close>, \<open>thread_join\<close> and \<open>thread_detach\<close>; a Boolean says whether to enqueue.\<close>

definition thread_finish :: "thread_control \<Rightarrow> bool \<times> thread_control" where
  "thread_finish c =
     (let c = c\<lparr>finished := True\<rparr>; enqueue = detached c \<and> \<not> cleanup_queued c
      in (enqueue, if enqueue then c\<lparr>cleanup_queued := True\<rparr> else c))"

definition thread_join_section :: "nat \<Rightarrow> thread_control \<Rightarrow> errno option \<times> thread_control" where
  "thread_join_section acknowledgement c =
     (if detached c \<or> cleanup_queued c then (Some EINVAL, c)
      else (None, c\<lparr>cleanup_ack := Some acknowledgement, cleanup_queued := True\<rparr>))"

definition thread_detach_section :: "thread_control \<Rightarrow> errno option \<times> bool \<times> thread_control" where
  "thread_detach_section c =
     (if detached c \<or> cleanup_queued c then (Some EINVAL, False, c)
      else
        (let c = c\<lparr>detached := True\<rparr>; enqueue = finished c
         in (None, enqueue, if enqueue then c\<lparr>cleanup_queued := True\<rparr> else c)))"

definition thread_join_guard :: "caller \<Rightarrow> nat option \<Rightarrow> errno option" where
  "thread_join_guard c thread =
     (case require_thread_context c of
        Some e \<Rightarrow> Some e
      | None \<Rightarrow> if thread = None then Some EINVAL else if thread = current_thread c then Some EDEADLK else None)"

definition thread_detach_guard :: "caller \<Rightarrow> nat option \<Rightarrow> errno option" where
  "thread_detach_guard c thread =
     (case require_thread_context c of
        Some e \<Rightarrow> Some e
      | None \<Rightarrow> if thread = None then Some EINVAL else None)"

text \<open>
  A join consumes the completion before its section; \<open>join_failed\<close> is a join whose acknowledgement
  semaphore cannot be created. Where a thread is: in its function, past its section, about to enqueue itself, or
  completed.
\<close>

datatype run_phase = Running | Finishing bool | Sending | Ended

definition CLEANUP_QUEUE_DEPTH :: nat where "CLEANUP_QUEUE_DEPTH = 16"

record threads =
  live :: registry
  next_id :: u32
  controls :: "nat \<Rightarrow> thread_control"
  phases :: "nat \<Rightarrow> run_phase"
  pending :: "nat list"
  cleanup_queue :: "u32 list"

definition update_thread :: "nat \<Rightarrow> thread_control \<Rightarrow> run_phase \<Rightarrow> threads \<Rightarrow> threads" where
  "update_thread p c ph s = s\<lparr>controls := (controls s)(p := c), phases := (phases s)(p := ph)\<rparr>"

definition enqueue_cleanup :: "u32 \<Rightarrow> threads \<Rightarrow> threads" where
  "enqueue_cleanup rid s = s\<lparr>cleanup_queue := cleanup_queue s @ [rid]\<rparr>"

definition reap :: "nat \<Rightarrow> threads \<Rightarrow> threads" where
  "reap p s = s\<lparr>live := unregister_thread p (live s), cleanup_queue := tl (cleanup_queue s)\<rparr>"

inductive thread_step :: "threads \<Rightarrow> threads \<Rightarrow> bool" where
  start: "thread_step s (update_thread p (new_control (next_id s)) Running (s\<lparr>live := reg, next_id := n\<rparr>))"
    if "p \<notin> fst ` set (live s)" "next_id s \<notin> snd ` set (live s)" "register_thread p (live s, next_id s) = (reg, n)"
| finish: "thread_step s (update_thread p c (Finishing enqueue) s)"
    if "p \<in> fst ` set (live s)" "phases s p = Running" "thread_finish (controls s p) = (enqueue, c)"
| complete: "thread_step s (update_thread p ((controls s p)\<lparr>completion := completion (controls s p) + 1\<rparr>)
      (if enqueue then Sending else Ended) s)"
    if "p \<in> fst ` set (live s)" "phases s p = Finishing enqueue"
| send: "thread_step s (enqueue_cleanup (registry_id (controls s p)) (update_thread p (controls s p) Ended s))"
    if "p \<in> fst ` set (live s)" "phases s p = Sending" "length (cleanup_queue s) < CLEANUP_QUEUE_DEPTH"
| join: "thread_step s ((update_thread p (c\<lparr>completion := completion c - 1\<rparr>) (phases s p) s)
      \<lparr>pending := (if r = None then p # pending s else pending s)\<rparr>)"
    if "p \<in> fst ` set (live s)" "completion (controls s p) \<noteq> 0" "thread_join_section a (controls s p) = (r, c)"
| join_failed: "thread_step s (update_thread p ((controls s p)\<lparr>completion := completion (controls s p) - 1\<rparr>) (phases s p) s)"
    if "p \<in> fst ` set (live s)" "completion (controls s p) \<noteq> 0"
| detach: "thread_step s ((update_thread p c (phases s p) s)\<lparr>pending := (if enqueue then p # pending s else pending s)\<rparr>)"
    if "p \<in> fst ` set (live s)" "thread_detach_section (controls s p) = (r, enqueue, c)"
| deliver: "thread_step s (enqueue_cleanup (registry_id (controls s p)) (s\<lparr>pending := remove1 p (pending s)\<rparr>))"
    if "p \<in> set (pending s)" "length (cleanup_queue s) < CLEANUP_QUEUE_DEPTH"
| reaper: "thread_step s (reap p s)"
    if "cleanup_queue s \<noteq> []" "find_thread (hd (cleanup_queue s)) (live s) = Some p" "phases s p = Ended"

text \<open>
  \<open>thread_ok ph c n\<close>: \<open>n\<close> messages about the thread are queued or about to be sent by a joiner or
  detacher; with the one the thread itself may send, there is one exactly when the thread is marked.
\<close>

definition thread_ok :: "run_phase \<Rightarrow> thread_control \<Rightarrow> nat \<Rightarrow> bool" where
  "thread_ok ph c n \<longleftrightarrow>
     n + (if ph = Finishing True \<or> ph = Sending then 1 else 0) = (if cleanup_queued c then 1 else 0) \<and>
     (finished c \<longleftrightarrow> ph \<noteq> Running) \<and> (finished c \<and> detached c \<longrightarrow> cleanup_queued c) \<and> (cleanup_queued c \<longrightarrow> finished c) \<and>
     (completion c \<noteq> 0 \<longrightarrow> ph = Sending \<or> ph = Ended) \<and> (cleanup_queued c \<and> \<not> detached c \<longleftrightarrow> cleanup_ack c \<noteq> None)"

abbreviation messages :: "threads \<Rightarrow> nat \<Rightarrow> u32 \<Rightarrow> nat" where
  "messages s p rid \<equiv> count_list (pending s) p + count_list (cleanup_queue s) rid"

definition threads_ok :: "threads \<Rightarrow> bool" where
  "threads_ok s \<longleftrightarrow> distinct (map fst (live s)) \<and> distinct (map snd (live s)) \<and>
     set (pending s) \<subseteq> fst ` set (live s) \<and> set (cleanup_queue s) \<subseteq> snd ` set (live s) \<and>
     (\<forall>(p, rid) \<in> set (live s). registry_id (controls s p) = rid \<and> thread_ok (phases s p) (controls s p) (messages s p rid))"

section \<open>Exactly one message per thread\<close>

lemma finish_ok:
  "thread_ok Running c n \<Longrightarrow> thread_finish c = (enqueue, c') \<Longrightarrow>
    thread_ok (Finishing enqueue) c' n \<and> registry_id c' = registry_id c"
  by (auto simp: thread_ok_def thread_finish_def Let_def split: if_splits)

lemma complete_ok:
  "thread_ok (Finishing enqueue) c n \<Longrightarrow>
    thread_ok (if enqueue then Sending else Ended) (c\<lparr>completion := completion c + 1\<rparr>) n"
  by (auto simp: thread_ok_def split: if_splits)

lemma send_ok: "thread_ok Sending c n \<Longrightarrow> thread_ok Ended c (n + 1)"
  by (auto simp: thread_ok_def split: if_splits)

lemma join_ok:
  "thread_ok ph c n \<Longrightarrow> completion c \<noteq> 0 \<Longrightarrow> thread_join_section a c = (r, c') \<Longrightarrow>
    thread_ok ph (c'\<lparr>completion := completion c' - 1\<rparr>) (if r = None then n + 1 else n) \<and> registry_id c' = registry_id c"
  by (auto simp: thread_ok_def thread_join_section_def split: if_splits)

lemma detach_ok:
  "thread_ok ph c n \<Longrightarrow> thread_detach_section c = (r, enqueue, c') \<Longrightarrow>
    thread_ok ph c' (if enqueue then n + 1 else n) \<and> registry_id c' = registry_id c"
  by (auto simp: thread_ok_def thread_detach_section_def Let_def split: if_splits)

lemma threads_ok_at:
  assumes "threads_ok s" "p \<in> fst ` set (live s)"
  shows "(p, registry_id (controls s p)) \<in> set (live s) \<and>
    thread_ok (phases s p) (controls s p) (messages s p (registry_id (controls s p)))"
  using assms by (auto simp: threads_ok_def)

lemma threads_okI:
  assumes ok: "threads_ok s" and p: "(p, rid) \<in> set (live s)" and live: "live s' = live s"
    and sub: "set (pending s') \<subseteq> insert p (set (pending s))" "set (cleanup_queue s') \<subseteq> insert rid (set (cleanup_queue s))"
    and at: "registry_id (controls s' p) = rid" "thread_ok (phases s' p) (controls s' p) (messages s' p rid)"
    and other: "\<And>q i. q \<noteq> p \<Longrightarrow> i \<noteq> rid \<Longrightarrow>
      controls s' q = controls s q \<and> phases s' q = phases s q \<and> messages s' q i = messages s q i"
  shows "threads_ok s'"
proof -
  have d: "distinct (map fst (live s))" "distinct (map snd (live s))" using ok by (simp_all add: threads_ok_def)
  have "registry_id (controls s' q) = i \<and> thread_ok (phases s' q) (controls s' q) (messages s' q i)"
    if q: "(q, i) \<in> set (live s)" for q i
  proof (cases "q = p")
    case True
    then have "i = rid" using eq_key_imp_eq_value [OF d(1) p, of i] q by simp
    then show ?thesis using True at by simp
  next
    case False
    then have "i \<noteq> rid" using d(2) p q find_thread_unique [OF d(2)] by (metis option.inject)
    then show ?thesis using other [of q i] False threads_ok_at [OF ok, of q] ok q unfolding threads_ok_def by fastforce
  qed
  moreover have "set (pending s') \<subseteq> fst ` set (live s)" "set (cleanup_queue s') \<subseteq> snd ` set (live s)"
    using sub ok image_eqI [OF _ p, of p fst] image_eqI [OF _ p, of rid snd]
    unfolding threads_ok_def by auto
  ultimately show ?thesis using d by (auto simp: threads_ok_def live)
qed

lemmas step_simps = update_thread_def enqueue_cleanup_def

lemma thread_step_ok: "thread_step s s' \<Longrightarrow> threads_ok s \<Longrightarrow> threads_ok s'"
proof (induction rule: thread_step.induct)
  case (start p s reg n)
  have reg: "reg = (p, next_id s) # live s" using start(3) by (simp add: register_thread_def Let_def)
  have "count_list (pending s) p = 0" "count_list (cleanup_queue s) (next_id s) = 0"
    using start by (auto simp: threads_ok_def count_list_0_iff)
  then have "thread_ok Running (new_control (next_id s)) (messages s p (next_id s))"
    by (simp add: thread_ok_def new_control_def)
  moreover have "q \<noteq> p" if "(q, i) \<in> set (live s)" for q i using start(1) that by force
  ultimately show ?case using start
    by (auto simp: threads_ok_def reg step_simps new_control_def)
next
  case (finish p s enqueue c)
  note here = threads_ok_at [OF finish(4,1)]
  show ?case using finish_ok [OF _ finish(3)] here finish(2)
    by (intro threads_okI [OF finish(4) conjunct1 [OF here]]) (auto simp: step_simps)
next
  case (complete p s enqueue)
  note here = threads_ok_at [OF complete(3,1)]
  show ?case using complete_ok here complete(2)
    by (intro threads_okI [OF complete(3) conjunct1 [OF here]]) (auto simp: step_simps)
next
  case (send p s)
  note here = threads_ok_at [OF send(4,1)]
  show ?case using send_ok here send(2)
    by (intro threads_okI [OF send(4) conjunct1 [OF here]]) (auto simp: step_simps)
next
  case (join p s a r c)
  note here = threads_ok_at [OF join(4,1)]
  show ?case using join_ok [OF conjunct2 [OF here] join(2,3)]
    by (intro threads_okI [OF join(4) conjunct1 [OF here]]) (auto simp: step_simps)
next
  case (join_failed p s)
  note here = threads_ok_at [OF join_failed(3,1)]
  then have "thread_ok (phases s p) ((controls s p)\<lparr>completion := completion (controls s p) - 1\<rparr>)
      (messages s p (registry_id (controls s p)))" by (auto simp: thread_ok_def)
  then show ?case
    using here by (intro threads_okI [OF join_failed(3) conjunct1 [OF here]]) (auto simp: step_simps)
next
  case (detach p s r enqueue c)
  note here = threads_ok_at [OF detach(3,1)]
  show ?case using detach_ok [OF conjunct2 [OF here] detach(2)]
    by (intro threads_okI [OF detach(3) conjunct1 [OF here]]) (auto simp: step_simps)
next
  case (deliver p s)
  have p: "p \<in> fst ` set (live s)" using deliver(1,3) by (auto simp: threads_ok_def)
  note here = threads_ok_at [OF deliver(3) p]
  have "count_list (pending s) p = count_list (remove1 p (pending s)) p + 1"
    using deliver(1) count_list_0_iff [of "pending s" p] by simp
  moreover have "count_list (remove1 p (pending s)) q = count_list (pending s) q" if "q \<noteq> p" for q
    using that by (simp add: count_list_remove1)
  ultimately show ?case using here
    by (intro threads_okI [OF deliver(3) conjunct1 [OF here]]) (auto simp: step_simps dest: in_set_remove1)
next
  case (reaper s p)
  then obtain rid rest where queue: "cleanup_queue s = rid # rest" by (cases "cleanup_queue s") auto
  have d: "distinct (map fst (live s))" "distinct (map snd (live s))" using reaper(4) by (simp_all add: threads_ok_def)
  have p: "(p, rid) \<in> set (live s)" using find_thread_unique [OF d(2)] reaper(2) queue by simp
  then have "registry_id (controls s p) = rid" "thread_ok Ended (controls s p) (messages s p rid)"
    using reaper(3,4) by (auto simp: threads_ok_def)
  then have once: "count_list (pending s) p = 0" "count_list rest rid = 0"
    using queue by (auto simp: thread_ok_def split: if_splits)
  have live: "set (live (reap p s)) = {x \<in> set (live s). fst x \<noteq> p}"
    by (simp add: reap_def unregister_thread_set [OF d(1)])
  have other: "i \<noteq> rid" if "(q, i) \<in> set (live s)" "q \<noteq> p" for q i
    using that p find_thread_unique [OF d(2)] by (metis option.inject)
  have "registry_id (controls s q) = i \<and> thread_ok (phases s q) (controls s q) (messages (reap p s) q i)"
    if "(q, i) \<in> set (live s)" "q \<noteq> p" for q i
  proof -
    have "messages (reap p s) q i = messages s q i" using other [OF that] queue by (simp add: reap_def)
    then show ?thesis using that(1) reaper(4) by (auto simp: threads_ok_def)
  qed
  moreover have "set (pending s) \<subseteq> fst ` set (live (reap p s))"
    using reaper(4) once(1) unfolding live by (force simp: threads_ok_def count_list_0_iff)
  moreover have "set rest \<subseteq> snd ` set (live (reap p s))"
  proof
    fix i assume i: "i \<in> set rest"
    then obtain q where q: "(q, i) \<in> set (live s)" using reaper(4) queue by (force simp: threads_ok_def)
    have "i \<noteq> rid" using i once(2) by (auto simp: count_list_0_iff)
    then have "q \<noteq> p" using q p eq_key_imp_eq_value [OF d(1)] by blast
    then show "i \<in> snd ` set (live (reap p s))" using q unfolding live by force
  qed
  ultimately show ?case
    using unregister_thread_distinct d live queue by (auto simp: threads_ok_def reap_def)
qed

definition no_threads :: threads where
  "no_threads = \<lparr>live = [], next_id = 1, controls = (\<lambda>p. new_control 0), phases = (\<lambda>p. Ended), pending = [], cleanup_queue = []\<rparr>"

lemma thread_steps_ok: "thread_step\<^sup>*\<^sup>* no_threads s \<Longrightarrow> threads_ok s"
proof (induction rule: rtranclp_induct)
  case base
  then show ?case by (simp add: threads_ok_def no_threads_def)
next
  case (step s t)
  then show ?case using thread_step_ok by blast
qed

text \<open>The reaper always finds the thread a message names, and no thread is named twice.\<close>

lemma reaper_finds:
  assumes "threads_ok s" "cleanup_queue s = rid # rest"
  shows "\<exists>p. find_thread rid (live s) = Some p \<and> finished (controls s p) \<and> rid \<notin> set rest \<and> p \<notin> set (pending s)"
proof -
  have d: "distinct (map snd (live s))" using assms(1) by (simp add: threads_ok_def)
  obtain p where p: "(p, rid) \<in> set (live s)" using assms by (force simp: threads_ok_def)
  then have "thread_ok (phases s p) (controls s p) (messages s p rid)" using assms(1) by (auto simp: threads_ok_def)
  then have "finished (controls s p)" "count_list rest rid = 0" "count_list (pending s) p = 0"
    using assms(2) by (auto simp: thread_ok_def split: if_splits)
  then show ?thesis using p find_thread_unique [OF d] by (auto simp: count_list_0_iff)
qed

text \<open>A completed thread that was detached or joined has its message on the way: nothing leaks.\<close>

lemma completed_is_named:
  assumes "threads_ok s" "(p, rid) \<in> set (live s)" "phases s p = Ended"
    and "detached (controls s p) \<or> cleanup_ack (controls s p) \<noteq> None"
  shows "messages s p rid = 1"
proof -
  have "thread_ok (phases s p) (controls s p) (messages s p rid)" using assms(1,2) by (auto simp: threads_ok_def)
  then have "cleanup_queued (controls s p)" using assms(3,4) by (auto simp: thread_ok_def)
  then show ?thesis using \<open>thread_ok _ _ _\<close> assms(3) by (simp add: thread_ok_def)
qed

text \<open>Nobody names a thread that still runs its function.\<close>

lemma running_is_not_named:
  assumes "threads_ok s" "(p, rid) \<in> set (live s)" "phases s p = Running"
  shows "p \<notin> set (pending s) \<and> rid \<notin> set (cleanup_queue s)"
proof -
  have "thread_ok (phases s p) (controls s p) (messages s p rid)" using assms(1,2) by (auto simp: threads_ok_def)
  then have "messages s p rid = 0" using assms(3) by (auto simp: thread_ok_def split: if_splits)
  then show ?thesis by (simp add: count_list_0_iff)
qed

end
