(* ===== verification/Runtime_Once.thy ===== *)
theory Runtime_Once
  imports Runtime_Context
begin

text \<open>
  Code that must run once: \<open>once\<close> in \<^verbatim>\<open>platform/runtime/libstdcxx/backend.cpp\<close> and the guards of
  function-local statics in \<^verbatim>\<open>cxx_guard.cpp\<close>. Both keep a small state that is only changed while a
  global mutex is held, and both leave the mutex while the user's function runs. A section is a
  definition; the step relation interleaves any number of threads, each of which may find the
  function failing with an exception and may try again.
\<close>

section \<open>The sections\<close>

text \<open>What a caller does after its section: return, run the function, or sleep and look again.\<close>

datatype decision = Return | Run | Sleep

definition once_guard :: "caller \<Rightarrow> bool \<Rightarrow> bool \<Rightarrow> errno option" where
  "once_guard c control_given function_given =
     (case require_thread_context c of
        Some e \<Rightarrow> Some e
      | None \<Rightarrow> if \<not> control_given \<or> \<not> function_given then Some EINVAL else None)"

definition once_section :: "u32 \<Rightarrow> decision \<times> u32" where
  "once_section state = (if state = 2 then (Return, state) else if state = 0 then (Run, 1) else (Sleep, state))"

definition once_leave :: "bool \<Rightarrow> u32" where
  "once_leave completed = (if completed then 2 else 0)"

text \<open>The two guard bytes: initialisation is complete, and in progress.\<close>

record guard =
  guard_initialized :: u8
  guard_in_progress :: u8

definition guard_section :: "guard \<Rightarrow> decision \<times> guard" where
  "guard_section g =
     (if guard_initialized g \<noteq> 0 then (Return, g)
      else if guard_in_progress g = 0 then (Run, g\<lparr>guard_in_progress := 1\<rparr>)
      else (Sleep, g))"

definition cxa_guard_release :: "guard \<Rightarrow> guard" where
  "cxa_guard_release g = g\<lparr>guard_in_progress := 0, guard_initialized := 1\<rparr>"

definition cxa_guard_abort :: "guard \<Rightarrow> guard" where
  "cxa_guard_abort g = g\<lparr>guard_in_progress := 0\<rparr>"

definition guard_leave :: "bool \<Rightarrow> guard \<Rightarrow> guard" where
  "guard_leave completed g = (if completed then cxa_guard_release g else cxa_guard_abort g)"

text \<open>
  Whether the guard functions lock: \<open>None\<close> is a call that ends the program. Before the runtime is
  active, and outside a thread, there is nothing to lock.
\<close>

definition guard_locking_required :: "caller \<Rightarrow> bool \<Rightarrow> bool option" where
  "guard_locking_required c mutex_ready =
     (if interrupt_context c then None
      else if \<not> initialized c \<or> current_thread c = None then Some False
      else if \<not> mutex_ready then None
      else Some True)"

text \<open>
  \<open>__cxa_guard_acquire\<close> up to its first sleep: \<open>Some 0\<close> or \<open>Some 1\<close> is its result, and \<open>None\<close> with
  locking is the sleep before the next round. Without locking a guard in progress is a recursive
  initialisation, which ends the program.
\<close>

definition cxa_guard_acquire :: "bool \<Rightarrow> guard \<Rightarrow> (nat option \<times> guard) option" where
  "cxa_guard_acquire locked g =
     (if guard_initialized g \<noteq> 0 then Some (Some 0, g)
      else
        (case guard_section g of
           (Return, g) \<Rightarrow> Some (Some 0, g)
         | (Run, g) \<Rightarrow> Some (Some 1, g)
         | (Sleep, g) \<Rightarrow> if \<not> locked then None else Some (None, g)))"

section \<open>The contract\<close>

text \<open>
  \<open>state\<close> reads the object: 0 untouched, 1 in progress, 2 complete.
\<close>

locale once_object =
  fixes enter :: "'o \<Rightarrow> decision \<times> 'o" and leave :: "bool \<Rightarrow> 'o \<Rightarrow> 'o" and state :: "'o \<Rightarrow> nat"
  assumes enter_untouched: "state x = 0 \<Longrightarrow> fst (enter x) = Run \<and> state (snd (enter x)) = 1"
    and enter_busy: "state x = 1 \<Longrightarrow> enter x = (Sleep, x)"
    and enter_complete: "state x = 2 \<Longrightarrow> enter x = (Return, x)"
    and state_range: "state x \<le> 2"
    and leave_state: "state x = 1 \<Longrightarrow> state (leave completed x) = (if completed then 2 else 0)"

datatype caller_phase = Calling | Inside | Done | Thrown

text \<open>The number counts how often the function has completed.\<close>

inductive once_step ::
  "('o \<Rightarrow> decision \<times> 'o) \<Rightarrow> (bool \<Rightarrow> 'o \<Rightarrow> 'o) \<Rightarrow> 'o \<times> (nat \<Rightarrow> caller_phase) \<times> nat \<Rightarrow> 'o \<times> (nat \<Rightarrow> caller_phase) \<times> nat \<Rightarrow> bool"
  for enter leave where
  look: "once_step enter leave (x, p, n) (x', p(t := (case d of Return \<Rightarrow> Done | Run \<Rightarrow> Inside | Sleep \<Rightarrow> Calling)), n)"
    if "p t = Calling" "enter x = (d, x')"
| completes: "once_step enter leave (x, p, n) (leave True x, p(t := Done), n + 1)" if "p t = Inside"
| throws: "once_step enter leave (x, p, n) (leave False x, p(t := Thrown), n)" if "p t = Inside"
| again: "once_step enter leave (x, p, n) (x, p(t := Calling), n)" if "p t = Done \<or> p t = Thrown"

context once_object
begin

definition once_ok :: "'o \<times> (nat \<Rightarrow> caller_phase) \<times> nat \<Rightarrow> bool" where
  "once_ok = (\<lambda>(x, p, n). (state x = 1 \<longleftrightarrow> (\<exists>t. p t = Inside)) \<and> (\<forall>t u. p t = Inside \<and> p u = Inside \<longrightarrow> t = u) \<and>
     n = (if state x = 2 then 1 else 0) \<and> ((\<exists>t. p t = Done) \<longrightarrow> state x = 2))"

lemma enter_cases:
  assumes "enter x = (d, x')"
  shows "(state x = 0 \<and> d = Run \<and> state x' = 1) \<or> (state x = 1 \<and> d = Sleep \<and> x' = x) \<or> (state x = 2 \<and> d = Return \<and> x' = x)"
proof -
  consider "state x = 0" | "state x = 1" | "state x = 2" using state_range [of x] by linarith
  then show ?thesis using assms enter_untouched [of x] enter_busy [of x] enter_complete [of x] by cases auto
qed

lemma once_step_ok:
  assumes "once_step enter leave s s'" "once_ok s"
  shows "once_ok s'"
  using assms
proof (induction rule: once_step.induct)
  case (look p t x d x' n)
  have pt: "p t \<noteq> Inside" using look(1) by simp
  from enter_cases [OF look(2)] show ?case
  proof (elim disjE conjE)
    assume a: "state x = 0" "d = Run" "state x' = 1"
    then have "\<And>u. p u \<noteq> Inside" "\<And>u. p u \<noteq> Done" using look(3) by (auto simp: once_ok_def)
    then show ?thesis using a look(3) by (auto simp: once_ok_def)
  next
    assume a: "state x = 1" "d = Sleep" "x' = x"
    then have "p(t := Calling) = p" using look(1) by auto
    then show ?thesis using a look(3) by simp
  next
    assume a: "state x = 2" "d = Return" "x' = x"
    then show ?thesis using pt look(3) by (auto simp: once_ok_def split: if_splits)
  qed
next
  case (completes p t x n)
  then have x: "state x = 1" "n = 0" by (auto simp: once_ok_def)
  then have "p u \<noteq> Inside" if "u \<noteq> t" for u using completes that by (auto simp: once_ok_def)
  then show ?case using x leave_state [of x True] by (auto simp: once_ok_def)
next
  case (throws p t x n)
  then have x: "state x = 1" "n = 0" by (auto simp: once_ok_def)
  then have "p u \<noteq> Inside" if "u \<noteq> t" for u using throws that by (auto simp: once_ok_def)
  moreover have "p u \<noteq> Done" for u using throws x by (auto simp: once_ok_def)
  ultimately show ?case using x leave_state [of x False] by (auto simp: once_ok_def)
next
  case (again p t x n)
  have "(p(t := Calling)) u = Inside \<longleftrightarrow> p u = Inside" "(p(t := Calling)) u = Done \<longrightarrow> p u = Done" for u
    using again(1) by auto
  then show ?case using again(2) unfolding once_ok_def by auto
qed

text \<open>From an untouched object: at most one completion, and whoever returned has seen it.\<close>

lemma once_exactly:
  assumes "(once_step enter leave)\<^sup>*\<^sup>* (x, \<lambda>t. Calling, 0) (y, p, n)" "state x = 0"
  shows "n \<le> 1 \<and> (\<forall>t. p t = Done \<longrightarrow> n = 1) \<and> (\<forall>t u. p t = Inside \<and> p u = Inside \<longrightarrow> t = u) \<and>
    (n = 1 \<longrightarrow> (\<forall>t. p t \<noteq> Inside))"
proof -
  have "once_ok (x, \<lambda>t. Calling, 0)" using assms(2) by (simp add: once_ok_def)
  with assms(1) have "once_ok (y, p, n)"
    by (induction rule: rtranclp_induct) (auto intro: once_step_ok)
  then show ?thesis by (auto simp: once_ok_def split: if_splits)
qed

end

section \<open>Both objects meet it\<close>

definition once_state :: "u32 \<Rightarrow> nat" where
  "once_state x = (if x = 2 then 2 else if x = 0 then 0 else 1)"

definition guard_state :: "guard \<Rightarrow> nat" where
  "guard_state g = (if guard_initialized g \<noteq> 0 then 2 else if guard_in_progress g \<noteq> 0 then 1 else 0)"

interpretation call_once: once_object once_section "\<lambda>completed x. once_leave completed" once_state
  by unfold_locales (auto simp: once_section_def once_leave_def once_state_def split: if_splits)

interpretation static_guard: once_object guard_section guard_leave guard_state
  by unfold_locales
    (auto simp: guard_section_def guard_leave_def cxa_guard_release_def cxa_guard_abort_def guard_state_def split: if_splits)

text \<open>A call that does not lock never waits: it returns, runs, or reports the recursion.\<close>

lemma unlocked_acquire: "cxa_guard_acquire False g \<noteq> Some (None, g')"
  by (auto simp: cxa_guard_acquire_def split: prod.splits decision.splits)

end
