(* ===== verification/Runtime_Std.thy ===== *)
theory Runtime_Std
  imports Runtime_Threads Runtime_Locks "HOL-Library.Signed_Division"
begin

text \<open>
  The classes of the standard library over the back end: \<^verbatim>\<open>std::thread\<close> of
  \<^verbatim>\<open>platform/runtime/libstdcxx/thread.cpp\<close>, \<^verbatim>\<open>runtime::thread::create\<close> of \<^verbatim>\<open>platform/runtime/thread.hpp\<close> with the
  attributes published for the calling thread, and the semaphore of
  \<^verbatim>\<open>libstdcxx/include/bits/semaphore_base.h\<close>. A call that ends the program is \<open>None\<close>.
\<close>

section \<open>Attributes of the next thread\<close>

text \<open>The pending attributes of the calling thread.\<close>

definition publish_attributes :: "Attributes \<Rightarrow> Attributes option \<Rightarrow> Attributes option" where
  "publish_attributes attributes published = Some attributes"

definition consume_attributes :: "Attributes option \<Rightarrow> Attributes option \<times> Attributes option" where
  "consume_attributes published = (published, None)"

definition default_attributes :: Attributes where
  "default_attributes = \<lparr>attr_name = [], attr_priority = - 1, attr_stack_size = 0\<rparr>"

section \<open>Threads\<close>

datatype thread_exception = Bad_alloc | System_failure errno

type_synonym thread_object = "nat option"

definition start_thread ::
  "caller \<Rightarrow> u32 \<Rightarrow> int \<Rightarrow> create_answers \<Rightarrow> Attributes option \<times> resources \<Rightarrow>
   (thread_exception + thread_object) \<times> Attributes option \<times> resources" where
  "start_thread c minimum_stack max_priorities a s =
     (let (published, r) = s;
          (attributes, published) = consume_attributes published;
          (result, r) = thread_create c minimum_stack max_priorities True True
            (case attributes of None \<Rightarrow> default_attributes | Some attributes \<Rightarrow> attributes) a r
      in (case result of Inl e \<Rightarrow> Inl (System_failure e) | Inr thread \<Rightarrow> Inr (Some thread), published, r))"

text \<open>The constructor of \<^verbatim>\<open>std::thread\<close> allocates its state before it starts the thread.\<close>

definition create_thread ::
  "caller \<Rightarrow> u32 \<Rightarrow> int \<Rightarrow> Attributes \<Rightarrow> bool \<Rightarrow> create_answers \<Rightarrow> Attributes option \<times> resources \<Rightarrow>
   (thread_exception + thread_object) \<times> Attributes option \<times> resources" where
  "create_thread c minimum_stack max_priorities attributes state_allocated a s =
     (let (published, r) = s;
          (previous, published) = consume_attributes published;
          published = publish_attributes attributes published;
          (result, published, r) =
            (if state_allocated then start_thread c minimum_stack max_priorities a (published, r) else (Inl Bad_alloc, published, r));
          (_, published) = consume_attributes published
      in (result, (case previous of None \<Rightarrow> published | Some previous \<Rightarrow> publish_attributes previous published), r))"

text \<open>
  \<^verbatim>\<open>join\<close> and \<^verbatim>\<open>detach\<close> change the object only on success; \<open>join\<close> and \<open>detach\<close> are the answers of the back end
  for its thread, and \<open>self\<close> is the calling thread.
\<close>

definition std_join :: "nat option \<Rightarrow> (nat \<Rightarrow> errno option) \<Rightarrow> thread_object \<Rightarrow> errno option \<times> thread_object" where
  "std_join self join t =
     (case t of
        None \<Rightarrow> (Some EINVAL, t)
      | Some p \<Rightarrow>
          if t = self then (Some EDEADLK, t)
          else (case join p of Some e \<Rightarrow> (Some e, t) | None \<Rightarrow> (None, None)))"

definition std_detach :: "(nat \<Rightarrow> errno option) \<Rightarrow> thread_object \<Rightarrow> errno option \<times> thread_object" where
  "std_detach detach t =
     (case t of
        None \<Rightarrow> (Some EINVAL, t)
      | Some p \<Rightarrow> (case detach p of Some e \<Rightarrow> (Some e, t) | None \<Rightarrow> (None, None)))"

text \<open>
  The attributes given reach the back end whatever was published before, what was published is pending again
  afterwards on every path, and a failure leaves no resources behind.
\<close>

lemma create_thread_scoped:
  assumes "create_thread c minimum priorities attributes state_allocated a (published, r) = (result, published', r')"
  shows "published' = published \<and>
    (if state_allocated
     then result = (case fst (thread_create c minimum priorities True True attributes a r) of
         Inl e \<Rightarrow> Inl (System_failure e) | Inr p \<Rightarrow> Inr (Some p)) \<and>
       r' = snd (thread_create c minimum priorities True True attributes a r)
     else result = Inl Bad_alloc \<and> r' = r) \<and>
    (isl result \<longrightarrow> same_resources r r')"
proof -
  obtain answer s where create: "thread_create c minimum priorities True True attributes a r = (answer, s)" by fastforce
  have "isl answer \<Longrightarrow> same_resources r s" using thread_create_rollback create by (cases answer) simp_all
  moreover have "same_resources r r" by (simp add: same_resources_def)
  ultimately show ?thesis using assms create
    by (cases answer; cases published)
      (auto simp: create_thread_def start_thread_def consume_attributes_def publish_attributes_def split: if_splits)
qed

text \<open>Published attributes serve one thread: the next one gets the defaults.\<close>

lemma start_thread_once:
  assumes "start_thread c minimum priorities a (published, r) = (result, published', r')"
  shows "start_thread c minimum priorities b (published', r') =
    (case thread_create c minimum priorities True True default_attributes b r' of
       (Inl e, s) \<Rightarrow> (Inl (System_failure e), None, s) | (Inr p, s) \<Rightarrow> (Inr (Some p), None, s))"
  using assms by (auto simp: start_thread_def consume_attributes_def Let_def split: prod.splits sum.splits)

text \<open>An object gives its thread away once: after a join or a detach that succeeds, both are refused.\<close>

lemma join_detach_once:
  "fst (std_join self join t) = None \<or> fst (std_detach detach t) = None \<Longrightarrow> t \<noteq> None"
  "fst (std_join self join t) = None \<Longrightarrow> std_join self' join' (snd (std_join self join t)) = (Some EINVAL, None)"
  "fst (std_join self join t) = None \<Longrightarrow> std_detach detach' (snd (std_join self join t)) = (Some EINVAL, None)"
  "fst (std_detach detach t) = None \<Longrightarrow> std_join self' join' (snd (std_detach detach t)) = (Some EINVAL, None)"
  "fst (std_detach detach t) = None \<Longrightarrow> std_detach detach' (snd (std_detach detach t)) = (Some EINVAL, None)"
  by (auto simp: std_join_def std_detach_def split: option.splits if_splits)

section \<open>Semaphores\<close>

text \<open>A semaphore is its ThreadX object, made at the first use, and its initial value.\<close>

type_synonym semaphore_object = "nat option \<times> u32"

definition threadx_semaphore :: "int \<Rightarrow> semaphore_object option" where
  "threadx_semaphore n =
     (if n < 0 then None
      else (case semaphore_init True (word_of_int n) (None, 0) of (None, h) \<Rightarrow> Some h | _ \<Rightarrow> None))"

definition destroy_semaphore :: "'k kernel \<Rightarrow> semaphore_object \<Rightarrow> 'k \<Rightarrow> 'k option" where
  "destroy_semaphore api h k = (case semaphore_destroy api True (fst h) k of (None, _, k) \<Rightarrow> Some k | _ \<Rightarrow> None)"

definition acquire :: "'k kernel \<Rightarrow> caller \<Rightarrow> semaphore_object \<times> 'k \<Rightarrow> (semaphore_object \<times> 'k) option" where
  "acquire api c = (\<lambda>((h, n), k).
     case semaphore_wait api c True n h k of (None, h, k) \<Rightarrow> Some ((h, n), k) | _ \<Rightarrow> None)"

definition try_acquire :: "'k kernel \<Rightarrow> caller \<Rightarrow> semaphore_object \<times> 'k \<Rightarrow> (bool \<times> semaphore_object \<times> 'k) option" where
  "try_acquire api c = (\<lambda>((h, n), k).
     let (status, h, k) = semaphore_try_wait api c True n h k
     in if status \<noteq> None \<and> status \<noteq> Some EAGAIN then None else Some (status = None, (h, n), k))"

function release_permits :: "'k kernel \<Rightarrow> caller \<Rightarrow> int \<Rightarrow> semaphore_object \<times> 'k \<Rightarrow> (semaphore_object \<times> 'k) option" where
  "release_permits api c update s =
     (if update > 0
      then
        (case s of ((h, n), k) \<Rightarrow>
           case semaphore_post api c True n h k of
             (None, h, k) \<Rightarrow> release_permits api c (update - 1) ((h, n), k)
           | (Some _, _, _) \<Rightarrow> None)
      else Some s)"
  by pat_completeness auto
termination by (relation "measure (\<lambda>(_, _, update, _). nat update)") auto

declare release_permits.simps [simp del]

text \<open>
  The system clock is read in nanoseconds. The outer option is the wait that does not end, the inner one the end of
  the program.
\<close>

definition native_deadline :: "int \<Rightarrow> TimePoint" where
  "native_deadline deadline = (let seconds = deadline sdiv 1000000000 in \<lparr>tv_sec = seconds, tv_nsec = deadline - seconds * 1000000000\<rparr>)"

definition try_acquire_until ::
  "'k kernel \<Rightarrow> ('k \<Rightarrow> int \<times> 'k) \<Rightarrow> caller \<Rightarrow> int \<Rightarrow> semaphore_object \<times> 'k \<Rightarrow> (bool \<times> semaphore_object \<times> 'k) option option" where
  "try_acquire_until api clock c deadline = (\<lambda>((h, n), k).
     map_option (\<lambda>(status, h, k). if status \<noteq> None \<and> status \<noteq> Some ETIMEDOUT then None else Some (status = None, (h, n), k))
       (semaphore_timed_wait api clock c True n (Some (native_deadline deadline)) h k))"

text \<open>The deadline on another clock; \<open>try_acquire_for\<close> uses the steady clock.\<close>

definition try_acquire_until_on ::
  "'k kernel \<Rightarrow> ('k \<Rightarrow> int \<times> 'k) \<Rightarrow> ('k \<Rightarrow> int \<times> 'k) \<Rightarrow> caller \<Rightarrow> int \<Rightarrow> semaphore_object \<times> 'k \<Rightarrow>
   (bool \<times> semaphore_object \<times> 'k) option option" where
  "try_acquire_until_on api system clock c deadline = (\<lambda>(h, k).
     let (now, k) = clock k; remaining = deadline - now
     in if remaining \<le> 0 then Some (try_acquire api c (h, k))
        else (let (now, k) = system k in try_acquire_until api system c (now + remaining) (h, k)))"

definition try_acquire_for ::
  "'k kernel \<Rightarrow> ('k \<Rightarrow> int \<times> 'k) \<Rightarrow> ('k \<Rightarrow> int \<times> 'k) \<Rightarrow> caller \<Rightarrow> int \<Rightarrow> semaphore_object \<times> 'k \<Rightarrow>
   (bool \<times> semaphore_object \<times> 'k) option option" where
  "try_acquire_for api system steady c duration = (\<lambda>(h, k).
     let (now, k) = steady k in try_acquire_until_on api system steady c (now + duration) (h, k))"

subsection \<open>A semaphore is a counter\<close>

text \<open>The documented outcomes of the ThreadX calls that can be decided without waiting.\<close>

definition semaphore_laws :: "'k kernel \<Rightarrow> (nat \<Rightarrow> 'k \<Rightarrow> nat) \<Rightarrow> bool" where
  "semaphore_laws api permits \<longleftrightarrow>
     (\<forall>n m k k'. tx_semaphore_create api n m k = (TX_SUCCESS, k') \<longrightarrow> permits m k' = unat n) \<and>
     (\<forall>m k. 0 < permits m k \<longrightarrow> (\<exists>k'. tx_semaphore_get api TX_NO_WAIT m k = (TX_SUCCESS, k') \<and> permits m k' = permits m k - 1)) \<and>
     (\<forall>m k. permits m k = 0 \<longrightarrow> tx_semaphore_get api TX_NO_WAIT m k = (TX_NO_INSTANCE, k)) \<and>
     (\<forall>m k. permits m k < 4294967295 \<longrightarrow> fst (tx_semaphore_put api m k) = TX_SUCCESS) \<and>
     (\<forall>m k k'. tx_semaphore_put api m k = (TX_SUCCESS, k') \<longrightarrow> permits m k' = permits m k + 1)"

definition permits_of :: "(nat \<Rightarrow> 'k \<Rightarrow> nat) \<Rightarrow> semaphore_object \<times> 'k \<Rightarrow> nat" where
  "permits_of permits = (\<lambda>((h, n), k). case h of None \<Rightarrow> unat n | Some m \<Rightarrow> permits m k)"

text \<open>The operations that do not wait, on the object and on a counter.\<close>

datatype permit_op = Try_acquire | Release int

fun counter_run :: "permit_op list \<Rightarrow> nat \<Rightarrow> bool list \<times> nat" where
  "counter_run [] n = ([], n)"
| "counter_run (Try_acquire # ops) n = (let (bs, n') = counter_run ops (n - 1) in ((0 < n) # bs, n'))"
| "counter_run (Release u # ops) n = counter_run ops (n + nat u)"

fun semaphore_run :: "'k kernel \<Rightarrow> caller \<Rightarrow> permit_op list \<Rightarrow> semaphore_object \<times> 'k \<Rightarrow> (bool list \<times> semaphore_object \<times> 'k) option" where
  "semaphore_run api c [] s = Some ([], s)"
| "semaphore_run api c (Try_acquire # ops) s =
     (case try_acquire api c s of
        None \<Rightarrow> None
      | Some (b, s) \<Rightarrow> map_option (\<lambda>(bs, s). (b # bs, s)) (semaphore_run api c ops s))"
| "semaphore_run api c (Release u # ops) s =
     (case release_permits api c u s of None \<Rightarrow> None | Some s \<Rightarrow> semaphore_run api c ops s)"

lemma ensure_semaphore_permits:
  assumes "semaphore_laws api permits" "ensure_semaphore api c True n h k = (Some m, h', k')"
  shows "h' = Some m \<and> permits m k' = permits_of permits ((h, n), k)"
  using assms
  by (auto simp: ensure_semaphore_def ensure_object_def semaphore_laws_def permits_of_def Let_def
      split: if_splits option.splits prod.splits)

lemma try_acquire_counts:
  assumes "semaphore_laws api permits" "in_thread_context c" "try_acquire api c s = Some (b, s')"
  shows "b = (0 < permits_of permits s) \<and> permits_of permits s' = permits_of permits s - 1"
proof -
  obtain h n k where s: "s = ((h, n), k)" by (metis surj_pair)
  obtain r h' k' where e: "ensure_semaphore api c True n h k = (r, h', k')" by (metis prod_cases3)
  show ?thesis
  proof (cases r)
    case None
    then show ?thesis using assms(2,3) e
      by (simp add: s try_acquire_def semaphore_try_wait_def semaphore_call_def flip: require_thread_context_ok)
  next
    case (Some m)
    note p = ensure_semaphore_permits [OF assms(1) e [unfolded Some]]
    obtain status k'' where g: "tx_semaphore_get api TX_NO_WAIT m k' = (status, k'')" by fastforce
    have "if 0 < permits m k' then status = TX_SUCCESS \<and> permits m k'' = permits m k' - 1 else status = TX_NO_INSTANCE \<and> k'' = k'"
      using assms(1) g unfolding semaphore_laws_def by (metis neq0_conv prod.inject)
    then show ?thesis using assms(2,3) e p g Some
      by (auto simp: s try_acquire_def semaphore_try_wait_def semaphore_call_def permits_of_def
          simp flip: require_thread_context_ok split: if_splits)
  qed
qed

lemma release_counts:
  assumes "semaphore_laws api permits" "in_thread_context c" "release_permits api c update s = Some s'"
  shows "permits_of permits s' = permits_of permits s + nat update"
  using assms
proof (induction api c update s rule: release_permits.induct)
  case (1 api c update s)
  show ?case
  proof (cases "update > 0")
    case False
    then show ?thesis using "1.prems"(3) by (simp add: release_permits.simps)
  next
    case True
    obtain h n k where s: "s = ((h, n), k)" by (metis surj_pair)
    obtain r h' k' where e: "ensure_semaphore api c True n h k = (r, h', k')" by (metis prod_cases3)
    have "r = None \<Longrightarrow> release_permits api c update s = None" using "1.prems"(2) True e
      by (simp add: s release_permits.simps [of api c update] semaphore_post_def semaphore_call_def flip: require_thread_context_ok)
    then obtain m where m: "r = Some m" using "1.prems"(3) by (cases r) simp_all
    note p = ensure_semaphore_permits [OF "1.prems"(1) e [unfolded m]]
    obtain status k'' where g: "tx_semaphore_put api m k' = (status, k'')" by fastforce
    have post: "semaphore_post api c True n h k = (if status = TX_SUCCESS then None else Some EOVERFLOW, h', k'')"
      using "1.prems"(2) e g m by (simp add: semaphore_post_def semaphore_call_def flip: require_thread_context_ok)
    then have ok: "status = TX_SUCCESS" and rest: "release_permits api c (update - 1) ((h', n), k'') = Some s'"
      using "1.prems"(3) True by (auto simp: s release_permits.simps [of api c update] split: if_splits)
    have "permits_of permits s' = permits_of permits ((h', n), k'') + nat (update - 1)"
      using "1.IH" [OF True s [symmetric] refl post [simplified ok, simplified, symmetric] refl refl "1.prems"(1,2) rest] by simp
    moreover have "permits m k'' = permits m k' + 1" using "1.prems"(1) g ok by (auto simp: semaphore_laws_def)
    ultimately show ?thesis using p True by (simp add: permits_of_def s)
  qed
qed

lemma semaphore_run_refines:
  assumes "semaphore_laws api permits" "in_thread_context c" "semaphore_run api c ops s = Some (bs, s')"
  shows "counter_run ops (permits_of permits s) = (bs, permits_of permits s')"
  using assms(3)
proof (induction ops arbitrary: s bs)
  case (Cons op ops)
  show ?case
  proof (cases op)
    case Try_acquire
    then obtain b t bs' where t: "try_acquire api c s = Some (b, t)" "semaphore_run api c ops t = Some (bs', s')" "bs = b # bs'"
      using Cons.prems by (auto split: option.splits)
    then show ?thesis using Cons.IH [OF t(2)] try_acquire_counts [OF assms(1,2) t(1)] by (simp add: Try_acquire)
  next
    case (Release u)
    then obtain t where t: "release_permits api c u s = Some t" "semaphore_run api c ops t = Some (bs, s')"
      using Cons.prems by (auto split: option.splits)
    then show ?thesis using Cons.IH [OF t(2)] release_counts [OF assms(1,2) t(1)] by (simp add: Release)
  qed
qed simp

text \<open>On an object that has been made, no operation ends the program as long as the counter stays in its range.\<close>

primrec released :: "permit_op \<Rightarrow> nat" where
  "released Try_acquire = 0"
| "released (Release u) = nat u"

lemma try_acquire_total:
  assumes "semaphore_laws api permits" "in_thread_context c"
  shows "\<exists>k'. try_acquire api c ((Some m, n), k) = Some (0 < permits m k, (Some m, n), k') \<and> permits m k' = permits m k - 1"
proof -
  obtain status k' where g: "tx_semaphore_get api TX_NO_WAIT m k = (status, k')" by fastforce
  have "if 0 < permits m k then status = TX_SUCCESS \<and> permits m k' = permits m k - 1 else status = TX_NO_INSTANCE \<and> k' = k"
    using assms(1) g unfolding semaphore_laws_def by (metis neq0_conv prod.inject)
  then show ?thesis using assms(2) g
    by (auto simp: try_acquire_def semaphore_try_wait_def semaphore_call_def ensure_semaphore_def ensure_existing
        simp flip: require_thread_context_ok split: if_splits)
qed

lemma release_total:
  assumes "semaphore_laws api permits" "in_thread_context c" "permits m k + nat u \<le> 4294967295"
  shows "\<exists>k'. release_permits api c u ((Some m, n), k) = Some ((Some m, n), k') \<and> permits m k' = permits m k + nat u"
  using assms(3)
proof (induction "nat u" arbitrary: u k)
  case 0
  then show ?case by (simp add: release_permits.simps)
next
  case (Suc j)
  obtain status k' where g: "tx_semaphore_put api m k = (status, k')" by fastforce
  have "permits m k < 4294967295" using Suc by simp
  then have put: "status = TX_SUCCESS" "permits m k' = permits m k + 1"
    using assms(1) g unfolding semaphore_laws_def by (metis fst_conv)+
  have "semaphore_post api c True n (Some m) k = (None, Some m, k')"
    using assms(2) g put(1)
    by (simp add: semaphore_post_def semaphore_call_def ensure_semaphore_def ensure_existing flip: require_thread_context_ok)
  moreover obtain k'' where "release_permits api c (u - 1) ((Some m, n), k') = Some ((Some m, n), k'')"
    "permits m k'' = permits m k' + nat (u - 1)"
  proof -
    have "j = nat (u - 1)" using Suc.hyps(2) by linarith
    then show thesis using Suc.hyps(1) [of "u - 1" k'] Suc.hyps(2) Suc.prems put(2) that by auto
  qed
  moreover have "0 < u" "Suc (nat (u - 1)) = nat u" using Suc.hyps(2) by linarith+
  ultimately show ?case using put(2) by (simp add: release_permits.simps [of api c u])
qed

lemma semaphore_run_total:
  assumes "semaphore_laws api permits" "in_thread_context c" "permits m k + sum_list (map released ops) \<le> 4294967295"
  shows "\<exists>k'. semaphore_run api c ops ((Some m, n), k) = Some (fst (counter_run ops (permits m k)), (Some m, n), k') \<and>
    permits m k' = snd (counter_run ops (permits m k))"
  using assms(3)
proof (induction ops arbitrary: k)
  case (Cons op ops)
  show ?case
  proof (cases op)
    case Try_acquire
    obtain k' where t: "try_acquire api c ((Some m, n), k) = Some (0 < permits m k, (Some m, n), k')" "permits m k' = permits m k - 1"
      using try_acquire_total [OF assms(1,2)] by blast
    then show ?thesis using Cons.IH [of k'] Cons.prems by (auto simp: Try_acquire split_beta)
  next
    case (Release u)
    obtain k' where t: "release_permits api c u ((Some m, n), k) = Some ((Some m, n), k')" "permits m k' = permits m k + nat u"
      using release_total [OF assms(1,2), of m k u n] Cons.prems by (auto simp: Release)
    then show ?thesis using Cons.IH [of k'] Cons.prems by (auto simp: Release)
  qed
qed simp

subsection \<open>Timed waits\<close>

text \<open>A deadline survives the split into seconds and nanoseconds, except that the last second of the range is rounded up.\<close>

lemma native_deadline_exact:
  assumes "0 \<le> deadline" "deadline \<le> int64_max"
  shows "timespec_to_nanoseconds (native_deadline deadline) = (if deadline < 9223372036000000000 then deadline else int64_max)"
proof -
  define q r where "q = deadline div 1000000000" and "r = deadline mod 1000000000"
  then have r: "0 \<le> r" "r < 1000000000" and q: "0 \<le> q" and deadline: "deadline = q * 1000000000 + r"
    using assms(1) by (simp_all add: pos_imp_zdiv_nonneg_iff)
  have "deadline sdiv 1000000000 = q" using assms(1) by (simp add: signed_divide_int_def sgn_if q_def)
  then have "native_deadline deadline = \<lparr>tv_sec = q, tv_nsec = r\<rparr>" by (simp add: native_deadline_def Let_def deadline)
  moreover have "9223372036 \<le> q \<longleftrightarrow> 9223372036000000000 \<le> deadline" using r by (simp add: deadline) linarith
  ultimately show ?thesis using r q by (simp add: timespec_to_nanoseconds_def int64_max_def deadline not_le not_less)
qed

text \<open>A timed acquisition reports failure only after its clock has reached the deadline.\<close>

lemma try_acquire_until_late:
  assumes "try_acquire_until api clock c deadline s = Some (Some (False, s'))" "deadline \<le> int64_max" "\<forall>k. 0 \<le> fst (clock k)"
  shows "\<exists>k. deadline \<le> fst (clock k)"
proof (cases "0 \<le> deadline")
  case False
  then show ?thesis using assms(3) by (meson le_less_linear order.strict_trans2 less_imp_le)
next
  case True
  obtain h n k where s: "s = ((h, n), k)" by (metis surj_pair)
  obtain h' k' where w: "semaphore_timed_wait api clock c True n (Some (native_deadline deadline)) h k = Some (Some ETIMEDOUT, h', k')"
    using assms(1) by (auto simp: s try_acquire_until_def split: if_splits)
  then obtain m l k'' where run: "wait_until clock (\<lambda>t. tx_semaphore_get api t m) (Some (native_deadline deadline)) l = Some (Some ETIMEDOUT, k'')"
    by (auto simp: semaphore_timed_wait_def require_thread_context_def split: option.splits prod.splits if_splits)
  have "\<exists>t. timespec_to_nanoseconds (native_deadline deadline) \<le> fst (clock t)"
    using wait_until_justified [OF run assms(3)] unfolding justified_def by (metis fst_conv)
  moreover have "deadline \<le> timespec_to_nanoseconds (native_deadline deadline)"
    using native_deadline_exact [OF True assms(2)] assms(2) by simp
  ultimately show ?thesis using order.trans by blast
qed

end
