(* ===== verification/Runtime_Properties.thy ===== *)
theory Runtime_Properties
  imports Runtime_Start Runtime_Locks Runtime_Keys Runtime_Conditions
    Runtime_Threads Runtime_Once Runtime_Std
begin

text \<open>The properties of the C++ runtime over ThreadX, with the concrete instances that show each can hold.\<close>

section \<open>Clocks\<close>

text \<open>C29: The 64-bit tick count reconstructed from the 32-bit ThreadX counter is exact over any
  sequence of samples less than a full turn apart, which the roll-over timer's period guarantees.\<close>

theorem steady_clock_exact:
  assumes "tracks T (tick_epoch c) (last_tick c)" and "spaced T ts"
  shows "map unat (fst (steady_samples ts c)) = ts"
  using assms by (rule steady_samples_exact)

definition example_counter :: HighResolutionCounter where
  "example_counter = \<lparr>hr_ticks = 10, ticks_per_second = 1000000, modulus = 1000000, state_version = 3\<rparr>"

definition example_clock :: clock where
  "example_clock = \<lparr>tick_epoch = 0, last_tick = 0, epoch_nanoseconds = 0, epoch_ticks = 0, last_system_time = 0,
     counter_epoch = example_counter, epoch_available = True, counter_available = True\<rparr>"

theorem steady_clock_exact_witness:
  "map unat (fst (steady_samples [4000000000, 7000000000, 11000000000] example_clock)) = [4000000000, 7000000000, 11000000000]"
proof (rule steady_clock_exact)
  show "tracks 0 (tick_epoch example_clock) (last_tick example_clock)" by (simp add: tracks_def example_clock_def)
  show "spaced 0 [4000000000, 7000000000, 11000000000]" by simp
qed

text \<open>With the high-resolution timer running undisturbed since the epoch, and the ThreadX
  clock within half a turn of the truth, the elapsed time is the true count of timer ticks
  converted to nanoseconds, however often the timer has wrapped.\<close>

theorem high_resolution_exact:
  assumes "counter_available c" and "undisturbed r c E" and "E < 2 ^ 64"
    and "thread_ticks_to_counter_ticks (current_ticks - epoch_ticks c) (ticks_per_second (counter_epoch c)) = Some coarse"
    and "2 * unat coarse < 2 * E + unat (modulus (counter_epoch c))"
    and "2 * E < 2 * unat coarse + unat (modulus (counter_epoch c))"
    and "E * 1000000000 div unat (ticks_per_second (counter_epoch c)) \<le> 9223372036854775807"
  shows "high_resolution_elapsed_nanoseconds (Some r) current_ticks c =
    (Some (int (E * 1000000000 div unat (ticks_per_second (counter_epoch c)))), c)"
  using assms by (rule high_resolution_elapsed_exact)

definition example_reading :: timer_reading where
  "example_reading = \<lparr>version_before = 3, running_before = True, read_counter = 700010, read_frequency = 1000000,
     read_auto_reload = 999999, running_after = True, version_after = 3\<rparr>"

theorem high_resolution_exact_witness:
  "high_resolution_elapsed_nanoseconds (Some example_reading) 3500 example_clock = (Some 3700000000, example_clock)"
proof -
  have e: "ticks_per_second (counter_epoch example_clock) = 1000000" "modulus (counter_epoch example_clock) = 1000000"
    "epoch_ticks example_clock = 0" "counter_available example_clock"
    by (simp_all add: example_clock_def example_counter_def)
  have u: "undisturbed example_reading example_clock 3700000"
    by (simp add: undisturbed_def example_reading_def example_clock_def example_counter_def
        valid_high_resolution_counter_def time_constants)
  have t: "thread_ticks_to_counter_ticks (3500 - epoch_ticks example_clock) (ticks_per_second (counter_epoch example_clock)) = Some 3500000"
    by (simp add: e thread_ticks_to_counter_ticks_def Let_def time_constants)
  show ?thesis using high_resolution_exact [OF e(4) u _ t] by (simp add: e)
qed

text \<open>C31: System time never goes backwards: whatever the interleaving of publishing threads, a
  call that starts after another has returned returns at least that value and its own candidate.\<close>

theorem system_time_monotone:
  assumes "\<And>t. seen a (p t)" and "publish_steps (a, p) (b, q)" and "q s = Returned d v"
    and "\<forall>c u. q t \<noteq> Loaded c u"
    and "publish_steps (b, q(t := Loaded candidate b)) (x, u)" and "u t = Returned e w"
  shows "v \<le> w \<and> e \<le> w"
  using assms by (rule publish_order)

theorem system_time_monotone_witness:
  "\<exists>q u w. publish_steps (0, \<lambda>t. Idle) (5, q) \<and> q 0 = Returned 5 5 \<and>
     publish_steps (5, q(1 := Loaded 3 5)) (5, u) \<and> u 1 = Returned 3 w \<and> 5 \<le> w \<and> 3 \<le> w"
proof -
  let ?q = "(\<lambda>t. Idle)(0 := Returned 5 5)" and ?u = "((\<lambda>t. Idle)(0 := Returned 5 5, 1 := Returned 3 5)) :: nat \<Rightarrow> publisher"
  have first: "publish_steps (0, \<lambda>t. Idle) (5, ?q)"
    using publish_sequential [of "\<lambda>t. Idle" 0 5 "example_clock" 5 "example_clock\<lparr>last_system_time := 5\<rparr>"]
    by (simp add: publish_system_time_def example_clock_def)
  have "publish_step (5, ?q(1 := Loaded 3 5)) (5, ?q(1 := Loaded 3 5, 1 := Returned 3 5))"
    by (rule publish_step.newer) simp_all
  then have second: "publish_steps (5, ?q(1 := Loaded 3 5)) (5, ?u)" by (simp add: r_into_rtranclp)
  have "5 \<le> (5 :: int) \<and> 3 \<le> (5 :: int)"
    using system_time_monotone [of 0 "\<lambda>t. Idle" 5 ?q 0 5 5 1 3 5 ?u 3 5] first second by simp
  then show ?thesis using first second by (intro exI [of _ ?q] exI [of _ ?u] exI [of _ 5]) simp
qed

section \<open>Waiting\<close>

text \<open>C32: A wait against a deadline returns, provided a wait that fails lets the clock advance, and
  it reports a timeout only after a clock reading at or past the deadline and a last attempt that
  failed.\<close>

theorem timed_wait_never_early:
  assumes "\<forall>s. 0 \<le> fst (clock s)" and "waits_progress clock wait"
  shows "\<exists>r s'. wait_until clock wait (Some d) s = Some (r, s') \<and>
    (r \<noteq> Some ETIMEDOUT \<or> (\<exists>t status. timespec_to_nanoseconds d \<le> fst (clock t) \<and>
       wait TX_NO_WAIT (snd (clock t)) = (status, s') \<and> status \<noteq> TX_SUCCESS))"
proof -
  obtain r s' where run: "wait_until clock wait (Some d) s = Some (r, s')"
    using wait_until_returns [OF assms(2,1)] by fastforce
  then show ?thesis using wait_until_justified [OF run assms(1)] by (auto simp: justified_def)
qed

theorem timed_wait_never_early_witness:
  "\<exists>r s'. wait_until (\<lambda>s. (int s, s)) (\<lambda>n s. (if n = 0 then TX_NOT_AVAILABLE else TX_NO_INSTANCE, s + 1000000 * unat n))
     (Some \<lparr>tv_sec = 1, tv_nsec = 5\<rparr>) 0 = Some (r, s') \<and>
     (r \<noteq> Some ETIMEDOUT \<or> timespec_to_nanoseconds \<lparr>tv_sec = 1, tv_nsec = 5\<rparr> \<le> int s')"
proof -
  let ?clock = "\<lambda>s :: nat. (int s, s)"
    and ?wait = "\<lambda>(n :: u32) s. (if n = 0 then TX_NOT_AVAILABLE else TX_NO_INSTANCE, s + 1000000 * unat n)"
  have "waits_progress ?clock ?wait" by (auto simp: waits_progress_def TX_NO_WAIT_def unat_gt_0)
  then obtain r s' where run: "wait_until ?clock ?wait (Some \<lparr>tv_sec = 1, tv_nsec = 5\<rparr>) 0 = Some (r, s')"
    and late: "r \<noteq> Some ETIMEDOUT \<or> (\<exists>t status. timespec_to_nanoseconds \<lparr>tv_sec = 1, tv_nsec = 5\<rparr> \<le> fst (?clock t) \<and>
       ?wait TX_NO_WAIT (snd (?clock t)) = (status, s') \<and> status \<noteq> TX_SUCCESS)"
    using timed_wait_never_early [of ?clock ?wait "\<lparr>tv_sec = 1, tv_nsec = 5\<rparr>" 0] by auto
  have "r \<noteq> Some ETIMEDOUT \<or> timespec_to_nanoseconds \<lparr>tv_sec = 1, tv_nsec = 5\<rparr> \<le> int s'"
    using late by (auto simp: TX_NO_WAIT_def)
  then show ?thesis using run by blast
qed

text \<open>C33: A duration becomes the least number of ticks that covers it, capped at the longest finite
  wait, and the calls \<open>sleep_for\<close> makes last, counting only their full periods, at least the
  duration and less than a tick longer.\<close>

theorem sleep_covers_duration:
  "unat (duration_to_ticks ns) = min (covering_ticks (unat ns)) 4294967294 \<and>
   unat ns \<le> sum_list (map (\<lambda>c. unat c - 1) (sleep_for True ns)) * 1000000 \<and>
   sum_list (map (\<lambda>c. unat c - 1) (sleep_for True ns)) * 1000000 < unat ns + 1000000"
proof -
  have "sum_list (map (\<lambda>c. unat c - 1) (sleep_for True ns)) = covering_ticks (unat ns)"
  proof (cases "ns = 0")
    case True
    then show ?thesis by (simp add: sleep_for_def covering_ticks_def)
  next
    case False
    then show ?thesis using sleep_chunks_cover [of "sleep_ticks ns"] by (simp add: sleep_for_def sleep_ticks_exact)
  qed
  moreover
  have "covering_ticks n * 1000000 + (n + 999999) mod 1000000 = n + 999999" "(n + 999999) mod 1000000 < 1000000" for n
    unfolding covering_ticks_def by (rule div_mult_mod_eq) simp
  from this [of "unat ns"]
  have "unat ns \<le> covering_ticks (unat ns) * 1000000" "covering_ticks (unat ns) * 1000000 < unat ns + 1000000"
    by linarith+
  ultimately show ?thesis by (simp add: duration_to_ticks_exact)
qed

section \<open>Keys\<close>

text \<open>C34: The handle of a deleted key stays dead through any sequence of creations and deletions
  with fewer than 2^24 - 1 creations, also when its slot is used again: it reads as null, and
  setting or deleting it is refused.\<close>

theorem deleted_handle_refused:
  assumes "keys_ok keys" and "key_delete c key keys = (None, keys')" and "creations ops < 16777215"
    and "now = key_run c' ops keys'"
  shows "key_get d now key t = None \<and> fst (key_set d now key v t) \<noteq> None \<and> snd (key_set d now key v t) = t \<and>
    fst (key_delete d key now) \<noteq> None"
  unfolding assms(4) using dead_key_refused [OF key_stays_dead [OF assms(1-3)]] .

definition example_thread :: caller where
  "example_thread = \<lparr>initialized = True, interrupt_context = False, current_thread = Some 7\<rparr>"

theorem deleted_handle_refused_witness:
  "key_get example_thread (key_run example_thread [Create None, Create (Some 9)]
     (snd (key_delete example_thread 0x100 (snd (key_create example_thread True None initial_keys))))) 0x100 fresh_tls = None"
proof -
  have made: "key_create example_thread True None initial_keys = (Inr 0x100, snd (key_create example_thread True None initial_keys))"
    by code_simp
  have gone: "key_delete example_thread 0x100 (snd (key_create example_thread True None initial_keys)) =
      (None, snd (key_delete example_thread 0x100 (snd (key_create example_thread True None initial_keys))))"
    by code_simp
  show ?thesis
    using deleted_handle_refused [OF conjunct1 [OF key_create_ok [OF initial_keys_ok made]] gone, of "[Create None, Create (Some 9)]"]
    by simp
qed



section \<open>Condition variables\<close>

text \<open>C36: Whatever the interleaving of waiters, signallers and timeouts, no wake-up is lost: a wait
  that has ended reports success if and only if a signal or broadcast released it, even when it
  timed out at the same moment, and leaves neither a link nor a semaphore count behind; and the
  doubly linked list is always a queue from which signals take the oldest waiter.\<close>

theorem condition_loses_no_wakeup:
  assumes "cond_step\<^sup>*\<^sup>* idle_condition (c, p, n)"
  shows "(p w = Finished r \<longrightarrow> (r = None \<longleftrightarrow> w \<in> n) \<and> \<not> linked (store (c_queue c) w) \<and> c_count c w = 0) \<and>
    (\<exists>xs. waiting_queue (c_queue c) xs \<and> first_waiter (c_queue (signal_first c)) = head_or (tl xs) None \<and>
      (\<exists>c'. broadcast_loop c = Some c' \<and> waiting_queue (c_queue c') []))"
proof -
  obtain xs where xs: "waiting_queue (c_queue c) xs" using reachable_queue [OF assms] by blast
  have "first_waiter (c_queue (signal_first c)) = head_or (tl xs) None"
    using signal_first_queue [OF xs] xs by (cases xs) (auto simp: waiting_queue_def)
  then show ?thesis using wait_result_exact [OF assms, of w r] xs broadcast_queue [OF xs] by blast
qed

theorem condition_loses_no_wakeup_witness:
  "\<exists>c p n. cond_step\<^sup>*\<^sup>* idle_condition (c, p, n) \<and> p 7 = Finished None \<and> 7 \<in> n \<and> c_count c 7 = 0"
proof -
  obtain c0 where start: "idle_condition = (c0, \<lambda>w. Outside, {})" by (simp add: idle_condition_def)
  let ?c1 = "enter_wait 7 c0" and ?c2 = "signal_first (enter_wait 7 c0)"
  obtain r c3 where settle: "settle_wait 7 (Some ETIMEDOUT) ?c2 = (r, c3)" by fastforce
  have first: "first_waiter (c_queue ?c1) = Some 7"
    using start by (auto simp: idle_condition_def enter_wait_def append_waiter_def set_next_def set_prev_def set_linked_def)
  have "cond_step (c0, \<lambda>w. Outside, {}) (?c1, (\<lambda>w. Outside)(7 := Waiting), {})" by (rule cond_step.enter) simp
  moreover have "cond_step (?c1, (\<lambda>w. Outside)(7 := Waiting), {}) (?c2, (\<lambda>w. Outside)(7 := Waiting), {7})"
    using cond_step.signal [of ?c1 "(\<lambda>w. Outside)(7 := Waiting)" "{}"] first by simp
  moreover have "cond_step (?c2, (\<lambda>w. Outside)(7 := Waiting), {7})
      (?c2, (\<lambda>w. Outside)(7 := Waiting, 7 := Leaving (Some ETIMEDOUT)), {7})" by (rule cond_step.interrupted) simp
  moreover have "cond_step (?c2, (\<lambda>w. Outside)(7 := Waiting, 7 := Leaving (Some ETIMEDOUT)), {7})
      (c3, (\<lambda>w. Outside)(7 := Waiting, 7 := Leaving (Some ETIMEDOUT), 7 := Finished r), {7})"
    by (rule cond_step.settle [OF _ settle]) simp
  ultimately have run: "cond_step\<^sup>*\<^sup>* idle_condition
      (c3, (\<lambda>w. Outside)(7 := Waiting, 7 := Leaving (Some ETIMEDOUT), 7 := Finished r), {7})"
    unfolding start by (meson converse_rtranclp_into_rtranclp rtranclp.rtrancl_refl)
  have "r = None \<and> c_count c3 7 = 0" using condition_loses_no_wakeup [OF run, of 7 r] by simp
  then show ?thesis using run by (intro exI [of _ c3]) (fastforce intro: exI)
qed

section \<open>Threads\<close>



section \<open>Running once, and locks\<close>

text \<open>C38: \<open>std::call_once\<close> and the initialisers of function-local statics: whatever the interleaving,
  and however often the function has thrown, it completes at most once, no two threads are in it,
  nobody is in it after it has completed, and whoever returned normally did so after that.\<close>

theorem initialised_exactly_once:
  assumes "(once_step once_section (\<lambda>completed x. once_leave completed))\<^sup>*\<^sup>* (0, \<lambda>t. Calling, 0) (y, p, n)"
    and "(once_step guard_section guard_leave)\<^sup>*\<^sup>* (\<lparr>guard_initialized = 0, guard_in_progress = 0\<rparr>, \<lambda>t. Calling, 0) (g, q, m)"
  shows "n \<le> 1 \<and> (p t = Done \<longrightarrow> n = 1) \<and> (p t = Inside \<and> p u = Inside \<longrightarrow> t = u) \<and> (n = 1 \<longrightarrow> p t \<noteq> Inside) \<and>
    m \<le> 1 \<and> (q t = Done \<longrightarrow> m = 1) \<and> (q t = Inside \<and> q u = Inside \<longrightarrow> t = u) \<and> (m = 1 \<longrightarrow> q t \<noteq> Inside)"
proof -
  have "once_state 0 = 0" "guard_state \<lparr>guard_initialized = 0, guard_in_progress = 0\<rparr> = 0"
    by (simp_all add: once_state_def guard_state_def)
  from call_once.once_exactly [OF assms(1) this(1)] static_guard.once_exactly [OF assms(2) this(2)]
  show ?thesis by blast
qed

lemma one_caller_runs:
  assumes "enter x = (Run, y)"
  shows "(once_step enter leave)\<^sup>*\<^sup>* (x, \<lambda>t. Calling, 0) (leave True y, (\<lambda>t. Calling)(3 := Inside, 3 := Done), 0 + 1)"
proof -
  have "once_step enter leave (x, \<lambda>t. Calling, 0) (y, (\<lambda>t. Calling)(3 := Inside), 0)"
    using once_step.look [of "\<lambda>t. Calling" 3 enter x Run y leave 0] assms by simp
  moreover have "once_step enter leave (y, (\<lambda>t. Calling)(3 := Inside), 0)
      (leave True y, (\<lambda>t. Calling)(3 := Inside, 3 := Done), 0 + 1)"
    by (rule once_step.completes) simp
  ultimately show ?thesis by (meson converse_rtranclp_into_rtranclp r_into_rtranclp)
qed

theorem initialised_exactly_once_witness:
  "\<exists>y g p. (once_step once_section (\<lambda>completed x. once_leave completed))\<^sup>*\<^sup>* (0, \<lambda>t. Calling, 0) (y, p, 1) \<and>
     (once_step guard_section guard_leave)\<^sup>*\<^sup>* (\<lparr>guard_initialized = 0, guard_in_progress = 0\<rparr>, \<lambda>t. Calling, 0) (g, p, 1) \<and>
     p 3 = Done \<and> p 4 \<noteq> Inside"
proof -
  let ?p = "(\<lambda>t :: nat. Calling)(3 := Inside, 3 := Done)"
  have c: "(once_step once_section (\<lambda>completed x. once_leave completed))\<^sup>*\<^sup>* (0, \<lambda>t. Calling, 0) (once_leave True, ?p, 1)"
    using one_caller_runs [of once_section 0 1 "\<lambda>completed x. once_leave completed"] by (simp add: once_section_def)
  have g: "(once_step guard_section guard_leave)\<^sup>*\<^sup>* (\<lparr>guard_initialized = 0, guard_in_progress = 0\<rparr>, \<lambda>t. Calling, 0)
      (guard_leave True \<lparr>guard_initialized = 0, guard_in_progress = 1\<rparr>, ?p, 1)"
    using one_caller_runs [of guard_section "\<lparr>guard_initialized = 0, guard_in_progress = 0\<rparr>"
        "\<lparr>guard_initialized = 0, guard_in_progress = 1\<rparr>" guard_leave] by (simp add: guard_section_def)
  have "?p 4 \<noteq> Inside" using initialised_exactly_once [OF c g, of 4 4] by blast
  moreover have "?p 3 = Done" by simp
  ultimately show ?thesis using c g by blast
qed






section \<open>Counting semaphores\<close>





end
