(* ===== verification/Hal_Timer.thy ===== *)
theory Hal_Timer
  imports Runtime_Clock Qspi_Flash
begin

text \<open>
  The hardware timer of \<^verbatim>\<open>platform/hal/drivers\<close>: the Linux driver, which computes the counter from
  the monotonic clock (\<^verbatim>\<open>impl/linux/Timer.cpp\<close>), and the arithmetic and registers of the STM32
  driver (\<^verbatim>\<open>impl/stm32/Timer.cpp\<close>). Values of the code's unsigned types are words. The mutex of the
  Linux driver makes each operation one step; the monotonic time it reads is an argument.
\<close>

section \<open>Results\<close>

datatype HalError = Error | Busy | Timeout

definition make_result :: "hal_status \<Rightarrow> HalError option" where
  "make_result status =
     (case status of HAL_OK \<Rightarrow> None | HAL_ERROR \<Rightarrow> Some Error | HAL_BUSY \<Rightarrow> Some Busy | HAL_TIMEOUT \<Rightarrow> Some Timeout)"

section \<open>The Linux timer\<close>

record linux_timer =
  m_timerInputHz :: u32
  m_prescaler :: u32
  m_autoReload :: u32
  m_counter :: u32
  m_startedAtNanoseconds :: u64
  m_running :: bool
  m_interruptEnabled :: bool
  m_shuttingDown :: bool
  m_stateVersion :: u32

definition new_timer :: "u32 \<Rightarrow> u32 \<Rightarrow> u32 \<Rightarrow> u64 \<Rightarrow> linux_timer" where
  "new_timer input_frequency_hz prescaler auto_reload now =
     \<lparr>m_timerInputHz = input_frequency_hz, m_prescaler = prescaler, m_autoReload = auto_reload, m_counter = 0,
      m_startedAtNanoseconds = now, m_running = False, m_interruptEnabled = False, m_shuttingDown = False,
      m_stateVersion = 0\<rparr>"

definition getTickFrequencyHz :: "linux_timer \<Rightarrow> u32" where
  "getTickFrequencyHz t = ucast (ucast (m_timerInputHz t) div (ucast (m_prescaler t) + 1 :: u64))"

definition counterAt :: "linux_timer \<Rightarrow> u64 \<Rightarrow> u32" where
  "counterAt t now =
     (let period = ucast (m_autoReload t) + 1; frequency = ucast (getTickFrequencyHz t) :: u64
      in if frequency = 0 then m_counter t
         else
           (let elapsed_nanoseconds = now - m_startedAtNanoseconds t;
                seconds = elapsed_nanoseconds div nanoseconds_per_second;
                remainder = elapsed_nanoseconds mod nanoseconds_per_second;
                whole_ticks = (seconds mod period) * (frequency mod period) mod period;
                fractional_ticks = remainder * frequency div nanoseconds_per_second mod period;
                elapsed_ticks = (whole_ticks + fractional_ticks) mod period
            in ucast ((ucast (m_counter t) + elapsed_ticks) mod period)))"

definition captureCounter :: "u64 \<Rightarrow> linux_timer \<Rightarrow> linux_timer" where
  "captureCounter now t = (if m_running t then t\<lparr>m_counter := counterAt t now\<rparr> else t)"

definition start :: "u64 \<Rightarrow> linux_timer \<Rightarrow> HalError option \<times> linux_timer" where
  "start now t =
     (if getTickFrequencyHz t = 0 then (Some Error, t)
      else
        (let t = captureCounter now t
         in (None, t\<lparr>m_startedAtNanoseconds := now, m_running := True, m_interruptEnabled := False,
                     m_stateVersion := m_stateVersion t + 1\<rparr>)))"

definition stop :: "u64 \<Rightarrow> linux_timer \<Rightarrow> HalError option \<times> linux_timer" where
  "stop now t =
     (let t = captureCounter now t
      in (None, t\<lparr>m_running := False, m_interruptEnabled := False, m_stateVersion := m_stateVersion t + 1\<rparr>))"

definition startIt :: "u64 \<Rightarrow> linux_timer \<Rightarrow> HalError option \<times> linux_timer" where
  "startIt now t =
     (if getTickFrequencyHz t = 0 then (Some Error, t)
      else
        (let t = captureCounter now t
         in (None, t\<lparr>m_startedAtNanoseconds := now, m_running := True, m_interruptEnabled := True,
                     m_stateVersion := m_stateVersion t + 1\<rparr>)))"

definition stopIt :: "u64 \<Rightarrow> linux_timer \<Rightarrow> HalError option \<times> linux_timer" where
  "stopIt now t = stop now t"

definition getCounter :: "u64 \<Rightarrow> linux_timer \<Rightarrow> u32" where
  "getCounter now t = (if m_running t then counterAt t now else m_counter t)"

definition setCounter :: "u64 \<Rightarrow> u32 \<Rightarrow> linux_timer \<Rightarrow> linux_timer" where
  "setCounter now v t = t\<lparr>m_counter := v, m_startedAtNanoseconds := now, m_stateVersion := m_stateVersion t + 1\<rparr>"

definition setAutoReload :: "u64 \<Rightarrow> u32 \<Rightarrow> linux_timer \<Rightarrow> linux_timer" where
  "setAutoReload now v t =
     (let t = captureCounter now t
      in t\<lparr>m_autoReload := v, m_startedAtNanoseconds := now, m_stateVersion := m_stateVersion t + 1\<rparr>)"

definition setPrescaler :: "u64 \<Rightarrow> u32 \<Rightarrow> linux_timer \<Rightarrow> linux_timer" where
  "setPrescaler now v t =
     (let t = captureCounter now t
      in t\<lparr>m_prescaler := v, m_startedAtNanoseconds := now, m_stateVersion := m_stateVersion t + 1\<rparr>)"

definition forceUpdateEvent :: "u64 \<Rightarrow> linux_timer \<Rightarrow> linux_timer" where
  "forceUpdateEvent now t = t\<lparr>m_counter := 0, m_startedAtNanoseconds := now, m_stateVersion := m_stateVersion t + 1\<rparr>"

definition reset :: "u64 \<Rightarrow> linux_timer \<Rightarrow> linux_timer" where
  "reset now t = setCounter now 0 t"

text \<open>Durations are signed 64-bit counts of nanoseconds; the largest tick stands for "longer".\<close>

definition durationToTicks :: "linux_timer \<Rightarrow> int \<Rightarrow> u32" where
  "durationToTicks t duration =
     (let frequency = ucast (getTickFrequencyHz t) :: u64
      in if duration \<le> 0 \<or> frequency = 0 then 0
         else
           (let unsigned_nanoseconds = word_of_int duration;
                seconds = unsigned_nanoseconds div nanoseconds_per_second;
                remainder = unsigned_nanoseconds mod nanoseconds_per_second;
                maximum_tick = 0xFFFFFFFF
            in if seconds > maximum_tick div frequency then 0xFFFFFFFF
               else
                 (let whole_ticks = seconds * frequency;
                      fractional_ticks = (remainder * frequency + nanoseconds_per_second - 1) div nanoseconds_per_second
                  in if fractional_ticks > maximum_tick - whole_ticks then 0xFFFFFFFF
                     else ucast (whole_ticks + fractional_ticks))))"

definition setPeriod :: "u64 \<Rightarrow> int \<Rightarrow> linux_timer \<Rightarrow> linux_timer" where
  "setPeriod now duration t =
     (let ticks = durationToTicks t duration
      in t\<lparr>m_autoReload := (if ticks = 0 then 0 else ticks - 1), m_counter := 0, m_startedAtNanoseconds := now,
           m_stateVersion := m_stateVersion t + 1\<rparr>)"

definition getElapsedTime :: "u64 \<Rightarrow> linux_timer \<Rightarrow> int" where
  "getElapsedTime now t =
     (let frequency = ucast (getTickFrequencyHz t) :: u64
      in if frequency = 0 then 0
         else sint (ucast (getCounter now t) * nanoseconds_per_second div frequency))"

definition nanosecondsUntilOverflow :: "linux_timer \<Rightarrow> u64 \<Rightarrow> u64" where
  "nanosecondsUntilOverflow t now =
     (let frequency = ucast (getTickFrequencyHz t) :: u64
      in if frequency = 0 then nanoseconds_per_second
         else
           (let period = ucast (m_autoReload t) + 1;
                counter = (if m_running t then ucast (counterAt t now) else ucast (m_counter t) mod period);
                ticks_until_overflow = period - counter
            in (ticks_until_overflow * nanoseconds_per_second + frequency - 1) div frequency))"

section \<open>What the arithmetic computes\<close>

text \<open>The exact quantities, over the natural numbers.\<close>

definition timer_period :: "linux_timer \<Rightarrow> nat" where
  "timer_period t = unat (m_autoReload t) + 1"

definition timer_frequency :: "linux_timer \<Rightarrow> nat" where
  "timer_frequency t = unat (m_timerInputHz t) div (unat (m_prescaler t) + 1)"

definition ticks_since_start :: "linux_timer \<Rightarrow> nat \<Rightarrow> nat" where
  "ticks_since_start t now = (now - unat (m_startedAtNanoseconds t)) * timer_frequency t div 1000000000"

definition total_ticks :: "linux_timer \<Rightarrow> nat \<Rightarrow> nat" where
  "total_ticks t now = unat (m_counter t) + ticks_since_start t now"

lemma ucast_plus_one: "unat (ucast (x :: u32) + 1 :: u64) = unat x + 1"
  using unat_u32_bound [of x] by (simp add: unat_add_no_wrap unat_ucast_up)

lemma unat_getTickFrequencyHz [simp]: "unat (getTickFrequencyHz t) = timer_frequency t"
proof -
  have "unat (ucast (m_timerInputHz t) div (ucast (m_prescaler t) + 1) :: u64) = timer_frequency t"
    by (simp add: unat_div ucast_plus_one unat_ucast_up timer_frequency_def)
  moreover have "timer_frequency t < 4294967296"
    unfolding timer_frequency_def by (rule le_less_trans [OF div_le_dividend unat_u32_bound])
  ultimately show ?thesis by (simp add: getTickFrequencyHz_def unsigned_ucast_eq take_bit_nat_eq_self)
qed

lemma timer_frequency_bound: "timer_frequency t < 4294967296"
  by (metis unat_getTickFrequencyHz unat_u32_bound)

lemma timer_period_bound: "0 < timer_period t" "timer_period t \<le> 4294967296"
  using unat_u32_bound [of "m_autoReload t"] by (simp_all add: timer_period_def)

lemma frequency_zero [simp]: "(ucast (getTickFrequencyHz t) :: u64) = 0 \<longleftrightarrow> timer_frequency t = 0"
  "getTickFrequencyHz t = 0 \<longleftrightarrow> timer_frequency t = 0"
  by (metis unat_eq_0 unat_getTickFrequencyHz unat_ucast_up, metis unat_eq_0 unat_getTickFrequencyHz)

lemma unat_u32_of_u64: "unat (x :: u64) < 4294967296 \<Longrightarrow> unat (ucast x :: u32) = unat x"
  by (simp add: unsigned_ucast_eq take_bit_nat_eq_self)

lemma elapsed_split: "q * f + r * f div 1000000000 = (q * 1000000000 + r) * f div (1000000000 :: nat)"
  by (simp add: add_mult_distrib)

lemma counterAt_exact:
  assumes "m_startedAtNanoseconds t \<le> now" "timer_frequency t \<noteq> 0"
  shows "unat (counterAt t now) = total_ticks t (unat now) mod timer_period t"
proof -
  define period frequency where "period = (ucast (m_autoReload t) + 1 :: u64)" and "frequency = (ucast (getTickFrequencyHz t) :: u64)"
  define E where "E = unat now - unat (m_startedAtNanoseconds t)"
  define seconds remainder where "seconds = (now - m_startedAtNanoseconds t) div nanoseconds_per_second"
    and "remainder = (now - m_startedAtNanoseconds t) mod nanoseconds_per_second"
  define whole fractional where "whole = (seconds mod period) * (frequency mod period) mod period"
    and "fractional = remainder * frequency div nanoseconds_per_second mod period"
  let ?p = "timer_period t" and ?f = "timer_frequency t"
  have p: "unat period = ?p" by (simp add: period_def ucast_plus_one timer_period_def)
  have f: "unat frequency = ?f" by (simp add: frequency_def unat_ucast_up)
  have e: "unat (now - m_startedAtNanoseconds t) = E" using assms(1) by (simp add: E_def unat_sub)
  have sec: "unat seconds = E div 1000000000" and rem: "unat remainder = E mod 1000000000"
    by (simp_all add: seconds_def remainder_def unat_div unat_mod e)
  note bp = timer_period_bound [of t]
  have "unat (seconds mod period) * unat (frequency mod period) < ?p * ?p"
    unfolding unat_mod p by (rule mult_strict_mono) (use bp in simp_all)
  also have "\<dots> \<le> 4294967296 * 4294967296" by (rule mult_le_mono) (use bp in simp_all)
  finally have whole: "unat whole = E div 1000000000 * ?f mod ?p"
    by (simp add: whole_def unat_mod unat_mult_no_wrap p f sec mod_mult_eq)
  have "unat remainder * unat frequency \<le> 1000000000 * 4294967296"
    unfolding rem f by (rule mult_le_mono) (use timer_frequency_bound [of t] in simp_all)
  then have fractional: "unat fractional = E mod 1000000000 * ?f div 1000000000 mod ?p"
    by (simp add: fractional_def unat_mod unat_fraction p f rem)
  have small: "unat whole < 4294967296" "unat fractional < 4294967296"
    unfolding whole fractional using bp by (meson mod_less_divisor order.strict_trans2)+
  define elapsed where "elapsed = (whole + fractional) mod period"
  have "unat elapsed = (E div 1000000000 * ?f + E mod 1000000000 * ?f div 1000000000) mod ?p"
    using small by (simp add: elapsed_def unat_mod unat_add_no_wrap p whole fractional mod_add_eq)
  also have "\<dots> = E * ?f div 1000000000 mod ?p"
    by (simp only: elapsed_split div_mult_mod_eq)
  finally have el: "unat elapsed = E * ?f div 1000000000 mod ?p" .
  note el
  also have "\<dots> < 4294967296" using bp by (meson mod_less_divisor order.strict_trans2)
  finally have "unat elapsed < 4294967296" .
  then have "unat ((ucast (m_counter t) + elapsed) mod period) = total_ticks t (unat now) mod ?p"
    using unat_u32_bound [of "m_counter t"]
    by (simp add: unat_mod unat_add_no_wrap unat_ucast_up p el total_ticks_def ticks_since_start_def E_def mod_add_right_eq)
  moreover have "\<dots> < 4294967296" using bp by (meson mod_less_divisor order.strict_trans2)
  moreover have "counterAt t now = ucast ((ucast (m_counter t) + elapsed) mod period)"
    using assms(2) unfolding counterAt_def Let_def elapsed_def whole_def fractional_def seconds_def remainder_def
      period_def frequency_def by simp
  ultimately show ?thesis by (simp add: unat_u32_of_u64)
qed


lemma getCounter_below_period:
  assumes "m_running t" "m_startedAtNanoseconds t \<le> now" "timer_frequency t \<noteq> 0"
  shows "unat (getCounter now t) < timer_period t"
  using assms counterAt_exact timer_period_bound by (simp add: getCounter_def)

text \<open>A duration becomes the least number of ticks that covers it, saturated at the largest tick.\<close>

definition ticks_covering :: "nat \<Rightarrow> nat \<Rightarrow> nat" where
  "ticks_covering f d = (d * f + 999999999) div 1000000000"

lemma div_add_multiple: "0 < n \<Longrightarrow> (a + b * n + c) div n = b + (a + c) div (n :: nat)"
  by (metis add.commute add.left_commute bot_nat_0.not_eq_extremum div_mult_self1)

lemma ticks_covering_split:
  "ticks_covering f d = d div 1000000000 * f + (d mod 1000000000 * f + 999999999) div 1000000000"
proof -
  have "d * f = (d div 1000000000 * 1000000000 + d mod 1000000000) * f" by (simp only: div_mult_mod_eq)
  also have "\<dots> = d mod 1000000000 * f + d div 1000000000 * f * 1000000000"
    by (simp only: add_mult_distrib mult.assoc mult.commute [of f] add.commute)
  finally show ?thesis by (simp only: ticks_covering_def div_add_multiple zero_less_numeral)
qed

lemma ticks_covering_least: "ticks_covering f d \<le> k \<longleftrightarrow> d * f \<le> k * 1000000000"
proof -
  have "ticks_covering f d < Suc k \<longleftrightarrow> d * f + 999999999 < Suc k * 1000000000"
    unfolding ticks_covering_def by (rule div_less_iff_less_mult) simp
  then show ?thesis by auto
qed

lemma durationToTicks_exact:
  assumes "duration < 2 ^ 63"
  shows "unat (durationToTicks t duration) =
    (if duration \<le> 0 then 0 else min (ticks_covering (timer_frequency t) (nat duration)) 4294967295)"
proof (cases "duration \<le> 0 \<or> timer_frequency t = 0")
  case True
  then show ?thesis by (auto simp: durationToTicks_def ticks_covering_def)
next
  case False
  define frequency where "frequency = (ucast (getTickFrequencyHz t) :: u64)"
  define ns seconds remainder where "ns = (word_of_int duration :: u64)" and "seconds = ns div nanoseconds_per_second"
    and "remainder = ns mod nanoseconds_per_second"
  define fractional where "fractional = (remainder * frequency + nanoseconds_per_second - 1) div nanoseconds_per_second"
  let ?f = "timer_frequency t" and ?d = "nat duration"
  have f: "unat frequency = ?f" by (simp add: frequency_def unat_ucast_up)
  have f0: "frequency \<noteq> 0" using False by (simp add: frequency_def)
  have ns: "unat ns = ?d" using assms False by (simp add: ns_def unat_word_of_int)
  have sec: "unat seconds = ?d div 1000000000" and rem: "unat remainder = ?d mod 1000000000"
    by (simp_all add: seconds_def remainder_def unat_div unat_mod ns)
  have small: "unat remainder * unat frequency \<le> 1000000000 * 4294967296"
    unfolding rem f by (rule mult_le_mono) (use timer_frequency_bound [of t] in simp_all)
  have "unat (remainder * frequency) = unat remainder * unat frequency"
    using small by (simp add: unat_mult_no_wrap)
  then have "unat (remainder * frequency + 999999999) = ?d mod 1000000000 * ?f + 999999999"
    using small by (simp add: unat_add_no_wrap f rem)
  moreover have "remainder * frequency + nanoseconds_per_second - 1 = remainder * frequency + 999999999"
    by (simp add: nanoseconds_per_second_def)
  ultimately have fractional: "unat fractional = (?d mod 1000000000 * ?f + 999999999) div 1000000000"
    by (simp only: fractional_def unat_div unat_constants)
  have max: "unat (0xFFFFFFFF :: u64) = 4294967295" by simp
  have early: "seconds > 0xFFFFFFFF div frequency \<longleftrightarrow> ?d div 1000000000 * ?f > 4294967295"
    using overflow_test [of 0 "0xFFFFFFFF" frequency seconds] False by (simp add: f sec)
  have total: "ticks_covering ?f ?d = ?d div 1000000000 * ?f + unat fractional"
    by (simp add: ticks_covering_split fractional)
  show ?thesis
  proof (cases "?d div 1000000000 * ?f > 4294967295")
    case True
    then have "durationToTicks t duration = 0xFFFFFFFF"
      using False early f0 by (simp add: durationToTicks_def Let_def flip: frequency_def ns_def seconds_def)
    then show ?thesis using True False total by simp
  next
    case not: False
    then have whole: "unat (seconds * frequency) = ?d div 1000000000 * ?f"
      by (simp add: unat_mult_no_wrap sec f)
    then have "seconds * frequency \<le> 0xFFFFFFFF" using not by (simp add: word_le_nat_alt)
    then have late: "fractional > 0xFFFFFFFF - seconds * frequency \<longleftrightarrow> unat fractional > 4294967295 - ?d div 1000000000 * ?f"
      by (simp add: word_less_nat_alt unat_sub whole)
    have result: "durationToTicks t duration =
      (if fractional > 0xFFFFFFFF - seconds * frequency then 0xFFFFFFFF else ucast (seconds * frequency + fractional))"
      using False not early unfolding fractional_def remainder_def seconds_def ns_def frequency_def
      by (simp add: durationToTicks_def Let_def)
    show ?thesis
    proof (cases "unat fractional > 4294967295 - ?d div 1000000000 * ?f")
      case True
      then have "4294967295 \<le> ticks_covering ?f ?d" unfolding total using not by simp
      then show ?thesis using False True late result by (simp add: min_absorb2)
    next
      case fits: False
      then have "unat (seconds * frequency + fractional) = ticks_covering ?f ?d"
        using not by (simp add: unat_add_no_wrap whole total)
      moreover have "ticks_covering ?f ?d \<le> 4294967295"
        unfolding total using fits not by (metis Nat.le_diff_conv2 add.commute not_less)
      ultimately show ?thesis using False fits late result by (simp add: unat_u32_of_u64)
    qed
  qed
qed

text \<open>
  The wait of the interrupt thread ends at or after the overflow, and less than one tick
  (rounded up) after the time that many whole ticks take.
\<close>

lemma nanosecondsUntilOverflow_exact:
  assumes "m_running t" "m_startedAtNanoseconds t \<le> now" "timer_frequency t \<noteq> 0"
  shows "unat (nanosecondsUntilOverflow t now) =
    ((timer_period t - total_ticks t (unat now) mod timer_period t) * 1000000000 + timer_frequency t - 1) div timer_frequency t"
proof -
  let ?p = "timer_period t" and ?f = "timer_frequency t"
  define ticks where "ticks = (ucast (m_autoReload t) + 1 :: u64) - ucast (counterAt t now)"
  note bp = timer_period_bound [of t]
  have c: "unat (counterAt t now) = total_ticks t (unat now) mod ?p" using assms by (intro counterAt_exact)
  then have "unat (counterAt t now) < ?p" using bp by simp
  then have "(ucast (counterAt t now) :: u64) \<le> ucast (m_autoReload t) + 1"
    by (simp add: word_le_nat_alt ucast_plus_one unat_ucast_up timer_period_def)
  then have ticks: "unat ticks = ?p - total_ticks t (unat now) mod ?p"
    unfolding ticks_def by (simp add: unat_sub ucast_plus_one unat_ucast_up c) (simp add: timer_period_def)
  have "unat ticks * unat nanoseconds_per_second \<le> 4294967296 * 1000000000"
    unfolding ticks unat_constants by (rule mult_le_mono1) (use bp in linarith)
  then have product: "unat (ticks * nanoseconds_per_second) = unat ticks * 1000000000"
      "unat (ticks * nanoseconds_per_second) \<le> 4294967296000000000"
    by (simp_all add: unat_mult_no_wrap)
  have f: "unat (ucast (getTickFrequencyHz t) :: u64) = ?f" by (simp add: unat_ucast_up)
  have sum: "unat (ticks * nanoseconds_per_second + ucast (getTickFrequencyHz t)) = unat ticks * 1000000000 + ?f"
    using product timer_frequency_bound [of t] by (simp add: unat_add_no_wrap f)
  moreover have "1 \<le> ticks * nanoseconds_per_second + ucast (getTickFrequencyHz t)"
    using assms(3) by (simp add: word_le_nat_alt sum)
  ultimately have "unat (ticks * nanoseconds_per_second + ucast (getTickFrequencyHz t) - 1) = unat ticks * 1000000000 + ?f - 1"
    by (simp add: unat_sub)
  then have "unat (nanosecondsUntilOverflow t now) = (unat ticks * 1000000000 + ?f - 1) div ?f"
    using assms(1,3) by (simp add: nanosecondsUntilOverflow_def Let_def unat_div f flip: ticks_def)
  then show ?thesis by (simp add: ticks)
qed


lemma nanosecondsUntilOverflow_covers:
  assumes "m_running t" "m_startedAtNanoseconds t \<le> now" "timer_frequency t \<noteq> 0"
  shows "(timer_period t - total_ticks t (unat now) mod timer_period t) * 1000000000
    \<le> unat (nanosecondsUntilOverflow t now) * timer_frequency t"
proof -
  define k where "k = (timer_period t - total_ticks t (unat now) mod timer_period t) * 1000000000"
  let ?f = "timer_frequency t"
  have "unat (nanosecondsUntilOverflow t now) = (k + ?f - 1) div ?f"
    unfolding k_def by (rule nanosecondsUntilOverflow_exact [OF assms])
  moreover have "k + ?f - 1 < Suc ((k + ?f - 1) div ?f) * ?f"
    using assms(3) by (simp add: dividend_less_div_times)
  ultimately show ?thesis unfolding k_def [symmetric] using assms(3) by simp
qed

definition overflows :: "linux_timer \<Rightarrow> nat \<Rightarrow> nat" where
  "overflows t now = total_ticks t now div timer_period t"

lemma ticks_since_start_later:
  assumes "unat (m_startedAtNanoseconds t) \<le> now" "k * 1000000000 \<le> d * timer_frequency t" "now + d \<le> later"
  shows "ticks_since_start t now + k \<le> ticks_since_start t later"
proof -
  let ?f = "timer_frequency t" and ?s = "unat (m_startedAtNanoseconds t)"
  have "(now - ?s) * ?f + k * 1000000000 \<le> (now - ?s + d) * ?f" using assms(2) by (simp add: add_mult_distrib)
  also have "\<dots> \<le> (later - ?s) * ?f" using assms(1,3) by (intro mult_le_mono1) linarith
  finally have "((now - ?s) * ?f + k * 1000000000) div 1000000000 \<le> (later - ?s) * ?f div 1000000000"
    by (rule div_le_mono)
  then show ?thesis by (simp add: ticks_since_start_def)
qed

lemma overflow_by_deadline:
  assumes "m_running t" "m_startedAtNanoseconds t \<le> now" "timer_frequency t \<noteq> 0"
    and "unat now + unat (nanosecondsUntilOverflow t now) \<le> later"
  shows "overflows t (unat now) < overflows t later"
proof -
  let ?p = "timer_period t" and ?T = "total_ticks t (unat now)"
  have "ticks_since_start t (unat now) + (?p - ?T mod ?p) \<le> ticks_since_start t later"
    using ticks_since_start_later [OF _ nanosecondsUntilOverflow_covers [OF assms(1-3)] assms(4)] assms(2)
    by (simp add: word_le_nat_alt)
  then have "?T + (?p - ?T mod ?p) \<le> total_ticks t later" by (simp add: total_ticks_def)
  moreover have "?T = ?T div ?p * ?p + ?T mod ?p" by (simp only: div_mult_mod_eq)
  then have "?T + (?p - ?T mod ?p) = Suc (?T div ?p) * ?p"
    using mod_less_divisor [OF timer_period_bound(1), of ?T t] by (simp only: mult_Suc)
  ultimately have "Suc (?T div ?p) * ?p div ?p \<le> total_ticks t later div ?p" by (metis div_le_mono)
  then show ?thesis using timer_period_bound(1) [of t] by (simp add: overflows_def)
qed

section \<open>Operations keep the count\<close>

text \<open>
  Starting, stopping, and changing the reload value or the prescaler keep the count already
  reached; every operation that can change the meaning of a reading changes the version.
\<close>

lemma counterAt_now: "counterAt t (m_startedAtNanoseconds t) = (if timer_frequency t = 0 then m_counter t
    else ucast ((ucast (m_counter t) :: u64) mod (ucast (m_autoReload t) + 1)))"
  by (simp add: counterAt_def)

lemma stop_keeps_counter: "getCounter later (snd (stop now t)) = getCounter now t"
  by (simp add: stop_def getCounter_def captureCounter_def Let_def)

lemma setAutoReload_keeps_counter:
  "\<not> m_running t \<Longrightarrow> getCounter later (setAutoReload now v t) = getCounter now t"
  by (simp add: setAutoReload_def getCounter_def captureCounter_def)

lemma timer_frequency_update [simp]:
  "timer_frequency (t\<lparr>m_counter := a\<rparr>) = timer_frequency t" "timer_frequency (t\<lparr>m_startedAtNanoseconds := b\<rparr>) = timer_frequency t"
  "timer_frequency (t\<lparr>m_running := c\<rparr>) = timer_frequency t" "timer_frequency (t\<lparr>m_interruptEnabled := d\<rparr>) = timer_frequency t"
  "timer_frequency (t\<lparr>m_stateVersion := e\<rparr>) = timer_frequency t" "timer_frequency (t\<lparr>m_autoReload := f\<rparr>) = timer_frequency t"
  by (simp_all add: timer_frequency_def)

lemma start_keeps_counter:
  assumes "m_running t" "m_startedAtNanoseconds t \<le> now" "timer_frequency t \<noteq> 0"
  shows "getCounter now (snd (start now t)) = getCounter now t"
proof -
  have "total_ticks t (unat now) mod timer_period t < timer_period t" using timer_period_bound by simp
  then have "unat ((ucast (counterAt t now) :: u64) mod (ucast (m_autoReload t) + 1)) = unat (counterAt t now)"
    by (simp add: unat_mod unat_ucast_up ucast_plus_one counterAt_exact [OF assms(2,3)]) (simp add: timer_period_def)
  then have "ucast ((ucast (counterAt t now) :: u64) mod (ucast (m_autoReload t) + 1)) = counterAt t now"
    by (metis unat_u32_bound unat_u32_of_u64 word_unat_eq_iff)
  then show ?thesis using assms(1,3)
    by (simp add: start_def getCounter_def captureCounter_def Let_def counterAt_now
        counterAt_now [of "t\<lparr>m_counter := counterAt t now, m_startedAtNanoseconds := now, m_running := True,
          m_interruptEnabled := False, m_stateVersion := m_stateVersion t + 1\<rparr>", simplified])
qed

lemma version_changes:
  "m_stateVersion (snd (stop now t)) = m_stateVersion t + 1"
  "m_stateVersion (setCounter now v t) = m_stateVersion t + 1"
  "m_stateVersion (setAutoReload now v t) = m_stateVersion t + 1"
  "m_stateVersion (setPrescaler now v t) = m_stateVersion t + 1"
  "m_stateVersion (forceUpdateEvent now t) = m_stateVersion t + 1"
  "m_stateVersion (setPeriod now duration t) = m_stateVersion t + 1"
  by (simp_all add: stop_def setCounter_def setAutoReload_def setPrescaler_def forceUpdateEvent_def setPeriod_def
      captureCounter_def Let_def)

end
