(* ===== verification/Hal_Sources.thy ===== *)
theory Hal_Sources
  imports Calendar Runtime_Start Hal_Timer
begin

text \<open>
  The sources of time and of randomness: the real-time clocks (\<^verbatim>\<open>hal/drivers/impl/{stm32,linux}/Rtc.cpp\<close>)
  with \<^verbatim>\<open>_gettimeofday\<close>, the random number generators (\<^verbatim>\<open>hal/drivers/impl/{stm32,linux}/Rng.cpp\<close>) with
  \<^verbatim>\<open>_getentropy\<close> and \<^verbatim>\<open>std::random_device\<close>, and the input clock of timer 2
  (\<^verbatim>\<open>hal/drivers/factory/stm32/timer.cpp\<close>). What the hardware and the kernel answer is an argument.
\<close>

section \<open>Real-time clocks\<close>

record RTC_TimeTypeDef =
  Hours :: u8
  Minutes :: u8
  Seconds :: u8
  SubSeconds :: u32
  SecondFraction :: u32

record RTC_DateTypeDef =
  Month :: u8
  Date :: u8
  Year :: u8

definition rtc_registers_valid :: "RTC_TimeTypeDef \<Rightarrow> RTC_DateTypeDef \<Rightarrow> bool" where
  "rtc_registers_valid time date \<longleftrightarrow>
     \<not> (Month date < 1 \<or> Month date > 12 \<or> Date date < 1 \<or>
        uint (Date date) > days_in_month (2000 + uint (Year date)) (uint (Month date)) \<or>
        Hours time \<ge> 24 \<or> Minutes time \<ge> 60 \<or> Seconds time \<ge> 60 \<or> SubSeconds time > SecondFraction time)"

definition rtc_seconds :: "RTC_TimeTypeDef \<Rightarrow> RTC_DateTypeDef \<Rightarrow> int" where
  "rtc_seconds time date =
     days_from_civil (2000 + uint (Year date)) (uint (Month date)) (uint (Date date)) * 86400 +
     uint (Hours time) * 3600 + uint (Minutes time) * 60 + uint (Seconds time)"

definition rtc_nanoseconds :: "RTC_TimeTypeDef \<Rightarrow> u64" where
  "rtc_nanoseconds time =
     (let subsecond_ticks = ucast (SecondFraction time - SubSeconds time)
      in subsecond_ticks * 1000000000 div (ucast (SecondFraction time) + 1))"

definition rtc_get_time :: "hal_status \<times> RTC_TimeTypeDef \<Rightarrow> hal_status \<times> RTC_DateTypeDef \<Rightarrow> HalError + Timestamp" where
  "rtc_get_time = (\<lambda>(time_status, time) (date_status, date).
     if time_status \<noteq> HAL_OK \<or> date_status \<noteq> HAL_OK then Inl Error
     else if \<not> rtc_registers_valid time date then Inl Error
     else Inr \<lparr>seconds_since_epoch = rtc_seconds time date, ts_nanoseconds = ucast (rtc_nanoseconds time)\<rparr>)"

text \<open>The Linux clock: \<open>None\<close> when \<^verbatim>\<open>clock_gettime\<close> fails, else its seconds and nanoseconds.\<close>

definition linux_rtc_get_time :: "(int \<times> int) option \<Rightarrow> HalError + Timestamp" where
  "linux_rtc_get_time now =
     (case now of
        None \<Rightarrow> Inl Error
      | Some (tv_sec, tv_nsec) \<Rightarrow>
          if tv_nsec < 0 \<or> tv_nsec \<ge> 1000000000 then Inl Error
          else Inr \<lparr>seconds_since_epoch = tv_sec, ts_nanoseconds = word_of_int tv_nsec\<rparr>)"

text \<open>
  \<^verbatim>\<open>_gettimeofday\<close>: whether a buffer is given, whether there is a clock, and its answer;
  \<open>k\<close> is the width of \<^verbatim>\<open>time_t\<close>. The result is the error number or seconds and microseconds.
\<close>

definition gettimeofday :: "nat \<Rightarrow> bool \<Rightarrow> (HalError + Timestamp) option \<Rightarrow> errno + int \<times> int" where
  "gettimeofday k value rtc =
     (if \<not> value then Inl EFAULT
      else
        (case rtc of
           None \<Rightarrow> Inl ENODEV
         | Some (Inl _) \<Rightarrow> Inl EIO
         | Some (Inr timestamp) \<Rightarrow>
             if ts_nanoseconds timestamp \<ge> 1000000000 \<or>
               \<not> (- (2 ^ (k - 1)) \<le> seconds_since_epoch timestamp \<and> seconds_since_epoch timestamp < 2 ^ (k - 1))
             then Inl EOVERFLOW
             else Inr (seconds_since_epoch timestamp, uint (ts_nanoseconds timestamp div 1000))))"

section \<open>Correctness of the clocks\<close>

lemma before_next_month:
  assumes "valid_date (y, m, d)" "m < 12"
  shows "days_from_civil y m d < days_from_civil y (m + 1) 1"
proof -
  have m: "1 \<le> m" "m \<le> 12" and d: "d \<le> days_in_month y m" using assms by (auto simp: valid_date_def)
  show ?thesis
    using month_in_year [OF m] d assms(2) year_days_step [of y]
    by (elim insertE emptyE) (auto simp: days_from_civil_closed days_in_month_def split: if_splits)
qed

lemma month_start_mono: "1 \<le> m \<Longrightarrow> m \<le> m' \<Longrightarrow> m' \<le> 12 \<Longrightarrow> days_from_civil y m 1 \<le> days_from_civil y m' 1"
proof (induction "nat (m' - m)" arbitrary: m')
  case (Suc n)
  have "m < m'" using Suc.hyps(2) by linarith
  then have "valid_date (y, m' - 1, 1)" using Suc.prems by (simp add: valid_date_def days_in_month_def)
  then have "days_from_civil y (m' - 1) 1 < days_from_civil y m' 1" using before_next_month [of y "m' - 1" 1] Suc by simp
  moreover have "days_from_civil y m 1 \<le> days_from_civil y (m' - 1) 1" using Suc by (intro Suc.hyps) simp_all
  ultimately show ?case by linarith
qed simp

lemma days_in_year_order:
  assumes "valid_date (y, m, d)" "valid_date (y, m', d')" "m < m'"
  shows "days_from_civil y m d < days_from_civil y m' d'"
proof -
  have m: "1 \<le> m" "m < 12" "1 \<le> m'" "m' \<le> 12" and d: "1 \<le> d'" using assms by (auto simp: valid_date_def)
  have "days_from_civil y m d < days_from_civil y (m + 1) 1" using before_next_month [OF assms(1) m(2)] .
  also have "\<dots> \<le> days_from_civil y m' 1" using m assms(3) by (intro month_start_mono) simp_all
  also have "\<dots> \<le> days_from_civil y m' d'" using m d by (simp add: days_from_civil_closed)
  finally show ?thesis .
qed

lemma civil_from_days_inverse:
  assumes "valid_date (y, m, d)"
  shows "civil_from_days (days_from_civil y m d) = (y, m, d)"
proof -
  obtain y' m' d' where c: "civil_from_days (days_from_civil y m d) = (y', m', d')" by (metis prod_cases3)
  have v: "valid_date (y', m', d')" and n: "days_from_civil y' m' d' = days_from_civil y m d"
    using civil_from_days_correct [of "days_from_civil y m d"] by (simp_all add: c)
  have "y \<le> y'" "y' < y + 1" using year_of_range [OF date_in_year [OF assms] c] by simp_all
  then have y: "y' = y" by simp
  have "m' = m"
    using days_in_year_order [of y m d m' d'] days_in_year_order [of y m' d' m d] assms v n by (cases m m' rule: linorder_cases) (simp_all add: y)
  moreover from this have "d' = d"
    using n assms by (auto simp: y days_from_civil_closed valid_date_def)
  ultimately show ?thesis by (simp add: c y)
qed

lemma rtc_registers_validD:
  assumes "rtc_registers_valid time date"
  shows "valid_date (2000 + uint (Year date), uint (Month date), uint (Date date))"
    and "uint (Hours time) < 24" "uint (Minutes time) < 60" "uint (Seconds time) < 60"
    and "SubSeconds time \<le> SecondFraction time"
  using assms by (auto simp: rtc_registers_valid_def valid_date_def word_less_def word_le_def not_less not_le)

lemma unat_ucast_u64: "unat (ucast (x :: u32) :: u64) = unat x"
  using unat_u32_bound [of x] by (simp add: unsigned_ucast_eq take_bit_nat_eq_self_iff)

lemma rtc_nanoseconds_exact:
  assumes "SubSeconds time \<le> SecondFraction time"
  shows "unat (rtc_nanoseconds time) =
      (unat (SecondFraction time) - unat (SubSeconds time)) * 1000000000 div (unat (SecondFraction time) + 1)"
    and "unat (rtc_nanoseconds time) < 1000000000"
proof -
  let ?f = "unat (SecondFraction time)" and ?s = "unat (SubSeconds time)"
  have f: "?f < 4294967296" by (rule unat_u32_bound)
  have ticks: "unat (ucast (SecondFraction time - SubSeconds time) :: u64) = ?f - ?s"
    using assms by (simp add: unat_ucast_u64 unat_sub word_le_nat_alt)
  have "(?f - ?s) * 1000000000 < 2 ^ 64" using f by simp
  then have "unat (ucast (SecondFraction time - SubSeconds time) * 1000000000 :: u64) = (?f - ?s) * 1000000000"
    by (subst unat_mult_no_wrap) (simp_all add: ticks)
  moreover have "unat (ucast (SecondFraction time) + 1 :: u64) = ?f + 1"
    using f by (subst unat_add_no_wrap) (simp_all add: unat_ucast_u64)
  ultimately show exact: "unat (rtc_nanoseconds time) = (?f - ?s) * 1000000000 div (?f + 1)"
    by (simp add: rtc_nanoseconds_def Let_def unat_div_distrib)
  have "(?f - ?s) * 1000000000 < (?f + 1) * 1000000000" by simp
  then show "unat (rtc_nanoseconds time) < 1000000000"
    unfolding exact by (metis less_mult_imp_div_less mult.commute)
qed

text \<open>The seconds convert back to the registers, and the runtime takes every time the driver reports as its epoch.\<close>

lemma rtc_time_roundtrip:
  assumes "rtc_get_time (time_status, time) (date_status, date) = Inr t"
  shows "civil_from_days (seconds_since_epoch t div 86400) = (2000 + uint (Year date), uint (Month date), uint (Date date)) \<and>
    seconds_since_epoch t mod 86400 = uint (Hours time) * 3600 + uint (Minutes time) * 60 + uint (Seconds time) \<and>
    unat (ts_nanoseconds t) =
      (unat (SecondFraction time) - unat (SubSeconds time)) * 1000000000 div (unat (SecondFraction time) + 1)"
proof -
  let ?clock = "uint (Hours time) * 3600 + uint (Minutes time) * 60 + uint (Seconds time)"
  let ?days = "days_from_civil (2000 + uint (Year date)) (uint (Month date)) (uint (Date date))"
  have valid: "rtc_registers_valid time date" and t: "seconds_since_epoch t = rtc_seconds time date"
    "ts_nanoseconds t = ucast (rtc_nanoseconds time)"
    using assms by (auto simp: rtc_get_time_def split: if_splits)
  note regs = rtc_registers_validD [OF valid]
  have clock: "0 \<le> ?clock" "?clock < 86400" using regs(2-4) by auto
  have seconds: "seconds_since_epoch t = ?days * 86400 + ?clock" by (simp add: t rtc_seconds_def)
  have "seconds_since_epoch t div 86400 = ?days" "seconds_since_epoch t mod 86400 = ?clock"
    using clock by (simp_all add: seconds)
  moreover have "unat (ts_nanoseconds t) = unat (rtc_nanoseconds time)"
    using rtc_nanoseconds_exact(2) [OF regs(5)] by (simp add: t unsigned_ucast_eq take_bit_nat_eq_self_iff)
  ultimately show ?thesis
    using civil_from_days_inverse [OF regs(1)] rtc_nanoseconds_exact(1) [OF regs(5)] by simp
qed

lemma rtc_time_usable:
  assumes "rtc_get_time (time_status, time) (date_status, date) = Inr t"
  shows "usable_timestamp t"
proof -
  have valid: "rtc_registers_valid time date" and t: "seconds_since_epoch t = rtc_seconds time date"
    "ts_nanoseconds t = ucast (rtc_nanoseconds time)"
    using assms by (auto simp: rtc_get_time_def split: if_splits)
  note regs = rtc_registers_validD [OF valid]
  have year: "0 \<le> uint (Year date)" "uint (Year date) \<le> 255" using uint_bounded [of "Year date"] by simp_all
  have "days_from_civil 2000 1 1 \<le> days_from_civil (2000 + uint (Year date)) 1 1"
    "days_from_civil (2000 + uint (Year date) + 1) 1 1 \<le> days_from_civil 2256 1 1"
    using year by (intro new_year_mono; simp)+
  moreover have "days_from_civil 2000 1 1 = 10957" "days_from_civil 2256 1 1 = 104459" by code_simp+
  ultimately have "10957 \<le> days_from_civil (2000 + uint (Year date)) (uint (Month date)) (uint (Date date))"
    "days_from_civil (2000 + uint (Year date)) (uint (Month date)) (uint (Date date)) < 104459"
    using date_in_year [OF regs(1)] by linarith+
  then have "0 \<le> seconds_since_epoch t" "seconds_since_epoch t < 9223372036"
    using regs(2-4) by (auto simp: t rtc_seconds_def)
  moreover have "unat (ts_nanoseconds t) = unat (rtc_nanoseconds time)"
    using rtc_nanoseconds_exact(2) [OF regs(5)] by (simp add: t unsigned_ucast_eq take_bit_nat_eq_self_iff)
  then have "ts_nanoseconds t < 1000000000"
    using rtc_nanoseconds_exact(2) [OF regs(5)] by (simp add: word_less_nat_alt)
  ultimately show ?thesis by (simp add: usable_timestamp_def int64_max_def)
qed

lemma gettimeofday_rtc:
  assumes "rtc_get_time time date = Inr t"
  shows "gettimeofday 64 True (Some (rtc_get_time time date)) = Inr (seconds_since_epoch t, uint (ts_nanoseconds t) div 1000)"
proof -
  obtain time_status tm date_status d where r: "time = (time_status, tm)" "date = (date_status, d)" by (metis surj_pair)
  have u: "usable_timestamp t" using rtc_time_usable assms by (simp add: r)
  then have "ts_nanoseconds t < 1000000000" "0 \<le> seconds_since_epoch t" "seconds_since_epoch t < 2 ^ 63"
    by (auto simp: usable_timestamp_def Let_def int64_max_def)
  moreover have "uint (ts_nanoseconds t div 1000) = uint (ts_nanoseconds t) div 1000" by (simp add: uint_div_distrib)
  ultimately show ?thesis by (auto simp: gettimeofday_def assms)
qed

text \<open>Nothing but the status and the fields of the registers decides whether there is a time.\<close>

lemma rtc_time_defined:
  "(\<exists>t. rtc_get_time (time_status, time) (date_status, date) = Inr t) \<longleftrightarrow>
    time_status = HAL_OK \<and> date_status = HAL_OK \<and> SubSeconds time \<le> SecondFraction time \<and>
    valid_date (2000 + uint (Year date), uint (Month date), uint (Date date)) \<and>
    uint (Hours time) < 24 \<and> uint (Minutes time) < 60 \<and> uint (Seconds time) < 60"
  by (auto simp: rtc_get_time_def rtc_registers_valid_def valid_date_def word_less_def word_le_def not_less not_le)


section \<open>Random numbers\<close>

text \<open>
  One call of \<^verbatim>\<open>getrandom\<close> is interrupted, fails, or stores some of the bytes asked for. The loop takes the
  answers in order; \<open>None\<close> is the loop after the answers given.
\<close>

datatype getrandom_answer = Random_interrupted | Random_failed | Random_bytes "u8 list"

primrec linux_generate :: "getrandom_answer list \<Rightarrow> u8 list \<Rightarrow> (HalError + u8 list) option" where
  "linux_generate [] filled = (if length filled < 4 then None else Some (Inr filled))"
| "linux_generate (a # answers) filled =
     (if length filled < 4
      then (case a of
              Random_interrupted \<Rightarrow> linux_generate answers filled
            | Random_failed \<Rightarrow> Some (Inl Error)
            | Random_bytes bytes \<Rightarrow> if bytes = [] then Some (Inl Error) else linux_generate answers (filled @ bytes))
      else Some (Inr filled))"

text \<open>
  The STM32 generator under its mutex: the answers of \<open>tx_mutex_get\<close>, of the hardware and of \<open>tx_mutex_put\<close>.
  \<open>None\<close> is the end of the program.
\<close>

definition hal_error_of :: "hal_status \<Rightarrow> HalError" where
  "hal_error_of status = (case status of HAL_BUSY \<Rightarrow> Busy | HAL_TIMEOUT \<Rightarrow> Timeout | _ \<Rightarrow> Error)"

definition stm32_generate :: "tx_status \<Rightarrow> hal_status \<times> u32 \<Rightarrow> tx_status \<Rightarrow> (HalError + u32) option" where
  "stm32_generate get hardware put =
     (if get \<noteq> TX_SUCCESS then None
      else
        (let (status, value) = hardware; result = (if status \<noteq> HAL_OK then Inl (hal_error_of status) else Inr value)
         in if put \<noteq> TX_SUCCESS then None else Some result))"

text \<open>The inner loop of \<^verbatim>\<open>_getentropy\<close> appends the bytes of one value while there is room.\<close>

definition value_bytes :: "u32 \<Rightarrow> u8 list" where
  "value_bytes value = map (\<lambda>index. ucast (drop_bit (index * 8) value)) [0..<4]"

text \<open>\<open>rng i\<close> is the answer to the \<open>i\<close>th call of the generator; the second component is what was stored.\<close>

function getentropy_loop :: "(nat \<Rightarrow> HalError + u32) \<Rightarrow> nat \<Rightarrow> nat \<Rightarrow> u8 list \<Rightarrow> errno option \<times> u8 list" where
  "getentropy_loop rng i n filled =
     (if length filled < n
      then (case rng i of
              Inl _ \<Rightarrow> (Some EIO, filled)
            | Inr value \<Rightarrow> getentropy_loop rng (i + 1) n (filled @ take (n - length filled) (value_bytes value)))
      else (None, filled))"
  by pat_completeness auto
termination
  by (relation "measure (\<lambda>(_, _, n, filled). n - length filled)") (auto simp: value_bytes_def)

declare getentropy_loop.simps [simp del]

definition getentropy :: "bool \<Rightarrow> nat \<Rightarrow> bool \<Rightarrow> bool \<Rightarrow> (nat \<Rightarrow> HalError + u32) option \<Rightarrow> errno option \<times> u8 list" where
  "getentropy buffer n in_interrupt has_thread rng =
     (if n = 0 then (None, [])
      else if \<not> buffer then (Some EFAULT, [])
      else if n > 256 then (Some EIO, [])
      else if in_interrupt \<or> \<not> has_thread then (Some EPERM, [])
      else (case rng of None \<Rightarrow> (Some ENODEV, []) | Some rng \<Rightarrow> getentropy_loop rng 0 n []))"

text \<open>\<^verbatim>\<open>std::random_device\<close>; the left is what is thrown.\<close>

datatype random_exception = Runtime_error string | System_error HalError

definition validate_token :: "string \<Rightarrow> random_exception option" where
  "validate_token token =
     (if token \<noteq> ''default'' \<and> token \<noteq> ''hardware''
      then Some (Runtime_error (''unsupported random_device token: '' @ token)) else None)"

definition random_device_init :: "string option \<Rightarrow> random_exception option" where
  "random_device_init token =
     (case token of None \<Rightarrow> Some (Runtime_error ''random_device token is null'') | Some token \<Rightarrow> validate_token token)"

definition hardware_random_value :: "(HalError + u32) option \<Rightarrow> random_exception + u32" where
  "hardware_random_value rng =
     (case rng of
        None \<Rightarrow> Inl (Runtime_error ''hardware random-number generator is unavailable'')
      | Some (Inl e) \<Rightarrow> Inl (System_error e)
      | Some (Inr value) \<Rightarrow> Inr value)"

text \<open>
  The kernel stores no more than it is asked for. Then four bytes come back, in the order they were stored, and
  an interruption changes nothing.
\<close>

primrec stored :: "getrandom_answer \<Rightarrow> u8 list" where
  "stored Random_interrupted = []"
| "stored Random_failed = []"
| "stored (Random_bytes bytes) = bytes"

primrec within_request :: "getrandom_answer list \<Rightarrow> nat \<Rightarrow> bool" where
  "within_request [] k \<longleftrightarrow> True"
| "within_request (a # answers) k \<longleftrightarrow> k = 0 \<or> length (stored a) \<le> k \<and> within_request answers (k - length (stored a))"

lemma linux_generate_value:
  assumes "linux_generate answers filled = Some (Inr value)" "within_request answers (4 - length filled)" "length filled \<le> 4"
  shows "value = take 4 (filled @ concat (map stored answers)) \<and> length value = 4"
  using assms
proof (induction answers arbitrary: filled)
  case (Cons a answers)
  show ?case
  proof (cases "length filled < 4")
    case True
    have short: "length filled + length (stored a) \<le> 4" using Cons.prems(2) True by auto
    have "linux_generate answers (filled @ stored a) = Some (Inr value)" "within_request answers (4 - length (filled @ stored a))"
      using Cons.prems True by (cases a; simp split: if_splits)+
    then have "value = take 4 ((filled @ stored a) @ concat (map stored answers)) \<and> length value = 4"
      using short by (intro Cons.IH) simp_all
    moreover have "(filled @ stored a) @ concat (map stored answers) = filled @ concat (map stored (a # answers))" by simp
    ultimately show ?thesis by metis
  qed (use Cons.prems in simp)
qed (simp split: if_splits)

lemma linux_generate_fails:
  assumes "linux_generate answers filled = Some (Inl e)"
  shows "e = Error \<and> (Random_failed \<in> set answers \<or> Random_bytes [] \<in> set answers)"
  using assms by (induction answers arbitrary: filled) (auto split: if_splits getrandom_answer.splits)

lemma linux_generate_returns:
  assumes "Random_failed \<notin> set answers" "Random_bytes [] \<notin> set answers" "4 \<le> length (filled @ concat (map stored answers))"
  shows "\<exists>value. linux_generate answers filled = Some (Inr value)"
  using assms
proof (induction answers arbitrary: filled)
  case (Cons a answers)
  show ?case using Cons.prems Cons.IH [of "filled @ stored a"] by (cases a) auto
qed simp

lemma length_value_bytes [simp]: "length (value_bytes v) = 4"
  by (simp add: value_bytes_def)

text \<open>The entropy is the little-endian bytes of consecutive values of the generator, or the call fails.\<close>

definition generated :: "(nat \<Rightarrow> HalError + u32) \<Rightarrow> nat \<Rightarrow> nat \<Rightarrow> u8 list" where
  "generated rng i k = concat (map (\<lambda>j. value_bytes (projr (rng j))) [i..<i + k])"

lemma length_generated: "length (generated rng i k) = 4 * k"
  by (induction k arbitrary: i) (simp_all add: generated_def)

lemma getentropy_loop_values:
  assumes "\<And>j. i \<le> j \<Longrightarrow> 4 * (j - i) + length filled < n \<Longrightarrow> \<not> isl (rng j)" "length filled \<le> n" "n \<le> length filled + 4 * k"
  shows "getentropy_loop rng i n filled = (None, take n (filled @ generated rng i k))"
  using assms
proof (induction rng i n filled arbitrary: k rule: getentropy_loop.induct)
  case (1 rng i n filled)
  show ?case
  proof (cases "length filled < n")
    case False
    then show ?thesis using "1.prems" by (simp add: getentropy_loop.simps [of rng i])
  next
    case True
    then have "\<not> isl (rng i)" using "1.prems"(1) [of i] by simp
    then obtain v where v: "rng i = Inr v" by (cases "rng i") simp_all
    obtain k' where k: "k = Suc k'" using True "1.prems"(3) by (cases k) simp_all
    have gen: "generated rng i k = value_bytes v @ generated rng (i + 1) k'"
      by (simp add: generated_def k upt_rec [of i] v del: upt_Suc)
    let ?filled = "filled @ take (n - length filled) (value_bytes v)"
    have len: "length ?filled = min n (length filled + 4)" using True by simp
    have more: "\<not> isl (rng j)" if "i + 1 \<le> j" "4 * (j - (i + 1)) + length ?filled < n" for j
    proof -
      have "4 * (j - i) + length filled < n" using that True by (simp add: len)
      then show ?thesis using "1.prems"(1) that(1) by simp
    qed
    have "getentropy_loop rng (i + 1) n ?filled = (None, take n (?filled @ generated rng (i + 1) k'))"
      using "1.prems"(3) by (intro "1.IH" [OF True v more]) (use True in \<open>auto simp: len k min_def\<close>)
    moreover have "take n (?filled @ generated rng (i + 1) k') = take n (filled @ generated rng i k)"
      using True by (cases "n \<le> length filled + 4") (simp_all add: gen)
    ultimately show ?thesis using True by (simp add: getentropy_loop.simps [of rng i] v)
  qed
qed

lemma getentropy_loop_fails:
  assumes "getentropy_loop rng i n filled = (Some e, written)"
  shows "e = EIO \<and> (\<exists>j \<ge> i. isl (rng j))"
  using assms
proof (induction rng i n filled rule: getentropy_loop.induct)
  case (1 rng i n filled)
  then show ?case
    by (subst (asm) getentropy_loop.simps [of rng i]) (auto split: if_splits sum.splits dest: Suc_leD)
qed

lemma getentropy_exact:
  assumes "0 < n" "n \<le> 256" "\<And>j. 4 * j < n \<Longrightarrow> \<not> isl (rng j)"
  shows "getentropy True n False True (Some rng) = (None, take n (generated rng 0 64))"
  using getentropy_loop_values [where i = 0 and filled = "[]" and n = n and rng = rng and k = 64] assms by (simp add: getentropy_def)

section \<open>The input clock of timer 2\<close>

datatype hclk_divider = RCC_HCLK_DIV1 | RCC_HCLK_DIV2 | RCC_HCLK_DIV4 | RCC_HCLK_DIV8 | RCC_HCLK_DIV16

definition timer2_input_frequency_hz :: "bool \<Rightarrow> hclk_divider \<Rightarrow> u32 \<Rightarrow> u32 \<Rightarrow> u32" where
  "timer2_input_frequency_hz TIMPRE APB1CLKDivider HCLKFreq PCLK1Freq =
     (let frequency = ucast PCLK1Freq :: u64;
          frequency =
            (if TIMPRE
             then (if APB1CLKDivider = RCC_HCLK_DIV1 \<or> APB1CLKDivider = RCC_HCLK_DIV2 \<or> APB1CLKDivider = RCC_HCLK_DIV4
                   then ucast HCLKFreq else frequency * 4)
             else if APB1CLKDivider \<noteq> RCC_HCLK_DIV1 then frequency * 2 else frequency)
      in ucast (min frequency 4294967295))"

primrec divider_value :: "hclk_divider \<Rightarrow> nat" where
  "divider_value RCC_HCLK_DIV1 = 1"
| "divider_value RCC_HCLK_DIV2 = 2"
| "divider_value RCC_HCLK_DIV4 = 4"
| "divider_value RCC_HCLK_DIV8 = 8"
| "divider_value RCC_HCLK_DIV16 = 16"

text \<open>
  The clock tree: the bus clock is the core clock divided, and the timers of the bus run at a multiple of the bus
  clock of at most the core clock, 2 or 4 as \<open>TIMPRE\<close> selects.
\<close>

lemma timer2_clock_tree:
  assumes "unat hclk = divider_value d * unat pclk"
  shows "unat (timer2_input_frequency_hz timpre d hclk pclk) = min (divider_value d) (if timpre then 4 else 2) * unat pclk"
proof -
  have bounds: "unat hclk < 4294967296" "unat pclk < 4294967296" by (rule unat_u32_bound)+
  let ?f = "min (divider_value d) (if timpre then 4 else 2)"
  have "?f * unat pclk \<le> unat hclk" using assms by simp
  have times: "unat (ucast pclk * word_of_nat c :: u64) = unat pclk * c" if "c \<le> 4" for c :: nat
  proof -
    have "unat (word_of_nat c :: u64) = c" using that by (simp add: unat_of_nat take_bit_nat_eq_self_iff)
    moreover have "unat pclk * c \<le> unat pclk * 4" using that by (rule mult_le_mono2)
    then have "unat pclk * c < 18446744073709551616" using bounds by linarith
    ultimately show ?thesis
      by (subst unat_mult_no_wrap) (simp_all add: unat_ucast_u64)
  qed
  have down: "unat (ucast (min x 4294967295 :: u64) :: u32) = min (unat x) 4294967295" for x :: u64
    by (simp add: min_def word_le_nat_alt unsigned_ucast_eq take_bit_nat_eq_self_iff)
  show ?thesis using bounds assms times [of 4] times [of 2]
    by (cases d; cases timpre) (simp_all add: timer2_input_frequency_hz_def Let_def down unat_ucast_u64)
qed

end
