(* ===== verification/Port_Stack.thy ===== *)
theory Port_Stack
  imports Nucleo_Prelude
begin

unbundle bit_operations_syntax

text \<open>
  The stacks of the simulated threads in the Linux port of ThreadX
  (\<^verbatim>\<open>external/threadx_port/linux/gnu/src/tx_thread_stack_info.cpp\<close>): each thread runs on a host stack of its
  own, and the depth of that stack is reported as a pointer into the stack ThreadX knows. Addresses are
  \<open>u64\<close>, with 0 for null; \<open>w\<close> is the size and alignment of \<open>ULONG\<close>, which the port defines.
\<close>

section \<open>State\<close>

datatype stack_error =
    DELETED | POOL_ERROR | PTR_ERROR | WAIT_ERROR | SIZE_ERROR | GROUP_ERROR | NO_EVENTS | OPTION_ERROR
  | QUEUE_ERROR | QUEUE_EMPTY | QUEUE_FULL | SEMAPHORE_ERROR | NO_INSTANCE | THREAD_ERROR | PRIORITY_ERROR
  | NO_MEMORY | START_ERROR | DELETE_ERROR | RESUME_ERROR | CALLER_ERROR | SUSPEND_ERROR | TIMER_ERROR
  | TICK_ERROR | ACTIVATE_ERROR | THRESH_ERROR | SUSPEND_LIFTED | WAIT_ABORTED | WAIT_ABORT_ERROR
  | MUTEX_ERROR | NOT_AVAILABLE | NOT_OWNED | INHERIT_ERROR | NOT_DONE | CEILING_EXCEEDED
  | INVALID_CEILING | FEATURE_NOT_ENABLED

record StackInfo =
  host_stack_base :: u64
  host_stack_size :: u64
  signal_stack_size :: u64
  baseline_host_stack_ptr :: u64

record port_thread =
  is_thread :: bool
  tx_thread_stack_size :: u64
  tx_thread_stack_start :: u64
  tx_thread_stack_end :: u64
  tx_thread_stack_ptr :: u64
  tx_thread_stack_highest_ptr :: u64
  tx_thread_extension :: "StackInfo option"

definition align_down :: "u64 \<Rightarrow> u64 \<Rightarrow> u64" where
  "align_down w address = address AND NOT (w - 1)"

definition stack_round_up :: "u64 \<Rightarrow> u64 \<Rightarrow> u64" where
  "stack_round_up bytes alignment = (bytes + alignment - 1) AND NOT (alignment - 1)"

section \<open>Host stacks\<close>

text \<open>
  What the host answers: the page size, its constants, the address of the aligned block or none,
  and whether memory for the signal stack and the bookkeeping is there. The other component of the
  state counts the live host stacks.
\<close>

record port_host =
  host_page_size :: int
  PTHREAD_STACK_MIN :: u64
  SIGSTKSZ :: u64

definition host_size :: "port_host \<Rightarrow> u64 \<Rightarrow> u64 \<Rightarrow> u64" where
  "host_size host w requested_size =
     (let page_size = (if host_page_size host \<le> 0 then 4096 else word_of_int (host_page_size host))
      in stack_round_up (requested_size + PTHREAD_STACK_MIN host + w) page_size)"

definition stack_release :: "port_thread \<times> nat \<Rightarrow> port_thread \<times> nat" where
  "stack_release s =
     (case s of (t, live) \<Rightarrow>
        case tx_thread_extension t of None \<Rightarrow> (t, live) | Some _ \<Rightarrow> (t\<lparr>tx_thread_extension := None\<rparr>, live - 1))"

definition stack_prepare :: "port_host \<Rightarrow> u64 \<Rightarrow> u64 option \<Rightarrow> bool \<Rightarrow> port_thread \<times> nat \<Rightarrow> stack_error option \<times> port_thread \<times> nat" where
  "stack_prepare host w block memory_available s =
     (let requested_size = tx_thread_stack_size (fst s)
      in if requested_size = 0 then (Some SIZE_ERROR, s)
         else
           (let s = stack_release s
            in case block of
                 None \<Rightarrow> (Some NO_MEMORY, s)
               | Some base \<Rightarrow>
                   if \<not> memory_available then (Some NO_MEMORY, s)
                   else (None, (fst s)\<lparr>tx_thread_extension := Some \<lparr>host_stack_base = base,
                           host_stack_size = host_size host w requested_size, signal_stack_size = SIGSTKSZ host,
                           baseline_host_stack_ptr = 0\<rparr>\<rparr>, snd s + 1)))"

section \<open>The reported pointer\<close>

definition logical_bottom :: "u64 \<Rightarrow> port_thread \<Rightarrow> u64" where
  "logical_bottom w t = tx_thread_stack_start t + w"

definition logical_top :: "u64 \<Rightarrow> port_thread \<Rightarrow> u64" where
  "logical_top w t = align_down w (tx_thread_stack_end t + 1)"

definition logical_address :: "u64 \<Rightarrow> u64 \<Rightarrow> u64 \<Rightarrow> u64 \<Rightarrow> u64 \<Rightarrow> u64" where
  "logical_address w bottom high baseline current =
     (if current \<ge> baseline then high
      else
        (let delta = baseline - current
         in if delta \<ge> high - bottom then bottom
            else (let address = align_down w (high - delta) in if address < bottom then bottom else address)))"

definition stack_update :: "bool \<Rightarrow> u64 \<Rightarrow> u64 \<Rightarrow> port_thread \<Rightarrow> stack_error option \<times> port_thread" where
  "stack_update check w stack_ptr t =
     (if \<not> is_thread t \<or> stack_ptr = 0 \<or> tx_thread_stack_start t = 0 \<or> tx_thread_stack_end t = 0 then (Some PTR_ERROR, t)
      else
        (case tx_thread_extension t of
           None \<Rightarrow> (Some PTR_ERROR, t)
         | Some info \<Rightarrow>
             if logical_top w t < logical_bottom w t + 2 * w then (Some SIZE_ERROR, t)
             else
               (let high = logical_top w t - 2 * w
                in if stack_ptr < host_stack_base info \<or> stack_ptr \<ge> host_stack_base info + host_stack_size info
                   then (Some PTR_ERROR, t)
                   else
                     (let info = (if baseline_host_stack_ptr info = 0 then info\<lparr>baseline_host_stack_ptr := stack_ptr\<rparr> else info);
                          logical = logical_address w (logical_bottom w t) high (baseline_host_stack_ptr info) stack_ptr;
                          t = t\<lparr>tx_thread_extension := Some info, tx_thread_stack_ptr := logical\<rparr>
                      in (None,
                          if check \<and> (tx_thread_stack_highest_ptr t = 0 \<or> logical < tx_thread_stack_highest_ptr t)
                          then t\<lparr>tx_thread_stack_highest_ptr := logical\<rparr> else t)))))"

definition stack_calibrate :: "bool \<Rightarrow> u64 \<Rightarrow> u64 \<Rightarrow> port_thread \<Rightarrow> port_thread" where
  "stack_calibrate check w stack_ptr t =
     (case tx_thread_extension t of
        None \<Rightarrow> t
      | Some info \<Rightarrow>
          (let (e, t) = stack_update check w stack_ptr (t\<lparr>tx_thread_extension := Some (info\<lparr>baseline_host_stack_ptr := stack_ptr\<rparr>)\<rparr>)
           in if e \<noteq> None then t
              else if check then t\<lparr>tx_thread_stack_highest_ptr := tx_thread_stack_ptr t\<rparr> else t))"

definition capture_current :: "bool \<Rightarrow> u64 \<Rightarrow> u64 \<Rightarrow> port_thread \<Rightarrow> port_thread" where
  "capture_current check w stack_ptr t = snd (stack_update check w stack_ptr t)"

text \<open>A signal names the thread registered for the host thread, if any, and the interrupted stack pointer.\<close>

definition capture_signal_context :: "bool \<Rightarrow> u64 \<Rightarrow> nat option \<Rightarrow> u64 option \<Rightarrow> (nat \<Rightarrow> port_thread) \<Rightarrow> nat \<Rightarrow> port_thread" where
  "capture_signal_context check w g_thread context ts =
     (case (g_thread, context) of
        (Some i, Some stack_ptr) \<Rightarrow> ts(i := capture_current check w stack_ptr (ts i))
      | _ \<Rightarrow> ts)"

definition stack_refresh :: "bool \<Rightarrow> u64 \<Rightarrow> u64 \<Rightarrow> bool \<Rightarrow> port_thread \<Rightarrow> port_thread" where
  "stack_refresh check w stack_ptr runs_here t =
     (if \<not> is_thread t then t else if runs_here then capture_current check w stack_ptr t else t)"

text \<open>All created threads, in the order of the list of ThreadX; \<open>self\<close> is the one that runs on this host thread.\<close>

definition refresh_all :: "bool \<Rightarrow> u64 \<Rightarrow> u64 \<Rightarrow> nat option \<Rightarrow> nat list \<Rightarrow> (nat \<Rightarrow> port_thread) \<Rightarrow> nat \<Rightarrow> port_thread" where
  "refresh_all check w stack_ptr self created ts =
     fold (\<lambda>i ts. ts(i := stack_refresh check w stack_ptr (self = Some i) (ts i))) created ts"

section \<open>Bounds of the reported pointer\<close>

text \<open>A stack of at least three words that does not reach the ends of the address space.\<close>

definition port_stack_ok :: "u64 \<Rightarrow> port_thread \<Rightarrow> bool" where
  "port_stack_ok w t \<longleftrightarrow> (\<exists>k. unat w = 2 ^ k \<and> k < 62) \<and> unat (tx_thread_stack_end t) + 1 < 2 ^ 64 \<and>
     unat (tx_thread_stack_start t) + 3 * unat w < 2 ^ 64"

lemma word_exp_mask:
  assumes "unat (w :: u64) = 2 ^ k"
  shows "w - 1 = mask k"
proof -
  have "w = word_of_nat (unat w)" by simp
  also have "\<dots> = 2 ^ k" by (simp only: assms) simp
  finally show ?thesis by (simp add: mask_eq_exp_minus_1)
qed

lemma align_down_exact:
  assumes "unat w = 2 ^ k"
  shows "unat (align_down w a) = unat a div 2 ^ k * 2 ^ k"
proof -
  have "unat (align_down w a) = unat a - unat a mod 2 ^ k"
    unfolding align_down_def word_exp_mask [OF assms] by (rule and_not_mask_unat)
  then show ?thesis by (simp add: minus_mod_eq_div_mult)
qed

lemma align_down_mono: "unat w = 2 ^ k \<Longrightarrow> a \<le> b \<Longrightarrow> align_down w a \<le> align_down w b"
  by (simp add: word_le_nat_alt align_down_exact div_le_mono)

lemma align_down_le: "unat w = 2 ^ k \<Longrightarrow> align_down w a \<le> a"
  by (simp add: word_le_nat_alt align_down_exact)

lemma logical_address_bounds:
  assumes "unat w = 2 ^ k" "bottom \<le> high"
  shows "bottom \<le> logical_address w bottom high baseline current \<and> logical_address w bottom high baseline current \<le> high"
proof -
  have "align_down w (high - (baseline - current)) \<le> high" if "baseline - current < high - bottom"
  proof -
    have "baseline - current \<le> high"
      using that assms(2) by (simp add: word_le_nat_alt word_less_nat_alt unat_sub)
    then have "high - (baseline - current) \<le> high" by (simp add: word_le_nat_alt unat_sub)
    then show ?thesis using align_down_le [OF assms(1)] order.trans by blast
  qed
  then show ?thesis using assms(2) by (auto simp: logical_address_def Let_def not_le)
qed

text \<open>A deeper host stack is reported at least as deep.\<close>

lemma logical_address_mono:
  assumes "unat w = 2 ^ k" "bottom \<le> high" "current \<le> other"
  shows "logical_address w bottom high baseline current \<le> logical_address w bottom high baseline other"
proof (cases "baseline \<le> other")
  case True
  then have "logical_address w bottom high baseline other = high" by (simp add: logical_address_def)
  then show ?thesis using logical_address_bounds [OF assms(1,2)] by simp
next
  case False
  then have below: "\<not> baseline \<le> current" using assms(3) by auto
  have d: "baseline - other \<le> baseline - current"
    using False below assms(3) by (simp add: word_le_nat_alt unat_sub not_le order.strict_implies_order)
  show ?thesis
  proof (cases "high - bottom \<le> baseline - current")
    case True
    then have "logical_address w bottom high baseline current = bottom" using below by (simp add: logical_address_def)
    then show ?thesis using logical_address_bounds [OF assms(1,2)] by simp
  next
    case short: False
    then have short': "\<not> high - bottom \<le> baseline - other" using d by auto
    have "baseline - current \<le> high"
      using short assms(2) by (simp add: word_le_nat_alt word_less_nat_alt unat_sub not_le)
    moreover from this have "baseline - other \<le> high" using d by (rule order.trans [rotated])
    ultimately have "high - (baseline - current) \<le> high - (baseline - other)"
      using d by (simp add: word_le_nat_alt unat_sub diff_le_mono2)
    then have "align_down w (high - (baseline - current)) \<le> align_down w (high - (baseline - other))"
      by (rule align_down_mono [OF assms(1)])
    then show ?thesis using False below short short'
      by (auto simp: logical_address_def Let_def not_le not_less intro: order.strict_trans2)
  qed
qed


text \<open>The addresses over the natural numbers, where the stack has room for the reserve.\<close>

lemma logical_stack_range:
  assumes "port_stack_ok w t" "\<not> logical_top w t < logical_bottom w t + 2 * w"
  shows "unat (logical_bottom w t) = unat (tx_thread_stack_start t) + unat w"
    and "logical_bottom w t \<le> logical_top w t - 2 * w"
    and "unat (logical_top w t - 2 * w) + 2 * unat w \<le> unat (tx_thread_stack_end t) + 1"
proof -
  obtain k where k: "unat w = 2 ^ k" "k < 62" and ends: "unat (tx_thread_stack_end t) + 1 < 2 ^ 64"
    and start: "unat (tx_thread_stack_start t) + 3 * unat w < 2 ^ 64"
    using assms(1) by (auto simp: port_stack_ok_def)
  have w2: "unat (2 * w) = 2 * unat w" using start by (simp add: unat_mult_no_wrap)
  show b: "unat (logical_bottom w t) = unat (tx_thread_stack_start t) + unat w"
    unfolding logical_bottom_def using start by (intro unat_add_no_wrap) simp
  have "unat (logical_bottom w t + 2 * w) = unat (tx_thread_stack_start t) + 3 * unat w"
    using start by (subst unat_add_no_wrap) (simp_all add: b w2)
  then have room: "unat (tx_thread_stack_start t) + 3 * unat w \<le> unat (logical_top w t)"
    using assms(2) by (simp add: word_less_nat_alt not_less)
  have "unat (tx_thread_stack_end t + 1) = unat (tx_thread_stack_end t) + 1"
    using ends by (subst unat_add_no_wrap) simp_all
  then have top: "unat (logical_top w t) \<le> unat (tx_thread_stack_end t) + 1"
    by (simp add: logical_top_def align_down_exact [OF k(1)] flip: div_mult_mod_eq [of "unat (tx_thread_stack_end t) + 1" "2 ^ k"])
  have "2 * w \<le> logical_top w t" using room by (simp add: word_le_nat_alt w2)
  then have high: "unat (logical_top w t - 2 * w) = unat (logical_top w t) - 2 * unat w" by (simp add: unat_sub w2)
  show "logical_bottom w t \<le> logical_top w t - 2 * w" using room by (simp add: word_le_nat_alt b high)
  show "unat (logical_top w t - 2 * w) + 2 * unat w \<le> unat (tx_thread_stack_end t) + 1"
    using room top by (simp add: high)
qed

definition on_stack :: "StackInfo \<Rightarrow> u64 \<Rightarrow> bool" where
  "on_stack info current \<longleftrightarrow> current \<noteq> 0 \<and> host_stack_base info \<le> current \<and> current < host_stack_base info + host_stack_size info"

definition measurable :: "u64 \<Rightarrow> port_thread \<Rightarrow> bool" where
  "measurable w t \<longleftrightarrow> port_stack_ok w t \<and> is_thread t \<and> tx_thread_stack_start t \<noteq> 0 \<and> tx_thread_stack_end t \<noteq> 0 \<and>
     \<not> logical_top w t < logical_bottom w t + 2 * w"

definition logical_of :: "u64 \<Rightarrow> port_thread \<Rightarrow> u64 \<Rightarrow> u64 \<Rightarrow> u64" where
  "logical_of w t baseline current = logical_address w (logical_bottom w t) (logical_top w t - 2 * w) baseline current"

lemma logical_of_facts:
  assumes "measurable w t"
  shows "unat (tx_thread_stack_start t) + unat w \<le> unat (logical_of w t baseline current)"
    and "unat (logical_of w t baseline current) + 2 * unat w \<le> unat (tx_thread_stack_end t) + 1"
    and "logical_of w t baseline current \<noteq> 0"
    and "current \<le> other \<Longrightarrow> logical_of w t baseline current \<le> logical_of w t baseline other"
proof -
  have ok: "port_stack_ok w t" and room: "\<not> logical_top w t < logical_bottom w t + 2 * w" using assms by (simp_all add: measurable_def)
  note range = logical_stack_range [OF ok room]
  obtain k where k: "unat w = 2 ^ k" using ok by (auto simp: port_stack_ok_def)
  note bounds = logical_address_bounds [OF k range(2), of baseline current]
  show low: "unat (tx_thread_stack_start t) + unat w \<le> unat (logical_of w t baseline current)"
    using bounds range(1) by (simp add: logical_of_def word_le_nat_alt)
  show "unat (logical_of w t baseline current) + 2 * unat w \<le> unat (tx_thread_stack_end t) + 1"
    using bounds range(3) by (simp add: logical_of_def word_le_nat_alt)
  have "0 < unat w" using k by simp
  then show "logical_of w t baseline current \<noteq> 0" using low by (metis add_is_0 le_zero_eq not_gr_zero unat_0)
  show "current \<le> other \<Longrightarrow> logical_of w t baseline current \<le> logical_of w t baseline other"
    unfolding logical_of_def by (rule logical_address_mono [OF k range(2)])
qed

lemma capture_current_step:
  assumes "measurable w t" "tx_thread_extension t = Some info" "baseline_host_stack_ptr info \<noteq> 0"
    and "tx_thread_stack_highest_ptr t = logical_of w t (baseline_host_stack_ptr info) deepest"
  shows "capture_current True w current t =
    (if on_stack info current
     then t\<lparr>tx_thread_stack_ptr := logical_of w t (baseline_host_stack_ptr info) current,
            tx_thread_stack_highest_ptr := logical_of w t (baseline_host_stack_ptr info) (min deepest current)\<rparr>
     else t)"
proof (cases "on_stack info current")
  case False
  then show ?thesis using assms
    by (auto simp: capture_current_def stack_update_def measurable_def on_stack_def Let_def not_le not_less)
next
  case True
  let ?l = "logical_of w t (baseline_host_stack_ptr info)"
  note facts = logical_of_facts [OF assms(1)]
  have "(if ?l current < ?l deepest then ?l current else ?l deepest) = ?l (min deepest current)"
    using facts(4) [of deepest current "baseline_host_stack_ptr info"] facts(4) [of current deepest "baseline_host_stack_ptr info"]
    by (cases "deepest \<le> current") (auto simp: min_def not_less not_le intro: order.antisym dest: leD less_imp_le)
  moreover have "capture_current True w current t =
      t\<lparr>tx_thread_stack_ptr := ?l current, tx_thread_stack_highest_ptr := if ?l current < ?l deepest then ?l current else ?l deepest\<rparr>"
    using True assms facts(3)
    by (auto simp: capture_current_def stack_update_def measurable_def on_stack_def logical_of_def Let_def not_le not_less)
  ultimately show ?thesis using True by simp
qed

lemma Min_insert_min: "finite A \<Longrightarrow> Min (insert (min a b) A) = Min (insert a (insert b A))"
  by (cases "A = {}") (simp_all add: min.assoc)

text \<open>The high-water mark is the logical address of the deepest stack pointer sampled since the calibration.\<close>

lemma captures_high_water:
  assumes "measurable w t" "tx_thread_extension t = Some info" "baseline_host_stack_ptr info \<noteq> 0"
    and "tx_thread_stack_highest_ptr t = logical_of w t (baseline_host_stack_ptr info) deepest"
  shows "tx_thread_stack_highest_ptr (fold (capture_current True w) samples t) =
    logical_of w t (baseline_host_stack_ptr info) (Min (set (deepest # filter (on_stack info) samples)))"
  using assms
proof (induction samples arbitrary: t deepest)
  case (Cons a samples)
  let ?t = "capture_current True w a t"
  note step = capture_current_step [OF Cons.prems, of a]
  show ?case
  proof (cases "on_stack info a")
    case True
    have same: "measurable w ?t" "logical_of w ?t = logical_of w t"
      using Cons.prems(1) by (simp_all add: step True fun_eq_iff measurable_def port_stack_ok_def logical_of_def logical_bottom_def logical_top_def)
    have "tx_thread_stack_highest_ptr (fold (capture_current True w) samples ?t) =
        logical_of w t (baseline_host_stack_ptr info) (Min (set (min deepest a # filter (on_stack info) samples)))"
      using Cons.IH [OF same(1), of "min deepest a"] Cons.prems same(2) by (simp add: step True)
    also have "Min (set (min deepest a # filter (on_stack info) samples)) = Min (set (deepest # a # filter (on_stack info) samples))"
      by (simp add: Min_insert_min)
    finally show ?thesis using True by simp
  next
    case False
    then show ?thesis using Cons.IH [OF Cons.prems] by (simp add: step)
  qed
qed simp


text \<open>Calibration starts the measurement.\<close>

lemma stack_calibrate_exact:
  assumes "measurable w t" "tx_thread_extension t = Some info" "on_stack info current"
  shows "stack_calibrate True w current t =
    t\<lparr>tx_thread_extension := Some (info\<lparr>baseline_host_stack_ptr := current\<rparr>), tx_thread_stack_ptr := logical_of w t current current,
      tx_thread_stack_highest_ptr := logical_of w t current current\<rparr>"
  using assms
  by (auto simp: stack_calibrate_def stack_update_def measurable_def on_stack_def logical_of_def logical_top_def logical_bottom_def
      Let_def not_le not_less)

lemma calibrated_high_water:
  assumes "measurable w t" "tx_thread_extension t = Some info" "on_stack info baseline"
  shows "tx_thread_stack_highest_ptr (fold (capture_current True w) samples (stack_calibrate True w baseline t)) =
    logical_of w t baseline (Min (set (baseline # filter (on_stack info) samples)))"
proof -
  let ?info = "info\<lparr>baseline_host_stack_ptr := baseline\<rparr>"
  let ?t = "stack_calibrate True w baseline t"
  note t = stack_calibrate_exact [OF assms]
  have "baseline \<noteq> 0" using assms(3) by (simp add: on_stack_def)
  moreover have "measurable w ?t" "logical_of w ?t = logical_of w t" "on_stack ?info = on_stack info"
    using assms(1) by (simp_all add: t fun_eq_iff measurable_def port_stack_ok_def logical_of_def logical_bottom_def logical_top_def on_stack_def)
  ultimately show ?thesis using captures_high_water [of w ?t ?info baseline samples] by (simp add: t)
qed

section \<open>Accounting of host stacks\<close>

text \<open>The calls that make and drop host stacks, over all threads.\<close>

inductive port_step :: "(nat \<Rightarrow> port_thread) \<times> nat \<Rightarrow> (nat \<Rightarrow> port_thread) \<times> nat \<Rightarrow> bool" where
  prepare: "stack_prepare host w block memory (ts i, live) = (e, t, live') \<Longrightarrow> port_step (ts, live) (ts(i := t), live')"
| release: "stack_release (ts i, live) = (t, live') \<Longrightarrow> port_step (ts, live) (ts(i := t), live')"
| measure: "port_step (ts, live) (ts(i := capture_current check w current (ts i)), live)"
| calibrate: "port_step (ts, live) (ts(i := stack_calibrate check w current (ts i)), live)"

fun live_inv :: "(nat \<Rightarrow> port_thread) \<times> nat \<Rightarrow> bool" where
  "live_inv (ts, live) \<longleftrightarrow> finite {i. tx_thread_extension (ts i) \<noteq> None} \<and> live = card {i. tx_thread_extension (ts i) \<noteq> None}"

lemma live_inv_update:
  assumes "live_inv (ts, live)"
  shows "live_inv (ts(i := t), if tx_thread_extension t \<noteq> None
      then (if tx_thread_extension (ts i) \<noteq> None then live else live + 1)
      else (if tx_thread_extension (ts i) \<noteq> None then live - 1 else live))"
proof -
  let ?A = "{j. tx_thread_extension (ts j) \<noteq> None}"
  have "{j. tx_thread_extension ((ts(i := t)) j) \<noteq> None} = (if tx_thread_extension t \<noteq> None then insert i ?A else ?A - {i})" by auto
  then show ?thesis using assms by (auto simp: insert_absorb)
qed

lemma update_keeps_extension:
  "tx_thread_extension (snd (stack_update check w current t)) = None \<longleftrightarrow> tx_thread_extension t = None"
  by (auto simp: stack_update_def Let_def split: option.splits)

lemma measure_keeps_extension:
  "tx_thread_extension (capture_current check w current t) = None \<longleftrightarrow> tx_thread_extension t = None"
  "tx_thread_extension (stack_calibrate check w current t) = None \<longleftrightarrow> tx_thread_extension t = None"
proof -
  show "tx_thread_extension (capture_current check w current t) = None \<longleftrightarrow> tx_thread_extension t = None"
    by (simp only: capture_current_def update_keeps_extension)
  show "tx_thread_extension (stack_calibrate check w current t) = None \<longleftrightarrow> tx_thread_extension t = None"
  proof (cases "tx_thread_extension t")
    case (Some info)
    obtain e u where u: "stack_update check w current (t\<lparr>tx_thread_extension := Some (info\<lparr>baseline_host_stack_ptr := current\<rparr>)\<rparr>) = (e, u)"
      by fastforce
    then have "tx_thread_extension u \<noteq> None"
      using update_keeps_extension [of check w current "t\<lparr>tx_thread_extension := Some (info\<lparr>baseline_host_stack_ptr := current\<rparr>)\<rparr>"] by simp
    then show ?thesis by (simp add: stack_calibrate_def Some u)
  qed (simp add: stack_calibrate_def)
qed

lemma port_step_live: "port_step s s' \<Longrightarrow> live_inv s \<Longrightarrow> live_inv s'"
proof (induction rule: port_step.induct)
  case (prepare host w block memory ts i live e t live')
  moreover have "0 < live" if "tx_thread_extension (ts i) \<noteq> None" using prepare.prems that by (auto simp: card_gt_0_iff)
  ultimately show ?case using live_inv_update [OF prepare.prems, of i t]
    by (auto simp: stack_prepare_def stack_release_def Let_def simp del: live_inv.simps split: if_splits option.splits)
next
  case (release ts i live t live')
  then show ?case using live_inv_update [OF release.prems, of i t]
    by (auto simp: stack_release_def simp del: live_inv.simps split: option.splits)
next
  case (measure ts live i check w current)
  then show ?case using live_inv_update [OF measure.prems, of i "capture_current check w current (ts i)"]
    by (simp add: measure_keeps_extension del: live_inv.simps split: if_splits)
next
  case (calibrate ts live i check w current)
  then show ?case using live_inv_update [OF calibrate.prems, of i "stack_calibrate check w current (ts i)"]
    by (simp add: measure_keeps_extension del: live_inv.simps split: if_splits)
qed

text \<open>A host stack holds what the thread asked for and what pthread needs, in whole pages.\<close>

lemma host_size_covers:
  assumes "host_page_size host = 2 ^ k" "k < 32"
    and "unat requested + unat (PTHREAD_STACK_MIN host) + unat w + 2 ^ k < 2 ^ 64"
  shows "unat requested + unat (PTHREAD_STACK_MIN host) + unat w \<le> unat (host_size host w requested) \<and>
    2 ^ k dvd unat (host_size host w requested)"
proof -
  let ?n = "unat requested + unat (PTHREAD_STACK_MIN host) + unat w"
  let ?page = "word_of_int (2 ^ k) :: u64"
  have "(2 :: nat) ^ k < 2 ^ 64" using assms(2) by (intro power_strict_increasing) simp_all
  moreover from this have "(2 :: int) ^ k < 2 ^ 64" by (metis of_nat_less_iff of_nat_numeral of_nat_power)
  ultimately have "unat ?page = nat (2 ^ k)" by (intro unat_word_of_int) simp_all
  then have page: "unat ?page = 2 ^ k" by (simp add: nat_power_eq)
  have sum: "unat (requested + PTHREAD_STACK_MIN host + w) = ?n"
    using assms(3) by (subst unat_add_no_wrap; simp add: unat_add_no_wrap)
  have up: "unat (requested + PTHREAD_STACK_MIN host + w + ?page) = ?n + 2 ^ k"
    using assms(3) by (subst unat_add_no_wrap) (simp_all add: sum page [simplified])
  have "(1 :: nat) \<le> 2 ^ k" by simp
  then have "(1 :: u64) \<le> requested + PTHREAD_STACK_MIN host + w + ?page" by (simp only: word_le_nat_alt up unat_1)
  then have top: "unat (requested + PTHREAD_STACK_MIN host + w + ?page - 1) = ?n + 2 ^ k - 1" by (simp only: unat_sub up unat_1)
  have "host_size host w requested = (requested + PTHREAD_STACK_MIN host + w + ?page - 1) AND NOT (mask k)"
    using assms(1) word_exp_mask [OF page] by (simp add: host_size_def stack_round_up_def Let_def)
  then have "unat (host_size host w requested) = (?n + 2 ^ k - 1) div 2 ^ k * 2 ^ k"
    by (simp only: and_not_mask_unat top minus_mod_eq_div_mult)
  moreover have "?n \<le> (?n + 2 ^ k - 1) div 2 ^ k * 2 ^ k"
    using div_mult_mod_eq [of "?n + 2 ^ k - 1" "2 ^ k"] mod_less_divisor [of "2 ^ k" "?n + 2 ^ k - 1", OF zero_less_power, OF zero_less_numeral]
    by linarith
  ultimately show ?thesis by simp
qed

end
