(* ===== verification/Hal_Timer_Worker.thy ===== *)
theory Hal_Timer_Worker
  imports Hal_Timer Runtime_Waits
begin

text \<open>
  The interrupt thread of the Linux timer (\<open>workerLoop\<close> in \<^verbatim>\<open>impl/linux/Timer.cpp\<close>) running beside
  the threads that use the timer, and the timer as the high-resolution clock of the runtime. The
  monotonic clock counts nanoseconds from zero; the model follows it for 292 years.
\<close>

section \<open>The monotonic clock\<close>

definition time_point :: "nat \<Rightarrow> TimePoint" where
  "time_point n = \<lparr>tv_sec = int (n div 1000000000), tv_nsec = int (n mod 1000000000)\<rparr>"

definition monotonic_nanoseconds :: "TimePoint \<Rightarrow> u64" where
  "monotonic_nanoseconds now = word_of_int (tv_sec now) * nanoseconds_per_second + word_of_int (tv_nsec now)"

definition monotonic_deadline :: "u64 \<Rightarrow> TimePoint \<Rightarrow> TimePoint" where
  "monotonic_deadline delay_nanoseconds now =
     (let nanoseconds = word_of_int (tv_nsec now) + delay_nanoseconds
      in \<lparr>tv_sec = tv_sec now + uint (nanoseconds div nanoseconds_per_second),
          tv_nsec = uint (nanoseconds mod nanoseconds_per_second)\<rparr>)"

definition instant :: "TimePoint \<Rightarrow> int" where
  "instant t = tv_sec t * 1000000000 + tv_nsec t"

lemma monotonic_nanoseconds_time_point: "monotonic_nanoseconds (time_point n) = word_of_nat n"
proof -
  have "(word_of_nat n :: u64) = word_of_nat (n div 1000000000 * 1000000000 + n mod 1000000000)"
    by (simp only: div_mult_mod_eq)
  then show ?thesis
    by (simp only: monotonic_nanoseconds_def time_point_def TimePoint.simps of_nat_add of_nat_mult
        nanoseconds_per_second_def of_nat_numeral of_int_of_nat_eq)
qed

lemma carry: "i = a * 1000000000 + m \<Longrightarrow> m + d = b * 1000000000 + c \<Longrightarrow> (a + b) * 1000000000 + c = i + (d :: int)"
  by (simp add: distrib_right)

lemma monotonic_deadline_exact:
  assumes "unat delay < 2 ^ 63"
  shows "instant (monotonic_deadline delay (time_point n)) = int n + int (unat delay)"
proof -
  define r where "r = (word_of_int (int (n mod 1000000000)) + delay :: u64)"
  have "unat (word_of_int (int (n mod 1000000000)) :: u64) = n mod 1000000000"
    by (simp add: unat_of_nat take_bit_nat_eq_self order.strict_trans [OF mod_less_divisor])
  then have r: "unat r = n mod 1000000000 + unat delay"
    unfolding r_def using assms by (subst unat_add_no_wrap) (simp_all add: add_strict_mono)
  have div: "uint (r div nanoseconds_per_second) = int (unat r div 1000000000)"
    and mod: "uint (r mod nanoseconds_per_second) = int (unat r mod 1000000000)"
    by (simp_all only: uint_nat unat_div unat_mod unat_constants)
  have "instant (monotonic_deadline delay (time_point n)) =
    (int (n div 1000000000) + int (unat r div 1000000000)) * 1000000000 + int (unat r mod 1000000000)"
    by (simp only: instant_def monotonic_deadline_def time_point_def Let_def TimePoint.simps div mod flip: r_def)
  also have "\<dots> = int n + int (unat delay)"
  proof (rule carry)
    show "int n = int (n div 1000000000) * 1000000000 + int (n mod 1000000000)"
      by (metis div_mult_mod_eq of_nat_add of_nat_mult of_nat_numeral)
    have "int (unat r) = int (unat r div 1000000000) * 1000000000 + int (unat r mod 1000000000)"
      by (metis div_mult_mod_eq of_nat_add of_nat_mult of_nat_numeral)
    then show "int (n mod 1000000000) + int (unat delay) =
      int (unat r div 1000000000) * 1000000000 + int (unat r mod 1000000000)"
      using r by (metis of_nat_add)
  qed
  finally show ?thesis .
qed

section \<open>The interrupt thread\<close>

datatype timer_call = Start | Stop | Start_it | Set_counter u32 | Set_auto_reload u32 | Set_prescaler u32
  | Force_update | Set_period int | Shut_down

fun apply_call :: "timer_call \<Rightarrow> u64 \<Rightarrow> linux_timer \<Rightarrow> linux_timer" where
  "apply_call Start now t = snd (start now t)"
| "apply_call Stop now t = snd (stop now t)"
| "apply_call Start_it now t = snd (startIt now t)"
| "apply_call (Set_counter v) now t = setCounter now v t"
| "apply_call (Set_auto_reload v) now t = setAutoReload now v t"
| "apply_call (Set_prescaler v) now t = setPrescaler now v t"
| "apply_call Force_update now t = forceUpdateEvent now t"
| "apply_call (Set_period d) now t = setPeriod now d t"
| "apply_call Shut_down now t = t\<lparr>m_shuttingDown := True\<rparr>"

definition notifies :: "timer_call \<Rightarrow> linux_timer \<Rightarrow> bool" where
  "notifies call t = (case call of Start \<Rightarrow> getTickFrequencyHz t \<noteq> 0 | Start_it \<Rightarrow> getTickFrequencyHz t \<noteq> 0 | _ \<Rightarrow> True)"

text \<open>
  Where the thread is: about to take the mutex and look at the state, waiting for a change, waiting
  until a deadline, past it and waiting for the mutex, in the callback, or returned. The last
  three of the waiting phases also record the timer and the time when the deadline was set.
\<close>

datatype worker = Checking | Parked | Armed TimePoint linux_timer nat | Expired linux_timer nat
  | In_callback linux_timer nat | Exited

definition worker_check :: "TimePoint \<Rightarrow> TimePoint \<Rightarrow> linux_timer \<Rightarrow> nat \<Rightarrow> worker" where
  "worker_check now later t ghost =
     (if m_shuttingDown t then Exited
      else if \<not> m_running t \<or> \<not> m_interruptEnabled t then Parked
      else Armed (monotonic_deadline (nanosecondsUntilOverflow t (monotonic_nanoseconds now)) later) t ghost)"

fun woken :: "worker \<Rightarrow> worker" where
  "woken Parked = Checking"
| "woken (Armed deadline t n) = Checking"
| "woken w = w"

inductive worker_step :: "nat \<times> linux_timer \<times> worker \<Rightarrow> nat \<times> linux_timer \<times> worker \<Rightarrow> bool" where
  pass: "n \<le> n' \<Longrightarrow> n' < 2 ^ 63 \<Longrightarrow> worker_step (n, t, w) (n', t, w)"
| call: "worker_step (n, t, w)
    (n, apply_call op (monotonic_nanoseconds (time_point n)) t, if notifies op t then woken w else w)"
| check: "n \<le> n' \<Longrightarrow> n' < 2 ^ 63 \<Longrightarrow>
    worker_step (n, t, Checking) (n', t, worker_check (time_point n) (time_point n') t n)"
| spurious: "worker_step (n, t, w) (n, t, woken w)"
| expire: "instant deadline \<le> int n \<Longrightarrow> worker_step (n, t, Armed deadline t0 n0) (n, t, Expired t0 n0)"
| enter: "worker_step (n, t, Expired t0 n0) (n, t, In_callback t0 n0)"
| return: "worker_step (n, t, In_callback t0 n0) (n, t, Checking)"

abbreviation "worker_steps \<equiv> worker_step\<^sup>*\<^sup>*"

text \<open>What the callback may rely on: the timer, as it was when the deadline was set, has overflowed.\<close>

definition elapsed_since :: "linux_timer \<Rightarrow> nat \<Rightarrow> nat \<Rightarrow> bool" where
  "elapsed_since t0 n0 n \<longleftrightarrow> m_running t0 \<and> m_interruptEnabled t0 \<and>
     (if timer_frequency t0 = 0 then n0 + 1000000000 \<le> n else overflows t0 n0 < overflows t0 n)"

definition armed_ok :: "linux_timer \<Rightarrow> nat \<Rightarrow> bool" where
  "armed_ok t n \<longleftrightarrow> unat (m_startedAtNanoseconds t) \<le> n"

fun worker_inv :: "nat \<times> linux_timer \<times> worker \<Rightarrow> bool" where
  "worker_inv (n, t, w) \<longleftrightarrow> n < 2 ^ 63 \<and> armed_ok t n \<and>
     (case w of
        Armed deadline t0 n0 \<Rightarrow> m_running t0 \<and> m_interruptEnabled t0 \<and> armed_ok t0 n0 \<and> n0 < 2 ^ 63 \<and>
          int n0 + int (unat (nanosecondsUntilOverflow t0 (word_of_nat n0))) \<le> instant deadline
      | Expired t0 n0 \<Rightarrow> elapsed_since t0 n0 n
      | In_callback t0 n0 \<Rightarrow> elapsed_since t0 n0 n
      | _ \<Rightarrow> True)"

lemma unat_small_nat: "n < 2 ^ 63 \<Longrightarrow> unat (word_of_nat n :: u64) = n"
  by (simp add: unat_of_nat take_bit_nat_eq_self)

lemma apply_call_started:
  "armed_ok t n \<Longrightarrow> n < 2 ^ 63 \<Longrightarrow> armed_ok (apply_call op (word_of_nat n) t) n"
  by (cases op) (auto simp: armed_ok_def unat_small_nat start_def startIt_def stop_def setCounter_def setAutoReload_def
      setPrescaler_def forceUpdateEvent_def setPeriod_def captureCounter_def Let_def)

lemma overflows_mono: "n \<le> n' \<Longrightarrow> overflows t n \<le> overflows t n'"
  by (simp add: overflows_def total_ticks_def ticks_since_start_def div_le_mono mult_le_mono1 diff_le_mono)

lemma elapsed_since_mono: "elapsed_since t0 n0 n \<Longrightarrow> n \<le> n' \<Longrightarrow> elapsed_since t0 n0 n'"
  using overflows_mono [of n n' t0] by (auto simp: elapsed_since_def split: if_splits)

lemma nanosecondsUntilOverflow_small:
  assumes "armed_ok t n" "n < 2 ^ 63" "m_running t"
  shows "unat (nanosecondsUntilOverflow t (word_of_nat n)) < 2 ^ 63"
proof (cases "timer_frequency t = 0")
  case True
  then show ?thesis by (simp add: nanosecondsUntilOverflow_def)
next
  case False
  let ?k = "timer_period t - total_ticks t n mod timer_period t" and ?f = "timer_frequency t"
  have started: "m_startedAtNanoseconds t \<le> word_of_nat n" using assms by (simp add: armed_ok_def word_le_nat_alt unat_small_nat)
  note exact = nanosecondsUntilOverflow_exact [OF assms(3) started False, unfolded unat_small_nat [OF assms(2)]]
  have "?k \<le> 4294967296" using timer_period_bound [of t] by linarith
  then have "?k * 1000000000 + ?f - 1 < 2 ^ 63" using timer_frequency_bound [of t] by simp
  then show ?thesis unfolding exact by (rule le_less_trans [OF div_le_dividend])
qed

lemma worker_check_inv:
  assumes "n < 2 ^ 63" "armed_ok t n" "n \<le> n'" "n' < 2 ^ 63"
  shows "worker_inv (n', t, worker_check (time_point n) (time_point n') t n)"
  using assms monotonic_deadline_exact [OF nanosecondsUntilOverflow_small [OF assms(2,1)], of n']
  by (auto simp: worker_check_def monotonic_nanoseconds_time_point armed_ok_def)

lemma expire_inv:
  assumes "worker_inv (n, t, Armed deadline t0 n0)" "instant deadline \<le> int n"
  shows "worker_inv (n, t, Expired t0 n0)"
proof -
  have running: "m_running t0" "m_interruptEnabled t0" and ok: "armed_ok t0 n0" "n0 < 2 ^ 63"
    and deadline: "int n0 + int (unat (nanosecondsUntilOverflow t0 (word_of_nat n0))) \<le> int n"
    using assms by auto
  have late: "n0 + unat (nanosecondsUntilOverflow t0 (word_of_nat n0)) \<le> n" using deadline by linarith
  have started: "m_startedAtNanoseconds t0 \<le> word_of_nat n0" using ok by (simp add: armed_ok_def word_le_nat_alt unat_small_nat)
  have "elapsed_since t0 n0 n"
  proof (cases "timer_frequency t0 = 0")
    case True
    then show ?thesis using running late by (simp add: elapsed_since_def nanosecondsUntilOverflow_def)
  next
    case False
    have "overflows t0 n0 < overflows t0 n"
      using overflow_by_deadline [OF running(1) started False, of n] late unfolding unat_small_nat [OF ok(2)] by simp
    then show ?thesis using running False by (simp add: elapsed_since_def)
  qed
  then show ?thesis using assms(1) by simp
qed

lemma woken_inv: "worker_inv (n, t, w) \<Longrightarrow> worker_inv (n, t, woken w)"
  by (cases w) simp_all

lemma worker_inv_timer: "worker_inv (n, t, w) \<Longrightarrow> armed_ok t' n \<Longrightarrow> worker_inv (n, t', w)"
  by simp

lemma worker_step_inv:
  assumes "worker_step s s'" "worker_inv s"
  shows "worker_inv s'"
  using assms
proof (induction rule: worker_step.induct)
  case (pass n n' t w)
  then show ?case by (auto simp: armed_ok_def elapsed_since_mono split: worker.splits)
next
  case (call n t w op)
  then have "worker_inv (n, apply_call op (word_of_nat n) t, w)"
    by (intro worker_inv_timer [OF call.prems]) (simp add: apply_call_started)
  then show ?case using woken_inv by (simp add: monotonic_nanoseconds_time_point del: worker_inv.simps)
next
  case (check n n' t)
  then show ?case by (intro worker_check_inv) simp_all
next
  case (spurious n t w)
  then show ?case by (rule woken_inv)
next
  case (expire deadline n t t0 n0)
  then show ?case by (intro expire_inv)
qed simp_all

lemma worker_steps_inv: "worker_steps s s' \<Longrightarrow> worker_inv s \<Longrightarrow> worker_inv s'"
  by (induction rule: rtranclp_induct) (auto intro: worker_step_inv)

lemma worker_initial: "n < 2 ^ 63 \<Longrightarrow> worker_inv (n, new_timer hz prescaler reload (monotonic_nanoseconds (time_point n)), Checking)"
  by (simp add: armed_ok_def new_timer_def monotonic_nanoseconds_time_point unat_small_nat)

text \<open>
  The callback after a stop: the thread has timed out but not yet taken the mutex back, and it does
  not look at the state again before it calls.
\<close>

lemma callback_after_stop:
  assumes "worker_steps s (n, t, Armed deadline t0 n0)" "instant deadline \<le> int n"
  shows "\<exists>t'. worker_steps s (n, t', In_callback t0 n0) \<and> \<not> m_running t' \<and> \<not> m_interruptEnabled t'"
proof -
  let ?t' = "apply_call Stop (monotonic_nanoseconds (time_point n)) t"
  have "worker_step (n, t, Armed deadline t0 n0) (n, t, Expired t0 n0)" using assms(2) by (rule worker_step.expire)
  moreover have "worker_step (n, t, Expired t0 n0) (n, ?t', Expired t0 n0)"
    using worker_step.call [of n t "Expired t0 n0" Stop] by (simp add: notifies_def)
  moreover have "worker_step (n, ?t', Expired t0 n0) (n, ?t', In_callback t0 n0)" by (rule worker_step.enter)
  ultimately have "worker_steps s (n, ?t', In_callback t0 n0)"
    using assms(1) by (meson rtranclp.rtrancl_into_rtrancl)
  moreover have "\<not> m_running ?t' \<and> \<not> m_interruptEnabled ?t'" by (simp add: stop_def Let_def)
  ultimately show ?thesis by blast
qed

section \<open>The timer as the high-resolution clock\<close>

text \<open>What the calls of \<open>read_high_resolution_counter\<close> deliver on this timer, and the epoch taken from it.\<close>

definition linux_reading :: "u64 \<Rightarrow> linux_timer \<Rightarrow> timer_reading" where
  "linux_reading now t =
     \<lparr>version_before = m_stateVersion t, running_before = m_running t, read_counter = getCounter now t,
      read_frequency = getTickFrequencyHz t, read_auto_reload = m_autoReload t, running_after = m_running t,
      version_after = m_stateVersion t\<rparr>"

definition linux_epoch :: "u64 \<Rightarrow> linux_timer \<Rightarrow> HighResolutionCounter" where
  "linux_epoch now t = snd (read_high_resolution_counter (Some (linux_reading now t))
     \<lparr>hr_ticks = 0, ticks_per_second = 0, modulus = 0, state_version = 0\<rparr>)"

lemma linux_epoch_fields:
  assumes "m_running t"
  shows "hr_ticks (linux_epoch now t) = ucast (getCounter now t)"
    "ticks_per_second (linux_epoch now t) = ucast (getTickFrequencyHz t)"
    "modulus (linux_epoch now t) = ucast (m_autoReload t) + 1" "state_version (linux_epoch now t) = m_stateVersion t"
  using assms by (simp_all add: linux_epoch_def read_high_resolution_counter_def linux_reading_def Let_def)

lemma total_ticks_mono: "n \<le> n' \<Longrightarrow> total_ticks t n \<le> total_ticks t n'"
  by (simp add: total_ticks_def ticks_since_start_def div_le_mono mult_le_mono1 diff_le_mono)

lemma mod_advance: "a \<le> b \<Longrightarrow> b mod m = (a mod m + (b - a)) mod (m :: nat)"
  by (metis le_add_diff_inverse mod_add_left_eq)

lemma linux_reading_undisturbed:
  assumes "m_running t" "m_startedAtNanoseconds t \<le> begun" "begun \<le> now"
    and "timer_frequency t \<noteq> 0" "timer_frequency t \<le> 1000000000" and "counter_epoch c = linux_epoch begun t"
  shows "undisturbed (linux_reading now t) c (total_ticks t (unat now) - total_ticks t (unat begun))"
proof -
  note fields = linux_epoch_fields [OF assms(1), of begun]
  let ?p = "timer_period t"
  have m: "unat (modulus (linux_epoch begun t)) = ?p" by (simp add: fields ucast_plus_one timer_period_def)
  have started: "m_startedAtNanoseconds t \<le> now" using assms(2,3) by simp
  have at_begun: "unat (getCounter begun t) = total_ticks t (unat begun) mod ?p"
    and at_now: "unat (getCounter now t) = total_ticks t (unat now) mod ?p"
    using assms(1,2,4) started by (simp_all add: getCounter_def counterAt_exact)
  have below: "unat (getCounter now t) < ?p" "unat (getCounter begun t) < ?p"
    unfolding at_now at_begun using timer_period_bound by simp_all
  have "valid_high_resolution_counter (linux_epoch begun t)"
    using assms(4,5) below(2)
    by (simp add: valid_high_resolution_counter_def fields word_le_nat_alt word_less_nat_alt unat_ucast_up ucast_plus_one
        timer_period_def)
  moreover have "getCounter now t \<le> m_autoReload t" using below(1) by (simp add: word_le_nat_alt timer_period_def)
  moreover have "total_ticks t (unat begun) \<le> total_ticks t (unat now)"
    using assms(3) by (intro total_ticks_mono) (simp add: word_le_nat_alt)
  then have "unat (getCounter now t) = (unat (hr_ticks (linux_epoch begun t)) +
      (total_ticks t (unat now) - total_ticks t (unat begun))) mod unat (modulus (linux_epoch begun t))"
    unfolding m at_now unfolding fields(1) unat_ucast_up at_begun by (rule mod_advance)
  ultimately show ?thesis using assms(1) by (simp add: undisturbed_def linux_reading_def assms(6) fields)
qed

lemma linux_clock_elapsed:
  assumes "m_running t" "m_startedAtNanoseconds t \<le> begun" "begun \<le> now"
    and "timer_frequency t \<noteq> 0" "timer_frequency t \<le> 1000000000"
    and "counter_available c" "counter_epoch c = linux_epoch begun t"
    and "E = total_ticks t (unat now) - total_ticks t (unat begun)" "E < 2 ^ 63"
    and "thread_ticks_to_counter_ticks (current_ticks - epoch_ticks c) (ucast (getTickFrequencyHz t)) = Some coarse"
    and "2 * unat coarse < 2 * E + timer_period t" "2 * E < 2 * unat coarse + timer_period t"
    and "E * 1000000000 div timer_frequency t \<le> 9223372036854775807"
  shows "high_resolution_elapsed_nanoseconds (Some (linux_reading now t)) current_ticks c =
    (Some (int (E * 1000000000 div timer_frequency t)), c)"
proof -
  note fields = linux_epoch_fields [OF assms(1), of begun]
  have f: "unat (ticks_per_second (counter_epoch c)) = timer_frequency t"
    by (simp add: assms(7) fields unat_ucast_up)
  have m: "unat (modulus (counter_epoch c)) = timer_period t"
    by (simp add: assms(7) fields ucast_plus_one timer_period_def)
  have u: "undisturbed (linux_reading now t) c E"
    unfolding assms(8) using assms(1-5,7) by (rule linux_reading_undisturbed)
  have coarse: "thread_ticks_to_counter_ticks (current_ticks - epoch_ticks c) (ticks_per_second (counter_epoch c)) = Some coarse"
    using assms(10) by (simp add: assms(7) fields)
  show ?thesis
    using high_resolution_elapsed_exact [OF assms(6) u _ coarse] assms(9,11-13) unfolding f m by simp
qed

end
