(* ===== verification/Hal_Timer_Stm32.thy ===== *)
theory Hal_Timer_Stm32
  imports Hal_Timer
begin

text \<open>
  The STM32 timer driver (\<^verbatim>\<open>impl/stm32/Timer.cpp\<close>). The registers of the peripheral and of the
  interrupt controller are a record; the register macros of the HAL are reads and writes of its
  fields. The HAL functions, and what the peripheral does on a software update, are arguments.
\<close>

section \<open>State\<close>

record stm32_timer =
  has_instance :: bool
  CEN :: bool
  UIE :: bool
  UIF :: bool
  CNT :: u32
  ARR :: u32
  PSC :: u32
  irq_enabled :: bool
  irq_pending :: bool
  irq_priority :: nat
  timerInputHz :: u32
  stateVersion :: u32

record tim_hal =
  HAL_TIM_Base_Start :: "stm32_timer \<Rightarrow> hal_status \<times> stm32_timer"
  HAL_TIM_Base_Stop :: "stm32_timer \<Rightarrow> hal_status \<times> stm32_timer"
  HAL_TIM_Base_Start_IT :: "stm32_timer \<Rightarrow> hal_status \<times> stm32_timer"
  update_generation :: "stm32_timer \<Rightarrow> stm32_timer"

definition TIMER_INTERRUPT_PRIORITY :: nat where "TIMER_INTERRUPT_PRIORITY = 5"
definition MAXIMUM_PRESCALER :: u32 where "MAXIMUM_PRESCALER = 0xFFFF"

section \<open>Operations\<close>

definition markStateChange :: "stm32_timer \<Rightarrow> stm32_timer" where
  "markStateChange t = t\<lparr>stateVersion := stateVersion t + 1\<rparr>"

definition isRunning :: "stm32_timer \<Rightarrow> bool" where
  "isRunning t \<longleftrightarrow> has_instance t \<and> CEN t"

definition stm32_start :: "tim_hal \<Rightarrow> stm32_timer \<Rightarrow> HalError option \<times> stm32_timer" where
  "stm32_start hal t =
     (let (result, t) = (if isRunning t then (None, t)
             else (let (status, t) = HAL_TIM_Base_Start hal t in (make_result status, t)))
      in if result \<noteq> None then (result, t)
         else (None, markStateChange (t\<lparr>UIE := False, irq_enabled := False, irq_pending := False\<rparr>)))"

definition restore_interrupts :: "bool \<Rightarrow> bool \<Rightarrow> stm32_timer \<Rightarrow> stm32_timer" where
  "restore_interrupts restore_update_interrupt restore_nvic_interrupt t =
     (let t = (if restore_update_interrupt then t\<lparr>UIE := True\<rparr> else t)
      in if restore_nvic_interrupt then t\<lparr>irq_enabled := True\<rparr> else t)"

definition stm32_stop :: "tim_hal \<Rightarrow> stm32_timer \<Rightarrow> HalError option \<times> stm32_timer" where
  "stm32_stop hal t =
     (let restore_update_interrupt = UIE t; restore_nvic_interrupt = irq_enabled t;
          (status, t) = HAL_TIM_Base_Stop hal (t\<lparr>UIE := False, irq_enabled := False\<rparr>);
          result = make_result status
      in if result \<noteq> None then (result, restore_interrupts restore_update_interrupt restore_nvic_interrupt t)
         else (None, markStateChange (t\<lparr>irq_pending := False\<rparr>)))"

definition stm32_startIt :: "tim_hal \<Rightarrow> stm32_timer \<Rightarrow> HalError option \<times> stm32_timer" where
  "stm32_startIt hal t =
     (let update_interrupt_enabled = UIE t
      in if isRunning t then
           (let t = (if \<not> update_interrupt_enabled
                     then t\<lparr>irq_enabled := False, UIF := False, irq_pending := False, UIE := True\<rparr> else t)
            in (None, (markStateChange (t\<lparr>irq_priority := TIMER_INTERRUPT_PRIORITY\<rparr>))\<lparr>irq_enabled := True\<rparr>))
         else
           (let restore_nvic_interrupt = irq_enabled t;
                (status, t) = HAL_TIM_Base_Start_IT hal (t\<lparr>irq_enabled := False, UIF := False, irq_pending := False\<rparr>);
                result = make_result status
            in if result \<noteq> None then (result, restore_interrupts update_interrupt_enabled restore_nvic_interrupt t)
               else (None, (markStateChange (t\<lparr>irq_priority := TIMER_INTERRUPT_PRIORITY\<rparr>))\<lparr>irq_enabled := True\<rparr>)))"

definition stm32_stopIt :: "tim_hal \<Rightarrow> stm32_timer \<Rightarrow> HalError option \<times> stm32_timer" where
  "stm32_stopIt hal t = stm32_stop hal t"

definition stm32_setCounter :: "u32 \<Rightarrow> stm32_timer \<Rightarrow> stm32_timer" where
  "stm32_setCounter v t = (markStateChange t)\<lparr>CNT := v\<rparr>"

definition stm32_setAutoReload :: "u32 \<Rightarrow> stm32_timer \<Rightarrow> stm32_timer" where
  "stm32_setAutoReload v t = (markStateChange t)\<lparr>ARR := v\<rparr>"

definition stm32_forceUpdateEvent :: "tim_hal \<Rightarrow> stm32_timer \<Rightarrow> stm32_timer" where
  "stm32_forceUpdateEvent hal t = update_generation hal (markStateChange t)"

definition stm32_reset :: "stm32_timer \<Rightarrow> stm32_timer" where
  "stm32_reset t = stm32_setCounter 0 t"

definition stm32_setPrescaler :: "tim_hal \<Rightarrow> u32 \<Rightarrow> stm32_timer \<Rightarrow> stm32_timer" where
  "stm32_setPrescaler hal v t =
     (let v = min v MAXIMUM_PRESCALER;
          restore_update_interrupt = UIE t; restore_nvic_interrupt = irq_enabled t;
          t = t\<lparr>irq_enabled := False, UIE := False\<rparr>;
          update_was_pending = UIF t; interrupt_was_pending = irq_pending t; counter = CNT t;
          t = (update_generation hal (t\<lparr>PSC := v\<rparr>))\<lparr>CNT := counter\<rparr>;
          t = (if \<not> update_was_pending then t\<lparr>UIF := False\<rparr> else t);
          t = (if \<not> interrupt_was_pending then t\<lparr>irq_pending := False\<rparr> else t);
          t = (if restore_update_interrupt then t\<lparr>UIE := True\<rparr> else t);
          t = markStateChange t
      in if restore_nvic_interrupt then t\<lparr>irq_enabled := True\<rparr> else t)"

definition stm32_getTickFrequencyHz :: "stm32_timer \<Rightarrow> u32" where
  "stm32_getTickFrequencyHz t = ucast (ucast (timerInputHz t) div (ucast (PSC t) + 1 :: u64))"

definition stm32_durationToTicks :: "stm32_timer \<Rightarrow> int \<Rightarrow> u32" where
  "stm32_durationToTicks t duration =
     (let frequency = ucast (stm32_getTickFrequencyHz t) :: u64
      in if duration \<le> 0 \<or> frequency = 0 then 0
         else
           (let unsigned_nanoseconds = word_of_int duration;
                seconds = unsigned_nanoseconds div nanoseconds_per_second;
                remainder = unsigned_nanoseconds mod nanoseconds_per_second;
                maximum_tick = 0xFFFFFFFF
            in if seconds > maximum_tick div frequency then 0xFFFFFFFF
               else
                 (let whole_ticks = seconds * frequency;
                      fractional_ticks = (remainder * frequency + nanoseconds_per_second - 1) div nanoseconds_per_second
                  in if fractional_ticks > maximum_tick - whole_ticks then 0xFFFFFFFF
                     else ucast (whole_ticks + fractional_ticks))))"

definition stm32_setPeriod :: "tim_hal \<Rightarrow> int \<Rightarrow> stm32_timer \<Rightarrow> stm32_timer" where
  "stm32_setPeriod hal duration t =
     (let ticks = stm32_durationToTicks t duration
      in stm32_forceUpdateEvent hal (stm32_setAutoReload (if ticks = 0 then 0 else ticks - 1) t))"

definition stm32_getElapsedTime :: "stm32_timer \<Rightarrow> int" where
  "stm32_getElapsedTime t =
     (let frequency = ucast (stm32_getTickFrequencyHz t) :: u64
      in if frequency = 0 then 0 else sint (ucast (CNT t) * nanoseconds_per_second div frequency))"

text \<open>The interrupt handler: whether it calls the driver, and the flag it clears.\<close>

definition TIM2_IRQHandler :: "stm32_timer \<Rightarrow> bool \<times> stm32_timer" where
  "TIM2_IRQHandler t = (if UIF t \<and> UIE t then (True, t\<lparr>UIF := False\<rparr>) else (False, t))"

section \<open>The registry\<close>

text \<open>The constructed drivers, each with its handle; \<open>None\<close> where the program terminates.\<close>

definition MAX_TIMER_INSTANCES :: nat where "MAX_TIMER_INSTANCES = 4"

definition register_timer :: "nat \<Rightarrow> nat \<Rightarrow> (nat \<times> nat) option list \<Rightarrow> (nat \<times> nat) option list option" where
  "register_timer timer handle registry =
     (if \<exists>slot \<in> set registry. \<exists>other. slot = Some (other, handle) then None
      else
        (case find (\<lambda>i. registry ! i = None) [0..<length registry] of
           None \<Rightarrow> None
         | Some i \<Rightarrow> Some (registry[i := Some (timer, handle)])))"

definition unregister_timer :: "nat \<Rightarrow> (nat \<times> nat) option list \<Rightarrow> (nat \<times> nat) option list" where
  "unregister_timer timer registry =
     (case find (\<lambda>i. map_option fst (registry ! i) = Some timer) [0..<length registry] of
        None \<Rightarrow> registry
      | Some i \<Rightarrow> registry[i := None])"

definition dispatchPeriodElapsed :: "nat \<Rightarrow> (nat \<times> nat) option list \<Rightarrow> nat option" where
  "dispatchPeriodElapsed handle registry =
     (case find (\<lambda>slot. map_option snd slot = Some handle) registry of Some (Some (timer, h)) \<Rightarrow> Some timer | _ \<Rightarrow> None)"

text \<open>No two drivers share a handle.\<close>

definition handles_distinct :: "(nat \<times> nat) option list \<Rightarrow> bool" where
  "handles_distinct registry \<longleftrightarrow>
     (\<forall>i < length registry. \<forall>j < length registry. \<forall>h a b. registry ! i = Some (a, h) \<longrightarrow> registry ! j = Some (b, h) \<longrightarrow> i = j)"

lemma find_upt_Some: "find P [0..<n] = Some i \<Longrightarrow> i < n \<and> P i"
  by (auto simp: find_Some_iff)

lemma register_timer_distinct:
  assumes "register_timer timer handle registry = Some registry'" "handles_distinct registry"
  shows "handles_distinct registry' \<and> Some (timer, handle) \<in> set registry' \<and> length registry' = length registry"
proof -
  have none: "\<not> (\<exists>slot \<in> set registry. \<exists>other. slot = Some (other, handle))"
    using assms(1) unfolding register_timer_def by (meson option.distinct(1))
  then have fresh: "\<forall>j < length registry. \<forall>a. registry ! j \<noteq> Some (a, handle)" by (metis nth_mem)
  obtain i where find: "find (\<lambda>i. registry ! i = None) [0..<length registry] = Some i"
    and r: "registry' = registry[i := Some (timer, handle)]"
    using assms(1) none unfolding register_timer_def by (simp split: option.splits)
  have i: "i < length registry" "registry ! i = None" using find_upt_Some [OF find] by simp_all
  have "handles_distinct registry'"
    using assms(2) fresh i(1) unfolding handles_distinct_def r
    by (simp add: nth_list_update) (metis option.inject prod.inject)
  then show ?thesis using i(1) r by (simp add: set_update_memI)
qed

lemma dispatch_reaches:
  assumes "handles_distinct registry" "Some (timer, handle) \<in> set registry"
  shows "dispatchPeriodElapsed handle registry = Some timer"
proof -
  obtain i where i: "i < length registry" "registry ! i = Some (timer, handle)" using assms(2) by (metis in_set_conv_nth)
  obtain slot where slot: "find (\<lambda>slot. map_option snd slot = Some handle) registry = Some slot"
    using assms(2) by (cases "find (\<lambda>slot. map_option snd slot = Some handle) registry") (auto simp: find_None_iff)
  then obtain j a where "j < length registry" "registry ! j = slot" "slot = Some (a, handle)"
    by (auto simp: find_Some_iff)
  then have "slot = Some (timer, handle)" using i assms(1) unfolding handles_distinct_def by (metis)
  then show ?thesis using slot by (simp add: dispatchPeriodElapsed_def)
qed

section \<open>What the operations keep\<close>

text \<open>
  On both targets the same frequency gives the same number of ticks, so the exactness of the Linux
  conversion is that of the STM32 conversion.
\<close>

definition linux_view :: "stm32_timer \<Rightarrow> linux_timer" where
  "linux_view t = new_timer (timerInputHz t) (PSC t) (ARR t) 0"

lemma stm32_frequency: "stm32_getTickFrequencyHz t = getTickFrequencyHz (linux_view t)"
  by (simp add: stm32_getTickFrequencyHz_def getTickFrequencyHz_def linux_view_def new_timer_def)

lemma stm32_durationToTicks_exact:
  assumes "duration < 2 ^ 63"
  shows "unat (stm32_durationToTicks t duration) =
    (if duration \<le> 0 then 0
     else min (ticks_covering (unat (timerInputHz t) div (unat (PSC t) + 1)) (nat duration)) 4294967295)"
proof -
  have "stm32_durationToTicks t duration = durationToTicks (linux_view t) duration"
    by (simp only: stm32_durationToTicks_def durationToTicks_def stm32_frequency)
  moreover have "timer_frequency (linux_view t) = unat (timerInputHz t) div (unat (PSC t) + 1)"
    by (simp add: timer_frequency_def linux_view_def new_timer_def)
  ultimately show ?thesis using durationToTicks_exact [OF assms] by simp
qed

text \<open>
  A failing stop leaves the interrupt enables as they were when the HAL does not touch them.
\<close>

definition hal_keeps_interrupts :: "(stm32_timer \<Rightarrow> hal_status \<times> stm32_timer) \<Rightarrow> bool" where
  "hal_keeps_interrupts call \<longleftrightarrow>
     (\<forall>t. fst (call t) \<noteq> HAL_OK \<longrightarrow> UIE (snd (call t)) = UIE t \<and> irq_enabled (snd (call t)) = irq_enabled t)"

lemma make_result_None [simp]: "make_result status = None \<longleftrightarrow> status = HAL_OK"
  by (cases status) (simp_all add: make_result_def)

lemma stm32_stop_failure:
  assumes "hal_keeps_interrupts (HAL_TIM_Base_Stop hal)" "stm32_stop hal t = (Some e, t')"
  shows "UIE t' = UIE t \<and> irq_enabled t' = irq_enabled t"
proof -
  define u where "u = t\<lparr>UIE := False, irq_enabled := False\<rparr>"
  have "fst (HAL_TIM_Base_Stop hal u) \<noteq> HAL_OK" "t' = restore_interrupts (UIE t) (irq_enabled t) (snd (HAL_TIM_Base_Stop hal u))"
    using assms(2) by (auto simp: stm32_stop_def u_def Let_def case_prod_beta make_result_def split: if_splits)
  then show ?thesis using assms(1) by (simp add: hal_keeps_interrupts_def restore_interrupts_def Let_def u_def)
qed

lemma stm32_stop_success:
  "stm32_stop hal t = (None, t') \<Longrightarrow> irq_pending t' = False \<and>
    stateVersion t' = stateVersion (snd (HAL_TIM_Base_Stop hal (t\<lparr>UIE := False, irq_enabled := False\<rparr>))) + 1"
  by (auto simp: stm32_stop_def Let_def case_prod_beta markStateChange_def split: if_splits)

text \<open>Changing the prescaler keeps the count, the pending events and the enables, and saturates.\<close>

definition update_affects_counters :: "tim_hal \<Rightarrow> bool" where
  "update_affects_counters hal \<longleftrightarrow>
     (\<forall>t. \<exists>c uif pending. update_generation hal t = t\<lparr>CNT := c, UIF := uif, irq_pending := pending\<rparr> \<and>
        (UIF t \<longrightarrow> uif) \<and> (irq_pending t \<longrightarrow> pending))"

lemma stm32_setPrescaler_keeps:
  assumes "update_affects_counters hal"
  shows "stm32_setPrescaler hal v t = t\<lparr>PSC := min v MAXIMUM_PRESCALER, stateVersion := stateVersion t + 1\<rparr>"
proof -
  define u where "u = t\<lparr>irq_enabled := False, UIE := False, PSC := min v MAXIMUM_PRESCALER\<rparr>"
  obtain c uif pending where g: "update_generation hal u = u\<lparr>CNT := c, UIF := uif, irq_pending := pending\<rparr>"
    and "UIF u \<longrightarrow> uif" "irq_pending u \<longrightarrow> pending"
    using assms unfolding update_affects_counters_def by blast
  then have "UIF t \<longrightarrow> uif" "irq_pending t \<longrightarrow> pending" by (simp_all add: u_def)
  then show ?thesis
    unfolding stm32_setPrescaler_def Let_def
    by (simp flip: u_def add: g) (simp add: u_def markStateChange_def)
qed

end
