(* ===== verification/Hal_Frames.thy ===== *)
theory Hal_Frames
  imports Nucleo_Prelude
begin

text \<open>
  Ethernet frames (\<^verbatim>\<open>platform/hal/drivers/itf/IEthernet.hpp\<close>) and the socket filter of the Linux
  driver (\<^verbatim>\<open>impl/linux/Ethernet.cpp\<close>): the type of a frame behind its VLAN tags, and the filter
  program with the documented meaning of the three instructions it uses.
\<close>

section \<open>Frame types\<close>

definition VLAN :: u16 where "VLAN = 0x8100"
definition SERVICE_VLAN :: u16 where "SERVICE_VLAN = 0x88A8"
definition MAC_ADDRESS_SIZE :: nat where "MAC_ADDRESS_SIZE = 6"
definition ETHERNET_HEADER_SIZE :: nat where "ETHERNET_HEADER_SIZE = 14"
definition MIN_FRAME_SIZE :: nat where "MIN_FRAME_SIZE = 60"
definition MAX_FRAME_SIZE :: nat where "MAX_FRAME_SIZE = 1522"
definition ETHER_TYPE_OFFSET :: nat where "ETHER_TYPE_OFFSET = 12"
definition VLAN_TAG_SIZE :: nat where "VLAN_TAG_SIZE = 4"

lemmas frame_constants =
  VLAN_def SERVICE_VLAN_def MAC_ADDRESS_SIZE_def ETHERNET_HEADER_SIZE_def MIN_FRAME_SIZE_def MAX_FRAME_SIZE_def
  ETHER_TYPE_OFFSET_def VLAN_TAG_SIZE_def

definition read_ether_type :: "u8 list \<Rightarrow> nat \<Rightarrow> u16" where
  "read_ether_type frame offset = push_bit 8 (ucast (frame ! offset)) OR ucast (frame ! (offset + 1))"

definition frameOuterEtherType :: "u8 list \<Rightarrow> u16 option" where
  "frameOuterEtherType frame =
     (if length frame < ETHERNET_HEADER_SIZE then None else Some (read_ether_type frame ETHER_TYPE_OFFSET))"

definition is_tag :: "u16 \<Rightarrow> bool" where
  "is_tag type \<longleftrightarrow> type = VLAN \<or> type = SERVICE_VLAN"

function skip_tags :: "u8 list \<Rightarrow> nat \<Rightarrow> u16 \<Rightarrow> u16 option" where
  "skip_tags frame offset type =
     (if is_tag type then
        (if length frame < offset + VLAN_TAG_SIZE + 2 then None
         else skip_tags frame (offset + VLAN_TAG_SIZE) (read_ether_type frame (offset + VLAN_TAG_SIZE)))
      else Some type)"
  by pat_completeness auto
termination
  by (relation "measure (\<lambda>(frame, offset, type). length frame - offset)") (auto simp: frame_constants)

declare skip_tags.simps [simp del]

definition frameEtherType :: "u8 list \<Rightarrow> u16 option" where
  "frameEtherType frame =
     (case frameOuterEtherType frame of None \<Rightarrow> None | Some type \<Rightarrow> skip_tags frame ETHER_TYPE_OFFSET type)"

section \<open>What the type of a frame is\<close>

text \<open>The first half word behind \<open>k\<close> tags that is not a tag itself.\<close>

definition type_behind :: "nat \<Rightarrow> u8 list \<Rightarrow> u16 \<Rightarrow> bool" where
  "type_behind k frame type \<longleftrightarrow>
     14 + 4 * k \<le> length frame \<and> read_ether_type frame (12 + 4 * k) = type \<and>
     (\<forall>j < k. is_tag (read_ether_type frame (12 + 4 * j)))"

lemma skip_tags_None_or: "skip_tags frame offset type = Some t \<Longrightarrow> \<not> is_tag t"
  by (induction frame offset type rule: skip_tags.induct) (subst (asm) (2) skip_tags.simps, simp split: if_splits)

lemma frameEtherType_not_tag: "frameEtherType frame = Some t \<Longrightarrow> \<not> is_tag t"
  by (auto simp: frameEtherType_def skip_tags_None_or split: option.splits)

lemma skip_tags_behind:
  assumes "\<not> is_tag t" "14 + 4 * k \<le> length frame" "\<forall>j < k. is_tag (read_ether_type frame (12 + 4 * j))"
  shows "skip_tags frame (12 + 4 * k) (read_ether_type frame (12 + 4 * k)) = Some t \<longleftrightarrow> (\<exists>i \<ge> k. type_behind i frame t)"
  using assms(2,3)
proof (induction "length frame - 4 * k" arbitrary: k rule: less_induct)
  case less
  let ?type = "read_ether_type frame (12 + 4 * k)"
  show ?case
  proof (cases "is_tag ?type")
    case False
    have "\<not> type_behind i frame t" if "k < i" for i using that False by (auto simp: type_behind_def)
    moreover have "type_behind k frame t \<longleftrightarrow> ?type = t" using less.prems by (simp add: type_behind_def)
    ultimately have "(\<exists>i \<ge> k. type_behind i frame t) \<longleftrightarrow> ?type = t" by (metis le_neq_implies_less order_refl)
    then show ?thesis using False by (simp add: skip_tags.simps)
  next
    case True
    have here: "\<not> type_behind k frame t" using True assms(1) by (auto simp: type_behind_def)
    show ?thesis
    proof (cases "14 + 4 * Suc k \<le> length frame")
      case True': True
      have "\<forall>j < Suc k. is_tag (read_ether_type frame (12 + 4 * j))" using less.prems(2) True by (simp add: less_Suc_eq)
      then have "skip_tags frame (12 + 4 * Suc k) (read_ether_type frame (12 + 4 * Suc k)) = Some t \<longleftrightarrow>
          (\<exists>i \<ge> Suc k. type_behind i frame t)"
        using less.hyps [of "Suc k"] True' by simp
      moreover have "skip_tags frame (12 + 4 * k) ?type =
          skip_tags frame (12 + 4 * Suc k) (read_ether_type frame (12 + 4 * Suc k))"
        using True True' by (subst skip_tags.simps) (simp add: frame_constants add.commute)
      ultimately show ?thesis using here by (metis Suc_leD le_antisym not_less_eq_eq)
    next
      case False
      then have "skip_tags frame (12 + 4 * k) ?type = None"
        using True by (subst skip_tags.simps) (simp add: frame_constants)
      moreover have "\<not> type_behind i frame t" if "k \<le> i" for i
        using that here False by (cases "i = k") (auto simp: type_behind_def)
      ultimately show ?thesis by auto
    qed
  qed
qed

lemma frameEtherType_behind:
  assumes "\<not> is_tag t"
  shows "frameEtherType frame = Some t \<longleftrightarrow> (\<exists>k. type_behind k frame t)"
proof (cases "14 \<le> length frame")
  case True
  then have "frameEtherType frame = skip_tags frame (12 + 4 * 0) (read_ether_type frame (12 + 4 * 0))"
    by (simp add: frameEtherType_def frameOuterEtherType_def frame_constants)
  then show ?thesis using skip_tags_behind [OF assms, of 0 frame] True by simp
next
  case False
  then show ?thesis by (auto simp: frameEtherType_def frameOuterEtherType_def frame_constants type_behind_def)
qed

lemma type_behind_unique: "type_behind i frame t \<Longrightarrow> type_behind k frame u \<Longrightarrow> \<not> is_tag t \<Longrightarrow> \<not> is_tag u \<Longrightarrow> i = k \<and> t = u"
  by (metis linorder_neqE_nat type_behind_def)

section \<open>The socket filter\<close>

datatype bpf = LD_H_ABS nat | JEQ u16 nat nat | RET nat

function bpf_run :: "bpf list \<Rightarrow> u8 list \<Rightarrow> u16 \<Rightarrow> nat" where
  "bpf_run [] frame accumulator = 0"
| "bpf_run (LD_H_ABS k # program) frame accumulator =
     (if length frame < k + 2 then 0 else bpf_run program frame (read_ether_type frame k))"
| "bpf_run (JEQ k jt jf # program) frame accumulator = bpf_run (drop (if accumulator = k then jt else jf) program) frame accumulator"
| "bpf_run (RET k # program) frame accumulator = k"
  by pat_completeness auto
termination by (relation "measure (\<lambda>(program, frame, accumulator). length program)") auto

definition ether_type_filter :: "u16 \<Rightarrow> bpf list" where
  "ether_type_filter ether_type =
     [LD_H_ABS 12,
      JEQ ether_type 8 0,
      JEQ VLAN 1 0,
      JEQ SERVICE_VLAN 0 7,
      LD_H_ABS 16,
      JEQ ether_type 4 0,
      JEQ VLAN 1 0,
      JEQ SERVICE_VLAN 0 3,
      LD_H_ABS 20,
      JEQ ether_type 0 1,
      RET 0xFFFF,
      RET 0]"

definition filter_passes :: "u16 \<Rightarrow> u8 list \<Rightarrow> bool" where
  "filter_passes ether_type frame \<longleftrightarrow> bpf_run (ether_type_filter ether_type) frame 0 \<noteq> 0"

text \<open>The program, read as a condition.\<close>

lemma bpf_jump:
  "bpf_run (JEQ k jt jf # program) frame a = (if a = k then bpf_run (drop jt program) frame a else bpf_run (drop jf program) frame a)"
  by simp

lemmas bpf_steps = bpf_jump bpf_run.simps(1,2,4)

lemma filter_third:
  "bpf_run [LD_H_ABS 20, JEQ t 0 1, RET 0xFFFF, RET 0] frame a \<noteq> 0 \<longleftrightarrow> 22 \<le> length frame \<and> read_ether_type frame 20 = t"
  by (simp add: bpf_steps del: bpf_run.simps(3))

lemma filter_second:
  "bpf_run [LD_H_ABS 16, JEQ t 4 0, JEQ VLAN 1 0, JEQ SERVICE_VLAN 0 3, LD_H_ABS 20, JEQ t 0 1, RET 0xFFFF, RET 0] frame a \<noteq> 0 \<longleftrightarrow>
     18 \<le> length frame \<and>
     (read_ether_type frame 16 = t \<or>
      is_tag (read_ether_type frame 16) \<and> 22 \<le> length frame \<and> read_ether_type frame 20 = t)"
  by (simp add: bpf_steps is_tag_def del: bpf_run.simps(3))

lemma filter_passes_eq:
  "filter_passes t frame \<longleftrightarrow>
     14 \<le> length frame \<and>
     (read_ether_type frame 12 = t \<or>
      is_tag (read_ether_type frame 12) \<and> 18 \<le> length frame \<and>
      (read_ether_type frame 16 = t \<or>
       is_tag (read_ether_type frame 16) \<and> 22 \<le> length frame \<and> read_ether_type frame 20 = t))"
  by (simp add: filter_passes_def ether_type_filter_def bpf_steps filter_second [simplified bpf_steps] is_tag_def
      del: bpf_run.simps(3))

text \<open>The filter passes exactly the frames with the type behind at most two tags.\<close>

lemma filter_passes_behind: "filter_passes t frame \<longleftrightarrow> (\<exists>k \<le> 2. type_behind k frame t)"
proof -
  have "(\<exists>k \<le> 2. type_behind k frame t) \<longleftrightarrow> type_behind 0 frame t \<or> type_behind 1 frame t \<or> type_behind 2 frame t"
    by (auto simp: le_Suc_eq numeral_2_eq_2)
  also have "\<dots> \<longleftrightarrow> filter_passes t frame"
    by (auto simp: filter_passes_eq type_behind_def less_Suc_eq numeral_2_eq_2)
  finally show ?thesis by simp
qed

lemma filter_agrees:
  assumes "\<not> is_tag t" "filter_passes t frame"
  shows "frameEtherType frame = Some t"
  using assms by (auto simp: filter_passes_behind frameEtherType_behind)

lemma filter_complete:
  assumes "frameEtherType frame = Some t" "\<not> (14 + 4 * 3 \<le> length frame \<and> (\<forall>j < 3. is_tag (read_ether_type frame (12 + 4 * j))))"
  shows "filter_passes t frame"
proof -
  obtain k where k: "type_behind k frame t"
    using assms(1) frameEtherType_behind [OF frameEtherType_not_tag [OF assms(1)]] by blast
  have "k \<le> 2"
  proof (rule ccontr)
    assume "\<not> k \<le> 2"
    then have "3 \<le> k" by simp
    then show False using k assms(2) by (auto simp: type_behind_def)
  qed
  then show ?thesis using k by (auto simp: filter_passes_behind)
qed

text \<open>A filter for a tag type passes frames that no frame type can equal.\<close>

lemma tag_filter_disagrees: "is_tag t \<Longrightarrow> frameEtherType frame \<noteq> Some t"
  using frameEtherType_not_tag by blast

end
