(* ===== verification/Hal_Ethernet_Linux.thy ===== *)
theory Hal_Ethernet_Linux
  imports Hal_Frames Runtime_Time
begin

text \<open>
  The Linux Ethernet driver (\<^verbatim>\<open>platform/hal/drivers/impl/linux/Ethernet.cpp\<close>). The operating system
  is an argument: a record of the system calls, acting on a state that stands for everything
  outside the driver. A call that never returns is \<open>None\<close>.
\<close>

section \<open>Errors and system calls\<close>

datatype net_error = Errno errno | Invalid_argument | Not_connected | Timed_out | Io_error | Message_size | No_buffer_space

datatype received = Receive_failed errno | Packet "u8 list" bool

record 'w network =
  monotonic :: "'w \<Rightarrow> u64 \<times> 'w"
  poll :: "int \<Rightarrow> bool \<Rightarrow> int \<Rightarrow> 'w \<Rightarrow> (int \<times> errno) \<times> 'w"
  recvfrom :: "int \<Rightarrow> 'w \<Rightarrow> received \<times> 'w"
  sendto :: "int \<Rightarrow> u8 list \<Rightarrow> u16 option \<Rightarrow> 'w \<Rightarrow> (int \<times> errno) \<times> 'w"
  if_nametoindex :: "string \<Rightarrow> 'w \<Rightarrow> (nat \<times> errno) \<times> 'w"
  socket :: "'w \<Rightarrow> (int \<times> errno) \<times> 'w"
  bind_socket :: "int \<Rightarrow> nat \<Rightarrow> 'w \<Rightarrow> errno option \<times> 'w"
  socket_options :: "int \<Rightarrow> 'w \<Rightarrow> 'w"
  attach_filter :: "int \<Rightarrow> bpf list \<Rightarrow> 'w \<Rightarrow> errno option \<times> 'w"
  add_membership :: "int \<Rightarrow> nat \<Rightarrow> 'w \<Rightarrow> errno option \<times> 'w"
  hardware_address :: "int \<Rightarrow> string \<Rightarrow> 'w \<Rightarrow> (errno + u8 list) \<times> 'w"
  close_socket :: "int \<Rightarrow> 'w \<Rightarrow> errno option \<times> 'w"

section \<open>Deadlines\<close>

definition nanoseconds_per_millisecond :: u64 where "nanoseconds_per_millisecond = 1000000"
definition INT_MAX :: u64 where "INT_MAX = 0x7FFFFFFF"

definition make_deadline :: "'w network \<Rightarrow> int \<Rightarrow> 'w \<Rightarrow> u64 \<times> 'w" where
  "make_deadline os timeout w =
     (let (now, w) = monotonic os w
      in if timeout \<le> 0 then (now, w)
         else
           (let milliseconds = word_of_int timeout
            in if milliseconds > (- 1 - now) div nanoseconds_per_millisecond then (- 1, w)
               else (now + milliseconds * nanoseconds_per_millisecond, w)))"

definition poll_timeout :: "'w network \<Rightarrow> u64 \<Rightarrow> 'w \<Rightarrow> int \<times> 'w" where
  "poll_timeout os deadline w =
     (let (now, w) = monotonic os w
      in if deadline \<le> now then (0, w)
         else
           (let remaining = deadline - now;
                milliseconds = (remaining + nanoseconds_per_millisecond - 1) div nanoseconds_per_millisecond
            in (uint (min milliseconds INT_MAX), w)))"

partial_function (option) poll_descriptor ::
  "'w network \<Rightarrow> int \<Rightarrow> bool \<Rightarrow> u64 \<Rightarrow> 'w \<Rightarrow> ((int \<times> errno) \<times> 'w) option" where
  "poll_descriptor os fd writing deadline w =
     (let (timeout, w) = poll_timeout os deadline w; ((status, e), w) = poll os fd writing timeout w
      in if status \<ge> 0 \<or> e \<noteq> EINTR then Some ((status, e), w) else poll_descriptor os fd writing deadline w)"

text \<open>The deadline is the requested one, or the end of time when it lies beyond.\<close>

lemma make_deadline_exact:
  assumes "timeout < 2 ^ 63"
  shows "unat (fst (make_deadline os timeout w)) =
    min (unat (fst (monotonic os w)) + nat timeout * 1000000) 18446744073709551615"
proof -
  define now where "now = fst (monotonic os w)"
  have max: "unat (- 1 :: u64) = 18446744073709551615" by (simp add: unsigned_minus_1_eq_mask mask_eq_exp_minus_1)
  have now: "unat now \<le> unat (- 1 :: u64)" unfolding max using unat_u64_bound [of now] by simp
  show ?thesis
  proof (cases "timeout \<le> 0")
    case True
    then show ?thesis using now max by (simp add: make_deadline_def case_prod_beta now_def)
  next
    case False
    have ms: "unat (word_of_int timeout :: u64) = nat timeout" using assms False by (simp add: unat_word_of_int)
    have unit: "unat nanoseconds_per_millisecond = 1000000" by (simp add: nanoseconds_per_millisecond_def)
    have test: "word_of_int timeout > (- 1 - now) div nanoseconds_per_millisecond \<longleftrightarrow>
        nat timeout * 1000000 + unat now > 18446744073709551615"
      using overflow_test [OF now, of nanoseconds_per_millisecond "word_of_int timeout"] by (simp only: ms unit max)
    have result: "fst (make_deadline os timeout w) =
        (if word_of_int timeout > (- 1 - now) div nanoseconds_per_millisecond then - 1
         else now + word_of_int timeout * nanoseconds_per_millisecond)"
      using False by (simp add: make_deadline_def case_prod_beta Let_def now_def)
    show ?thesis
    proof (cases "nat timeout * 1000000 + unat now > 18446744073709551615")
      case True
      then show ?thesis unfolding result now_def [symmetric] using test max by simp
    next
      case False
      then have "unat (now + word_of_int timeout * nanoseconds_per_millisecond) = unat now + nat timeout * 1000000"
        by (simp add: unat_add_no_wrap unat_mult_no_wrap ms unit)
      then show ?thesis unfolding result now_def [symmetric] using test False by simp
    qed
  qed
qed

text \<open>A wait never ends before the deadline, except for the cap on a single wait.\<close>

lemma poll_timeout_covers:
  assumes "unat deadline + 999999 < 2 ^ 64" "fst (monotonic os w) < deadline"
  shows "fst (poll_timeout os deadline w) =
    int (min ((unat deadline - unat (fst (monotonic os w)) + 999999) div 1000000) 2147483647)"
proof -
  define r where "r = deadline - fst (monotonic os w)"
  define q where "q = (r + nanoseconds_per_millisecond - 1) div nanoseconds_per_millisecond"
  have r: "unat r = unat deadline - unat (fst (monotonic os w))" unfolding r_def using assms(2) by (simp add: unat_sub)
  have "unat (r + 999999) = unat r + 999999" using assms(1) r by (simp add: unat_add_no_wrap)
  moreover have "r + nanoseconds_per_millisecond - 1 = r + 999999" by (simp add: nanoseconds_per_millisecond_def)
  moreover have "unat nanoseconds_per_millisecond = 1000000" by (simp add: nanoseconds_per_millisecond_def)
  ultimately have q: "unat q = (unat r + 999999) div 1000000" by (simp only: q_def unat_div)
  have "\<not> deadline \<le> fst (monotonic os w)" using assms(2) by simp
  then have "fst (poll_timeout os deadline w) = uint (min q INT_MAX)"
    by (simp add: poll_timeout_def case_prod_beta Let_def r_def q_def)
  also have "\<dots> = int (unat (min q INT_MAX))" by (rule uint_nat)
  also have "unat (min q INT_MAX) = min (unat q) 2147483647" by (simp add: min_def word_le_nat_alt INT_MAX_def)
  finally show ?thesis unfolding q r .
qed

section \<open>The driver\<close>

record ethernet =
  interface_name :: string
  receive_ether_type :: "u16 option"
  promiscuous :: bool
  socket_fd :: int
  interface_index :: nat
  mac_address :: "u8 list"

definition new_ethernet :: "string \<Rightarrow> u16 option \<Rightarrow> bool \<Rightarrow> ethernet" where
  "new_ethernet name ether_type promisc =
     \<lparr>interface_name = (if length name < 16 then takeWhile (\<lambda>c. c \<noteq> NUL) name else []), receive_ether_type = ether_type,
      promiscuous = promisc, socket_fd = - 1, interface_index = 0, mac_address = replicate 6 0\<rparr>"

text \<open>The failure exits of \<open>start\<close> close the socket they opened.\<close>

definition give_up :: "'w network \<Rightarrow> int \<Rightarrow> errno \<Rightarrow> ethernet \<Rightarrow> 'w \<Rightarrow> net_error option \<times> ethernet \<times> 'w" where
  "give_up os fd e t w = (Some (Errno e), t, snd (close_socket os fd w))"

definition configure_socket :: "'w network \<Rightarrow> int \<Rightarrow> ethernet \<Rightarrow> 'w \<Rightarrow> net_error option \<times> ethernet \<times> 'w" where
  "configure_socket os fd t w =
     (let (filtered, w) = (case receive_ether_type t of None \<Rightarrow> (None, w)
             | Some type \<Rightarrow> attach_filter os fd (ether_type_filter type) w)
      in case filtered of Some e \<Rightarrow> give_up os fd e t w
         | None \<Rightarrow>
           (let (joined, w) = (if promiscuous t then add_membership os fd (interface_index t) w else (None, w))
            in case joined of Some e \<Rightarrow> give_up os fd e t w
               | None \<Rightarrow>
                 (case hardware_address os fd (interface_name t) w of
                    (Inl e, w) \<Rightarrow> give_up os fd e t w
                  | (Inr address, w) \<Rightarrow> (None, t\<lparr>mac_address := address, socket_fd := fd\<rparr>, w))))"

definition linux_start :: "'w network \<Rightarrow> ethernet \<Rightarrow> 'w \<Rightarrow> net_error option \<times> ethernet \<times> 'w" where
  "linux_start os t w =
     (if socket_fd t \<ge> 0 then (None, t, w)
      else if interface_name t = [] then (Some Invalid_argument, t, w)
      else
        (let ((index, e), w) = if_nametoindex os (interface_name t) w; t = t\<lparr>interface_index := index\<rparr>
         in if index = 0 then (Some (Errno e), t, w)
            else
              (let ((fd, e), w) = socket os w
               in if fd < 0 then (Some (Errno e), t, w)
                  else
                    (case bind_socket os fd index w of
                       (Some e, w) \<Rightarrow> give_up os fd e t w
                     | (None, w) \<Rightarrow> configure_socket os fd t (socket_options os fd w)))))"

definition linux_stop :: "'w network \<Rightarrow> ethernet \<Rightarrow> 'w \<Rightarrow> net_error option \<times> ethernet \<times> 'w" where
  "linux_stop os t w =
     (if socket_fd t < 0 then (None, t, w)
      else
        (let (e, w) = close_socket os (socket_fd t) w
         in (map_option Errno e, t\<lparr>socket_fd := - 1, interface_index := 0\<rparr>, w)))"

section \<open>Sending\<close>

definition with_source :: "u8 list \<Rightarrow> u8 list \<Rightarrow> u8 list" where
  "with_source source frame =
     overlay (overlay (replicate MAX_FRAME_SIZE 0) 0 frame) MAC_ADDRESS_SIZE source"

definition wire_size :: "u8 list \<Rightarrow> nat" where
  "wire_size frame = max (length frame) MIN_FRAME_SIZE"

definition linux_transmit :: "'w network \<Rightarrow> ethernet \<Rightarrow> u8 list \<Rightarrow> int \<Rightarrow> 'w \<Rightarrow> (net_error option \<times> 'w) option" where
  "linux_transmit os t frame timeout w =
     (if length frame < ETHERNET_HEADER_SIZE \<or> length frame > MAX_FRAME_SIZE \<or> timeout < 0
      then Some (Some Invalid_argument, w)
      else if socket_fd t < 0 then Some (Some Not_connected, w)
      else
        (let packet = with_source (mac_address t) frame; (deadline, w) = make_deadline os timeout w
         in case poll_descriptor os (socket_fd t) True deadline w of
              None \<Rightarrow> None
            | Some ((poll_status, e), w) \<Rightarrow>
                if poll_status < 0 then Some (Some (Errno e), w)
                else if poll_status = 0 then Some (Some Timed_out, w)
                else
                  (let ((sent, e), w) = sendto os (socket_fd t) (take (wire_size frame) packet) (frameOuterEtherType frame) w
                   in if sent < 0 then Some (Some (Errno e), w)
                      else if sent \<noteq> int (wire_size frame) then Some (Some Io_error, w)
                      else Some (None, w))))"

section \<open>Receiving\<close>

partial_function (option) linux_receive_loop ::
  "'w network \<Rightarrow> int \<Rightarrow> u16 option \<Rightarrow> u64 \<Rightarrow> nat \<Rightarrow> 'w \<Rightarrow> ((net_error + u8 list) \<times> 'w) option" where
  "linux_receive_loop os fd type deadline capacity w =
     (case poll_descriptor os fd False deadline w of
        None \<Rightarrow> None
      | Some ((poll_status, e), w) \<Rightarrow>
          if poll_status < 0 then Some (Inl (Errno e), w)
          else if poll_status = 0 then Some (Inl Timed_out, w)
          else
            (case recvfrom os fd w of
               (Receive_failed e, w) \<Rightarrow>
                 if e = EINTR \<or> e = EAGAIN then linux_receive_loop os fd type deadline capacity w
                 else Some (Inl (Errno e), w)
             | (Packet frame outgoing, w) \<Rightarrow>
                 if outgoing then linux_receive_loop os fd type deadline capacity w
                 else if length frame > MAX_FRAME_SIZE then Some (Inl Message_size, w)
                 else if type \<noteq> None \<and> frameEtherType frame \<noteq> type then linux_receive_loop os fd type deadline capacity w
                 else if capacity < length frame then Some (Inl No_buffer_space, w)
                 else Some (Inr frame, w)))"

definition linux_receive :: "'w network \<Rightarrow> ethernet \<Rightarrow> nat \<Rightarrow> int \<Rightarrow> 'w \<Rightarrow> ((net_error + u8 list) \<times> 'w) option" where
  "linux_receive os t capacity timeout w =
     (if capacity = 0 \<or> timeout < 0 then Some (Inl Invalid_argument, w)
      else if socket_fd t < 0 then Some (Inl Not_connected, w)
      else
        (let (deadline, w) = make_deadline os timeout w
         in linux_receive_loop os (socket_fd t) (receive_ether_type t) deadline capacity w))"


section \<open>What is sent\<close>

text \<open>
  The packet on the wire: the frame with the interface's address as its source, padded with zeros
  to the minimum size.
\<close>

lemma wire_packet:
  assumes "14 \<le> length frame" "length frame \<le> 1522" "length source = 6"
  shows "take (wire_size frame) (with_source source frame) =
    take 6 frame @ source @ drop 12 frame @ replicate (60 - length frame) 0"
proof -
  have "with_source source frame = take 6 frame @ source @ drop 12 frame @ replicate (1522 - length frame) 0"
    using assms by (simp add: with_source_def overlay_def frame_constants)
  moreover have "take (max (length frame) 60) (take 6 frame @ source @ drop 12 frame @ replicate (1522 - length frame) 0)
      = take 6 frame @ source @ drop 12 frame @ replicate (60 - length frame) 0"
    using assms by (auto simp: min_def max_def)
  ultimately show ?thesis by (simp add: wire_size_def frame_constants)
qed

lemma linux_transmit_sends:
  assumes "linux_transmit os t frame timeout w = Some (None, w')" "length (mac_address t) = 6"
  shows "\<exists>v e. sendto os (socket_fd t) (take 6 frame @ mac_address t @ drop 12 frame @ replicate (60 - length frame) 0)
    (Some (read_ether_type frame 12)) v = ((int (max (length frame) 60), e), w')"
proof -
  have size: "14 \<le> length frame" "length frame \<le> 1522"
    using assms(1) by (auto simp: linux_transmit_def frame_constants split: if_splits)
  have type: "frameOuterEtherType frame = Some (read_ether_type frame 12)"
    using size by (simp add: frameOuterEtherType_def frame_constants)
  obtain v e where "sendto os (socket_fd t) (take (wire_size frame) (with_source (mac_address t) frame)) (frameOuterEtherType frame) v
      = ((int (wire_size frame), e), w')"
    using assms(1) by (auto simp: linux_transmit_def Let_def split: if_splits option.splits prod.splits)
  then show ?thesis unfolding wire_packet [OF size assms(2)] type by (auto simp: wire_size_def frame_constants)
qed

section \<open>What is received\<close>

text \<open>A delivered frame arrived on the socket, was not sent by this host, has the requested type and fits.\<close>

definition deliverable :: "'w network \<Rightarrow> int \<Rightarrow> u16 option \<Rightarrow> nat \<Rightarrow> (net_error + u8 list) \<times> 'w \<Rightarrow> bool" where
  "deliverable os fd type capacity y \<longleftrightarrow>
     (\<forall>frame. fst y = Inr frame \<longrightarrow>
        length frame \<le> capacity \<and> length frame \<le> 1522 \<and> (\<forall>t. type = Some t \<longrightarrow> frameEtherType frame = Some t) \<and>
        (\<exists>v. recvfrom os fd v = (Packet frame False, snd y)))"

lemma linux_receive_loop_deliverable:
  fixes os :: "'w network"
  assumes major: "linux_receive_loop os fd type deadline capacity w = Some y"
  shows "deliverable os fd type capacity y"
proof -
  define P where "P = (\<lambda>(os :: 'w network) fd type (deadline :: u64) capacity (w :: 'w) y. deliverable os fd type capacity y)"
  have "P os fd type deadline capacity w y"
  proof (rule linux_receive_loop.raw_induct [where P = P, OF _ major])
    fix rec and os :: "'w network" and fd type deadline capacity w y
    assume IH: "\<And>os fd type deadline capacity w y. rec os fd type deadline capacity w = Some y \<Longrightarrow> P os fd type deadline capacity w y"
      and step: "(case poll_descriptor os fd False deadline w of
          None \<Rightarrow> None
        | Some ((poll_status, e), w) \<Rightarrow>
            if poll_status < 0 then Some (Inl (Errno e), w)
            else if poll_status = 0 then Some (Inl Timed_out, w)
            else
              (case recvfrom os fd w of
                 (Receive_failed e, w) \<Rightarrow>
                   if e = EINTR \<or> e = EAGAIN then rec os fd type deadline capacity w
                   else Some (Inl (Errno e), w)
               | (Packet frame outgoing, w) \<Rightarrow>
                   if outgoing then rec os fd type deadline capacity w
                   else if length frame > MAX_FRAME_SIZE then Some (Inl Message_size, w)
                   else if type \<noteq> None \<and> frameEtherType frame \<noteq> type then rec os fd type deadline capacity w
                   else if capacity < length frame then Some (Inl No_buffer_space, w)
                   else Some (Inr frame, w))) = Some y"
    obtain status e v where "poll_descriptor os fd False deadline w = Some ((status, e), v)"
      using step by (cases "poll_descriptor os fd False deadline w") auto
    then show "P os fd type deadline capacity w y"
      using step IH [of os fd type deadline capacity _ y]
      by (auto simp: P_def deliverable_def frame_constants not_less split: if_splits received.splits prod.splits)
  qed
  then show ?thesis by (simp add: P_def)
qed

lemma linux_receive_deliverable:
  assumes "linux_receive os t capacity timeout w = Some (Inr frame, w')"
  shows "deliverable os (socket_fd t) (receive_ether_type t) capacity (Inr frame, w')"
  using assms by (auto simp: linux_receive_def split: if_splits prod.splits intro: linux_receive_loop_deliverable)

text \<open>
  The deadline is not looked at between frames: while the socket stays readable with frames that
  are not for the caller, the call does not return.
\<close>

definition flooded :: "'w network \<Rightarrow> int \<Rightarrow> bool" where
  "flooded os fd \<longleftrightarrow>
     (\<forall>w timeout. fst (fst (poll os fd False timeout w)) > 0) \<and> (\<forall>w. \<exists>frame w'. recvfrom os fd w = (Packet frame True, w'))"

lemma poll_descriptor_ready:
  assumes "flooded os fd"
  shows "\<exists>status e v. poll_descriptor os fd False deadline w = Some ((status, e), v) \<and> status > 0"
proof -
  obtain timeout u where t: "poll_timeout os deadline w = (timeout, u)" by fastforce
  obtain status e v where p: "poll os fd False timeout u = ((status, e), v)" by (metis prod.exhaust)
  then have "status > 0" using assms unfolding flooded_def by (metis fst_conv)
  then show ?thesis using t p by (subst poll_descriptor.simps) simp
qed

lemma linux_receive_flooded:
  fixes os :: "'w network"
  assumes "flooded os fd"
  shows "linux_receive_loop os fd type deadline capacity w = None"
proof -
  define P where "P = (\<lambda>(os :: 'w network) fd (type :: u16 option) (deadline :: u64) (capacity :: nat) (w :: 'w)
    (y :: (net_error + u8 list) \<times> 'w). \<not> flooded os fd)"
  have False if major: "linux_receive_loop os fd type deadline capacity w = Some y" for y
  proof -
    have "P os fd type deadline capacity w y"
    proof (rule linux_receive_loop.raw_induct [where P = P, OF _ major])
      fix rec and os :: "'w network" and fd type deadline capacity w y
      assume IH: "\<And>os fd type deadline capacity w y. rec os fd type deadline capacity w = Some y \<Longrightarrow> P os fd type deadline capacity w y"
        and step: "(case poll_descriptor os fd False deadline w of
            None \<Rightarrow> None
          | Some ((poll_status, e), w) \<Rightarrow>
              if poll_status < 0 then Some (Inl (Errno e), w)
              else if poll_status = 0 then Some (Inl Timed_out, w)
              else
                (case recvfrom os fd w of
                   (Receive_failed e, w) \<Rightarrow>
                     if e = EINTR \<or> e = EAGAIN then rec os fd type deadline capacity w
                     else Some (Inl (Errno e), w)
                 | (Packet frame outgoing, w) \<Rightarrow>
                     if outgoing then rec os fd type deadline capacity w
                     else if length frame > MAX_FRAME_SIZE then Some (Inl Message_size, w)
                     else if type \<noteq> None \<and> frameEtherType frame \<noteq> type then rec os fd type deadline capacity w
                     else if capacity < length frame then Some (Inl No_buffer_space, w)
                     else Some (Inr frame, w))) = Some y"
      show "P os fd type deadline capacity w y"
        unfolding P_def
      proof
        assume f: "flooded os fd"
        obtain status e v where p: "poll_descriptor os fd False deadline w = Some ((status, e), v)" "status > 0"
          using poll_descriptor_ready [OF f] by blast
        obtain frame w' where "recvfrom os fd v = (Packet frame True, w')" using f unfolding flooded_def by blast
        then have "rec os fd type deadline capacity w' = Some y" using step p by simp
        then show False using IH f by (auto simp: P_def)
      qed
    qed
    then show False using assms by (simp add: P_def)
  qed
  then show ?thesis by (metis not_None_eq)
qed

section \<open>Descriptors\<close>

text \<open>
  What the driver relies on: of the system calls only \<open>socket\<close> and \<open>close_socket\<close> change the set
  of open descriptors, the first by a new one.
\<close>

definition descriptors_ok :: "'w network \<Rightarrow> ('w \<Rightarrow> int set) \<Rightarrow> bool" where
  "descriptors_ok os fds \<longleftrightarrow>
     (\<forall>name w. fds (snd (if_nametoindex os name w)) = fds w) \<and>
     (\<forall>w fd e w'. socket os w = ((fd, e), w') \<longrightarrow>
        (if fd < 0 then fds w' = fds w else fd \<notin> fds w \<and> fds w' = insert fd (fds w))) \<and>
     (\<forall>fd i w. fds (snd (bind_socket os fd i w)) = fds w) \<and>
     (\<forall>fd w. fds (socket_options os fd w) = fds w) \<and>
     (\<forall>fd p w. fds (snd (attach_filter os fd p w)) = fds w) \<and>
     (\<forall>fd i w. fds (snd (add_membership os fd i w)) = fds w) \<and>
     (\<forall>fd name w. fds (snd (hardware_address os fd name w)) = fds w) \<and>
     (\<forall>fd w. fds (snd (close_socket os fd w)) = fds w - {fd})"

lemma configure_socket_fds:
  assumes "descriptors_ok os fds" "configure_socket os fd t w = (r, t', w')" "socket_fd t < 0" "0 \<le> fd"
  shows "(r = None \<longrightarrow> fds w' = fds w \<and> socket_fd t' = fd) \<and> (r \<noteq> None \<longrightarrow> fds w' = fds w - {fd} \<and> socket_fd t' = socket_fd t)"
proof -
  have filter: "fds (snd (attach_filter os fd p z)) = fds z" and member: "fds (snd (add_membership os fd i z)) = fds z"
    and address: "fds (snd (hardware_address os fd name z)) = fds z"
    and closed: "fds (snd (close_socket os fd z)) = fds z - {fd}" for p z i name
    using assms(1) by (simp_all add: descriptors_ok_def)
  obtain filtered v where v: "(case receive_ether_type t of None \<Rightarrow> (None, w)
      | Some type \<Rightarrow> attach_filter os fd (ether_type_filter type) w) = (filtered, v)" by fastforce
  then have "v = (case receive_ether_type t of None \<Rightarrow> w | Some type \<Rightarrow> snd (attach_filter os fd (ether_type_filter type) w))"
    by (cases "receive_ether_type t") simp_all
  then have fv: "fds v = fds w" using filter by (simp split: option.splits)
  obtain joined u where u: "(if promiscuous t then add_membership os fd (interface_index t) v else (None, v)) = (joined, u)"
    by fastforce
  then have "u = (if promiscuous t then snd (add_membership os fd (interface_index t) v) else v)"
    by (cases "promiscuous t") simp_all
  then have fu: "fds u = fds w" using member fv by simp
  obtain address x where x: "hardware_address os fd (interface_name t) u = (address, x)" by fastforce
  then have fx: "fds x = fds w" using address fu by (metis snd_conv)
  show ?thesis
    using assms(2) v u x fv fu fx closed
    by (cases filtered; cases joined; cases address) (auto simp: configure_socket_def give_up_def)
qed

text \<open>Starting opens exactly the socket it keeps; a failing start leaves no descriptor behind.\<close>

lemma linux_start_fds:
  assumes "descriptors_ok os fds" "linux_start os t w = (r, t', w')" "socket_fd t < 0"
  shows "(r = None \<longrightarrow> 0 \<le> socket_fd t' \<and> fds w' = insert (socket_fd t') (fds w) \<and> socket_fd t' \<notin> fds w) \<and>
    (r \<noteq> None \<longrightarrow> socket_fd t' < 0 \<and> fds w' = fds w)"
proof -
  obtain index e v where v: "if_nametoindex os (interface_name t) w = ((index, e), v)" by (metis prod.exhaust)
  then have fv: "fds v = fds w" using assms(1) unfolding descriptors_ok_def by (metis snd_conv)
  obtain fd e' u where u: "socket os v = ((fd, e'), u)" by (metis prod.exhaust)
  then have fu: "if fd < 0 then fds u = fds w else fd \<notin> fds w \<and> fds u = insert fd (fds w)"
    using assms(1) fv unfolding descriptors_ok_def by metis
  obtain b x where x: "bind_socket os fd index u = (b, x)" by fastforce
  then have fx: "fds x = fds u" using assms(1) unfolding descriptors_ok_def by (metis snd_conv)
  have fo: "fds (socket_options os fd x) = fds u" using assms(1) fx by (simp add: descriptors_ok_def)
  have closed: "fds (snd (close_socket os fd z)) = fds z - {fd}" for z using assms(1) by (simp add: descriptors_ok_def)
  consider "interface_name t = [] \<or> index = 0 \<or> fd < 0" | err where "interface_name t \<noteq> []" "index \<noteq> 0" "0 \<le> fd" "b = Some err"
    | "interface_name t \<noteq> []" "index \<noteq> 0" "0 \<le> fd" "b = None" by force
  then show ?thesis
  proof cases
    case 1
    show ?thesis
    proof (cases "interface_name t = []")
      case True
      then have "r \<noteq> None" "t' = t" "w' = w" using assms(2,3) by (auto simp: linux_start_def)
      then show ?thesis using assms(3) by simp
    next
      case False
      then have "r \<noteq> None" "t' = t\<lparr>interface_index := index\<rparr>" "w' = (if index = 0 then v else u)"
        using 1 assms(2,3) v u by (auto simp: linux_start_def Let_def split: if_splits)
      then show ?thesis using 1 False assms(3) fv fu by (simp split: if_splits)
    qed
  next
    case 2
    then have "r = Some (Errno err)" "t' = t\<lparr>interface_index := index\<rparr>" "w' = snd (close_socket os fd x)"
      using assms(2,3) v u x by (simp_all add: linux_start_def give_up_def)
    then show ?thesis using 2 assms(3) fx fu closed by simp
  next
    case 3
    then have "configure_socket os fd (t\<lparr>interface_index := index\<rparr>) (socket_options os fd x) = (r, t', w')"
      using assms(2,3) v u x by (simp add: linux_start_def)
    from configure_socket_fds [OF assms(1) this] show ?thesis using assms(3) 3 fu fo by auto
  qed
qed

lemma linux_stop_fds:
  assumes "descriptors_ok os fds" "linux_stop os t w = (r, t', w')" "0 \<le> socket_fd t"
  shows "socket_fd t' = - 1 \<and> fds w' = fds w - {socket_fd t}"
proof -
  have "w' = snd (close_socket os (socket_fd t) w)" "socket_fd t' = - 1"
    using assms(2,3) by (auto simp: linux_stop_def split: prod.splits)
  then show ?thesis using assms(1) by (simp add: descriptors_ok_def)
qed

end
