(* ===== verification/Hal_Ethernet_Stm32.thy ===== *)
theory Hal_Ethernet_Stm32
  imports Hal_Frames Qspi_Flash
begin

text \<open>
  The STM32 Ethernet driver (\<^verbatim>\<open>platform/hal/drivers/impl/stm32/Ethernet.cpp\<close>). A receive slot is
  identified by its index, which stands for the address of its buffer and of its link. The HAL, the
  DMA engine and the PHY are arguments acting on a state of their own; the two callbacks the HAL
  makes into the driver are operations on the slots.
\<close>

datatype eth_error = Eth_invalid_argument | Eth_not_connected | Eth_timed_out | Eth_io_error | Eth_no_buffer_space

section \<open>Receive slots\<close>

record rx_slot =
  link_buffer :: "nat option"
  link_len :: nat
  link_next :: "nat option"
  slot_data :: "u8 list"
  allocated :: bool

definition RX_SLOT_COUNT :: nat where "RX_SLOT_COUNT = 4 * 2"

definition clear_link :: "rx_slot \<Rightarrow> rx_slot" where
  "clear_link slot = slot\<lparr>link_buffer := None, link_len := 0, link_next := None\<rparr>"

definition clear_slot :: "rx_slot \<Rightarrow> rx_slot" where
  "clear_slot slot = (clear_link slot)\<lparr>allocated := False\<rparr>"

definition find_slot :: "nat \<Rightarrow> rx_slot list \<Rightarrow> nat option" where
  "find_slot buffer slots = (if buffer < length slots then Some buffer else None)"

definition rx_allocate :: "rx_slot list \<Rightarrow> nat option \<times> rx_slot list" where
  "rx_allocate slots =
     (case find (\<lambda>i. \<not> allocated (slots ! i)) [0..<length slots] of
        None \<Rightarrow> (None, slots)
      | Some i \<Rightarrow> (Some i, slots[i := clear_link ((slots ! i)\<lparr>allocated := True\<rparr>)]))"

text \<open>The packet built so far is a pair of pointers to its first and last link.\<close>

definition rx_link :: "nat \<Rightarrow> nat \<Rightarrow> nat option \<times> nat option \<Rightarrow> rx_slot list \<Rightarrow> (nat option \<times> nat option) \<times> rx_slot list" where
  "rx_link buffer len packet slots =
     (case find_slot buffer slots of
        None \<Rightarrow> (packet, slots)
      | Some i \<Rightarrow>
          (let slots = slots[i := (slots ! i)\<lparr>link_buffer := Some buffer, link_len := len, link_next := None\<rparr>]
           in case packet of
                (None, _) \<Rightarrow> ((Some i, Some i), slots)
              | (Some first, Some final) \<Rightarrow> ((Some first, Some i), slots[final := (slots ! final)\<lparr>link_next := Some i\<rparr>])
              | (Some first, None) \<Rightarrow> ((Some first, Some i), slots)))"

text \<open>The number of links still set bounds the loop; clearing a link breaks any cycle.\<close>

definition links_set :: "rx_slot list \<Rightarrow> nat" where
  "links_set slots = length (filter (\<lambda>slot. link_next slot \<noteq> None) slots)"

lemma links_set_clear:
  assumes "i < length slots"
  shows "links_set (slots[i := clear_slot (slots ! i)]) + (if link_next (slots ! i) = None then 0 else 1) = links_set slots"
proof -
  have s: "slots = take i slots @ slots ! i # drop (Suc i) slots" by (rule id_take_nth_drop [OF assms])
  have "slots[i := clear_slot (slots ! i)] = take i slots @ clear_slot (slots ! i) # drop (Suc i) slots"
    by (rule upd_conv_take_nth_drop [OF assms])
  then show ?thesis
    by (subst (3) s) (simp add: links_set_def clear_slot_def clear_link_def)
qed

function release_frame :: "nat option \<Rightarrow> rx_slot list \<Rightarrow> rx_slot list" where
  "release_frame first slots =
     (case first of
        None \<Rightarrow> slots
      | Some i \<Rightarrow>
          if i < length slots then release_frame (link_next (slots ! i)) (slots[i := clear_slot (slots ! i)]) else slots)"
  by pat_completeness auto
termination
proof (relation "measure (\<lambda>(first, slots). links_set slots + (if first = None then 0 else 1))", goal_cases)
  case 1
  then show ?case by simp
next
  case (2 first slots i)
  then show ?case using links_set_clear [of i slots] by (auto split: if_splits)
qed

declare release_frame.simps [simp del]

text \<open>The slots of a packet, in order; \<open>None\<close> when the links form a cycle.\<close>

fun chain_within :: "nat \<Rightarrow> nat option \<Rightarrow> rx_slot list \<Rightarrow> nat list option" where
  "chain_within fuel None slots = Some []"
| "chain_within 0 (Some i) slots = None"
| "chain_within (Suc fuel) (Some i) slots =
     (if i < length slots then map_option (Cons i) (chain_within fuel (link_next (slots ! i)) slots) else None)"

definition chain :: "nat option \<Rightarrow> rx_slot list \<Rightarrow> nat list option" where
  "chain first slots = chain_within (length slots) first slots"

definition slot_bytes :: "rx_slot \<Rightarrow> u8 list" where
  "slot_bytes slot = take (link_len slot) (slot_data slot)"

section \<open>Ownership of the slots\<close>

definition in_use :: "rx_slot list \<Rightarrow> nat set" where
  "in_use slots = {i. i < length slots \<and> allocated (slots ! i)}"

lemma find_upt: "find P [0..<n] = Some i \<Longrightarrow> i < n \<and> P i"
  by (auto simp: find_Some_iff)

text \<open>An allocation never hands out a slot in use, and fails only when all are.\<close>

lemma rx_allocate_fresh:
  assumes "rx_allocate slots = (r, slots')"
  shows "length slots' = length slots \<and>
    (case r of None \<Rightarrow> slots' = slots \<and> in_use slots = {..<length slots}
     | Some i \<Rightarrow> i < length slots \<and> i \<notin> in_use slots \<and> in_use slots' = insert i (in_use slots) \<and> slot_data (slots' ! i) = slot_data (slots ! i))"
proof (cases "find (\<lambda>i. \<not> allocated (slots ! i)) [0..<length slots]")
  case None
  then have "\<forall>i < length slots. allocated (slots ! i)" by (auto simp: find_None_iff)
  then show ?thesis using assms None by (auto simp: rx_allocate_def in_use_def)
next
  case (Some i)
  then have i: "i < length slots" "\<not> allocated (slots ! i)" using find_upt by blast+
  have "r = Some i" "slots' = slots[i := clear_link ((slots ! i)\<lparr>allocated := True\<rparr>)]"
    using assms Some by (simp_all add: rx_allocate_def)
  then show ?thesis using i by (auto simp: in_use_def nth_list_update clear_link_def)
qed

lemma release_frame_length [simp]: "length (release_frame first slots) = length slots"
proof (induction first slots rule: release_frame.induct)
  case (1 first slots)
  then show ?case by (subst release_frame.simps) (auto split: option.splits)
qed

lemma release_frame_in_use: "in_use (release_frame first slots) \<subseteq> in_use slots"
proof (induction first slots rule: release_frame.induct)
  case (1 first slots)
  have "in_use (slots[i := clear_slot (slots ! i)]) \<subseteq> in_use slots" for i
    by (cases "i < length slots") (auto simp: in_use_def nth_list_update clear_slot_def split: if_splits)
  then show ?case using 1 by (subst release_frame.simps) (auto split: option.splits)
qed

lemma chain_within_link:
  assumes "chain_within fuel first slots = Some is" "j \<notin> set is"
  shows "chain_within fuel first (slots[j := x]) = Some is"
  using assms
proof (induction fuel first slots arbitrary: "is" rule: chain_within.induct)
  case (3 fuel i slots)
  then obtain js where "i < length slots" "chain_within fuel (link_next (slots ! i)) slots = Some js" "is = i # js"
    by (auto split: if_splits)
  then show ?case using 3 by auto
qed auto

text \<open>Releasing a packet frees exactly its slots.\<close>

lemma release_chain_within:
  assumes "chain_within fuel first slots = Some is" "distinct is"
  shows "in_use (release_frame first slots) = in_use slots - set is \<and> (\<forall>i \<in> set is. i < length slots)"
  using assms
proof (induction fuel arbitrary: first slots "is")
  case 0
  then show ?case by (cases first) (simp_all add: release_frame.simps)
next
  case (Suc fuel)
  show ?case
  proof (cases first)
    case None
    then show ?thesis using Suc.prems by (simp add: release_frame.simps)
  next
    case (Some i)
    then obtain js where i: "i < length slots" and js: "chain_within fuel (link_next (slots ! i)) slots = Some js" "is = i # js"
      using Suc.prems(1) by (auto split: if_splits)
    let ?slots = "slots[i := clear_slot (slots ! i)]"
    have "chain_within fuel (link_next (slots ! i)) ?slots = Some js"
      using js Suc.prems(2) by (simp add: chain_within_link)
    then have "in_use (release_frame (link_next (slots ! i)) ?slots) = in_use ?slots - set js \<and> (\<forall>k \<in> set js. k < length ?slots)"
      using Suc.IH [of "link_next (slots ! i)" ?slots js] js(2) Suc.prems(2) by simp
    moreover have "in_use ?slots = in_use slots - {i}"
      using i by (auto simp: in_use_def nth_list_update clear_slot_def split: if_splits)
    moreover have "release_frame first slots = release_frame (link_next (slots ! i)) ?slots"
      using Some i by (subst release_frame.simps) simp
    ultimately show ?thesis using js(2) i by auto
  qed
qed

lemma release_chain:
  "chain first slots = Some is \<Longrightarrow> distinct is \<Longrightarrow> in_use (release_frame first slots) = in_use slots - set is"
  unfolding chain_def using release_chain_within by blast


section \<open>The PHY\<close>

datatype duplex = Duplex_unknown | Duplex_half | Duplex_full

record LinkInfo =
  up :: bool
  speed_mbps :: u32
  duplex :: duplex

definition PHY_LINK_STATUS :: u32 where "PHY_LINK_STATUS = 4"
definition PHY_SPEED_DUPLEX_MASK :: u32 where "PHY_SPEED_DUPLEX_MASK = 0x1C"

definition decode_special_status :: "u32 \<Rightarrow> LinkInfo" where
  "decode_special_status special_status =
     (let mode = special_status AND PHY_SPEED_DUPLEX_MASK
      in if mode = 0x04 then \<lparr>up = True, speed_mbps = 10, duplex = Duplex_half\<rparr>
         else if mode = 0x08 then \<lparr>up = True, speed_mbps = 100, duplex = Duplex_half\<rparr>
         else if mode = 0x14 then \<lparr>up = True, speed_mbps = 10, duplex = Duplex_full\<rparr>
         else if mode = 0x18 then \<lparr>up = True, speed_mbps = 100, duplex = Duplex_full\<rparr>
         else \<lparr>up = True, speed_mbps = 0, duplex = Duplex_unknown\<rparr>)"

section \<open>The driver\<close>

record mac_config =
  speed_10m :: bool
  half_duplex :: bool
  drop_checksum_errors :: bool
  transmit_flow_control :: bool
  receive_flow_control :: bool
  giant_limit_control :: bool
  giant_limit :: nat

record 'h stm32_ethernet =
  hal_state :: 'h
  rx_slots :: "rx_slot list"
  tx_frame :: "u8 list"
  rx_type :: "u16 option"
  phy_address :: nat
  m_promiscuous :: bool
  running :: bool
  pending_transmit :: "nat option"

text \<open>The calls of the driver into the HAL; \<open>desc3_own\<close> and \<open>desc3_error\<close> read the pending descriptor.\<close>

record 'h eth_hal =
  HAL_GetTick :: "'h \<Rightarrow> u32 \<times> 'h"
  HAL_ETH_ReadPHYRegister :: "nat \<Rightarrow> nat \<Rightarrow> 'h \<Rightarrow> (hal_status \<times> u32) \<times> 'h"
  HAL_ETH_GetMACConfig :: "'h \<Rightarrow> (hal_status \<times> mac_config) \<times> 'h"
  HAL_ETH_SetMACConfig :: "mac_config \<Rightarrow> 'h \<Rightarrow> hal_status \<times> 'h"
  HAL_ETH_GetMACFilterConfig :: "'h \<Rightarrow> (hal_status \<times> bool) \<times> 'h"
  HAL_ETH_SetMACFilterConfig :: "bool \<Rightarrow> 'h \<Rightarrow> hal_status \<times> 'h"
  HAL_ETH_Init :: "'h \<Rightarrow> hal_status \<times> 'h"
  HAL_ETH_Start :: "rx_slot list \<times> 'h \<Rightarrow> hal_status \<times> (rx_slot list \<times> 'h)"
  HAL_ETH_Stop :: "'h \<Rightarrow> hal_status \<times> 'h"
  HAL_ETH_ReadData :: "rx_slot list \<times> 'h \<Rightarrow> (hal_status \<times> nat option) \<times> (rx_slot list \<times> 'h)"
  HAL_ETH_GetRxDataErrorCode :: "'h \<Rightarrow> u32 \<times> 'h"
  desc3_own :: "nat \<Rightarrow> 'h \<Rightarrow> bool \<times> 'h"
  desc3_error :: "nat \<Rightarrow> 'h \<Rightarrow> bool \<times> 'h"
  fatal_bus_error :: "'h \<Rightarrow> bool \<times> 'h"
  HAL_ETH_ReleaseTxPacket :: "'h \<Rightarrow> 'h"
  current_descriptor :: "'h \<Rightarrow> nat"
  HAL_ETH_Transmit_IT :: "nat \<Rightarrow> u8 list \<Rightarrow> 'h \<Rightarrow> hal_status \<times> 'h"
  mac_address_of :: "'h \<Rightarrow> u8 list option"
  sleep_tick :: "'h \<Rightarrow> 'h"

definition new_stm32_ethernet :: "'h \<Rightarrow> rx_slot list \<Rightarrow> u8 list \<Rightarrow> u16 option \<Rightarrow> nat \<Rightarrow> bool \<Rightarrow> 'h stm32_ethernet" where
  "new_stm32_ethernet h slots frame type phy promisc =
     \<lparr>hal_state = h, rx_slots = map clear_slot slots, tx_frame = frame, rx_type = type, phy_address = phy,
      m_promiscuous = promisc, running = False, pending_transmit = None\<rparr>"

definition timeout_milliseconds :: "int \<Rightarrow> u32" where
  "timeout_milliseconds timeout = (if timeout \<le> 0 then 0 else word_of_int (min timeout 4294967295))"

definition stm32_getMacAddress :: "'h eth_hal \<Rightarrow> 'h \<Rightarrow> u8 list" where
  "stm32_getMacAddress hal h = (case mac_address_of hal h of None \<Rightarrow> replicate 6 0 | Some address \<Rightarrow> take 6 address)"

definition stm32_getLinkInfo :: "'h eth_hal \<Rightarrow> 'h stm32_ethernet \<Rightarrow> (eth_error + LinkInfo) \<times> 'h stm32_ethernet" where
  "stm32_getLinkInfo hal t =
     (if phy_address t > 31 then (Inl Eth_invalid_argument, t)
      else
        (let ((status, basic_status), h) = HAL_ETH_ReadPHYRegister hal (phy_address t) 1 (hal_state t)
         in if status \<noteq> HAL_OK then (Inl Eth_io_error, t\<lparr>hal_state := h\<rparr>)
            else
              (let ((status, basic_status), h) = HAL_ETH_ReadPHYRegister hal (phy_address t) 1 h
               in if status \<noteq> HAL_OK then (Inl Eth_io_error, t\<lparr>hal_state := h\<rparr>)
                  else if basic_status AND PHY_LINK_STATUS = 0
                  then (Inr \<lparr>up = False, speed_mbps = 0, duplex = Duplex_unknown\<rparr>, t\<lparr>hal_state := h\<rparr>)
                  else
                    (let ((status, special_status), h) = HAL_ETH_ReadPHYRegister hal (phy_address t) 31 h
                     in if status \<noteq> HAL_OK then (Inl Eth_io_error, t\<lparr>hal_state := h\<rparr>)
                        else (Inr (decode_special_status special_status), t\<lparr>hal_state := h\<rparr>)))))"

definition link_mac_config :: "LinkInfo \<Rightarrow> mac_config \<Rightarrow> mac_config" where
  "link_mac_config link c =
     c\<lparr>speed_10m := (speed_mbps link = 10), half_duplex := (duplex link = Duplex_half), drop_checksum_errors := False,
       transmit_flow_control := False, receive_flow_control := False, giant_limit_control := True,
       giant_limit := MAX_FRAME_SIZE + 4\<rparr>"

definition stm32_eth_start :: "'h eth_hal \<Rightarrow> 'h stm32_ethernet \<Rightarrow> eth_error option \<times> 'h stm32_ethernet" where
  "stm32_eth_start hal t =
     (if running t then (None, t)
      else
        (case stm32_getLinkInfo hal t of
           (Inl e, t) \<Rightarrow> (Some e, t)
         | (Inr link, t) \<Rightarrow>
             (let ((status, c), h) = HAL_ETH_GetMACConfig hal (hal_state t)
              in if status \<noteq> HAL_OK then (Some Eth_io_error, t\<lparr>hal_state := h\<rparr>)
                 else
                   (let (status, h) = HAL_ETH_SetMACConfig hal (link_mac_config link c) h
                    in if status \<noteq> HAL_OK then (Some Eth_io_error, t\<lparr>hal_state := h\<rparr>)
                       else
                         (let ((status, _), h) = HAL_ETH_GetMACFilterConfig hal h
                          in if status \<noteq> HAL_OK then (Some Eth_io_error, t\<lparr>hal_state := h\<rparr>)
                             else
                               (let (status, h) = HAL_ETH_SetMACFilterConfig hal (m_promiscuous t) h
                                in if status \<noteq> HAL_OK then (Some Eth_io_error, t\<lparr>hal_state := h\<rparr>)
                                   else
                                     (let (status, slots, h) = HAL_ETH_Start hal (rx_slots t, h);
                                          t = t\<lparr>hal_state := h, rx_slots := slots\<rparr>
                                      in if status \<noteq> HAL_OK then (Some Eth_io_error, t)
                                         else (None, t\<lparr>running := True\<rparr>))))))))"

definition stm32_eth_stop :: "'h eth_hal \<Rightarrow> 'h stm32_ethernet \<Rightarrow> eth_error option \<times> 'h stm32_ethernet" where
  "stm32_eth_stop hal t =
     (if \<not> running t then (None, t)
      else
        (let ((status, c), h) = HAL_ETH_GetMACConfig hal (hal_state t)
         in if status \<noteq> HAL_OK then (Some Eth_io_error, t\<lparr>hal_state := h\<rparr>)
            else
              (let ((status, f), h) = HAL_ETH_GetMACFilterConfig hal h
               in if status \<noteq> HAL_OK then (Some Eth_io_error, t\<lparr>hal_state := h\<rparr>)
                  else
                    (let (status, h) = HAL_ETH_Stop hal h
                     in if status \<noteq> HAL_OK then (Some Eth_io_error, t\<lparr>hal_state := h\<rparr>)
                        else
                          (let (status, h) = HAL_ETH_Init hal h
                           in if status \<noteq> HAL_OK then (Some Eth_io_error, t\<lparr>hal_state := h, running := False\<rparr>)
                              else
                                (let t = t\<lparr>running := False, pending_transmit := None, rx_slots := map clear_slot (rx_slots t)\<rparr>;
                                     (status, h) = HAL_ETH_SetMACConfig hal c h
                                 in if status \<noteq> HAL_OK then (Some Eth_io_error, t\<lparr>hal_state := h\<rparr>)
                                    else
                                      (let (status, h) = HAL_ETH_SetMACFilterConfig hal f h
                                       in if status \<noteq> HAL_OK then (Some Eth_io_error, t\<lparr>hal_state := h\<rparr>)
                                          else (None, t\<lparr>hal_state := h\<rparr>))))))))"

definition matchesConfiguration :: "u16 option \<Rightarrow> nat \<Rightarrow> bool \<Rightarrow> 'h stm32_ethernet \<Rightarrow> bool" where
  "matchesConfiguration type phy promisc t \<longleftrightarrow> rx_type t = type \<and> phy_address t = phy \<and> m_promiscuous t = promisc"

section \<open>Sending\<close>

partial_function (option) wait_owned ::
  "'h eth_hal \<Rightarrow> nat \<Rightarrow> u32 \<Rightarrow> u32 \<Rightarrow> 'h \<Rightarrow> (eth_error option \<times> 'h) option" where
  "wait_owned hal d started_at timeout h =
     (let (own, h) = desc3_own hal d h
      in if \<not> own then Some (None, h)
         else
           (let (fatal, h) = fatal_bus_error hal h
            in if fatal then Some (Some Eth_io_error, h)
               else if timeout = 0 then Some (Some Eth_timed_out, h)
               else
                 (let (now, h) = HAL_GetTick hal h
                  in if now - started_at \<ge> timeout then Some (Some Eth_timed_out, h)
                     else wait_owned hal d started_at timeout h)))"

definition waitForTransmit ::
  "'h eth_hal \<Rightarrow> u32 \<Rightarrow> u32 \<Rightarrow> 'h stm32_ethernet \<Rightarrow> (eth_error option \<times> 'h stm32_ethernet) option" where
  "waitForTransmit hal started_at timeout t =
     (case pending_transmit t of
        None \<Rightarrow> Some (None, t)
      | Some d \<Rightarrow>
          (case wait_owned hal d started_at timeout (hal_state t) of
             None \<Rightarrow> None
           | Some (Some e, h) \<Rightarrow> Some (Some e, t\<lparr>hal_state := h\<rparr>)
           | Some (None, h) \<Rightarrow>
               (let (failed, h) = desc3_error hal d h; h = HAL_ETH_ReleaseTxPacket hal h
                in Some (if failed then Some Eth_io_error else None, t\<lparr>hal_state := h, pending_transmit := None\<rparr>))))"

definition fill_tx_frame :: "'h eth_hal \<Rightarrow> u8 list \<Rightarrow> 'h stm32_ethernet \<Rightarrow> 'h stm32_ethernet" where
  "fill_tx_frame hal frame t =
     t\<lparr>tx_frame := overlay (overlay (tx_frame t) 0 frame) MAC_ADDRESS_SIZE (stm32_getMacAddress hal (hal_state t))\<rparr>"

definition enqueue_frame :: "'h eth_hal \<Rightarrow> nat \<Rightarrow> 'h stm32_ethernet \<Rightarrow> eth_error option \<times> 'h stm32_ethernet" where
  "enqueue_frame hal len t =
     (let descriptor_index = current_descriptor hal (hal_state t);
          (status, h) = HAL_ETH_Transmit_IT hal len (tx_frame t) (hal_state t)
      in if status \<noteq> HAL_OK then (Some Eth_io_error, t\<lparr>hal_state := h\<rparr>)
         else (None, t\<lparr>hal_state := h, pending_transmit := Some descriptor_index\<rparr>))"

definition stm32_transmit :: "'h eth_hal \<Rightarrow> u8 list \<Rightarrow> int \<Rightarrow> 'h stm32_ethernet \<Rightarrow> (eth_error option \<times> 'h stm32_ethernet) option" where
  "stm32_transmit hal frame timeout t =
     (if length frame < ETHERNET_HEADER_SIZE \<or> length frame > MAX_FRAME_SIZE \<or> timeout < 0
      then Some (Some Eth_invalid_argument, t)
      else if \<not> running t then Some (Some Eth_not_connected, t)
      else
        (let (started_at, h) = HAL_GetTick hal (hal_state t); ticks = timeout_milliseconds timeout
         in case waitForTransmit hal started_at ticks (t\<lparr>hal_state := h\<rparr>) of
              None \<Rightarrow> None
            | Some (Some e, t) \<Rightarrow> Some (Some e, t)
            | Some (None, t) \<Rightarrow>
                (case enqueue_frame hal (length frame) (fill_tx_frame hal frame t) of
                   (Some e, t) \<Rightarrow> Some (Some e, t)
                 | (None, t) \<Rightarrow> waitForTransmit hal started_at ticks t)))"

section \<open>Receiving\<close>

text \<open>
  What one packet comes to: discarded, refused, or delivered, the slots released in each case.
  \<open>None\<close> where its links form a cycle, over which the summation would not end.
\<close>

datatype packet_outcome = Discard | Refuse | Deliver "u8 list"

definition packet_bytes :: "nat list \<Rightarrow> rx_slot list \<Rightarrow> u8 list" where
  "packet_bytes is slots = concat (map (\<lambda>i. slot_bytes (slots ! i)) is)"

definition packet_size :: "nat list \<Rightarrow> rx_slot list \<Rightarrow> nat" where
  "packet_size is slots = sum_list (map (\<lambda>i. link_len (slots ! i)) is)"

definition handle_packet :: "u16 option \<Rightarrow> nat \<Rightarrow> u32 \<Rightarrow> nat \<Rightarrow> rx_slot list \<Rightarrow> (packet_outcome \<times> rx_slot list) option" where
  "handle_packet type capacity receive_errors p slots =
     (if receive_errors \<noteq> 0 \<or> type \<noteq> None \<and> frameEtherType (slot_bytes (slots ! p)) \<noteq> type
      then Some (Discard, release_frame (Some p) slots)
      else
        (case chain (Some p) slots of
           None \<Rightarrow> None
         | Some is \<Rightarrow>
             if packet_size is slots > MAX_FRAME_SIZE \<or> capacity < packet_size is slots
             then Some (Refuse, release_frame (Some p) slots)
             else Some (Deliver (packet_bytes is slots), release_frame (Some p) slots)))"

partial_function (option) stm32_receive_loop ::
  "'h eth_hal \<Rightarrow> u16 option \<Rightarrow> nat \<Rightarrow> u32 \<Rightarrow> u32 \<Rightarrow> rx_slot list \<times> 'h \<Rightarrow> ((eth_error + u8 list) \<times> rx_slot list \<times> 'h) option" where
  "stm32_receive_loop hal type capacity started_at timeout s =
     (case HAL_ETH_ReadData hal s of
        ((HAL_OK, Some p), slots, h) \<Rightarrow>
          (let (receive_errors, h) = HAL_ETH_GetRxDataErrorCode hal h
           in case handle_packet type capacity receive_errors p slots of
                None \<Rightarrow> None
              | Some (Deliver data, slots) \<Rightarrow> Some (Inr data, slots, h)
              | Some (Refuse, slots) \<Rightarrow> Some (Inl Eth_no_buffer_space, slots, h)
              | Some (Discard, slots) \<Rightarrow>
                  if timeout = 0 then Some (Inl Eth_timed_out, slots, h)
                  else
                    (let (now, h) = HAL_GetTick hal h
                     in if now - started_at \<ge> timeout then Some (Inl Eth_timed_out, slots, h)
                        else stm32_receive_loop hal type capacity started_at timeout (slots, h)))
      | (_, slots, h) \<Rightarrow>
          if timeout = 0 then Some (Inl Eth_timed_out, slots, h)
          else
            (let (now, h) = HAL_GetTick hal h
             in if now - started_at \<ge> timeout then Some (Inl Eth_timed_out, slots, h)
                else stm32_receive_loop hal type capacity started_at timeout (slots, sleep_tick hal h)))"

definition stm32_receive :: "'h eth_hal \<Rightarrow> nat \<Rightarrow> int \<Rightarrow> 'h stm32_ethernet \<Rightarrow> ((eth_error + u8 list) \<times> 'h stm32_ethernet) option" where
  "stm32_receive hal capacity timeout t =
     (if capacity = 0 \<or> timeout < 0 then Some (Inl Eth_invalid_argument, t)
      else if \<not> running t then Some (Inl Eth_not_connected, t)
      else
        (let (started_at, h) = HAL_GetTick hal (hal_state t)
         in map_option (\<lambda>(r, slots, h). (r, t\<lparr>rx_slots := slots, hal_state := h\<rparr>))
              (stm32_receive_loop hal (rx_type t) capacity started_at (timeout_milliseconds timeout) (rx_slots t, h))))"


section \<open>Receive slots are neither lost nor freed twice\<close>

text \<open>
  What the driver relies on: between calls the HAL knows which slots it has given to the DMA engine
  (\<open>owned\<close>); reading a packet takes the packet's slots out of them, and the other calls leave
  them alone.
\<close>

definition receives_ok :: "'h eth_hal \<Rightarrow> ('h \<Rightarrow> nat set) \<Rightarrow> bool" where
  "receives_ok hal owned \<longleftrightarrow>
     (\<forall>slots h status p slots' h'. in_use slots = owned h \<longrightarrow> HAL_ETH_ReadData hal (slots, h) = ((status, p), slots', h') \<longrightarrow>
        (if status = HAL_OK \<and> p \<noteq> None
         then \<exists>is. chain p slots' = Some is \<and> distinct is \<and> set is \<inter> owned h' = {} \<and> in_use slots' = owned h' \<union> set is
         else in_use slots' = owned h')) \<and>
     (\<forall>h. owned (snd (HAL_ETH_GetRxDataErrorCode hal h)) = owned h) \<and>
     (\<forall>h. owned (snd (HAL_GetTick hal h)) = owned h) \<and>
     (\<forall>h. owned (sleep_tick hal h) = owned h)"

lemma handle_packet_releases:
  "handle_packet type capacity e p slots = Some (outcome, slots') \<Longrightarrow> slots' = release_frame (Some p) slots"
  by (auto simp: handle_packet_def split: if_splits option.splits)

lemma length_packet_bytes: "length (packet_bytes is slots) \<le> packet_size is slots"
  by (induction "is") (simp_all add: packet_bytes_def packet_size_def slot_bytes_def)

lemma handle_packet_delivers:
  assumes "handle_packet type capacity e p slots = Some (Deliver data, slots')"
  shows "e = 0 \<and> (\<forall>t. type = Some t \<longrightarrow> frameEtherType (slot_bytes (slots ! p)) = Some t) \<and> length data \<le> capacity \<and>
    length data \<le> 1522 \<and> (\<exists>is. chain (Some p) slots = Some is \<and> data = packet_bytes is slots)"
  using assms length_packet_bytes [of _ slots]
  by (auto simp: handle_packet_def frame_constants not_less split: if_splits option.splits intro: order_trans)

text \<open>What holds when the call returns.\<close>

definition accounted :: "('h \<Rightarrow> nat set) \<Rightarrow> nat \<Rightarrow> (eth_error + u8 list) \<times> rx_slot list \<times> 'h \<Rightarrow> bool" where
  "accounted owned capacity y \<longleftrightarrow>
     (case y of (r, slots, h) \<Rightarrow>
        in_use slots = owned h \<and> (\<forall>data. r = Inr data \<longrightarrow> length data \<le> capacity \<and> length data \<le> 1522))"

lemma stm32_receive_loop_accounted:
  fixes hal :: "'h eth_hal"
  assumes major: "stm32_receive_loop hal type capacity started_at timeout s = Some y"
    and ok: "receives_ok hal owned" and start: "in_use (fst s) = owned (snd s)"
  shows "accounted owned capacity y"
proof -
  define P where "P = (\<lambda>(hal :: 'h eth_hal) (type :: u16 option) capacity (started_at :: u32) (timeout :: u32) s y.
    receives_ok hal owned \<longrightarrow> in_use (fst s) = owned (snd s) \<longrightarrow> accounted owned capacity y)"
  have "P hal type capacity started_at timeout s y"
  proof (rule stm32_receive_loop.raw_induct [where P = P, OF _ major])
    fix rec and hal :: "'h eth_hal" and type capacity started_at timeout s y
    assume IH: "\<And>hal type capacity started_at timeout s y.
        rec hal type capacity started_at timeout s = Some y \<Longrightarrow> P hal type capacity started_at timeout s y"
      and step: "(case HAL_ETH_ReadData hal s of
        ((HAL_OK, Some p), slots, h) \<Rightarrow>
          (let (receive_errors, h) = HAL_ETH_GetRxDataErrorCode hal h
           in case handle_packet type capacity receive_errors p slots of
                None \<Rightarrow> None
              | Some (Deliver data, slots) \<Rightarrow> Some (Inr data, slots, h)
              | Some (Refuse, slots) \<Rightarrow> Some (Inl Eth_no_buffer_space, slots, h)
              | Some (Discard, slots) \<Rightarrow>
                  if timeout = 0 then Some (Inl Eth_timed_out, slots, h)
                  else
                    (let (now, h) = HAL_GetTick hal h
                     in if now - started_at \<ge> timeout then Some (Inl Eth_timed_out, slots, h)
                        else rec hal type capacity started_at timeout (slots, h)))
      | (_, slots, h) \<Rightarrow>
          if timeout = 0 then Some (Inl Eth_timed_out, slots, h)
          else
            (let (now, h) = HAL_GetTick hal h
             in if now - started_at \<ge> timeout then Some (Inl Eth_timed_out, slots, h)
                else rec hal type capacity started_at timeout (slots, sleep_tick hal h))) = Some y"
    obtain slots h where s: "s = (slots, h)" by fastforce
    obtain status p slots1 h1 where read: "HAL_ETH_ReadData hal (slots, h) = ((status, p), slots1, h1)" by (metis prod.exhaust)
    show "P hal type capacity started_at timeout s y"
      unfolding P_def
    proof (intro impI)
      assume ok: "receives_ok hal owned" and "in_use (fst s) = owned (snd s)"
      then have here: "in_use slots = owned h" using s by simp
      have outcome: "if status = HAL_OK \<and> p \<noteq> None
          then \<exists>is. chain p slots1 = Some is \<and> distinct is \<and> set is \<inter> owned h1 = {} \<and> in_use slots1 = owned h1 \<union> set is
          else in_use slots1 = owned h1"
        using ok here read unfolding receives_ok_def by blast
      have keep: "owned (snd (HAL_ETH_GetRxDataErrorCode hal z)) = owned z" "owned (snd (HAL_GetTick hal z)) = owned z"
        "owned (sleep_tick hal z) = owned z" for z
        using ok by (simp_all add: receives_ok_def)
      obtain now h2 where tick: "HAL_GetTick hal h1 = (now, h2)" by fastforce
      have o2: "owned h2 = owned h1" using keep(2) [of h1] tick by simp
      show "accounted owned capacity y"
      proof (cases "status = HAL_OK \<and> p \<noteq> None")
        case False
        then have "in_use slots1 = owned h1" using outcome by simp
        moreover have "y = (Inl Eth_timed_out, slots1, h1) \<or> y = (Inl Eth_timed_out, slots1, h2) \<or>
            rec hal type capacity started_at timeout (slots1, sleep_tick hal h2) = Some y"
          using step s read tick False by (cases status; cases p) (auto split: if_splits)
        ultimately show ?thesis
          using IH [of hal type capacity started_at timeout "(slots1, sleep_tick hal h2)" y] ok o2 keep
          by (auto simp: accounted_def P_def)
      next
        case True
        then obtain i where p: "status = HAL_OK" "p = Some i" by auto
        obtain "is" where chain: "chain p slots1 = Some is" "distinct is" "set is \<inter> owned h1 = {}" "in_use slots1 = owned h1 \<union> set is"
          using outcome True by auto
        have free: "in_use (release_frame p slots1) = owned h1" using release_chain [OF chain(1,2)] chain(3,4) by auto
        obtain e h3 where err: "HAL_ETH_GetRxDataErrorCode hal h1 = (e, h3)" by fastforce
        have o3: "owned h3 = owned h1" using keep(1) [of h1] err by simp
        obtain later h4 where tick4: "HAL_GetTick hal h3 = (later, h4)" by fastforce
        have o4: "owned h4 = owned h1" using keep(2) [of h3] tick4 o3 by simp
        obtain outcome slots2 where handled: "handle_packet type capacity e i slots1 = Some (outcome, slots2)"
          using step s read p err by (cases "handle_packet type capacity e i slots1") auto
        have slots2: "in_use slots2 = owned h1" using handle_packet_releases [OF handled] free p by simp
        show ?thesis
        proof (cases outcome)
          case (Deliver data)
          then have "y = (Inr data, slots2, h3)" using step s read p err handled by simp
          then show ?thesis using handle_packet_delivers [OF handled [unfolded Deliver]] slots2 o3 by (simp add: accounted_def)
        next
          case Refuse
          then have "y = (Inl Eth_no_buffer_space, slots2, h3)" using step s read p err handled by simp
          then show ?thesis using slots2 o3 by (simp add: accounted_def)
        next
          case Discard
          then have "y = (Inl Eth_timed_out, slots2, h3) \<or> y = (Inl Eth_timed_out, slots2, h4) \<or>
              rec hal type capacity started_at timeout (slots2, h4) = Some y"
            using step s read p err handled tick4 by (auto split: if_splits)
          then show ?thesis
            using IH [of hal type capacity started_at timeout "(slots2, h4)" y] ok slots2 o3 o4
            by (auto simp: accounted_def P_def)
        qed
      qed
    qed
  qed
  then show ?thesis using ok start by (simp add: P_def)
qed

section \<open>The transmit buffer is not overwritten while the DMA engine reads it\<close>

definition transmits_ok :: "'h eth_hal \<Rightarrow> ('h \<Rightarrow> bool) \<Rightarrow> bool" where
  "transmits_ok hal reading \<longleftrightarrow>
     (\<forall>d h h'. desc3_own hal d h = (False, h') \<longrightarrow> \<not> reading h') \<and>
     (\<forall>d h. \<not> reading h \<longrightarrow> \<not> reading (snd (desc3_error hal d h))) \<and>
     (\<forall>h. \<not> reading h \<longrightarrow> \<not> reading (HAL_ETH_ReleaseTxPacket hal h)) \<and>
     (\<forall>h. \<not> reading h \<longrightarrow> \<not> reading (snd (HAL_GetTick hal h))) \<and>
     (\<forall>n f h h' status. \<not> reading h \<longrightarrow> HAL_ETH_Transmit_IT hal n f h = (status, h') \<longrightarrow> status \<noteq> HAL_OK \<longrightarrow> \<not> reading h')"

definition transmit_inv :: "('h \<Rightarrow> bool) \<Rightarrow> 'h stm32_ethernet \<Rightarrow> bool" where
  "transmit_inv reading t \<longleftrightarrow> (pending_transmit t = None \<longrightarrow> \<not> reading (hal_state t))"

lemma wait_owned_idle:
  fixes hal :: "'h eth_hal"
  assumes major: "wait_owned hal d started_at timeout h = Some (None, h')" and ok: "transmits_ok hal reading"
  shows "\<not> reading h'"
proof -
  define P where "P = (\<lambda>(hal :: 'h eth_hal) (d :: nat) (started_at :: u32) (timeout :: u32) (h :: 'h) (y :: eth_error option \<times> 'h).
    transmits_ok hal reading \<longrightarrow> fst y = None \<longrightarrow> \<not> reading (snd y))"
  have "P hal d started_at timeout h (None, h')"
  proof (rule wait_owned.raw_induct [where P = P, OF _ major])
    fix rec and hal :: "'h eth_hal" and d started_at timeout h y
    assume IH: "\<And>hal d started_at timeout h y. rec hal d started_at timeout h = Some y \<Longrightarrow> P hal d started_at timeout h y"
      and step: "(let (own, h) = desc3_own hal d h
        in if \<not> own then Some (None, h)
           else
             (let (fatal, h) = fatal_bus_error hal h
              in if fatal then Some (Some Eth_io_error, h)
                 else if timeout = 0 then Some (Some Eth_timed_out, h)
                 else
                   (let (now, h) = HAL_GetTick hal h
                    in if now - started_at \<ge> timeout then Some (Some Eth_timed_out, h)
                       else rec hal d started_at timeout h))) = Some y"
    obtain own h1 where own: "desc3_own hal d h = (own, h1)" by fastforce
    obtain fatal h2 where fatal: "fatal_bus_error hal h1 = (fatal, h2)" by fastforce
    obtain now h3 where now: "HAL_GetTick hal h2 = (now, h3)" by fastforce
    show "P hal d started_at timeout h y"
      using step own fatal now IH [of hal d started_at timeout h3 y]
      by (auto simp: P_def transmits_ok_def split: if_splits)
  qed
  then show ?thesis using ok by (simp add: P_def)
qed

lemma waitForTransmit_idle:
  assumes "waitForTransmit hal started_at timeout t = Some (r, t')" "transmits_ok hal reading" "transmit_inv reading t"
  shows "transmit_inv reading t' \<and> tx_frame t' = tx_frame t \<and> (r = None \<longrightarrow> pending_transmit t' = None)"
proof (cases "pending_transmit t")
  case None
  then show ?thesis using assms by (auto simp: waitForTransmit_def)
next
  case (Some d)
  obtain e h where w: "wait_owned hal d started_at timeout (hal_state t) = Some (e, h)"
    using assms(1) Some by (cases "wait_owned hal d started_at timeout (hal_state t)") (auto simp: waitForTransmit_def)
  show ?thesis
  proof (cases e)
    case None
    then have "\<not> reading h" by (intro wait_owned_idle [OF w [unfolded None] assms(2)])
    then have "\<not> reading (HAL_ETH_ReleaseTxPacket hal (snd (desc3_error hal d h)))" using assms(2) by (simp add: transmits_ok_def)
    then show ?thesis using assms(1) w None Some
      by (auto simp: waitForTransmit_def transmit_inv_def Let_def split: prod.splits)
  next
    case (Some x)
    then show ?thesis using assms(1) w \<open>pending_transmit t = Some d\<close> by (auto simp: waitForTransmit_def transmit_inv_def)
  qed
qed

lemma stm32_transmit_safe:
  assumes "stm32_transmit hal frame timeout t = Some (r, t')" "transmits_ok hal reading" "transmit_inv reading t"
  shows "transmit_inv reading t' \<and>
    (tx_frame t' \<noteq> tx_frame t \<longrightarrow>
       (\<exists>u. \<not> reading (hal_state u) \<and> tx_frame u = tx_frame t \<and> tx_frame t' = tx_frame (fill_tx_frame hal frame u)))"
proof (cases "length frame < ETHERNET_HEADER_SIZE \<or> length frame > MAX_FRAME_SIZE \<or> timeout < 0 \<or> \<not> running t")
  case True
  then have "t' = t" using assms(1) by (auto simp: stm32_transmit_def split: if_splits)
  then show ?thesis using assms(3) by simp
next
  case False
  obtain started h where tick: "HAL_GetTick hal (hal_state t) = (started, h)" by fastforce
  let ?t = "t\<lparr>hal_state := h\<rparr>" and ?ticks = "timeout_milliseconds timeout"
  have "\<not> reading (hal_state t) \<longrightarrow> \<not> reading h" using assms(2) tick unfolding transmits_ok_def by (metis snd_conv)
  then have inv: "transmit_inv reading ?t" using assms(3) by (simp add: transmit_inv_def)
  have body: "(case waitForTransmit hal started ?ticks ?t of
              None \<Rightarrow> None
            | Some (Some e, t) \<Rightarrow> Some (Some e, t)
            | Some (None, t) \<Rightarrow>
                (case enqueue_frame hal (length frame) (fill_tx_frame hal frame t) of
                   (Some e, t) \<Rightarrow> Some (Some e, t)
                 | (None, t) \<Rightarrow> waitForTransmit hal started ?ticks t)) = Some (r, t')"
    using assms(1) False tick by (simp add: stm32_transmit_def Let_def)
  then obtain e u where w: "waitForTransmit hal started ?ticks ?t = Some (e, u)"
    by (cases "waitForTransmit hal started ?ticks ?t") auto
  note first = waitForTransmit_idle [OF w assms(2) inv]
  show ?thesis
  proof (cases e)
    case (Some x)
    then show ?thesis using body w first by simp
  next
    case None
    then have idle: "pending_transmit u = None" "\<not> reading (hal_state u)" using first by (auto simp: transmit_inv_def)
    obtain q v where q: "enqueue_frame hal (length frame) (fill_tx_frame hal frame u) = (q, v)" by fastforce
    obtain status h' where send: "HAL_ETH_Transmit_IT hal (length frame) (tx_frame (fill_tx_frame hal frame u)) (hal_state u) = (status, h')"
      by fastforce
    have same: "hal_state (fill_tx_frame hal frame u) = hal_state u" "pending_transmit (fill_tx_frame hal frame u) = None"
      using idle by (simp_all add: fill_tx_frame_def)
    have "\<not> reading h'" if "status \<noteq> HAL_OK" using that assms(2) idle send unfolding transmits_ok_def by blast
    then have v: "transmit_inv reading v" "tx_frame v = tx_frame (fill_tx_frame hal frame u)"
      using q send same by (auto simp: enqueue_frame_def transmit_inv_def Let_def split: if_splits)
    have "transmit_inv reading t' \<and> tx_frame t' = tx_frame v"
    proof (cases q)
      case (Some x)
      then show ?thesis using body w None q v by simp
    next
      case None
      then have "waitForTransmit hal started ?ticks v = Some (r, t')" using body w \<open>e = None\<close> q by simp
      then show ?thesis using waitForTransmit_idle assms(2) v(1) by blast
    qed
    then show ?thesis using idle first v by auto
  qed
qed

end
