(* ===== verification/Hal_Console.thy ===== *)
theory Hal_Console
  imports Nucleo_Prelude
begin

text \<open>
  The serial console of the STM32 target (\<^verbatim>\<open>platform/hal/stm32/hal.cpp\<close>): the ring buffer between
  the receive interrupt and the reading thread, its semaphore, and the line endings. An interface
  states what a bounded queue promises; the ring buffer is shown to meet it, and what is read is
  derived from the interface alone.
\<close>

section \<open>Bounded queues\<close>

text \<open>A queue with a capacity: a push is dropped when the queue is full, a pop takes the oldest byte.\<close>

locale bounded_queue =
  fixes push :: "'b \<Rightarrow> 'q \<Rightarrow> 'q" and pop :: "'q \<Rightarrow> 'b option \<times> 'q" and contents :: "'q \<Rightarrow> 'b list"
    and capacity :: nat and valid :: "'q \<Rightarrow> bool"
  assumes push_valid: "valid q \<Longrightarrow> valid (push b q)"
    and push_contents: "valid q \<Longrightarrow> contents (push b q) = (if length (contents q) < capacity then contents q @ [b] else contents q)"
    and pop_valid: "valid q \<Longrightarrow> valid (snd (pop q))"
    and pop_contents: "valid q \<Longrightarrow> contents q = (case fst (pop q) of None \<Rightarrow> [] | Some b \<Rightarrow> b # contents (snd (pop q)))"
    and pop_None: "valid q \<Longrightarrow> fst (pop q) = None \<Longrightarrow> snd (pop q) = q"

context bounded_queue begin

fun push_all :: "'b list \<Rightarrow> 'q \<Rightarrow> 'q" where
  "push_all [] q = q"
| "push_all (b # bs) q = push_all bs (push b q)"

lemma push_all_valid: "valid q \<Longrightarrow> valid (push_all bs q)"
  by (induction bs arbitrary: q) (simp_all add: push_valid)

text \<open>Of a burst exactly the bytes that fit are kept, in order.\<close>

lemma push_all_contents:
  "valid q \<Longrightarrow> length (contents q) \<le> capacity \<Longrightarrow>
   contents (push_all bs q) = contents q @ take (capacity - length (contents q)) bs"
proof (induction bs arbitrary: q)
  case (Cons b bs)
  show ?case
  proof (cases "length (contents q) < capacity")
    case True
    then have "contents (push b q) = contents q @ [b]" using Cons.prems by (simp add: push_contents)
    then have "contents (push_all bs (push b q)) = contents q @ [b] @ take (capacity - Suc (length (contents q))) bs"
      using Cons.IH [OF push_valid [OF Cons.prems(1)]] True by simp
    moreover have "capacity - length (contents q) = Suc (capacity - Suc (length (contents q)))" using True by simp
    ultimately show ?thesis by simp
  next
    case False
    then have "contents (push b q) = contents q" using Cons.prems by (simp add: push_contents)
    then show ?thesis using Cons.IH [OF push_valid [OF Cons.prems(1)]] False Cons.prems(2) by simp
  qed
qed simp

lemma pop_empty: "valid q \<Longrightarrow> fst (pop q) = None \<longleftrightarrow> contents q = []"
  using pop_contents by (auto split: option.splits)

end

section \<open>The ring buffer\<close>

definition CONSOLE_INPUT_BUFFER_SIZE :: nat where "CONSOLE_INPUT_BUFFER_SIZE = 256"

record ring =
  console_input_buffer :: "u8 list"
  console_input_read :: nat
  console_input_write :: nat

definition empty_ring :: ring where
  "empty_ring = \<lparr>console_input_buffer = replicate CONSOLE_INPUT_BUFFER_SIZE 0, console_input_read = 0, console_input_write = 0\<rparr>"

definition advance :: "nat \<Rightarrow> nat" where
  "advance i = (i + 1) AND (CONSOLE_INPUT_BUFFER_SIZE - 1)"

definition pop_console_character :: "ring \<Rightarrow> u8 option \<times> ring" where
  "pop_console_character c =
     (let read = console_input_read c
      in if read = console_input_write c then (None, c)
         else (Some (console_input_buffer c ! read), c\<lparr>console_input_read := advance read\<rparr>))"

definition push_console_character :: "u8 \<Rightarrow> ring \<Rightarrow> ring" where
  "push_console_character character c =
     (let write = console_input_write c; following = advance write
      in if following \<noteq> console_input_read c
         then c\<lparr>console_input_buffer := (console_input_buffer c)[write := character], console_input_write := following\<rparr>
         else c)"

lemma advance_mod: "advance i = (i + 1) mod 256"
proof -
  have "(255 :: nat) = mask 8" by (simp add: mask_eq_exp_minus_1)
  then have "(i + 1) AND 255 = take_bit 8 (i + 1)" by (simp only: take_bit_eq_mask)
  then show ?thesis by (simp add: advance_def CONSOLE_INPUT_BUFFER_SIZE_def take_bit_eq_mod)
qed

text \<open>The number of bytes held, and their positions from the oldest.\<close>

definition held :: "ring \<Rightarrow> nat" where
  "held c = (console_input_write c + 256 - console_input_read c) mod 256"

definition ring_contents :: "ring \<Rightarrow> u8 list" where
  "ring_contents c = map (\<lambda>k. console_input_buffer c ! ((console_input_read c + k) mod 256)) [0..<held c]"

definition ring_ok :: "ring \<Rightarrow> bool" where
  "ring_ok c \<longleftrightarrow> length (console_input_buffer c) = 256 \<and> console_input_read c < 256 \<and> console_input_write c < 256"

lemma held_cases:
  assumes "ring_ok c"
  shows "held c = (if console_input_read c \<le> console_input_write c then console_input_write c - console_input_read c
     else console_input_write c + 256 - console_input_read c)"
  using assms by (auto simp: held_def ring_ok_def mod_if)

lemma held_bound: "held c \<le> 255"
  by (simp add: held_def less_Suc_eq_le [symmetric])

lemma write_position: "ring_ok c \<Longrightarrow> (console_input_read c + held c) mod 256 = console_input_write c"
  by (auto simp: held_cases ring_ok_def mod_if)

lemma full_iff: "ring_ok c \<Longrightarrow> advance (console_input_write c) = console_input_read c \<longleftrightarrow> held c = 255"
  by (auto simp: held_cases advance_mod ring_ok_def mod_if)

lemma held_push:
  assumes "ring_ok c" "advance (console_input_write c) \<noteq> console_input_read c"
  shows "held (push_console_character b c) = Suc (held c)"
proof -
  have "ring_ok (push_console_character b c)"
    using assms by (simp add: push_console_character_def Let_def ring_ok_def advance_mod)
  then show ?thesis using assms
    by (auto simp: held_cases push_console_character_def Let_def advance_mod ring_ok_def mod_if)
qed

lemma ring_positions_distinct:
  assumes "r < 256" "k < h" "h \<le> 255"
  shows "(r + k) mod 256 \<noteq> (r + h) mod (256 :: nat)"
  using assms by (auto simp: mod_if)

interpretation console_queue: bounded_queue push_console_character pop_console_character ring_contents 255 ring_ok
proof
  fix q b
  assume ok: "ring_ok q"
  show "ring_ok (push_console_character b q)"
    using ok by (simp add: push_console_character_def Let_def ring_ok_def advance_mod)
  show "ring_ok (snd (pop_console_character q))"
    using ok by (simp add: pop_console_character_def Let_def ring_ok_def advance_mod)
  show "fst (pop_console_character q) = None \<Longrightarrow> snd (pop_console_character q) = q"
    by (simp add: pop_console_character_def Let_def split: if_splits)
  show "ring_contents (push_console_character b q) =
      (if length (ring_contents q) < 255 then ring_contents q @ [b] else ring_contents q)"
  proof (cases "advance (console_input_write q) = console_input_read q")
    case True
    then have "held q = 255" using full_iff [OF ok] by simp
    then show ?thesis using True by (simp add: push_console_character_def Let_def ring_contents_def)
  next
    case False
    let ?c = "push_console_character b q"
    have room: "held q < 255" using False full_iff [OF ok] held_bound [of q] by linarith
    have fields: "console_input_read ?c = console_input_read q"
      "console_input_buffer ?c = (console_input_buffer q)[(console_input_read q + held q) mod 256 := b]"
      using False by (simp_all add: push_console_character_def Let_def write_position [OF ok])
    have len: "length (console_input_buffer q) = 256" "console_input_read q < 256" using ok by (simp_all add: ring_ok_def)
    have old: "console_input_buffer ?c ! ((console_input_read ?c + k) mod 256) = console_input_buffer q ! ((console_input_read q + k) mod 256)"
      if "k < held q" for k
      using ring_positions_distinct [OF len(2) that] room by (simp add: fields)
    have new: "console_input_buffer ?c ! ((console_input_read ?c + held q) mod 256) = b" by (simp add: fields len)
    have "ring_contents ?c = map (\<lambda>k. console_input_buffer ?c ! ((console_input_read ?c + k) mod 256)) [0..<held q] @ [b]"
      by (simp add: ring_contents_def held_push [OF ok False] new)
    also have "map (\<lambda>k. console_input_buffer ?c ! ((console_input_read ?c + k) mod 256)) [0..<held q] = ring_contents q"
      unfolding ring_contents_def by (rule map_cong) (simp_all add: old)
    finally show ?thesis using room by (simp add: ring_contents_def)
  qed
  show "ring_contents q = (case fst (pop_console_character q) of None \<Rightarrow> []
      | Some b \<Rightarrow> b # ring_contents (snd (pop_console_character q)))"
  proof (cases "console_input_read q = console_input_write q")
    case True
    then show ?thesis by (simp add: pop_console_character_def Let_def ring_contents_def held_def)
  next
    case False
    let ?c = "snd (pop_console_character q)"
    have c: "?c = q\<lparr>console_input_read := advance (console_input_read q)\<rparr>"
      using False by (simp add: pop_console_character_def Let_def)
    have h: "held q = Suc (held ?c)"
      using ok False unfolding c by (auto simp: held_def advance_mod ring_ok_def mod_if)
    have shift: "((console_input_read q + 1) mod 256 + k) mod 256 = (console_input_read q + Suc k) mod 256" for k
      by (simp add: mod_add_left_eq)
    have "ring_contents q = console_input_buffer q ! (console_input_read q mod 256) # map (\<lambda>k. console_input_buffer q ! ((console_input_read q + Suc k) mod 256)) [0..<held ?c]"
      unfolding ring_contents_def h by (simp add: upt_conv_Cons map_Suc_upt [symmetric] del: upt_Suc)
    also have "map (\<lambda>k. console_input_buffer q ! ((console_input_read q + Suc k) mod 256)) [0..<held ?c] = ring_contents ?c"
      using shift by (simp add: ring_contents_def c advance_mod)
    finally show ?thesis using False ok by (simp add: pop_console_character_def Let_def ring_ok_def)
  qed
qed


section \<open>The interrupt and the reading thread\<close>

record console =
  console_input :: ring
  console_input_available :: nat

text \<open>The handler: it drains the receiver, then puts the semaphore up to its ceiling of one.\<close>

fun receive_bytes :: "u8 list \<Rightarrow> bool \<Rightarrow> ring \<Rightarrow> bool \<times> ring" where
  "receive_bytes [] notify_reader c = (notify_reader, c)"
| "receive_bytes (character # rest) notify_reader c = receive_bytes rest True (push_console_character character c)"

definition ceiling_put :: "nat \<Rightarrow> nat \<Rightarrow> nat" where
  "ceiling_put limit n = (if n \<ge> limit then n else n + 1)"

definition USART3_IRQHandler :: "u8 list \<Rightarrow> bool \<Rightarrow> console \<Rightarrow> console" where
  "USART3_IRQHandler characters idle c =
     (let (notify_reader, ring) = receive_bytes characters False (console_input c);
          notify_reader = (notify_reader \<or> idle)
      in c\<lparr>console_input := ring,
           console_input_available := (if notify_reader then ceiling_put 1 (console_input_available c) else console_input_available c)\<rparr>)"

text \<open>The thread in \<open>receive_console_character\<close>: about to pop, waiting for the semaphore, or with a byte.\<close>

datatype reader = Popping | Sleeping | Holding u8

text \<open>The state also records the bytes the ring has accepted and those the thread has returned.\<close>

inductive console_step :: "console \<times> reader \<times> u8 list \<times> u8 list \<Rightarrow> console \<times> reader \<times> u8 list \<times> u8 list \<Rightarrow> bool" where
  interrupt: "c' = USART3_IRQHandler characters idle c \<Longrightarrow>
    accepted' = accepted @ take (255 - length (ring_contents (console_input c))) characters \<Longrightarrow>
    console_step (c, r, accepted, returned) (c', r, accepted', returned)"
| pop: "pop_console_character (console_input c) = (Some b, ring) \<Longrightarrow>
    console_step (c, Popping, accepted, returned) (c\<lparr>console_input := ring\<rparr>, Holding b, accepted, returned)"
| empty: "pop_console_character (console_input c) = (None, ring) \<Longrightarrow>
    console_step (c, Popping, accepted, returned) (c\<lparr>console_input := ring\<rparr>, Sleeping, accepted, returned)"
| wake: "console_input_available c > 0 \<Longrightarrow>
    console_step (c, Sleeping, accepted, returned)
      (c\<lparr>console_input_available := console_input_available c - 1\<rparr>, Popping, accepted, returned)"
| return: "console_step (c, Holding b, accepted, returned) (c, Popping, accepted, returned @ [b])"

abbreviation "console_steps \<equiv> console_step\<^sup>*\<^sup>*"

definition initial_console :: "console \<times> reader \<times> u8 list \<times> u8 list" where
  "initial_console = (\<lparr>console_input = empty_ring, console_input_available = 0\<rparr>, Popping, [], [])"

definition in_hand :: "reader \<Rightarrow> u8 list" where
  "in_hand r = (case r of Holding b \<Rightarrow> [b] | _ \<Rightarrow> [])"

text \<open>Nothing accepted is lost or reordered, and the thread never sleeps beside a byte unnoticed.\<close>

fun console_inv :: "console \<times> reader \<times> u8 list \<times> u8 list \<Rightarrow> bool" where
  "console_inv (c, r, accepted, returned) \<longleftrightarrow>
     ring_ok (console_input c) \<and> accepted = returned @ in_hand r @ ring_contents (console_input c) \<and>
     (r = Sleeping \<and> ring_contents (console_input c) \<noteq> [] \<longrightarrow> console_input_available c > 0)"

lemma receive_bytes_eq: "receive_bytes characters n c = (n \<or> characters \<noteq> [], console_queue.push_all characters c)"
  by (induction characters arbitrary: n c) auto

lemma ring_contents_length: "length (ring_contents c) \<le> 255"
  using held_bound [of c] by (simp add: ring_contents_def)

lemma interrupt_effect:
  assumes "ring_ok (console_input c)"
  shows "ring_ok (console_input (USART3_IRQHandler characters idle c))"
    and "ring_contents (console_input (USART3_IRQHandler characters idle c)) =
      ring_contents (console_input c) @ take (255 - length (ring_contents (console_input c))) characters"
    and "characters \<noteq> [] \<or> idle \<Longrightarrow> console_input_available (USART3_IRQHandler characters idle c) > 0"
    and "console_input_available c \<le> console_input_available (USART3_IRQHandler characters idle c)"
  using assms
  by (simp_all add: USART3_IRQHandler_def receive_bytes_eq Let_def console_queue.push_all_valid
      console_queue.push_all_contents ring_contents_length ceiling_put_def)

lemma console_step_inv:
  assumes "console_step s s'" "console_inv s"
  shows "console_inv s'"
  using assms
proof (induction rule: console_step.induct)
  case (interrupt c' characters idle c accepted' accepted r returned)
  then have ok: "ring_ok (console_input c)" by simp
  note effect = interrupt_effect [OF ok, of characters idle]
  have "console_input_available c' > 0" if "r = Sleeping" "ring_contents (console_input c') \<noteq> []"
  proof (cases "characters = []")
    case True
    then have "console_input_available c > 0" using interrupt that effect(2) by simp
    then show ?thesis using effect(4) interrupt.hyps(1) by simp
  next
    case False
    then show ?thesis using effect(3) interrupt.hyps(1) by simp
  qed
  then show ?case using interrupt effect(1,2) by simp
next
  case (pop c b ring accepted returned)
  then have "ring_ok (console_input c)" by simp
  then show ?case using pop console_queue.pop_valid [of "console_input c"] console_queue.pop_contents [of "console_input c"]
    by (simp add: in_hand_def)
next
  case (empty c ring accepted returned)
  then have "ring_ok (console_input c)" by simp
  then show ?case using empty console_queue.pop_None [of "console_input c"] console_queue.pop_contents [of "console_input c"]
    by (simp add: in_hand_def)
next
  case (wake c accepted returned)
  then show ?case by (simp add: in_hand_def)
next
  case (return c b accepted returned)
  then show ?case by (simp add: in_hand_def)
qed

lemma console_steps_inv: "console_steps s s' \<Longrightarrow> console_inv s \<Longrightarrow> console_inv s'"
  by (induction rule: rtranclp_induct) (auto intro: console_step_inv simp del: console_inv.simps)

lemma initial_console_inv: "console_inv initial_console"
  by (simp add: initial_console_def in_hand_def empty_ring_def ring_ok_def ring_contents_def held_def CONSOLE_INPUT_BUFFER_SIZE_def)

text \<open>A thread that sleeps while a byte is in the ring can be woken, and it then returns that byte.\<close>

lemma sleeping_reader_proceeds:
  assumes "console_inv (c, Sleeping, accepted, returned)" "ring_contents (console_input c) = b # bs"
  shows "\<exists>c'. console_steps (c, Sleeping, accepted, returned) (c', Popping, accepted, returned @ [b]) \<and>
    ring_contents (console_input c') = bs"
proof -
  have ok: "ring_ok (console_input c)" and up: "console_input_available c > 0" using assms by simp_all
  let ?c = "c\<lparr>console_input_available := console_input_available c - 1\<rparr>"
  obtain ring where p: "pop_console_character (console_input c) = (Some b, ring)" "ring_contents ring = bs"
    using console_queue.pop_contents [OF ok] assms(2)
    by (cases "pop_console_character (console_input c)") (auto split: option.splits)
  have "console_step (c, Sleeping, accepted, returned) (?c, Popping, accepted, returned)" using up by (rule console_step.wake)
  moreover have "console_step (?c, Popping, accepted, returned) (?c\<lparr>console_input := ring\<rparr>, Holding b, accepted, returned)"
    using p by (intro console_step.pop) simp
  moreover have "console_step (?c\<lparr>console_input := ring\<rparr>, Holding b, accepted, returned)
      (?c\<lparr>console_input := ring\<rparr>, Popping, accepted, returned @ [b])"
    by (rule console_step.return)
  ultimately have "console_steps (c, Sleeping, accepted, returned) (?c\<lparr>console_input := ring\<rparr>, Popping, accepted, returned @ [b])"
    by (meson rtranclp.rtrancl_into_rtrancl r_into_rtranclp)
  then show ?thesis using p(2) by auto
qed

section \<open>Line endings\<close>

text \<open>
  \<open>read_console_character\<close> on the bytes still to come: the character it returns, the flag, and the
  bytes left; \<open>None\<close> where it waits for more.
\<close>

fun read_console_character :: "bool \<Rightarrow> u8 list \<Rightarrow> (u8 \<times> bool \<times> u8 list) option" where
  "read_console_character discard_line_feed [] = None"
| "read_console_character discard_line_feed (character # rest) =
     (if discard_line_feed \<and> character = 10 then read_console_character False rest
      else if character = 13 then Some (10, True, rest)
      else Some (character, False, rest))"

lemma read_console_character_shorter: "read_console_character d bs = Some (b, d', rest) \<Longrightarrow> length rest < length bs"
  by (induction d bs rule: read_console_character.induct) (auto split: if_splits)

function read_all :: "bool \<Rightarrow> u8 list \<Rightarrow> u8 list" where
  "read_all d bs = (case read_console_character d bs of None \<Rightarrow> [] | Some (b, d', rest) \<Rightarrow> b # read_all d' rest)"
  by pat_completeness auto
termination
  by (relation "measure (\<lambda>(d, bs). length bs)") (auto dest: read_console_character_shorter)

declare read_all.simps [simp del]

text \<open>Every line ending, whether CR, LF or CR LF, is delivered as one LF.\<close>

fun without_lf_after_cr :: "u8 list \<Rightarrow> u8 list" where
  "without_lf_after_cr (a # b # bs) = (if a = 13 \<and> b = 10 then 13 # without_lf_after_cr bs else a # without_lf_after_cr (b # bs))"
| "without_lf_after_cr bs = bs"

definition cr_to_lf :: "u8 \<Rightarrow> u8" where
  "cr_to_lf b = (if b = 13 then 10 else b)"

lemma read_all_Nil [simp]: "read_all d [] = []"
  by (simp add: read_all.simps)

lemma read_all_Cons:
  "read_all d (b # bs) = (if d \<and> b = 10 then read_all False bs else cr_to_lf b # read_all (b = 13) bs)"
  by (subst read_all.simps) (auto simp: cr_to_lf_def read_all.simps [of False bs])

lemma read_all_lines: "read_all False bs = map cr_to_lf (without_lf_after_cr bs)"
proof (induction bs rule: without_lf_after_cr.induct)
  case (1 a b bs)
  show ?case
  proof (cases "a = 13 \<and> b = 10")
    case True
    then show ?thesis using 1 by (simp add: read_all_Cons)
  next
    case False
    then have "read_all (a = 13) (b # bs) = read_all False (b # bs)" by (auto simp: read_all_Cons)
    then show ?thesis using 1 False by (subst read_all_Cons) auto
  qed
qed (simp_all add: read_all_Cons)

section \<open>Initialisation\<close>

datatype console_object = Input_mutex | Output_mutex | Input_semaphore

text \<open>Whether the objects exist, from whether each creation succeeds; a failure deletes those created before it.\<close>

definition initialize_console :: "(console_object \<Rightarrow> bool) \<Rightarrow> console_object set \<Rightarrow> bool \<times> console_object set" where
  "initialize_console creates existing =
     (if existing = {Input_mutex, Output_mutex, Input_semaphore} then (True, existing)
      else if \<not> creates Input_mutex then (False, existing)
      else
        (let existing = insert Input_mutex existing
         in if \<not> creates Output_mutex then (False, existing - {Input_mutex})
            else
              (let existing = insert Output_mutex existing
               in if \<not> creates Input_semaphore then (False, existing - {Output_mutex} - {Input_mutex})
                  else (True, insert Input_semaphore existing))))"

lemma initialize_console_all_or_nothing:
  assumes "existing = {} \<or> existing = {Input_mutex, Output_mutex, Input_semaphore}"
  shows "initialize_console creates existing = (True, {Input_mutex, Output_mutex, Input_semaphore}) \<or>
    initialize_console creates existing = (False, {}) \<and> existing = {} \<and> (\<exists>object. \<not> creates object)"
  using assms by (auto simp: initialize_console_def Let_def)

section \<open>The calls of the C library\<close>

text \<open>Whether a call may use the console, and whether it locks: never from an interrupt, never before the port exists.\<close>

datatype console_access = Refused_access | Direct | Locked

definition console_access :: "bool \<Rightarrow> bool \<Rightarrow> bool \<Rightarrow> bool \<Rightarrow> bool \<Rightarrow> console_access" where
  "console_access in_interrupt port_ready threaded initialized lock_obtained =
     (if in_interrupt \<or> \<not> port_ready then Refused_access
      else if \<not> threaded then Direct
      else if \<not> initialized \<or> \<not> lock_obtained then Refused_access
      else Locked)"

end
