(* ===== verification/Hal_Linux_Console.thy ===== *)
theory Hal_Linux_Console
  imports Nucleo_Prelude "HOL-Library.Sublist"
begin

text \<open>
  The console of the Linux target (\<^verbatim>\<open>platform/hal/linux/console.cpp\<close>): a queue of 256 messages that
  drops the oldest when it is full and counts what it dropped, behind a mode that decides where
  output goes. The mutex makes each operation one step (an operation that cannot take it does
  nothing); standard output and standard error are the str written to them.
\<close>

section \<open>State\<close>

datatype channel = Channel_hal | Channel_log | Channel_command | Channel_system

datatype console_mode = Pass_through | Buffering | Interactive | Plain

record message =
  msg_channel :: channel
  msg_text :: string
  end_of_record :: bool

record linux_console =
  queue :: "message list"
  queue_head :: nat
  queue_count :: nat
  dropped :: nat
  mode :: console_mode
  standard_output :: string
  standard_error :: string

definition QUEUE_CAPACITY :: nat where "QUEUE_CAPACITY = 256"
definition MESSAGE_PAYLOAD_SIZE :: nat where "MESSAGE_PAYLOAD_SIZE = 1024"

definition blank_message :: message where
  "blank_message = \<lparr>msg_channel = Channel_system, msg_text = [], end_of_record = False\<rparr>"

definition initial_linux_console :: linux_console where
  "initial_linux_console = \<lparr>queue = replicate QUEUE_CAPACITY blank_message, queue_head = 0, queue_count = 0, dropped = 0,
     mode = Pass_through, standard_output = [], standard_error = []\<rparr>"

section \<open>The queue\<close>

definition take_head :: "linux_console \<Rightarrow> linux_console" where
  "take_head c = c\<lparr>queue_head := (queue_head c + 1) mod QUEUE_CAPACITY, queue_count := queue_count c - 1\<rparr>"

definition enqueue :: "channel \<Rightarrow> string \<Rightarrow> bool \<Rightarrow> linux_console \<Rightarrow> linux_console" where
  "enqueue channel str ends c =
     (let c = (if queue_count c = QUEUE_CAPACITY then (take_head c)\<lparr>dropped := dropped c + 1\<rparr> else c)
      in c\<lparr>queue := (queue c)[(queue_head c + queue_count c) mod QUEUE_CAPACITY := \<lparr>msg_channel = channel, msg_text = str, end_of_record = ends\<rparr>],
           queue_count := queue_count c + 1\<rparr>)"

fun decimal :: "nat \<Rightarrow> string" where
  "decimal n = (if n < 10 then [char_of (48 + n)] else decimal (n div 10) @ [char_of (48 + n mod 10)])"

declare decimal.simps [simp del]

definition make_drop_message :: "nat \<Rightarrow> message" where
  "make_drop_message amount =
     \<lparr>msg_channel = Channel_system, msg_text = ''[console] dropped '' @ decimal amount @ '' queued output chunks'' @ [CHR 0x0A],
      end_of_record = True\<rparr>"

text \<open>The messages held, from the oldest.\<close>

definition queued :: "linux_console \<Rightarrow> message list" where
  "queued c = map (\<lambda>k. queue c ! ((queue_head c + k) mod QUEUE_CAPACITY)) [0..<queue_count c]"

definition queue_ok :: "linux_console \<Rightarrow> bool" where
  "queue_ok c \<longleftrightarrow> length (queue c) = QUEUE_CAPACITY \<and> queue_head c < QUEUE_CAPACITY \<and> queue_count c \<le> QUEUE_CAPACITY"

lemma capacity_pos [simp]: "0 < QUEUE_CAPACITY" "QUEUE_CAPACITY \<noteq> 0"
  by (simp_all add: QUEUE_CAPACITY_def)

lemma length_queued [simp]: "length (queued c) = queue_count c"
  by (simp add: queued_def)

lemma take_head_queued:
  assumes "queue_ok c" "0 < queue_count c"
  shows "queue_ok (take_head c)" "queued c = queue c ! queue_head c # queued (take_head c)" "dropped (take_head c) = dropped c"
    "queue_count (take_head c) = queue_count c - 1"
proof -
  show "queue_ok (take_head c)" using assms by (auto simp: queue_ok_def take_head_def)
  obtain n where n: "queue_count c = Suc n" using assms(2) by (cases "queue_count c") auto
  have shift: "((queue_head c + 1) mod QUEUE_CAPACITY + k) mod QUEUE_CAPACITY = (queue_head c + Suc k) mod QUEUE_CAPACITY" for k
    by (simp add: mod_add_left_eq)
  have "queued c = queue c ! (queue_head c mod QUEUE_CAPACITY) # map (\<lambda>k. queue c ! ((queue_head c + Suc k) mod QUEUE_CAPACITY)) [0..<n]"
    unfolding queued_def n by (simp add: upt_conv_Cons map_Suc_upt [symmetric] del: upt_Suc)
  also have "map (\<lambda>k. queue c ! ((queue_head c + Suc k) mod QUEUE_CAPACITY)) [0..<n] = queued (take_head c)"
    using shift by (simp add: queued_def take_head_def n)
  finally show "queued c = queue c ! queue_head c # queued (take_head c)" using assms(1) by (simp add: queue_ok_def)
qed (simp_all add: take_head_def)

lemma mod_neq: "a < n \<Longrightarrow> i < k \<Longrightarrow> k < n \<Longrightarrow> (a + i) mod n \<noteq> (a + k) mod (n :: nat)"
  by (auto simp: mod_if)

text \<open>An enqueue appends; on a full queue it first drops the oldest message and counts it.\<close>

lemma enqueue_room:
  assumes "queue_ok c" "queue_count c < QUEUE_CAPACITY"
  shows "queue_ok (enqueue ch str ends c) \<and> dropped (enqueue ch str ends c) = dropped c \<and>
    queued (enqueue ch str ends c) = queued c @ [\<lparr>msg_channel = ch, msg_text = str, end_of_record = ends\<rparr>]"
proof -
  let ?m = "\<lparr>msg_channel = ch, msg_text = str, end_of_record = ends\<rparr>"
  let ?p = "(queue_head c + queue_count c) mod QUEUE_CAPACITY"
  have e: "enqueue ch str ends c = c\<lparr>queue := (queue c)[?p := ?m], queue_count := queue_count c + 1\<rparr>"
    using assms(2) by (simp add: enqueue_def Let_def)
  have len: "length (queue c) = QUEUE_CAPACITY" "queue_head c < QUEUE_CAPACITY" using assms(1) by (simp_all add: queue_ok_def)
  have old: "(queue c)[?p := ?m] ! ((queue_head c + k) mod QUEUE_CAPACITY) = queue c ! ((queue_head c + k) mod QUEUE_CAPACITY)" if "k < queue_count c" for k
    using mod_neq [OF len(2) that assms(2)] by simp
  have "map (\<lambda>k. (queue c)[?p := ?m] ! ((queue_head c + k) mod QUEUE_CAPACITY)) [0..<queue_count c] = queued c"
    unfolding queued_def by (rule map_cong) (simp_all add: old)
  moreover have "(queue c)[?p := ?m] ! ?p = ?m" using len by simp
  ultimately have "queued (enqueue ch str ends c) = queued c @ [?m]" unfolding e by (simp add: queued_def)
  then show ?thesis using assms e by (simp add: queue_ok_def)
qed

lemma enqueue_full:
  assumes "queue_ok c" "queue_count c = QUEUE_CAPACITY"
  shows "queue_ok (enqueue ch str ends c) \<and> dropped (enqueue ch str ends c) = dropped c + 1 \<and>
    queued (enqueue ch str ends c) = tl (queued c) @ [\<lparr>msg_channel = ch, msg_text = str, end_of_record = ends\<rparr>]"
proof -
  let ?c = "(take_head c)\<lparr>dropped := dropped c + 1\<rparr>"
  have pos: "0 < queue_count c" using assms(2) by simp
  note queue_head = take_head_queued [OF assms(1) pos]
  have same: "queued ?c = queued (take_head c)" by (simp add: queued_def)
  have "queue_ok ?c" "queue_count ?c < QUEUE_CAPACITY" using queue_head assms(2) by (simp_all add: queue_ok_def)
  moreover have "enqueue ch str ends c = enqueue ch str ends ?c"
    using calculation(2) assms(2) by (simp add: enqueue_def Let_def)
  ultimately show ?thesis using enqueue_room [of ?c ch str ends] queue_head(2) same by simp
qed

section \<open>The operations\<close>

fun flush_loop :: "nat \<Rightarrow> linux_console \<Rightarrow> string \<times> linux_console" where
  "flush_loop 0 c = ([], c)"
| "flush_loop (Suc n) c =
     (let str = msg_text (queue c ! queue_head c); (rest, c) = flush_loop n (take_head c) in (str @ rest, c))"

definition flush_queue :: "linux_console \<Rightarrow> string \<times> linux_console" where
  "flush_queue c =
     (let notice = (if dropped c \<noteq> 0 then msg_text (make_drop_message (dropped c)) else []);
          (str, c) = flush_loop (queue_count c) (c\<lparr>dropped := 0\<rparr>)
      in (notice @ str, c))"

definition begin_buffering :: "linux_console \<Rightarrow> linux_console" where
  "begin_buffering c = (if mode c = Pass_through then c\<lparr>mode := Buffering\<rparr> else c)"

definition activate_interactive :: "linux_console \<Rightarrow> linux_console" where
  "activate_interactive c = (if mode c \<noteq> Plain then c\<lparr>mode := Interactive\<rparr> else c)"

definition activate_plain :: "linux_console \<Rightarrow> linux_console" where
  "activate_plain c =
     (let (str, c) = flush_queue (c\<lparr>mode := Plain\<rparr>) in c\<lparr>standard_error := standard_error c @ str\<rparr>)"

function publish_chunks :: "channel \<Rightarrow> string \<Rightarrow> linux_console \<Rightarrow> linux_console" where
  "publish_chunks ch str c =
     (if str = [] then c
      else
        (let chunk_size = min (length str) MESSAGE_PAYLOAD_SIZE; final = (chunk_size = length str)
         in publish_chunks ch (drop chunk_size str) (enqueue ch (take chunk_size str) final c)))"
  by pat_completeness auto
termination
  by (relation "measure (\<lambda>(ch, str, c). length str)") (auto simp: MESSAGE_PAYLOAD_SIZE_def)

declare publish_chunks.simps [simp del]

definition publish :: "channel \<Rightarrow> string \<Rightarrow> linux_console \<Rightarrow> linux_console" where
  "publish ch str c =
     (if mode c = Pass_through then c\<lparr>standard_output := standard_output c @ str\<rparr>
      else if mode c = Plain then c\<lparr>standard_error := standard_error c @ str\<rparr>
      else if str = [] then enqueue ch [] True c
      else publish_chunks ch str c)"

fun drain_loop :: "nat \<Rightarrow> linux_console \<Rightarrow> message list \<times> linux_console" where
  "drain_loop 0 c = ([], c)"
| "drain_loop (Suc room) c =
     (if queue_count c = 0 then ([], c)
      else (let m = queue c ! queue_head c; (rest, c) = drain_loop room (take_head c) in (m # rest, c)))"

definition drain :: "nat \<Rightarrow> linux_console \<Rightarrow> message list \<times> linux_console" where
  "drain room c =
     (if room = 0 \<or> mode c \<noteq> Interactive then ([], c)
      else
        (let notice = (if dropped c \<noteq> 0 then [make_drop_message (dropped c)] else []);
             (messages, c) = drain_loop (room - length notice) (c\<lparr>dropped := 0\<rparr>)
         in (notice @ messages, c)))"

section \<open>What becomes of the str\<close>

lemma enqueue_cases:
  assumes "queue_ok c"
  shows "queue_ok (enqueue ch str ends c)"
    and "\<exists>lost. queued c @ [\<lparr>msg_channel = ch, msg_text = str, end_of_record = ends\<rparr>] = lost @ queued (enqueue ch str ends c) \<and>
      dropped (enqueue ch str ends c) = dropped c + length lost"
proof -
  consider "queue_count c < QUEUE_CAPACITY" | "queue_count c = QUEUE_CAPACITY" using assms by (fastforce simp: queue_ok_def)
  then have both: "queue_ok (enqueue ch str ends c) \<and>
    (\<exists>lost. queued c @ [\<lparr>msg_channel = ch, msg_text = str, end_of_record = ends\<rparr>] = lost @ queued (enqueue ch str ends c) \<and>
      dropped (enqueue ch str ends c) = dropped c + length lost)"
  proof cases
    case 1
    then show ?thesis using enqueue_room [OF assms 1, of ch str ends] by (auto intro: exI [of _ "[]"])
  next
    case 2
    then have "queued c = hd (queued c) # tl (queued c)" using length_queued [of c] by (cases "queued c") auto
    then show ?thesis using enqueue_full [OF assms 2, of ch str ends] by (auto intro!: exI [of _ "[hd (queued c)]"])
  qed
  then show "queue_ok (enqueue ch str ends c)"
    and "\<exists>lost. queued c @ [\<lparr>msg_channel = ch, msg_text = str, end_of_record = ends\<rparr>] = lost @ queued (enqueue ch str ends c) \<and>
      dropped (enqueue ch str ends c) = dropped c + length lost"
    by simp_all
qed

text \<open>A record is cut into chunks of at most the payload size, only the last marked as its end.\<close>

function chunks :: "channel \<Rightarrow> string \<Rightarrow> message list" where
  "chunks ch str =
     (if str = [] then []
      else \<lparr>msg_channel = ch, msg_text = take MESSAGE_PAYLOAD_SIZE str, end_of_record = (length str \<le> MESSAGE_PAYLOAD_SIZE)\<rparr> #
        chunks ch (drop MESSAGE_PAYLOAD_SIZE str))"
  by pat_completeness auto
termination
  by (relation "measure (\<lambda>(ch, str). length str)") (auto simp: MESSAGE_PAYLOAD_SIZE_def)

declare chunks.simps [simp del]

lemma chunks_text: "concat (map msg_text (chunks ch str)) = str"
  by (induction ch str rule: chunks.induct) (subst chunks.simps, simp)

lemma chunks_end: "str \<noteq> [] \<Longrightarrow> chunks ch str \<noteq> [] \<and> map end_of_record (chunks ch str) =
    replicate (length (chunks ch str) - 1) False @ [True]"
proof (induction ch str rule: chunks.induct)
  case (1 ch str)
  show ?case
  proof (cases "length str \<le> MESSAGE_PAYLOAD_SIZE")
    case True
    then have "chunks ch (drop MESSAGE_PAYLOAD_SIZE str) = []" by (subst chunks.simps) simp
    then show ?thesis using 1(2) True by (subst (1 2 3) chunks.simps) simp
  next
    case False
    then have "drop MESSAGE_PAYLOAD_SIZE str \<noteq> []" by simp
    from 1(1) [OF 1(2) this] show ?thesis
      using 1(2) False by (subst (1 2 3) chunks.simps) (cases "chunks ch (drop MESSAGE_PAYLOAD_SIZE str)", auto)
  qed
qed

lemma publish_chunks_queued:
  assumes "queue_ok c"
  shows "queue_ok (publish_chunks ch str c) \<and>
    (\<exists>lost. queued c @ chunks ch str = lost @ queued (publish_chunks ch str c) \<and>
      dropped (publish_chunks ch str c) = dropped c + length lost)"
  using assms
proof (induction ch str arbitrary: c rule: chunks.induct)
  case (1 ch str)
  show ?case
  proof (cases "str = []")
    case True
    then show ?thesis using 1(2) by (subst (1 2 3) publish_chunks.simps, subst chunks.simps) simp
  next
    case False
    let ?ends = "length str \<le> MESSAGE_PAYLOAD_SIZE"
    let ?c = "enqueue ch (take MESSAGE_PAYLOAD_SIZE str) ?ends c"
    have cut: "take (min (length str) MESSAGE_PAYLOAD_SIZE) str = take MESSAGE_PAYLOAD_SIZE str"
      "drop (min (length str) MESSAGE_PAYLOAD_SIZE) str = drop MESSAGE_PAYLOAD_SIZE str"
      "(min (length str) MESSAGE_PAYLOAD_SIZE = length str) = ?ends"
      by (auto simp: min_def)
    have p: "publish_chunks ch str c = publish_chunks ch (drop MESSAGE_PAYLOAD_SIZE str) ?c"
      using False by (subst publish_chunks.simps) (simp add: Let_def cut)
    obtain first where first: "queued c @ [\<lparr>msg_channel = ch, msg_text = take MESSAGE_PAYLOAD_SIZE str, end_of_record = ?ends\<rparr>]
        = first @ queued ?c" "dropped ?c = dropped c + length first"
      using enqueue_cases(2) [OF 1(2)] by blast
    obtain rest where rest: "queue_ok (publish_chunks ch str c)"
      "queued ?c @ chunks ch (drop MESSAGE_PAYLOAD_SIZE str) = rest @ queued (publish_chunks ch str c)"
      "dropped (publish_chunks ch str c) = dropped ?c + length rest"
      using 1(1) [OF False enqueue_cases(1) [OF 1(2)]] unfolding p by blast
    have "queued c @ chunks ch str = (first @ rest) @ queued (publish_chunks ch str c)"
      using False first(1) rest(2) by (subst chunks.simps) (simp, metis append.assoc append_Cons append_Nil)
    then show ?thesis using rest first(2) by (auto intro!: exI [of _ "first @ rest"])
  qed
qed

lemma drain_loop_queued:
  "queue_ok c \<Longrightarrow> drain_loop room c = (messages, c') \<Longrightarrow>
     queue_ok c' \<and> queued c = messages @ queued c' \<and> length messages = min room (queue_count c) \<and> dropped c' = dropped c"
proof (induction room arbitrary: c messages)
  case 0
  then show ?case by simp
next
  case (Suc room)
  show ?case
  proof (cases "queue_count c = 0")
    case True
    then show ?thesis using Suc.prems by simp
  next
    case False
    note queue_head = take_head_queued [OF Suc.prems(1)]
    obtain rest where rest: "drain_loop room (take_head c) = (rest, c')" "messages = queue c ! queue_head c # rest"
      using Suc.prems(2) False by (auto simp: Let_def split: prod.splits)
    have "queue_ok (take_head c)" using queue_head(1) False by simp
    from Suc.IH [OF this rest(1)] show ?thesis using queue_head False rest(2) by (simp add: min_def) linarith
  qed
qed

lemma flush_loop_text:
  "queue_ok c \<Longrightarrow> queue_count c = n \<Longrightarrow> flush_loop n c = (str, c') \<Longrightarrow>
     str = concat (map msg_text (queued c)) \<and> queued c' = [] \<and> queue_ok c' \<and> dropped c' = dropped c"
proof (induction n arbitrary: c str)
  case 0
  then show ?case by (simp add: queued_def)
next
  case (Suc n)
  then have pos: "0 < queue_count c" by simp
  note queue_head = take_head_queued [OF Suc.prems(1) pos]
  obtain rest where rest: "flush_loop n (take_head c) = (rest, c')" "str = msg_text (queue c ! queue_head c) @ rest"
    using Suc.prems(3) by (auto simp: Let_def split: prod.splits)
  have "queue_count (take_head c) = n" using queue_head(4) Suc.prems(2) by simp
  from Suc.IH [OF queue_head(1) this rest(1)] show ?case unfolding rest(2) queue_head(2) using queue_head(3) by simp
qed

section \<open>The accounts of an interactive console\<close>

text \<open>
  The frontend's view: every chunk published is delivered in order, or still queued, or counted as
  dropped, where the notices delivered and the pending count make up the number dropped.
\<close>

inductive frontend_step :: "linux_console \<times> message list \<times> message list \<times> nat \<Rightarrow> linux_console \<times> message list \<times> message list \<times> nat \<Rightarrow> bool" where
  published: "mode c = Interactive \<Longrightarrow> str \<noteq> [] \<Longrightarrow>
    frontend_step (c, published, delivered, reported) (publish ch str c, published @ chunks ch str, delivered, reported)"
| drained: "mode c = Interactive \<Longrightarrow> 0 < room \<Longrightarrow> drain room c = (messages, c') \<Longrightarrow>
    frontend_step (c, published, delivered, reported)
      (c', published, delivered @ (if dropped c = 0 then messages else tl messages), reported + dropped c)"

abbreviation "frontend_steps \<equiv> frontend_step\<^sup>*\<^sup>*"

fun accounts_ok :: "linux_console \<times> message list \<times> message list \<times> nat \<Rightarrow> bool" where
  "accounts_ok (c, published, delivered, reported) \<longleftrightarrow>
     queue_ok c \<and> subseq (delivered @ queued c) published \<and>
     length published = length delivered + length (queued c) + reported + dropped c"

lemma drain_queued:
  assumes "drain room c = (messages, c')" "mode c = Interactive" "0 < room" "queue_ok c"
  shows "queue_ok c' \<and> queued c = (if dropped c = 0 then messages else tl messages) @ queued c' \<and> dropped c' = 0"
proof -
  let ?c = "c\<lparr>dropped := 0\<rparr>" and ?notice = "if dropped c \<noteq> 0 then [make_drop_message (dropped c)] else []"
  have same: "queue_ok ?c" "queued ?c = queued c" using assms(4) by (simp_all add: queue_ok_def queued_def)
  obtain rest where rest: "drain_loop (room - length ?notice) ?c = (rest, c')" "messages = ?notice @ rest"
    using assms(1-3) unfolding drain_def Let_def by (auto split: prod.splits)
  show ?thesis using drain_loop_queued [OF same(1) rest(1)] same(2) rest(2) by simp
qed

lemma subseq_drop_part: "subseq (a @ q) p \<Longrightarrow> q @ x = lost @ r \<Longrightarrow> subseq (a @ r) (p @ x)"
proof -
  assume "subseq (a @ q) p" "q @ x = lost @ r"
  then have "subseq (a @ lost @ r) (p @ x)" by (metis append.assoc list_emb_append_mono subseq_order.order_refl)
  moreover have "subseq (a @ r) (a @ lost @ r)" by (intro list_emb_append_mono list_emb_append2 subseq_order.order_refl)
  ultimately show ?thesis by (rule subseq_order.order_trans [rotated])
qed

lemma frontend_step_accounts:
  assumes "frontend_step s s'" "accounts_ok s"
  shows "accounts_ok s'"
  using assms
proof (induction rule: frontend_step.induct)
  case (published c str published delivered reported ch)
  then have p: "publish ch str c = publish_chunks ch str c" by (simp add: publish_def)
  have "queue_ok c" using published.prems by simp
  then obtain lost where ok: "queue_ok (publish ch str c)" and lost: "queued c @ chunks ch str = lost @ queued (publish ch str c)"
    "dropped (publish ch str c) = dropped c + length lost"
    using publish_chunks_queued unfolding p by blast
  have "subseq (delivered @ queued (publish ch str c)) (published @ chunks ch str)"
    using subseq_drop_part [OF _ lost(1)] published.prems by simp
  moreover have "length (queued c) + length (chunks ch str) = length lost + length (queued (publish ch str c))"
    using arg_cong [OF lost(1), of length] by simp
  ultimately show ?case using ok lost(2) published.prems by simp
next
  case (drained c room messages c' published delivered reported)
  have "queue_ok c" using drained.prems by simp
  note d = drain_queued [OF drained.hyps(3,1,2) this]
  then have "length (queued c) = length (if dropped c = 0 then messages else tl messages) + length (queued c')" by (metis length_append)
  then show ?case using d drained.prems by simp
qed

lemma frontend_steps_accounts: "frontend_steps s s' \<Longrightarrow> accounts_ok s \<Longrightarrow> accounts_ok s'"
  by (induction rule: rtranclp_induct) (auto intro: frontend_step_accounts simp del: accounts_ok.simps)

end
