(* ===== verification/Hal_Gpio.thy ===== *)
theory Hal_Gpio
  imports Nucleo_Prelude
begin

text \<open>
  Digital inputs and outputs: the simulated pins of the Linux target (\<^verbatim>\<open>impl/linux/Gpio.cpp\<close>), the
  interrupt lines and the pin factory of the STM32 target (\<^verbatim>\<open>impl/stm32/Gpio.cpp\<close> and
  \<^verbatim>\<open>factory/stm32/gpio.cpp\<close>), and the LED and the button on top (\<^verbatim>\<open>devices/impl\<close>). What the LED
  relies on is an interface, which the Linux output provides.
\<close>

section \<open>Levels\<close>

datatype Level = Low | High
datatype Edge = No_edge | Rising | Falling | Both_edges
datatype Pull = No_pull | Pull_up | Pull_down
datatype Port = PA | PB | PC | PD | PE | PF | PG | PH | PI | PJ | PK

fun inverted :: "Level \<Rightarrow> Level" where
  "inverted Low = High"
| "inverted High = Low"

lemma inverted_inverted [simp]: "inverted (inverted l) = l" "inverted l \<noteq> l" "l \<noteq> inverted l"
  by (cases l; simp)+

section \<open>The simulated pins\<close>

record gpio_input =
  input_edge :: Edge
  input_level :: Level

definition new_input :: "Pull \<Rightarrow> Edge \<Rightarrow> gpio_input" where
  "new_input pull edge = \<lparr>input_edge = edge, input_level = (if pull = Pull_up then High else Low)\<rparr>"

definition edgeMatches :: "Edge \<Rightarrow> Level \<Rightarrow> Level \<Rightarrow> bool" where
  "edgeMatches edge previous current \<longleftrightarrow>
     (if previous = current then False
      else (case edge of Rising \<Rightarrow> current = High | Falling \<Rightarrow> current = Low | Both_edges \<Rightarrow> True | No_edge \<Rightarrow> False))"

text \<open>The level the callback is called with, if it is.\<close>

definition setSimulatedLevel :: "Level \<Rightarrow> gpio_input \<Rightarrow> Level option \<times> gpio_input" where
  "setSimulatedLevel level input =
     (let previous = input_level input
      in (if edgeMatches (input_edge input) previous level then Some level else None, input\<lparr>input_level := level\<rparr>))"

fun set_levels :: "Level list \<Rightarrow> gpio_input \<Rightarrow> Level list \<times> gpio_input" where
  "set_levels [] input = ([], input)"
| "set_levels (l # ls) input =
     (let (call, input) = setSimulatedLevel l input; (calls, input) = set_levels ls input
      in ((case call of Some c \<Rightarrow> c # calls | None \<Rightarrow> calls), input))"

text \<open>On both edges the callback sees the levels in order, repetitions left out.\<close>

lemma set_levels_both:
  "input_edge input = Both_edges \<Longrightarrow> input_level input # fst (set_levels ls input) = remdups_adj (input_level input # ls)"
proof (induction ls arbitrary: input)
  case (Cons l ls)
  obtain calls input' where r: "set_levels ls (input\<lparr>input_level := l\<rparr>) = (calls, input')" by fastforce
  then have "l # calls = remdups_adj (l # ls)" using Cons.IH [of "input\<lparr>input_level := l\<rparr>"] Cons.prems by simp
  then show ?case using Cons.prems r
    by (cases "input_level input = l") (auto simp: setSimulatedLevel_def edgeMatches_def Let_def)
qed simp

section \<open>Outputs\<close>

text \<open>What the users of an output rely on: a write is read back, and a toggle inverts.\<close>

locale digital_output =
  fixes write_level :: "Level \<Rightarrow> 'o \<Rightarrow> 'o" and read_level :: "'o \<Rightarrow> Level" and toggle_level :: "'o \<Rightarrow> 'o"
  assumes read_write: "read_level (write_level l s) = l"
    and read_toggle: "read_level (toggle_level s) = inverted (read_level s)"

definition led_turnOn :: "(Level \<Rightarrow> 'o \<Rightarrow> 'o) \<Rightarrow> Level \<Rightarrow> 'o \<Rightarrow> 'o" where
  "led_turnOn write_level active_level s = write_level active_level s"

definition led_turnOff :: "(Level \<Rightarrow> 'o \<Rightarrow> 'o) \<Rightarrow> Level \<Rightarrow> 'o \<Rightarrow> 'o" where
  "led_turnOff write_level active_level s = write_level (inverted active_level) s"

definition led_toggle :: "('o \<Rightarrow> 'o) \<Rightarrow> 'o \<Rightarrow> 'o" where
  "led_toggle toggle_level s = toggle_level s"

definition led_isOn :: "('o \<Rightarrow> Level) \<Rightarrow> Level \<Rightarrow> 'o \<Rightarrow> bool" where
  "led_isOn read_level active_level s \<longleftrightarrow> read_level s = active_level"

context digital_output begin

lemma led_on: "led_isOn read_level active (led_turnOn write_level active s)"
  by (simp add: led_isOn_def led_turnOn_def read_write)

lemma led_off: "\<not> led_isOn read_level active (led_turnOff write_level active s)"
  by (simp add: led_isOn_def led_turnOff_def read_write)

lemma led_toggled: "led_isOn read_level active (led_toggle toggle_level s) \<longleftrightarrow> \<not> led_isOn read_level active s"
  by (cases active; cases "read_level s") (simp_all add: led_isOn_def led_toggle_def read_toggle)

end

text \<open>The button reads the level, or gets it from the callback.\<close>

datatype ButtonState = Released | Pressed

definition stateFromLevel :: "Level \<Rightarrow> Level \<Rightarrow> ButtonState" where
  "stateFromLevel active_level level = (if level = active_level then Pressed else Released)"

text \<open>The Linux output is one atomic variable; with no other thread the toggle succeeds at once.\<close>

definition output_write :: "Level \<Rightarrow> Level \<Rightarrow> Level" where
  "output_write level current = level"

definition output_toggle :: "Level \<Rightarrow> Level" where
  "output_toggle current = inverted current"

interpretation linux_output: digital_output output_write "\<lambda>s. s" output_toggle
  by unfold_locales (simp_all add: output_write_def output_toggle_def)

text \<open>
  Several threads: each loads the level, then tries a compare-and-exchange, which may fail, also
  spuriously, and then reloads.
\<close>

datatype toggler = Toggler_idle | Toggler_loaded Level

inductive toggle_step :: "Level \<times> ('t \<Rightarrow> toggler) \<times> nat \<Rightarrow> Level \<times> ('t \<Rightarrow> toggler) \<times> nat \<Rightarrow> bool" where
  load: "p t = Toggler_idle \<Longrightarrow> toggle_step (level, p, n) (level, p(t := Toggler_loaded level), n)"
| exchange: "p t = Toggler_loaded expected \<Longrightarrow> level = expected \<Longrightarrow>
    toggle_step (level, p, n) (inverted expected, p(t := Toggler_idle), n + 1)"
| fail: "p t = Toggler_loaded expected \<Longrightarrow> toggle_step (level, p, n) (level, p(t := Toggler_loaded level), n)"

text \<open>No toggle is lost: the level is the initial one inverted as often as a toggle has returned.\<close>

lemma toggles_counted:
  assumes "toggle_step\<^sup>*\<^sup>* (level, p, 0) (level', p', n)"
  shows "level' = (if even n then level else inverted level)"
  using assms
proof (induction "(level', p', n)" arbitrary: level' p' n rule: rtranclp_induct)
  case (step s)
  obtain l q m where s: "s = (l, q, m)" by (metis prod.exhaust)
  then have l: "l = (if even m then level else inverted level)" using step.hyps(3) by simp
  show ?case using step.hyps(2) [unfolded s] by (cases rule: toggle_step.cases) (auto simp: l)
qed simp

section \<open>Interrupt lines\<close>

definition pin_mask :: "nat \<Rightarrow> u16" where
  "pin_mask number = push_bit number 1"

datatype irq = EXTI0 | EXTI1 | EXTI2 | EXTI3 | EXTI4 | EXTI9_5 | EXTI15_10

definition interrupt_for :: "nat \<Rightarrow> irq" where
  "interrupt_for number =
     (if number = 0 then EXTI0 else if number = 1 then EXTI1 else if number = 2 then EXTI2
      else if number = 3 then EXTI3 else if number = 4 then EXTI4
      else if 5 \<le> number \<and> number \<le> 9 then EXTI9_5 else EXTI15_10)"

record pin =
  port :: Port
  number :: nat

text \<open>
  The registry of inputs by line, the enabled and pending interrupts, the flags of the lines, and
  the pins the factory has given out, with whether each is an input with an edge.
\<close>

record exti =
  interrupt_registry :: "nat \<Rightarrow> pin option"
  nvic_enabled :: "irq \<Rightarrow> bool"
  nvic_pending :: "irq \<Rightarrow> bool"
  line_pending :: "nat \<Rightarrow> bool"
  claimed :: "pin \<Rightarrow> bool"

definition interruptLineAvailable :: "pin \<Rightarrow> exti \<Rightarrow> bool" where
  "interruptLineAvailable p s \<longleftrightarrow> number p < 16 \<and> interrupt_registry s (number p) = None"

text \<open>Construction of an input; \<open>None\<close> where it terminates the program.\<close>

definition construct_input :: "pin \<Rightarrow> Edge \<Rightarrow> exti \<Rightarrow> exti option" where
  "construct_input p edge s =
     (if edge = No_edge then Some s
      else
        (let irq = interrupt_for (number p); s = s\<lparr>nvic_enabled := (nvic_enabled s)(irq := False)\<rparr>
         in if \<not> interruptLineAvailable p s then None
            else Some (s\<lparr>interrupt_registry := (interrupt_registry s)(number p \<mapsto> p),
                         line_pending := (line_pending s)(number p := False),
                         nvic_enabled := (nvic_enabled s)(irq := True)\<rparr>)))"

definition destroy_input :: "pin \<Rightarrow> Edge \<Rightarrow> exti \<Rightarrow> exti" where
  "destroy_input p edge s =
     (if edge = No_edge then s
      else
        (let irq = interrupt_for (number p);
             s = s\<lparr>nvic_enabled := (nvic_enabled s)(irq := False), line_pending := (line_pending s)(number p := False),
                   interrupt_registry := (interrupt_registry s)(number p := None)\<rparr>;
             group_still_used = (\<exists>k \<in> set [0..<16]. interrupt_registry s k \<noteq> None \<and> interrupt_for k = irq)
         in if group_still_used then s\<lparr>nvic_enabled := (nvic_enabled s)(irq := True)\<rparr>
            else s\<lparr>nvic_pending := (nvic_pending s)(irq := False)\<rparr>))"

definition valid_pin :: "pin \<Rightarrow> bool" where
  "valid_pin p \<longleftrightarrow> number p < 16"

text \<open>
  The factory: no object for an invalid or claimed pin, or for a taken line. The last argument says
  which inputs have an edge, for the release; \<open>None\<close> is termination.
\<close>

definition create_pin :: "pin \<Rightarrow> Edge option \<Rightarrow> exti \<Rightarrow> (bool \<times> exti) option" where
  "create_pin p input s =
     (if \<not> valid_pin p then Some (False, s)
      else if claimed s p then Some (False, s)
      else
        (case input of
           None \<Rightarrow> Some (True, s\<lparr>claimed := (claimed s)(p := True)\<rparr>)
         | Some edge \<Rightarrow>
             if edge \<noteq> No_edge \<and> \<not> interruptLineAvailable p s then Some (False, s)
             else
               (case construct_input p edge s of
                  None \<Rightarrow> None
                | Some s \<Rightarrow> Some (True, s\<lparr>claimed := (claimed s)(p := True)\<rparr>))))"

definition release_pin :: "pin \<Rightarrow> Edge option \<Rightarrow> exti \<Rightarrow> exti" where
  "release_pin p input s =
     (let s = (case input of None \<Rightarrow> s | Some edge \<Rightarrow> destroy_input p edge s) in s\<lparr>claimed := (claimed s)(p := False)\<rparr>)"

definition dispatchEdge :: "u16 \<Rightarrow> exti \<Rightarrow> pin list" where
  "dispatchEdge pins s =
     concat (map (\<lambda>k. case interrupt_registry s k of
       Some p \<Rightarrow> if pins AND pin_mask k \<noteq> 0 then [p] else [] | None \<Rightarrow> []) [0..<16])"

lemma factory_never_terminates: "\<exists>r. create_pin p input s = Some r"
  by (auto simp: create_pin_def construct_input_def interruptLineAvailable_def Let_def split: option.splits)

text \<open>
  The objects alive: the pins the factory gave out, and the edge of each input. An interrupt is
  enabled exactly while a live input with an edge shares its group, and each line has one owner.
\<close>

inductive gpio_step :: "exti \<times> (pin \<Rightarrow> Edge option option) \<Rightarrow> exti \<times> (pin \<Rightarrow> Edge option option) \<Rightarrow> bool" where
  create: "create_pin p input s = Some (True, s') \<Longrightarrow> gpio_step (s, live) (s', live(p \<mapsto> input))"
| refuse: "create_pin p input s = Some (False, s') \<Longrightarrow> gpio_step (s, live) (s', live)"
| release: "live p = Some input \<Longrightarrow> gpio_step (s, live) (release_pin p input s, live(p := None))"
| edge: "gpio_step (s, live) (s\<lparr>line_pending := (line_pending s)(k := True), nvic_pending := (nvic_pending s)(interrupt_for k := True)\<rparr>, live)"

definition watches :: "(pin \<Rightarrow> Edge option option) \<Rightarrow> pin \<Rightarrow> bool" where
  "watches live p \<longleftrightarrow> (\<exists>edge. live p = Some (Some edge) \<and> edge \<noteq> No_edge)"

fun gpio_inv :: "exti \<times> (pin \<Rightarrow> Edge option option) \<Rightarrow> bool" where
  "gpio_inv (s, live) \<longleftrightarrow>
     (\<forall>p. claimed s p \<longleftrightarrow> live p \<noteq> None) \<and> (\<forall>p. live p \<noteq> None \<longrightarrow> number p < 16) \<and>
     (\<forall>k p. interrupt_registry s k = Some p \<longleftrightarrow> watches live p \<and> number p = k) \<and>
     (\<forall>irq. nvic_enabled s irq \<longleftrightarrow> (\<exists>p. watches live p \<and> interrupt_for (number p) = irq))"


lemma watches_update:
  "watches (live(p := r)) q \<longleftrightarrow> (if q = p then (\<exists>edge. r = Some (Some edge) \<and> edge \<noteq> No_edge) else watches live q)"
  by (simp add: watches_def)

lemma create_pin_inv:
  assumes "create_pin p input s = Some (True, s')" "gpio_inv (s, live)"
  shows "gpio_inv (s', live(p \<mapsto> input))"
proof -
  have valid: "number p < 16" and free: "live p = None" "\<not> claimed s p"
    using assms by (auto simp: create_pin_def valid_pin_def split: if_splits)
  have old: "\<not> watches live p" using free(1) by (simp add: watches_def)
  show ?thesis
  proof (cases "\<exists>edge. input = Some edge \<and> edge \<noteq> No_edge")
    case False
    then have "s' = s\<lparr>claimed := (claimed s)(p := True)\<rparr>"
      using assms(1) by (cases input) (auto simp: create_pin_def construct_input_def split: if_splits)
    moreover have "watches (live(p \<mapsto> input)) q \<longleftrightarrow> watches live q" for q
      using False old by (auto simp: watches_update)
    ultimately show ?thesis using assms(2) valid free by auto
  next
    case True
    then obtain edge where e: "input = Some edge" "edge \<noteq> No_edge" by blast
    have line: "interrupt_registry s (number p) = None"
      and s': "s' = s\<lparr>interrupt_registry := (interrupt_registry s)(number p \<mapsto> p), line_pending := (line_pending s)(number p := False),
        nvic_enabled := (nvic_enabled s)(interrupt_for (number p) := True), claimed := (claimed s)(p := True)\<rparr>"
      using assms(1) e
      by (auto simp: create_pin_def construct_input_def interruptLineAvailable_def Let_def split: if_splits option.splits)
    have w: "watches (live(p \<mapsto> input)) q \<longleftrightarrow> q = p \<or> watches live q" for q using e by (auto simp: watches_update)
    have none: "watches live q \<Longrightarrow> number q \<noteq> number p" for q using line assms(2) by (metis gpio_inv.simps option.distinct(1))
    have "interrupt_registry s' k = Some q \<longleftrightarrow> watches (live(p \<mapsto> input)) q \<and> number q = k" for k q
      using assms(2) none unfolding w by (auto simp: s')
    moreover have "nvic_enabled s' irq \<longleftrightarrow> (\<exists>q. watches (live(p \<mapsto> input)) q \<and> interrupt_for (number q) = irq)" for irq
      using assms(2) unfolding w by (auto simp: s')
    moreover have "claimed s' q \<longleftrightarrow> (live(p \<mapsto> input)) q \<noteq> None" for q using assms(2) by (simp add: s')
    moreover have "(live(p \<mapsto> input)) q \<noteq> None \<Longrightarrow> number q < 16" for q using assms(2) valid by (auto split: if_splits)
    ultimately show ?thesis by auto
  qed
qed

lemma release_pin_inv:
  assumes "live p = Some input" "gpio_inv (s, live)"
  shows "gpio_inv (release_pin p input s, live(p := None))"
proof (cases "\<exists>edge. input = Some edge \<and> edge \<noteq> No_edge")
  case False
  then have "release_pin p input s = s\<lparr>claimed := (claimed s)(p := False)\<rparr>"
    by (cases input) (auto simp: release_pin_def destroy_input_def)
  moreover have "watches (live(p := None)) q \<longleftrightarrow> watches live q" for q
    using False assms(1) by (auto simp: watches_def)
  ultimately show ?thesis using assms(2) by auto
next
  case True
  then obtain edge where e: "input = Some edge" "edge \<noteq> No_edge" by blast
  let ?irq = "interrupt_for (number p)" and ?s = "release_pin p input s"
  have mine: "watches live p" using assms(1) e by (simp add: watches_def)
  then have reg: "interrupt_registry s (number p) = Some p" using assms(2) by simp
  have w: "watches (live(p := None)) q \<longleftrightarrow> q \<noteq> p \<and> watches live q" for q by (auto simp: watches_update)
  have other: "watches live q \<Longrightarrow> q \<noteq> p \<Longrightarrow> number q \<noteq> number p" for q using reg assms(2) by (metis gpio_inv.simps option.inject)
  have fields: "interrupt_registry ?s = (interrupt_registry s)(number p := None)" "claimed ?s = (claimed s)(p := False)"
    "nvic_enabled ?s = (nvic_enabled s)(?irq := (\<exists>k \<in> set [0..<16]. ((interrupt_registry s)(number p := None)) k \<noteq> None \<and> interrupt_for k = ?irq))"
    using e by (auto simp: release_pin_def destroy_input_def Let_def fun_eq_iff)
  have registry: "interrupt_registry ?s k = Some q \<longleftrightarrow> watches (live(p := None)) q \<and> number q = k" for k q
    using assms(2) other unfolding w fields by auto
  have "(\<exists>k \<in> set [0..<16]. interrupt_registry ?s k \<noteq> None \<and> interrupt_for k = irq) \<longleftrightarrow>
      (\<exists>q. watches (live(p := None)) q \<and> interrupt_for (number q) = irq)" for irq
  proof -
    have "watches (live(p := None)) q \<Longrightarrow> number q < 16" for q using assms(2) unfolding w by (auto simp: watches_def)
    then show ?thesis using registry by (force simp: not_None_eq)
  qed
  then have group: "nvic_enabled ?s ?irq \<longleftrightarrow> (\<exists>q. watches (live(p := None)) q \<and> interrupt_for (number q) = ?irq)"
    unfolding fields(3) fields(1) [symmetric] by simp
  have "nvic_enabled ?s irq \<longleftrightarrow> (\<exists>q. watches (live(p := None)) q \<and> interrupt_for (number q) = irq)" for irq
  proof (cases "irq = ?irq")
    case True
    then show ?thesis using group by simp
  next
    case False
    then have "nvic_enabled ?s irq = nvic_enabled s irq" by (simp add: fields)
    then show ?thesis using False assms(2) unfolding w by auto
  qed
  moreover have "claimed ?s q \<longleftrightarrow> (live(p := None)) q \<noteq> None" for q using assms(2) by (simp add: fields)
  moreover have "(live(p := None)) q \<noteq> None \<Longrightarrow> number q < 16" for q using assms(2) by (auto split: if_splits)
  ultimately show ?thesis using registry by auto
qed

lemma gpio_step_inv: "gpio_step s s' \<Longrightarrow> gpio_inv s \<Longrightarrow> gpio_inv s'"
proof (induction rule: gpio_step.induct)
  case (create p input s s' live)
  then show ?case by (intro create_pin_inv)
next
  case (refuse p input s s' live)
  then have "s' = s" by (auto simp: create_pin_def split: if_splits option.splits)
  then show ?case using refuse.prems by simp
next
  case (release live p input s)
  then show ?case by (intro release_pin_inv)
next
  case (edge s live k)
  then show ?case by simp
qed

text \<open>An edge reaches exactly the live inputs on the lines of the event.\<close>

lemma dispatchEdge_exact:
  assumes "gpio_inv (s, live)"
  shows "set (dispatchEdge pins s) = {p. watches live p \<and> pins AND pin_mask (number p) \<noteq> 0}"
proof -
  have "p \<in> set (dispatchEdge pins s) \<longleftrightarrow> (\<exists>k < 16. interrupt_registry s k = Some p \<and> pins AND pin_mask k \<noteq> 0)" for p
    by (auto simp: dispatchEdge_def split: option.splits if_splits) force+
  moreover have "watches live p \<Longrightarrow> number p < 16" for p using assms by (auto simp: watches_def)
  ultimately show ?thesis using assms by auto
qed

end
