(* ===== verification/Runtime_Tls.thy ===== *)
theory Runtime_Tls
  imports Nucleo_Prelude "HOL-Library.Multiset"
begin

text \<open>
  Thread-local storage of the STM32 runtime (\<^verbatim>\<open>platform/runtime/libstdcxx/tls.cpp\<close>): aligned blocks,
  the emulated-TLS arrays, the destructors of thread-local objects, and their life with a thread.
  Addresses and sizes are 32-bit words; the allocator is an argument, and \<open>None\<close> stands for
  \<open>tls_failure\<close>, which ends the program.
\<close>

section \<open>Alignment\<close>

definition power_of_two :: "u32 \<Rightarrow> bool" where
  "power_of_two alignment \<longleftrightarrow> \<not> (alignment = 0 \<or> alignment AND (alignment - 1) \<noteq> 0)"

definition align_up :: "u32 \<Rightarrow> u32 \<Rightarrow> u32" where
  "align_up address alignment = (address + alignment - 1) AND NOT (alignment - 1)"

lemma nat_power_of_two:
  "0 < a \<Longrightarrow> a AND (a - 1) = 0 \<Longrightarrow> \<exists>k. a = 2 ^ k" for a :: nat
proof (induction a rule: less_induct)
  case (less a)
  show ?case
  proof (cases "even a")
    case True
    then obtain b where b: "a = 2 * b" by blast
    then have "0 < b" "b < a" using less.prems(1) by simp_all
    have "a AND (a - 1) = 2 * (b AND (b - 1))"
      using and_nat_rec [of a "a - 1"] b \<open>0 < b\<close> by (cases b) simp_all
    then have "b AND (b - 1) = 0" using less.prems(2) by simp
    then obtain k where "b = 2 ^ k" using less.IH [OF \<open>b < a\<close> \<open>0 < b\<close>] by blast
    then have "a = 2 ^ Suc k" using b by simp
    then show ?thesis by blast
  next
    case False
    then obtain b where b: "a = 2 * b + 1" using oddE by blast
    have "a AND (a - 1) = 2 * b" using and_nat_rec [of a "a - 1"] b by simp
    then have "a = 2 ^ 0" using less.prems(2) b by simp
    then show ?thesis by blast
  qed
qed

lemma power_of_two_exp:
  assumes "power_of_two alignment"
  obtains k where "unat alignment = 2 ^ k" "k < 32" "alignment - 1 = mask k"
proof -
  have nz: "alignment \<noteq> 0" and meet: "alignment AND (alignment - 1) = 0" using assms by (auto simp: power_of_two_def)
  then have pos: "0 < unat alignment" by (simp add: unat_gt_0)
  then have pred: "unat (alignment - 1) = unat alignment - 1" by (simp add: unat_minus_one nz)
  have "unat alignment AND (unat alignment - 1) = 0"
    unfolding pred [symmetric] by (simp flip: unsigned_and_eq add: meet)
  then obtain k where k: "unat alignment = 2 ^ k" using nat_power_of_two pos by blast
  then have "k < 32" using unat_u32_bound [of alignment] power_increasing [of 32 k "2 :: nat"] by (cases "k < 32") auto
  moreover from this have "uint (mask k :: u32) = mask k" by (subst uint_mask_eq) (simp add: min_def)
  then have "uint (mask k :: u32) = int (2 ^ k - 1)"
    by (simp only: mask_eq_exp_minus_1 of_nat_diff one_le_power one_le_numeral of_nat_power of_nat_numeral of_nat_1)
  then have "unat (mask k :: u32) = 2 ^ k - 1" by (simp only: unat_eq_nat_uint nat_int)
  then have "alignment - 1 = mask k" using pred k by (simp add: word_unat_eq_iff)
  ultimately show thesis using that k by blast
qed

text \<open>The aligned address is the least multiple of the alignment at or above the address.\<close>

lemma align_up_exact:
  assumes "power_of_two alignment" "unat address + unat alignment \<le> 2 ^ 32"
  shows "unat alignment dvd unat (align_up address alignment)"
    and "unat address \<le> unat (align_up address alignment)"
    and "unat (align_up address alignment) < unat address + unat alignment"
proof -
  obtain k where k: "unat alignment = 2 ^ k" "alignment - 1 = mask k" using power_of_two_exp [OF assms(1)] by metis
  define s where "s = address + (alignment - 1)"
  have pos: "0 < unat alignment" using k by simp
  have "unat (alignment - 1) = unat alignment - 1" by (rule unat_minus_one) (use pos in auto)
  then have s: "unat s = unat address + (2 ^ k - 1)" unfolding s_def using assms(2) pos k by (subst unat_add_no_wrap) simp_all
  have "align_up address alignment = s AND NOT (mask k)" unfolding align_up_def s_def k(2) [symmetric] by (simp add: add_diff_eq)
  then have r: "unat (align_up address alignment) = unat s - unat s mod 2 ^ k" by (simp add: and_not_mask_unat)
  show "unat alignment dvd unat (align_up address alignment)" unfolding r k by (simp add: minus_mod_eq_mult_div)
  have m: "unat s mod 2 ^ k < 2 ^ k" by simp
  show "unat address \<le> unat (align_up address alignment)" unfolding r using m s by linarith
  show "unat (align_up address alignment) < unat address + unat alignment" unfolding r k using s m by (simp add: le_less_trans less_diff_conv)
qed

section \<open>The block of a thread\<close>

text \<open>The linker's values, and the image the block is initialised from.\<close>

record tls_image =
  tls_align :: u32
  tcb_offset :: u32
  tls_size :: u32
  tdata_source :: "u8 list"

definition tls_allocation_size :: "tls_image \<Rightarrow> u32 option" where
  "tls_allocation_size img =
     (if \<not> power_of_two (tls_align img) \<or> tcb_offset img < tls_align img \<or>
         tls_size img > - 1 - tcb_offset img - (tls_align img - 1)
      then None
      else Some (tcb_offset img + tls_size img + tls_align img - 1))"

definition initialize_tls_data :: "tls_image \<Rightarrow> u8 list option" where
  "initialize_tls_data img =
     (if length (tdata_source img) > unat (tls_size img) then None
      else Some (tdata_source img @ replicate (unat (tls_size img) - length (tdata_source img)) 0))"

text \<open>The size is computed without wrapping, and the data of the block lies within the allocation.\<close>

lemma tls_allocation_size_exact:
  assumes "tls_allocation_size img = Some n" "unat (tcb_offset img) + unat (tls_align img) \<le> 2 ^ 32"
  shows "unat n = unat (tcb_offset img) + unat (tls_size img) + unat (tls_align img) - 1"
proof -
  let ?a = "tls_align img" and ?o = "tcb_offset img" and ?s = "tls_size img"
  have p: "power_of_two ?a" "?a \<le> ?o" and s: "?s \<le> - 1 - ?o - (?a - 1)" and n: "n = ?o + ?s + ?a - 1"
    using assms(1) by (auto simp: tls_allocation_size_def split: if_splits)
  have max: "unat (- 1 - ?o) = 2 ^ 32 - 1 - unat ?o"
    by (subst unat_sub) (simp_all add: unsigned_minus_1_eq_mask mask_eq_exp_minus_1)
  have pos: "0 < unat ?a" using p(1) by (auto simp: power_of_two_def unat_gt_0)
  have a1: "unat (?a - 1) = unat ?a - 1" by (rule unat_minus_one) (use pos in auto)
  have "?a - 1 \<le> - 1 - ?o" using assms(2) pos by (simp add: word_le_nat_alt max a1)
  then have "unat (- 1 - ?o - (?a - 1)) = 2 ^ 32 - 1 - unat ?o - (unat ?a - 1)" by (simp only: unat_sub max a1)
  then have "unat ?s \<le> 2 ^ 32 - 1 - unat ?o - (unat ?a - 1)" using s by (simp add: word_le_nat_alt)
  then have fits: "unat ?o + unat ?s + (unat ?a - 1) < 2 ^ 32" using assms(2) pos by linarith
  have "n = ?o + ?s + (?a - 1)" using n by (simp add: add_diff_eq)
  then show ?thesis using fits a1 pos by (simp add: unat_add_no_wrap)
qed

text \<open>The thread's data lies within its allocation, however the allocator placed that.\<close>

lemma tls_block_within:
  assumes "tls_allocation_size img = Some n" "unat (tcb_offset img) + unat (tls_align img) \<le> 2 ^ 32"
    and "unat allocation + unat n \<le> 2 ^ 32"
  shows "unat allocation \<le> unat (align_up allocation (tls_align img)) \<and>
    unat (align_up allocation (tls_align img)) + unat (tcb_offset img) + unat (tls_size img) \<le> unat allocation + unat n"
proof -
  have p: "power_of_two (tls_align img)" "tls_align img \<le> tcb_offset img"
    using assms(1) by (auto simp: tls_allocation_size_def split: if_splits)
  then have "unat (tls_align img) \<le> unat (tcb_offset img)" "0 < unat (tls_align img)"
    by (auto simp: word_le_nat_alt power_of_two_def unat_gt_0)
  moreover note n = tls_allocation_size_exact [OF assms(1,2)]
  ultimately have "unat allocation + unat (tls_align img) \<le> 2 ^ 32" using assms(3) by linarith
  from align_up_exact [OF p(1) this] show ?thesis using n by linarith
qed


section \<open>Emulated thread-local objects\<close>

record EmutlsObject =
  object_size :: u32
  object_alignment :: u32
  location :: u32
  initializer :: "u8 list option"

text \<open>
  The objects, the count of numbered objects, the array of each context (a thread, or the initial
  context), the bytes of each object allocated, and the allocator's own state.
\<close>

record ('k, 'm) emutls =
  objects :: "'k \<Rightarrow> EmutlsObject"
  emutls_object_count :: u32
  arrays :: "nat \<Rightarrow> u32 option list option"
  object_bytes :: "u32 \<Rightarrow> u8 list"
  heap :: 'm

definition emutls_offset :: "'k \<Rightarrow> ('k, 'm) emutls \<Rightarrow> (u32 \<times> ('k, 'm) emutls) option" where
  "emutls_offset k s =
     (if location (objects s k) \<noteq> 0 then Some (location (objects s k), s)
      else if emutls_object_count s = - 1 then None
      else
        (let offset = emutls_object_count s + 1
         in Some (offset, s\<lparr>emutls_object_count := offset, objects := (objects s)(k := (objects s k)\<lparr>location := offset\<rparr>)\<rparr>)))"

definition emutls_array_size :: "u32 \<Rightarrow> u32 option" where
  "emutls_array_size capacity =
     (if capacity = 0 \<or> capacity - 1 > (- 1 - 8) div 4 then None else Some (8 + (capacity - 1) * 4))"

definition grown_capacity :: "u32 \<Rightarrow> u32 \<Rightarrow> u32 option" where
  "grown_capacity old_capacity offset =
     (let new_capacity = (if old_capacity \<le> - 1 div 2 then old_capacity * 2 else offset)
      in if new_capacity < offset then (if offset > - 1 - 32 then None else Some (offset + 32)) else Some new_capacity)"

text \<open>The allocator: whether a block of the size is available, and its address.\<close>

type_synonym 'm allocator = "u32 \<Rightarrow> 'm \<Rightarrow> u32 option \<times> 'm"

definition allocate_emutls_array :: "'m allocator \<Rightarrow> u32 \<Rightarrow> 'm \<Rightarrow> (u32 option list \<times> 'm) option" where
  "allocate_emutls_array alloc capacity m =
     (case emutls_array_size capacity of
        None \<Rightarrow> None
      | Some n \<Rightarrow> (case alloc n m of (None, m) \<Rightarrow> None | (Some _, m) \<Rightarrow> Some (replicate (unat capacity) None, m)))"

definition grow_emutls_array :: "'m allocator \<Rightarrow> u32 option list \<Rightarrow> u32 \<Rightarrow> 'm \<Rightarrow> (u32 option list \<times> 'm) option" where
  "grow_emutls_array alloc entries offset m =
     (case grown_capacity (word_of_nat (length entries)) offset of
        None \<Rightarrow> None
      | Some capacity \<Rightarrow>
          (case emutls_array_size capacity of
             None \<Rightarrow> None
           | Some n \<Rightarrow>
               (case alloc n m of
                  (None, m) \<Rightarrow> None
                | (Some _, m) \<Rightarrow> Some (entries @ replicate (unat capacity - length entries) None, m))))"

definition emutls_object_size :: "u32 \<Rightarrow> u32 \<Rightarrow> u32 option" where
  "emutls_object_size len alignment =
     (if \<not> power_of_two alignment \<or> alignment - 1 > - 1 - 4 \<or> len > - 1 - 4 - (alignment - 1) then None
      else Some (len + 4 + alignment - 1))"

definition allocate_emutls_object :: "'m allocator \<Rightarrow> EmutlsObject \<Rightarrow> 'm \<Rightarrow> (u32 \<times> u8 list \<times> 'm) option" where
  "allocate_emutls_object alloc object m =
     (case emutls_object_size (object_size object) (object_alignment object) of
        None \<Rightarrow> None
      | Some n \<Rightarrow>
          (case alloc n m of
             (None, m) \<Rightarrow> None
           | (Some allocation, m) \<Rightarrow>
               Some (align_up (allocation + 4) (object_alignment object),
                 case initializer object of
                   Some bytes \<Rightarrow> take (unat (object_size object)) bytes
                 | None \<Rightarrow> replicate (unat (object_size object)) 0, m)))"

definition emutls_array :: "'m allocator \<Rightarrow> u32 \<Rightarrow> u32 option list option \<Rightarrow> 'm \<Rightarrow> (u32 option list \<times> 'm) option" where
  "emutls_array alloc offset storage m =
     (case storage of
        None \<Rightarrow> if offset > - 1 - 32 then None else allocate_emutls_array alloc (offset + 32) m
      | Some entries \<Rightarrow>
          if offset > word_of_nat (length entries) then grow_emutls_array alloc entries offset m else Some (entries, m))"

definition emutls_get_address :: "'m allocator \<Rightarrow> nat \<Rightarrow> 'k \<Rightarrow> ('k, 'm) emutls \<Rightarrow> (u32 \<times> ('k, 'm) emutls) option" where
  "emutls_get_address alloc thread k s =
     (case emutls_offset k s of
        None \<Rightarrow> None
      | Some (offset, s) \<Rightarrow>
          (case emutls_array alloc offset (arrays s thread) (heap s) of
             None \<Rightarrow> None
           | Some (entries, m) \<Rightarrow>
               (case entries ! (unat offset - 1) of
                  Some address \<Rightarrow> Some (address, s\<lparr>arrays := (arrays s)(thread := Some entries), heap := m\<rparr>)
                | None \<Rightarrow>
                    (case allocate_emutls_object alloc (objects s k) m of
                       None \<Rightarrow> None
                     | Some (address, bytes, m) \<Rightarrow>
                         Some (address, s\<lparr>arrays := (arrays s)(thread := Some (entries[unat offset - 1 := Some address])),
                           object_bytes := (object_bytes s)(address := bytes), heap := m\<rparr>)))))"

definition emutls_register_common :: "'k \<Rightarrow> u32 \<Rightarrow> u32 \<Rightarrow> u8 list option \<Rightarrow> ('k, 'm) emutls \<Rightarrow> ('k, 'm) emutls" where
  "emutls_register_common k len alignment init s =
     (let object = objects s k;
          object = (if object_size object < len then object\<lparr>object_size := len, initializer := None\<rparr> else object);
          object = (if object_alignment object < alignment then object\<lparr>object_alignment := alignment\<rparr> else object);
          object = (if init \<noteq> None \<and> len = object_size object then object\<lparr>initializer := init\<rparr> else object)
      in s\<lparr>objects := (objects s)(k := object)\<rparr>)"

section \<open>Every context has its own object, at an address that does not move\<close>

definition entry_of :: "('k, 'm) emutls \<Rightarrow> nat \<Rightarrow> 'k \<Rightarrow> u32 option" where
  "entry_of s thread k =
     (let offset = unat (location (objects s k))
      in case arrays s thread of
           None \<Rightarrow> None
         | Some entries \<Rightarrow> if 0 < offset \<and> offset \<le> length entries then entries ! (offset - 1) else None)"

definition emutls_ok :: "('k, 'm) emutls \<Rightarrow> bool" where
  "emutls_ok s \<longleftrightarrow>
     (\<forall>k. location (objects s k) \<le> emutls_object_count s) \<and>
     (\<forall>j k. location (objects s j) \<noteq> 0 \<longrightarrow> location (objects s j) = location (objects s k) \<longrightarrow> j = k) \<and>
     (\<forall>thread entries. arrays s thread = Some entries \<longrightarrow> length entries < 2 ^ 32)"

lemma grown_capacity_covers:
  assumes "grown_capacity old offset = Some capacity" "old < offset"
  shows "offset \<le> capacity \<and> old \<le> capacity"
proof (cases "capacity = offset + 32 \<and> offset \<le> - 1 - 32")
  case True
  then have "unat (offset + 32) = unat offset + 32"
    by (subst unat_add_no_wrap) (simp_all add: word_le_nat_alt)
  then have "offset \<le> capacity" using True by (simp add: word_le_nat_alt)
  then show ?thesis using assms(2) by simp
next
  case False
  then have "offset \<le> capacity" using assms(1) by (auto simp: grown_capacity_def Let_def not_less split: if_splits)
  then show ?thesis using assms(2) by simp
qed

lemma emutls_array_covers:
  assumes "emutls_array alloc offset storage m = Some (entries, m')" "offset \<noteq> 0"
    and "\<forall>old. storage = Some old \<longrightarrow> length old < 2 ^ 32"
  shows "unat offset \<le> length entries \<and> length entries < 2 ^ 32 \<and>
    (case storage of None \<Rightarrow> \<forall>e \<in> set entries. e = None
     | Some old \<Rightarrow> \<exists>n. entries = old @ replicate n None)"
proof (cases storage)
  case None
  then have o: "\<not> offset > - 1 - 32" "allocate_emutls_array alloc (offset + 32) m = Some (entries, m')"
    using assms(1) by (auto simp: emutls_array_def split: if_splits)
  then have "entries = replicate (unat (offset + 32)) None" by (auto simp: allocate_emutls_array_def split: option.splits prod.splits)
  moreover have "unat (offset + 32) = unat offset + 32"
    using o(1) by (subst unat_add_no_wrap) (simp_all add: word_le_nat_alt not_less)
  ultimately show ?thesis using None unat_u32_bound [of "offset + 32"] by simp
next
  case (Some old)
  then have len: "length old < 2 ^ 32" using assms(3) by simp
  then have w: "unat (word_of_nat (length old) :: u32) = length old" by (simp add: unat_of_nat take_bit_nat_eq_self)
  show ?thesis
  proof (cases "offset > word_of_nat (length old)")
    case True
    then have "grow_emutls_array alloc old offset m = Some (entries, m')" using assms(1) Some by (simp add: emutls_array_def)
    then obtain capacity where c: "grown_capacity (word_of_nat (length old)) offset = Some capacity"
      and e: "entries = old @ replicate (unat capacity - length old) None"
      by (auto simp: grow_emutls_array_def split: option.splits prod.splits)
    then have "unat offset \<le> unat capacity" "length old \<le> unat capacity"
      using grown_capacity_covers [OF c True] w by (simp_all add: word_le_nat_alt)
    then show ?thesis using Some e unat_u32_bound [of capacity] by auto
  next
    case False
    then have "entries = old" using assms(1) Some by (simp add: emutls_array_def)
    moreover have "unat offset \<le> length old" using False w by (simp add: word_less_nat_alt)
    ultimately show ?thesis using Some len by (auto intro: exI [of _ 0])
  qed
qed

lemma emutls_offset_ok:
  assumes "emutls_offset k s = Some (offset, s')" "emutls_ok s"
  shows "emutls_ok s' \<and> offset \<noteq> 0 \<and> location (objects s' k) = offset \<and> arrays s' = arrays s \<and>
    (\<forall>j. location (objects s j) \<noteq> 0 \<longrightarrow> objects s' j = objects s j)"
proof (cases "location (objects s k) = 0")
  case False
  then show ?thesis using assms by (auto simp: emutls_offset_def)
next
  case True
  define c where "c = emutls_object_count s"
  have c: "c \<noteq> - 1" and s': "offset = c + 1"
    "s' = s\<lparr>emutls_object_count := c + 1, objects := (objects s)(k := (objects s k)\<lparr>location := c + 1\<rparr>)\<rparr>"
    using assms(1) True by (auto simp: emutls_offset_def Let_def c_def split: if_splits)
  have "unat c \<noteq> unat (- 1 :: u32)" using c by (simp only: word_unat_eq_iff not_False_eq_True)
  then have "unat c + 1 < 2 ^ 32" using unat_u32_bound [of c]
    by (simp add: unsigned_minus_1_eq_mask mask_eq_exp_minus_1)
  then have u: "unat (c + 1) = unat c + 1" by (simp add: unat_add_no_wrap)
  then have less: "c < c + 1" "c + 1 \<noteq> 0" by (auto simp: word_less_nat_alt)
  have bound: "location (objects s j) \<le> c" for j using assms(2) by (simp add: emutls_ok_def c_def)
  then have fresh: "location (objects s j) \<noteq> c + 1" for j using less(1) by (metis leD)
  have bound': "location (objects s j) \<le> c + 1" for j using bound [of j] less(1) by (meson le_less_trans less_imp_le)
  have "emutls_ok s'"
    using assms(2) bound' less(2) fresh fresh [symmetric] unfolding emutls_ok_def s' by auto
  then show ?thesis using True less unfolding s' by auto
qed

lemma emutls_get_address_entry:
  assumes "emutls_get_address alloc thread k s = Some (address, s')" "emutls_ok s"
  shows "emutls_ok s' \<and> entry_of s' thread k = Some address \<and>
    (\<forall>t j a. entry_of s t j = Some a \<longrightarrow> entry_of s' t j = Some a)"
proof -
  obtain offset u where o: "emutls_offset k s = Some (offset, u)"
    using assms(1) by (auto simp: emutls_get_address_def split: option.splits)
  note u = emutls_offset_ok [OF o assms(2)]
  obtain entries m where a: "emutls_array alloc offset (arrays u thread) (heap u) = Some (entries, m)"
    using assms(1) o by (auto simp: emutls_get_address_def split: option.splits)
  have "\<forall>old. arrays u thread = Some old \<longrightarrow> length old < 2 ^ 32" using u by (auto simp: emutls_ok_def)
  note covers = emutls_array_covers [OF a _ this]
  obtain final where final: "arrays s' = (arrays u)(thread := Some final)" "objects s' = objects u"
      "emutls_object_count s' = emutls_object_count u"
    and e: "final = entries \<and> entries ! (unat offset - 1) = Some address \<or>
      final = entries[unat offset - 1 := Some address] \<and> entries ! (unat offset - 1) = None"
    using assms(1) o a by (auto simp: emutls_get_address_def split: option.splits prod.splits)
  have pos: "0 < unat offset" using u by (auto simp: unat_gt_0)
  have len: "unat offset \<le> length entries" "length entries < 2 ^ 32" using covers u by auto
  then have "length final = length entries" "final ! (unat offset - 1) = Some address" using e pos by auto
  then have here: "entry_of s' thread k = Some address"
    using u pos len by (simp add: entry_of_def final Let_def)
  have "emutls_ok s'"
    using u len \<open>length final = length entries\<close> unfolding emutls_ok_def final by auto
  moreover have "entry_of s' t j = Some x" if old: "entry_of s t j = Some x" for t j x
  proof -
    define i where "i = unat (location (objects s j))"
    obtain es where es: "arrays s t = Some es" "0 < i" "i \<le> length es" "es ! (i - 1) = Some x"
      using old by (auto simp: entry_of_def Let_def i_def split: option.splits if_splits)
    have "location (objects s j) \<noteq> 0" using es(2) by (auto simp: i_def)
    then have j: "objects s' j = objects s j" using u final by simp
    show ?thesis
    proof (cases "t = thread")
      case False
      then show ?thesis using es u by (simp add: entry_of_def Let_def final(1) j flip: i_def)
    next
      case True
      then obtain n where n: "entries = es @ replicate n None" using covers u es(1) by auto
      then have x: "entries ! (i - 1) = Some x" "i \<le> length entries" using es by (simp_all add: nth_append)
      then have "final ! (i - 1) = Some x" using e by (cases "i - 1 = unat offset - 1") auto
      then show ?thesis using True es x \<open>length final = length entries\<close>
        by (simp add: entry_of_def Let_def final(1) j flip: i_def)
    qed
  qed
  ultimately show ?thesis using here by blast
qed

lemma emutls_get_address_again:
  assumes "entry_of s thread k = Some a" "emutls_get_address alloc thread k s = Some (address, s')" "emutls_ok s"
  shows "address = a"
  using emutls_get_address_entry [OF assms(2,3)] assms(1) by (metis option.inject)

section \<open>Destructors of thread-local objects\<close>

text \<open>
  Registration pushes; the exit of a thread pops and runs, so that what a destructor registers runs
  next. \<open>registers\<close> gives what running a destructor registers, in order; a thread whose destructors
  never stop registering does not end.
\<close>

definition cxa_thread_atexit :: "bool \<Rightarrow> bool \<Rightarrow> 'd \<Rightarrow> 'd list \<Rightarrow> int \<times> 'd list" where
  "cxa_thread_atexit allocated has_destructor d destructors =
     (if \<not> allocated \<or> \<not> has_destructor then (- 1, destructors) else (0, d # destructors))"

partial_function (option) run_destructors :: "('d \<Rightarrow> 'd list) \<Rightarrow> 'd list \<Rightarrow> 'd list option" where
  "run_destructors registers destructors =
     (case destructors of
        [] \<Rightarrow> Some []
      | d # rest \<Rightarrow>
          Option.bind (run_destructors registers (fold (#) (registers d) rest)) (\<lambda>log. Some (d # log)))"

lemma run_destructors_lifo: "\<forall>d. registers d = [] \<Longrightarrow> run_destructors registers destructors = Some destructors"
  by (induction destructors) (subst run_destructors.simps, simp)+

lemma mset_fold_Cons: "mset (fold (#) xs ys) = mset xs + mset ys"
  by (induction xs arbitrary: ys) simp_all

text \<open>Every destructor registered, before or meanwhile, runs exactly as often as it was registered.\<close>

lemma run_destructors_all:
  fixes registers :: "'d \<Rightarrow> 'd list"
  assumes major: "run_destructors registers destructors = Some log"
  shows "mset log = mset destructors + mset (concat (map registers log))"
proof -
  define P where "P = (\<lambda>(registers :: 'd \<Rightarrow> 'd list) destructors log. mset log = mset destructors + mset (concat (map registers log)))"
  have "P registers destructors log"
  proof (rule run_destructors.raw_induct [where P = P, OF _ major])
    fix rec and registers :: "'d \<Rightarrow> 'd list" and destructors log
    assume IH: "\<And>registers destructors log. rec registers destructors = Some log \<Longrightarrow> P registers destructors log"
      and step: "(case destructors of
        [] \<Rightarrow> Some []
      | d # rest \<Rightarrow>
          Option.bind (rec registers (fold (#) (registers d) rest)) (\<lambda>log. Some (d # log))) = Some log"
    show "P registers destructors log"
    proof (cases destructors)
      case Nil
      then show ?thesis using step by (simp add: P_def)
    next
      case (Cons d rest)
      then obtain tail where tail: "rec registers (fold (#) (registers d) rest) = Some tail" "log = d # tail"
        using step by (auto simp: bind_eq_Some_conv)
      from IH [OF this(1)] show ?thesis using Cons tail(2) by (simp add: P_def mset_fold_Cons)
    qed
  qed
  then show ?thesis by (simp add: P_def)
qed

text \<open>The exit returns when registration is well-founded: every destructor registers only smaller ones.\<close>

lemma run_destructors_returns:
  assumes "\<And>d e. e \<in> set (registers d) \<Longrightarrow> rank e < (rank d :: nat)"
  shows "\<exists>log. run_destructors registers destructors = Some log"
proof (induction "mset (map rank destructors)" arbitrary: destructors rule: wf_induct_rule [OF wf_mult [OF wf_less_than]])
  case (1 destructors)
  show ?case
  proof (cases destructors)
    case Nil
    then show ?thesis by (subst run_destructors.simps) simp
  next
    case (Cons d rest)
    let ?next = "fold (#) (registers d) rest"
    have "mset (map rank ?next) = image_mset rank (mset (registers d)) + image_mset rank (mset rest)"
      by (simp only: mset_map mset_fold_Cons image_mset_union)
    moreover have "mset (map rank destructors) = {#rank d#} + image_mset rank (mset rest)" using Cons by simp
    moreover have "(image_mset rank (mset (registers d)) + image_mset rank (mset rest), {#rank d#} + image_mset rank (mset rest)) \<in> mult less_than"
      using assms by (subst add.commute, subst (2) add.commute, intro one_step_implies_mult) auto
    ultimately obtain log where "run_destructors registers ?next = Some log" using 1 by metis
    then show ?thesis using Cons by (subst run_destructors.simps) simp
  qed
qed

section \<open>The life of a thread's storage\<close>

record 'd tls_thread =
  tls_allocation :: "u32 option"
  tls_block :: "u32 option"
  tls_destructors :: "'d list"
  tls_emutls :: "u32 option list option"

record 'd tls_startup =
  startup_destructors :: "'d list"
  startup_emutls :: "u32 option list option"

definition tls_thread_create :: "tls_image \<Rightarrow> 'm allocator \<Rightarrow> 'm \<Rightarrow> ('d tls_thread \<times> u8 list \<times> 'm) option" where
  "tls_thread_create img alloc m =
     (case tls_allocation_size img of
        None \<Rightarrow> None
      | Some n \<Rightarrow>
          (case alloc n m of
             (None, m) \<Rightarrow> None
           | (Some allocation, m) \<Rightarrow>
               (case initialize_tls_data img of
                  None \<Rightarrow> None
                | Some data \<Rightarrow>
                    Some (\<lparr>tls_allocation = Some allocation, tls_block = Some (align_up allocation (tls_align img)),
                           tls_destructors = [], tls_emutls = None\<rparr>, data, m))))"

definition startup_block :: "tls_image \<Rightarrow> u32 \<Rightarrow> u32" where
  "startup_block img tls_base = tls_base - tcb_offset img"

definition read_thread_pointer :: "tls_image \<Rightarrow> u32 \<Rightarrow> 'd tls_thread option \<Rightarrow> u32 option" where
  "read_thread_pointer img tls_base current =
     (case current of Some thread \<Rightarrow> tls_block thread | None \<Rightarrow> Some (startup_block img tls_base))"

definition tls_adopt_startup :: "tls_image \<Rightarrow> u32 \<Rightarrow> 'd tls_startup \<Rightarrow> 'd tls_thread \<Rightarrow> ('d tls_startup \<times> 'd tls_thread) option" where
  "tls_adopt_startup img tls_base startup thread =
     (if tls_block thread = None then None
      else Some (\<lparr>startup_destructors = [], startup_emutls = None\<rparr>,
        \<lparr>tls_allocation = None, tls_block = Some (startup_block img tls_base),
         tls_destructors = startup_destructors startup, tls_emutls = startup_emutls startup\<rparr>))"

definition tls_thread_delete :: "'d tls_thread \<Rightarrow> 'd tls_thread" where
  "tls_thread_delete thread = \<lparr>tls_allocation = None, tls_block = None, tls_destructors = [], tls_emutls = None\<rparr>"

text \<open>The adopting thread sees the storage of the initial context, at the same addresses.\<close>

lemma adopt_keeps_storage:
  assumes "tls_adopt_startup img tls_base startup thread = Some (startup', thread')"
  shows "read_thread_pointer img tls_base (Some thread') = read_thread_pointer img tls_base None \<and>
    tls_destructors thread' = startup_destructors startup \<and> tls_emutls thread' = startup_emutls startup \<and>
    startup_destructors startup' = []"
  using assms by (auto simp: tls_adopt_startup_def read_thread_pointer_def split: if_splits)

end
