(* ===== verification/Hal_Properties.thy ===== *)
theory Hal_Properties
  imports Hal_Sources Port_Stack Hal_Timer_Worker Hal_Timer_Stm32 Hal_Ethernet_Linux Hal_Ethernet_Stm32
    Hal_Console Hal_Linux_Console Hal_Gpio Runtime_Tls
begin

text \<open>
  The properties of the drivers, the console and thread-local storage, each with a witness. The
  hardware abstraction layer of the microcontroller and the allocator are arguments; the witnesses
  run small concrete ones.
\<close>

section \<open>Timers\<close>





text \<open>C4: The runtime's high-resolution clock over a running Linux timer is exact: with a frequency of
  at most 1 GHz, and a coarse clock less than half a counter turn off, the elapsed time it
  reports is the number of timer ticks since the epoch, over any number of turns of the counter,
  in nanoseconds rounded down.\<close>

theorem linux_timer_clock_exact:
  assumes "m_running t" "m_startedAtNanoseconds t \<le> begun" "begun \<le> now"
    and "timer_frequency t \<noteq> 0" "timer_frequency t \<le> 1000000000"
    and "counter_available c" "counter_epoch c = linux_epoch begun t"
    and "E = total_ticks t (unat now) - total_ticks t (unat begun)" "E < 2 ^ 63"
    and "thread_ticks_to_counter_ticks (current_ticks - epoch_ticks c) (ucast (getTickFrequencyHz t)) = Some coarse"
    and "2 * unat coarse < 2 * E + timer_period t" "2 * E < 2 * unat coarse + timer_period t"
    and "E * 1000000000 div timer_frequency t \<le> 9223372036854775807"
  shows "high_resolution_elapsed_nanoseconds (Some (linux_reading now t)) current_ticks c =
    (Some (int (E * 1000000000 div timer_frequency t)), c)"
  using assms by (rule linux_clock_elapsed)

definition clock_timer :: linux_timer where
  "clock_timer = apply_call Start 0 (new_timer 1000000 0 999999 0)"

definition clock_of_timer :: clock where
  "clock_of_timer = \<lparr>tick_epoch = 0, last_tick = 0, epoch_nanoseconds = 0, epoch_ticks = 0, last_system_time = 0,
     counter_epoch = linux_epoch 0 clock_timer, epoch_available = True, counter_available = True\<rparr>"

theorem linux_timer_clock_exact_witness:
  "high_resolution_elapsed_nanoseconds (Some (linux_reading 3700000000 clock_timer)) 3500 clock_of_timer =
     (Some 3700000000, clock_of_timer)"
proof -
  have live: "m_running clock_timer \<and> m_startedAtNanoseconds clock_timer = 0" by code_simp
  have rate: "timer_frequency clock_timer = 1000000" "getTickFrequencyHz clock_timer = 1000000" "timer_period clock_timer = 1000000"
    by (simp_all add: clock_timer_def start_def new_timer_def timer_frequency_def getTickFrequencyHz_def timer_period_def
        captureCounter_def Let_def)
  have "m_counter clock_timer = 0" by code_simp
  then have ticks: "total_ticks clock_timer 3700000000 = 3700000" "total_ticks clock_timer 0 = 0"
    by (simp_all add: total_ticks_def ticks_since_start_def rate live)
  have coarse: "thread_ticks_to_counter_ticks (3500 - epoch_ticks clock_of_timer) (ucast (getTickFrequencyHz clock_timer)) =
      Some 3500000"
    by (simp add: rate clock_of_timer_def thread_ticks_to_counter_ticks_def Let_def time_constants)
  have clock: "counter_available clock_of_timer" "counter_epoch clock_of_timer = linux_epoch 0 clock_timer"
    by (simp_all add: clock_of_timer_def)
  show ?thesis
    using linux_timer_clock_exact [OF _ _ _ _ _ clock _ _ coarse, of 3700000000 3700000] live by (simp add: rate ticks)
qed

section \<open>Frames\<close>

text \<open>C23: The socket filter of the Linux driver agrees with the classification of the portable
  interface: for a type that is not a tag, and a frame that does not begin with three or more VLAN
  tags, the kernel passes the frame exactly when \<open>frameEtherType\<close> finds that type.\<close>

theorem receive_filter_agrees:
  assumes "\<not> is_tag type"
    and "length frame < 26 \<or> (\<exists>j < 3. read_ether_type frame (12 + 4 * j) \<noteq> VLAN \<and> read_ether_type frame (12 + 4 * j) \<noteq> SERVICE_VLAN)"
  shows "filter_passes type frame \<longleftrightarrow> frameEtherType frame = Some type"
proof -
  have "\<not> (14 + 4 * 3 \<le> length frame \<and> (\<forall>j < 3. is_tag (read_ether_type frame (12 + 4 * j))))"
    using assms(2) by (auto simp: is_tag_def)
  then show ?thesis using filter_agrees [OF assms(1)] filter_complete by blast
qed

theorem receive_filter_agrees_witness:
  "filter_passes 0x88A4 (replicate 12 0 @ [0x81, 0, 0, 1, 0x88, 0xA4]) \<and>
     frameEtherType (replicate 12 0 @ [0x81, 0, 0, 1, 0x88, 0xA4]) = Some 0x88A4"
proof -
  let ?frame = "replicate 12 0 @ [0x81, 0, 0, 1, 0x88, 0xA4] :: u8 list"
  have "filter_passes 0x88A4 ?frame"
    by (simp add: filter_passes_eq read_ether_type_def is_tag_def VLAN_def SERVICE_VLAN_def nth_append)
  moreover have "filter_passes 0x88A4 ?frame \<longleftrightarrow> frameEtherType ?frame = Some 0x88A4"
    by (rule receive_filter_agrees) (simp_all add: is_tag_def VLAN_def SERVICE_VLAN_def)
  ultimately show ?thesis by blast
qed

section \<open>Console\<close>




section \<open>Pins\<close>




section \<open>Ethernet of the microcontroller\<close>

text \<open>C5: A receive call of the STM32 driver neither loses nor frees twice a DMA buffer: given a HAL that
  takes the buffers of the packet it returns out of those it owns, the slots in use after the call
  are those the HAL still owns, whether the packet was delivered, refused or discarded; and the
  data fit the caller's buffer and the largest frame.\<close>

theorem receive_slots_accounted:
  assumes "stm32_receive hal capacity timeout t = Some (r, t')"
    and "receives_ok hal owned" and "in_use (rx_slots t) = owned (hal_state t)"
  shows "in_use (rx_slots t') = owned (hal_state t') \<and>
    (\<forall>data. r = Inr data \<longrightarrow> length data \<le> capacity \<and> length data \<le> MAX_FRAME_SIZE)"
proof (cases "capacity = 0 \<or> timeout < 0 \<or> \<not> running t")
  case True
  then show ?thesis using assms(1,3) by (auto simp: stm32_receive_def split: if_splits)
next
  case False
  obtain started h where tick: "HAL_GetTick hal (hal_state t) = (started, h)" by fastforce
  obtain slots h' where loop: "stm32_receive_loop hal (rx_type t) capacity started (timeout_milliseconds timeout) (rx_slots t, h) =
      Some (r, slots, h')" and t': "t' = t\<lparr>rx_slots := slots, hal_state := h'\<rparr>"
    using assms(1) False tick by (auto simp: stm32_receive_def)
  have "owned h = owned (hal_state t)" using assms(2) tick by (metis receives_ok_def snd_conv)
  then have "accounted owned capacity (r, slots, h')"
    using stm32_receive_loop_accounted [OF loop assms(2)] assms(3) by simp
  then show ?thesis by (auto simp: accounted_def t' MAX_FRAME_SIZE_def)
qed

text \<open>A HAL that does nothing, one with a queue of slots to deliver, and one whose state says whether it reads the transmit buffer.\<close>

definition idle_hal :: "'h eth_hal" where
  "idle_hal = \<lparr>HAL_GetTick = (\<lambda>h. (0, h)), HAL_ETH_ReadPHYRegister = (\<lambda>_ _ h. ((HAL_OK, 0), h)),
     HAL_ETH_GetMACConfig = (\<lambda>h. ((HAL_OK, \<lparr>speed_10m = False, half_duplex = False, drop_checksum_errors = False,
       transmit_flow_control = False, receive_flow_control = False, giant_limit_control = False, giant_limit = 0\<rparr>), h)), HAL_ETH_SetMACConfig = (\<lambda>_ h. (HAL_OK, h)),
     HAL_ETH_GetMACFilterConfig = (\<lambda>h. ((HAL_OK, False), h)), HAL_ETH_SetMACFilterConfig = (\<lambda>_ h. (HAL_OK, h)),
     HAL_ETH_Init = Pair HAL_OK, HAL_ETH_Start = Pair HAL_OK, HAL_ETH_Stop = Pair HAL_OK,
     HAL_ETH_ReadData = Pair (HAL_ERROR, None), HAL_ETH_GetRxDataErrorCode = Pair 0, desc3_own = (\<lambda>_. Pair False),
     desc3_error = (\<lambda>_. Pair False), fatal_bus_error = Pair False, HAL_ETH_ReleaseTxPacket = (\<lambda>h. h),
     current_descriptor = (\<lambda>_. 0), HAL_ETH_Transmit_IT = (\<lambda>_ _. Pair HAL_OK), mac_address_of = (\<lambda>_. Some [2, 0, 0, 0, 0, 1]),
     sleep_tick = (\<lambda>h. h)\<rparr>"

definition receiving_hal :: "nat list eth_hal" where
  "receiving_hal = idle_hal\<lparr>HAL_ETH_ReadData := (\<lambda>(slots, queue).
     case queue of
       [] \<Rightarrow> ((HAL_ERROR, None), slots, [])
     | i # rest \<Rightarrow> ((HAL_OK, Some i),
         slots[i := (slots ! i)\<lparr>link_buffer := Some i, link_len := 60, link_next := None\<rparr>], removeAll i rest))\<rparr>"

lemma receiving_hal_read:
  assumes "in_use slots = set h" "HAL_ETH_ReadData receiving_hal (slots, h) = ((status, p), slots', h')"
  shows "if status = HAL_OK \<and> p \<noteq> None
      then \<exists>is. chain p slots' = Some is \<and> distinct is \<and> set is \<inter> set h' = {} \<and> in_use slots' = set h' \<union> set is
      else in_use slots' = set h'"
proof (cases h)
  case Nil
  then show ?thesis using assms by (simp add: receiving_hal_def)
next
  case (Cons i rest)
  then have i: "i < length slots" "allocated (slots ! i)" using assms(1) by (auto simp: in_use_def)
  let ?slot = "(slots ! i)\<lparr>link_buffer := Some i, link_len := 60, link_next := None\<rparr>"
  have r: "status = HAL_OK" "p = Some i" "slots' = slots[i := ?slot]" "h' = removeAll i rest"
    using assms(2) Cons by (auto simp: receiving_hal_def)
  obtain n where n: "length slots = Suc n" using i(1) by (cases "length slots") auto
  have "chain p slots' = Some [i]" using i(1) n by (simp add: chain_def r)
  moreover have "in_use slots' = in_use slots" using i by (auto simp: in_use_def r nth_list_update)
  ultimately show ?thesis using assms(1) Cons by (auto simp: r(1,2,4))
qed

lemma receiving_hal_ok: "receives_ok receiving_hal set"
proof (unfold receives_ok_def, intro conjI allI impI, goal_cases)
  case (1 slots h status p slots' h')
  then show ?case by (rule receiving_hal_read)
qed (simp_all add: receiving_hal_def idle_hal_def)

definition receiving_ethernet :: "nat list stm32_ethernet" where
  "receiving_ethernet = \<lparr>hal_state = [0], rx_slots = [\<lparr>link_buffer = None, link_len = 0, link_next = None,
     slot_data = replicate 60 7, allocated = True\<rparr>], tx_frame = [], rx_type = None, phy_address = 0, m_promiscuous = False,
     running = True, pending_transmit = None\<rparr>"

theorem receive_slots_accounted_witness:
  "\<exists>t'. stm32_receive receiving_hal 64 0 receiving_ethernet = Some (Inr (replicate 60 7), t') \<and>
     in_use (rx_slots t') = set (hal_state t')"
proof -
  have "\<exists>t'. stm32_receive receiving_hal 64 0 receiving_ethernet = Some (Inr (replicate 60 7), t')"
    by (simp add: stm32_receive_def receiving_ethernet_def, subst stm32_receive_loop.simps)
      (simp add: receiving_hal_def idle_hal_def handle_packet_def chain_def packet_size_def packet_bytes_def slot_bytes_def MAX_FRAME_SIZE_def)
  then obtain t' where r: "stm32_receive receiving_hal 64 0 receiving_ethernet = Some (Inr (replicate 60 7), t')" by blast
  have "in_use (rx_slots receiving_ethernet) = set (hal_state receiving_ethernet)"
    by (auto simp: receiving_ethernet_def in_use_def)
  then have "in_use (rx_slots t') = set (hal_state t')" using receive_slots_accounted [OF r receiving_hal_ok] by blast
  then show ?thesis using r by blast
qed





section \<open>Thread-local storage\<close>

fun emutls_calls :: "'m allocator \<Rightarrow> (nat \<times> 'k) list \<Rightarrow> ('k, 'm) emutls \<Rightarrow> ('k, 'm) emutls option" where
  "emutls_calls alloc [] s = Some s"
| "emutls_calls alloc ((thread, k) # calls) s =
     (case emutls_get_address alloc thread k s of None \<Rightarrow> None | Some (_, s) \<Rightarrow> emutls_calls alloc calls s)"

lemma emutls_calls_keep:
  "emutls_calls alloc calls s = Some s' \<Longrightarrow> emutls_ok s \<Longrightarrow>
     emutls_ok s' \<and> (\<forall>t j a. entry_of s t j = Some a \<longrightarrow> entry_of s' t j = Some a)"
proof (induction alloc calls s rule: emutls_calls.induct)
  case (2 alloc thread k calls s)
  then obtain a u where a: "emutls_get_address alloc thread k s = Some (a, u)" by (auto split: option.splits)
  then show ?case using 2 emutls_get_address_entry [OF a] by (auto split: option.splits)
qed simp

text \<open>C40: The address of an emulated thread-local object never moves: between two calls of
  \<open>__emutls_get_address\<close> by the same context for the same object, any calls by any contexts for any
  objects may come, numbering new objects, allocating and growing the arrays of the contexts, and
  both calls return the same address.\<close>

theorem emutls_address_stable:
  assumes "emutls_ok s" and "emutls_get_address alloc thread k s = Some (a, s1)"
    and "emutls_calls alloc calls s1 = Some s2" and "emutls_get_address alloc thread k s2 = Some (b, s3)"
  shows "b = a"
proof -
  have s1: "emutls_ok s1" "entry_of s1 thread k = Some a" using emutls_get_address_entry [OF assms(2,1)] by simp_all
  have s2: "emutls_ok s2" "entry_of s2 thread k = Some a" using emutls_calls_keep [OF assms(3) s1(1)] s1(2) by blast+
  show ?thesis using emutls_get_address_again [OF s2(2) assms(4) s2(1)] .
qed

definition bump :: "u32 allocator" where
  "bump n m = (Some m, m + n)"

definition fresh_emutls :: "(nat, u32) emutls" where
  "fresh_emutls = \<lparr>objects = (\<lambda>_. \<lparr>object_size = 4, object_alignment = 4, location = 0, initializer = None\<rparr>),
     emutls_object_count = 0, arrays = (\<lambda>_. None), object_bytes = (\<lambda>_. []), heap = 0x1000\<rparr>"

theorem emutls_address_stable_witness:
  "\<exists>a s1 s2 s3. emutls_get_address bump 0 7 fresh_emutls = Some (a, s1) \<and>
     emutls_calls bump [(1, 7), (0, 8), (1, 9)] s1 = Some s2 \<and> emutls_get_address bump 0 7 s2 = Some (a, s3)"
proof -
  have "emutls_calls bump [(0, 7), (1, 7), (0, 8), (1, 9), (0, 7)] fresh_emutls \<noteq> None" by code_simp
  then obtain a s1 s2 b s3 where r: "emutls_get_address bump 0 7 fresh_emutls = Some (a, s1)"
    "emutls_calls bump [(1, 7), (0, 8), (1, 9)] s1 = Some s2" "emutls_get_address bump 0 7 s2 = Some (b, s3)"
    by (auto split: option.splits)
  have "emutls_ok fresh_emutls" by (simp add: emutls_ok_def fresh_emutls_def)
  then have "b = a" by (rule emutls_address_stable [OF _ r])
  then show ?thesis using r by blast
qed


section \<open>The real-time clock\<close>

text \<open>C14: A time that the STM32 clock reports is the date and the time of day in the registers, with the
  fraction of the second rounded down to nanoseconds: converting it back gives the registers. It is always
  accepted as the epoch of the runtime's clocks.\<close>

theorem rtc_time_is_calendar:
  assumes "rtc_get_time (time_status, time) (date_status, date) = Inr t"
  shows "civil_from_days (seconds_since_epoch t div 86400) = (2000 + uint (Year date), uint (Month date), uint (Date date)) \<and>
    seconds_since_epoch t mod 86400 = uint (Hours time) * 3600 + uint (Minutes time) * 60 + uint (Seconds time) \<and>
    unat (ts_nanoseconds t) =
      (unat (SecondFraction time) - unat (SubSeconds time)) * 1000000000 div (unat (SecondFraction time) + 1) \<and>
    epoch_available (set_system_epoch (Some t) c)"
  using rtc_time_roundtrip [OF assms] rtc_time_usable [OF assms] by (simp add: set_system_epoch_def)

definition leap_day_time :: RTC_TimeTypeDef where
  "leap_day_time = \<lparr>Hours = 23, Minutes = 59, Seconds = 58, SubSeconds = 63, SecondFraction = 255\<rparr>"

definition leap_day_date :: RTC_DateTypeDef where
  "leap_day_date = \<lparr>Month = 2, Date = 29, Year = 24\<rparr>"

theorem rtc_time_is_calendar_witness:
  "\<exists>t. rtc_get_time (HAL_OK, leap_day_time) (HAL_OK, leap_day_date) = Inr t \<and>
    civil_from_days (seconds_since_epoch t div 86400) = (2024, 2, 29) \<and> seconds_since_epoch t mod 86400 = 86398 \<and>
    unat (ts_nanoseconds t) = 750000000"
proof -
  obtain t where "rtc_get_time (HAL_OK, leap_day_time) (HAL_OK, leap_day_date) = Inr t"
    using rtc_time_defined [of HAL_OK leap_day_time HAL_OK leap_day_date]
    by (auto simp: leap_day_time_def leap_day_date_def valid_date_def days_in_month_def is_leap_year_def)
  then show ?thesis using rtc_time_is_calendar [of HAL_OK leap_day_time HAL_OK leap_day_date t]
    by (simp add: leap_day_time_def leap_day_date_def)
qed

section \<open>Stacks of the Linux port\<close>

text \<open>C27: After a calibration the high-water mark that ThreadX reads is the logical address of the lowest host
  stack pointer sampled since, whatever pointers outside the host stack were sampled too; it stays inside the
  stack that ThreadX knows, a word above its lower end and two words below its upper end.\<close>

theorem high_water_mark_exact:
  assumes "measurable w t" and "tx_thread_extension t = Some info" and "on_stack info baseline"
  shows "tx_thread_stack_highest_ptr (fold (capture_current True w) samples (stack_calibrate True w baseline t)) =
      logical_of w t baseline (Min (set (baseline # filter (on_stack info) samples))) \<and>
    unat (tx_thread_stack_start t) + unat w \<le>
      unat (tx_thread_stack_highest_ptr (fold (capture_current True w) samples (stack_calibrate True w baseline t))) \<and>
    unat (tx_thread_stack_highest_ptr (fold (capture_current True w) samples (stack_calibrate True w baseline t))) + 2 * unat w \<le>
      unat (tx_thread_stack_end t) + 1"
  unfolding calibrated_high_water [OF assms] using logical_of_facts [OF assms(1)] by simp

definition sampled_thread :: port_thread where
  "sampled_thread = \<lparr>is_thread = True, tx_thread_stack_size = 4096, tx_thread_stack_start = 0x1000, tx_thread_stack_end = 0x1FFF,
     tx_thread_stack_ptr = 0, tx_thread_stack_highest_ptr = 0,
     tx_thread_extension = Some \<lparr>host_stack_base = 0x70000, host_stack_size = 0x6000, signal_stack_size = 8192,
       baseline_host_stack_ptr = 0\<rparr>\<rparr>"

theorem high_water_mark_exact_witness:
  "tx_thread_stack_highest_ptr (fold (capture_current True 8) [0x75E00, 0x75D04, 0x75E80, 0x100] (stack_calibrate True 8 0x75F00 sampled_thread)) = 0x1DF0"
proof -
  let ?info = "\<lparr>host_stack_base = 0x70000, host_stack_size = 0x6000, signal_stack_size = 8192, baseline_host_stack_ptr = 0\<rparr>"
  have "\<exists>k. (8 :: nat) = 2 ^ k \<and> k < 62" by (rule exI [of _ 3]) simp
  then have "measurable 8 sampled_thread"
    by (simp add: measurable_def port_stack_ok_def sampled_thread_def logical_top_def logical_bottom_def align_down_def)
  moreover have "on_stack ?info 0x75F00" "filter (on_stack ?info) [0x75E00, 0x75D04, 0x75E80, 0x100] = [0x75E00, 0x75D04, 0x75E80]"
    by (simp_all add: on_stack_def)
  ultimately show ?thesis
    using high_water_mark_exact [of 8 sampled_thread ?info "0x75F00" "[0x75E00, 0x75D04, 0x75E80, 0x100]"]
    by (simp add: logical_of_def logical_address_def logical_top_def logical_bottom_def align_down_def Let_def sampled_thread_def)
qed

end
