(* ===== verification/Runtime_Atomic.thy ===== *)
theory Runtime_Atomic
  imports Nucleo_Prelude
begin

text \<open>
  The atomic operations of the STM32 runtime (\<^verbatim>\<open>platform/runtime/libstdcxx/atomic.cpp\<close>), on the bytes
  of the objects. Each operation runs with interrupts masked on a single core, so it is one step.
  A 64-bit object is the list of its eight bytes, lowest first.
\<close>

section \<open>Values and bytes\<close>

fun read_from :: "nat \<Rightarrow> u8 list \<Rightarrow> u64 \<Rightarrow> u64" where
  "read_from index [] value = value"
| "read_from index (b # bytes) value = read_from (index + 1) bytes (value OR push_bit (index * 8) (ucast b))"

definition read_value :: "u8 list \<Rightarrow> u64" where
  "read_value bytes = read_from 0 bytes 0"

definition write_value :: "u64 \<Rightarrow> u8 list" where
  "write_value value = map (\<lambda>index. ucast (drop_bit (index * 8) value)) [0..<8]"

lemma bit_read_from:
  "n < 64 \<Longrightarrow> bit (read_from i bytes v) n \<longleftrightarrow>
     bit v n \<or> (i * 8 \<le> n \<and> n < (i + length bytes) * 8 \<and> bit (bytes ! ((n - i * 8) div 8)) ((n - i * 8) mod 8))"
proof (induction i bytes v rule: read_from.induct)
  case (1 i v)
  then show ?case by auto
next
  case (2 i b bytes v)
  have step: "bit (read_from i (b # bytes) v) n \<longleftrightarrow>
      bit (v OR push_bit (i * 8) (ucast b)) n \<or>
      ((i + 1) * 8 \<le> n \<and> n < (i + 1 + length bytes) * 8 \<and> bit (bytes ! ((n - (i + 1) * 8) div 8)) ((n - (i + 1) * 8) mod 8))"
    using 2 by simp
  have low: "bit (v OR push_bit (i * 8) (ucast b)) n \<longleftrightarrow> bit v n \<or> i * 8 \<le> n \<and> n < i * 8 + 8 \<and> bit b (n - i * 8)"
    using 2(2) bit_imp_le_length [of b "n - i * 8"] by (auto simp: bit_simps)
  consider "n < i * 8" | "i * 8 \<le> n" "n < i * 8 + 8" | "i * 8 + 8 \<le> n" by linarith
  then show ?case
  proof cases
    case 1
    then show ?thesis unfolding step low by simp
  next
    case 2
    then have "(n - i * 8) div 8 = 0" "(n - i * 8) mod 8 = n - i * 8" by simp_all
    then show ?thesis unfolding step low using 2 by simp
  next
    case 3
    define m where "m = n - (i + 1) * 8"
    have "n - i * 8 = m + 8" using 3 by (simp add: m_def)
    then have "(n - i * 8) div 8 = Suc (m div 8)" "(n - i * 8) mod 8 = m mod 8" by simp_all
    then show ?thesis unfolding step low m_def [symmetric] using 3 by (simp add: algebra_simps)
  qed
qed

lemma bit_read_value:
  assumes "length bytes = 8" "n < 64"
  shows "bit (read_value bytes) n \<longleftrightarrow> bit (bytes ! (n div 8)) (n mod 8)"
  using assms by (simp add: read_value_def bit_read_from)

lemma length_write_value [simp]: "length (write_value value) = 8"
  by (simp add: write_value_def)

lemma bit_write_value:
  assumes "i < 8" "k < 8"
  shows "bit (write_value value ! i) k \<longleftrightarrow> bit value (i * 8 + k)"
  using assms by (simp add: write_value_def bit_simps ac_simps)

text \<open>Writing and reading are inverse to each other.\<close>

lemma read_write_value: "read_value (write_value value) = value"
proof (rule bit_word_eqI)
  fix n
  assume "n < LENGTH(64)"
  then have n: "n < 64" by simp
  then have "n div 8 < 8" "n mod 8 < 8" by (simp_all add: div_less_iff_less_mult)
  then have "bit (read_value (write_value value)) n \<longleftrightarrow> bit value (n div 8 * 8 + n mod 8)"
    using n by (simp add: bit_read_value bit_write_value)
  then show "bit (read_value (write_value value)) n \<longleftrightarrow> bit value n" by (simp only: div_mult_mod_eq)
qed

lemma write_read_value:
  assumes "length bytes = 8"
  shows "write_value (read_value bytes) = bytes"
proof (rule nth_equalityI)
  show "length (write_value (read_value bytes)) = length bytes" using assms by simp
  fix i
  assume "i < length (write_value (read_value bytes))"
  then have i: "i < 8" by simp
  show "write_value (read_value bytes) ! i = bytes ! i"
  proof (rule bit_word_eqI)
    fix k
    assume "k < LENGTH(8)"
    then have k: "k < 8" by simp
    then have "(i * 8 + k) div 8 = i" "(i * 8 + k) mod 8 = k" "i * 8 + k < 64" using i by simp_all
    then show "bit (write_value (read_value bytes) ! i) k \<longleftrightarrow> bit (bytes ! i) k"
      using i k assms by (simp add: bit_write_value bit_read_value)
  qed
qed

section \<open>The sized operations\<close>

definition atomic_load_8 :: "u8 list \<Rightarrow> u64" where
  "atomic_load_8 object = read_value object"

definition atomic_store_8 :: "u64 \<Rightarrow> u8 list \<Rightarrow> u8 list" where
  "atomic_store_8 value object = write_value value"

definition atomic_exchange_8 :: "u64 \<Rightarrow> u8 list \<Rightarrow> u64 \<times> u8 list" where
  "atomic_exchange_8 value object = (let previous = read_value object in (previous, write_value value))"

definition atomic_compare_exchange_8 :: "u64 \<Rightarrow> u64 \<Rightarrow> u8 list \<Rightarrow> bool \<times> u64 \<times> u8 list" where
  "atomic_compare_exchange_8 expected desired object =
     (let current = read_value object
      in if current = expected then (True, expected, write_value desired) else (False, current, object))"

definition fetch_update :: "(u64 \<Rightarrow> u64 \<Rightarrow> u64) \<Rightarrow> u64 \<Rightarrow> u8 list \<Rightarrow> u64 \<times> u8 list" where
  "fetch_update operation operand object =
     (let previous = read_value object in (previous, write_value (operation previous operand)))"

datatype fetch_operation = Fetch_add | Fetch_sub | Fetch_and | Fetch_or | Fetch_xor | Fetch_nand

fun fetch_expression :: "fetch_operation \<Rightarrow> u64 \<Rightarrow> u64 \<Rightarrow> u64" where
  "fetch_expression Fetch_add left right = left + right"
| "fetch_expression Fetch_sub left right = left - right"
| "fetch_expression Fetch_and left right = left AND right"
| "fetch_expression Fetch_or left right = left OR right"
| "fetch_expression Fetch_xor left right = left XOR right"
| "fetch_expression Fetch_nand left right = NOT (left AND right)"

definition atomic_fetch_8 :: "fetch_operation \<Rightarrow> u64 \<Rightarrow> u8 list \<Rightarrow> u64 \<times> u8 list" where
  "atomic_fetch_8 op value object = fetch_update (fetch_expression op) value object"

definition atomic_op_fetch_8 :: "fetch_operation \<Rightarrow> u64 \<Rightarrow> u8 list \<Rightarrow> u64 \<times> u8 list" where
  "atomic_op_fetch_8 op value object =
     (let (previous, object) = atomic_fetch_8 op value object in (fetch_expression op previous value, object))"

definition atomic_is_lock_free :: "nat \<Rightarrow> nat \<Rightarrow> bool" where
  "atomic_is_lock_free len pointer \<longleftrightarrow> len = 1 \<or> (len = 2 \<or> len = 4) \<and> pointer mod len = 0"

text \<open>Refinement: on the value the bytes stand for, each operation is the one of its name.\<close>

lemma atomic_refinement:
  assumes "length object = 8"
  shows "read_value (atomic_store_8 v object) = v"
    and "atomic_exchange_8 v object = (read_value object, write_value v)"
    and "read_value (snd (atomic_fetch_8 op v object)) = fetch_expression op (read_value object) v"
    and "fst (atomic_fetch_8 op v object) = read_value object"
    and "fst (atomic_op_fetch_8 op v object) = read_value (snd (atomic_op_fetch_8 op v object))"
    and "fst (atomic_compare_exchange_8 e d object) \<longleftrightarrow> read_value object = e"
    and "read_value (snd (snd (atomic_compare_exchange_8 e d object))) = (if read_value object = e then d else read_value object)"
    and "fst (snd (atomic_compare_exchange_8 e d object)) = read_value object"
  using assms
  by (auto simp: atomic_store_8_def atomic_exchange_8_def atomic_fetch_8_def atomic_op_fetch_8_def fetch_update_def
      atomic_compare_exchange_8_def Let_def read_write_value)

section \<open>The generic operations\<close>

fun copy_bytes :: "nat \<Rightarrow> u8 list \<Rightarrow> u8 list \<Rightarrow> u8 list" where
  "copy_bytes 0 source destination = destination"
| "copy_bytes (Suc n) source destination = (copy_bytes n source destination)[n := source ! n]"

fun equal_bytes :: "nat \<Rightarrow> u8 list \<Rightarrow> u8 list \<Rightarrow> bool" where
  "equal_bytes 0 left right \<longleftrightarrow> True"
| "equal_bytes (Suc n) left right \<longleftrightarrow> equal_bytes n left right \<and> left ! n = right ! n"

definition atomic_load :: "nat \<Rightarrow> u8 list \<Rightarrow> u8 list \<Rightarrow> u8 list" where
  "atomic_load len object result = copy_bytes len object result"

definition atomic_store :: "nat \<Rightarrow> u8 list \<Rightarrow> u8 list \<Rightarrow> u8 list" where
  "atomic_store len object value = copy_bytes len value object"

fun exchange_bytes :: "nat \<Rightarrow> u8 list \<Rightarrow> u8 list \<Rightarrow> u8 list \<Rightarrow> u8 list \<times> u8 list" where
  "exchange_bytes 0 value object result = (object, result)"
| "exchange_bytes (Suc n) value object result =
     (let (object, result) = exchange_bytes n value object result
      in (object[n := value ! n], result[n := object ! n]))"

definition atomic_exchange :: "nat \<Rightarrow> u8 list \<Rightarrow> u8 list \<Rightarrow> u8 list \<Rightarrow> u8 list \<times> u8 list" where
  "atomic_exchange len object value result = exchange_bytes len value object result"

definition atomic_compare_exchange :: "nat \<Rightarrow> u8 list \<Rightarrow> u8 list \<Rightarrow> u8 list \<Rightarrow> bool \<times> u8 list \<times> u8 list" where
  "atomic_compare_exchange len object expected desired =
     (if equal_bytes len object expected then (True, copy_bytes len desired object, expected)
      else (False, object, copy_bytes len object expected))"

lemma copy_bytes_take:
  "n \<le> length source \<Longrightarrow> n \<le> length destination \<Longrightarrow> copy_bytes n source destination = take n source @ drop n destination"
proof (induction n)
  case (Suc n)
  then have "copy_bytes (Suc n) source destination = (take n source @ drop n destination)[n := source ! n]" by simp
  also have "\<dots> = take n source @ (drop n destination)[0 := source ! n]" using Suc.prems by (simp add: list_update_append)
  also have "drop n destination = destination ! n # drop (Suc n) destination" using Suc.prems by (simp add: Cons_nth_drop_Suc)
  finally show ?case using Suc.prems by (simp add: take_Suc_conv_app_nth)
qed simp

lemma equal_bytes_take: "n \<le> length left \<Longrightarrow> n \<le> length right \<Longrightarrow> equal_bytes n left right \<longleftrightarrow> take n left = take n right"
  by (induction n) (auto simp: take_Suc_conv_app_nth)

lemma exchange_bytes_take:
  assumes "n \<le> length value" "n \<le> length object" "n \<le> length result"
  shows "exchange_bytes n value object result = (take n value @ drop n object, take n object @ drop n result)"
  using assms
proof (induction n)
  case (Suc n)
  then have "exchange_bytes n value object result = (take n value @ drop n object, take n object @ drop n result)" by simp
  moreover have "drop n object = object ! n # drop (Suc n) object" "drop n result = result ! n # drop (Suc n) result"
    using Suc.prems by (simp_all add: Cons_nth_drop_Suc)
  ultimately show ?case using Suc.prems
    by (simp add: list_update_append take_Suc_conv_app_nth nth_append)
qed simp

text \<open>On whole objects: a load copies, a store replaces, an exchange swaps, and a compare-exchange does one of two.\<close>

lemma generic_atomics:
  assumes "length object = n" "length other = n" "length desired = n"
  shows "atomic_load n object other = object"
    and "atomic_store n object other = other"
    and "atomic_exchange n object other desired = (other, object)"
    and "atomic_compare_exchange n object other desired =
      (if object = other then (True, desired, other) else (False, object, object))"
  using assms
  by (simp_all add: atomic_load_def atomic_store_def atomic_exchange_def atomic_compare_exchange_def copy_bytes_take
      exchange_bytes_take equal_bytes_take)

section \<open>Callbacks at the exit of a thread\<close>

text \<open>
  \<^verbatim>\<open>thread_exit.cpp\<close>: the registered elements form a list, the newest first, held under a key of the
  runtime; the exit walks the list it finds.
\<close>

definition at_thread_exit :: "bool \<Rightarrow> bool \<Rightarrow> 'e \<Rightarrow> 'e list \<Rightarrow> 'e list option" where
  "at_thread_exit key_ready set_succeeds element registered =
     (if \<not> key_ready \<or> \<not> set_succeeds then None else Some (element # registered))"

definition run_current_thread_exit_callbacks :: "'e list \<Rightarrow> 'e list \<times> 'e list" where
  "run_current_thread_exit_callbacks registered = (registered, [])"

lemma callbacks_in_reverse:
  assumes "fold (\<lambda>e s. Option.bind s (at_thread_exit True True e)) es (Some []) = Some registered"
  shows "fst (run_current_thread_exit_callbacks registered) = rev es"
proof -
  have "fold (\<lambda>e s. Option.bind s (at_thread_exit True True e)) es (Some r) = Some (rev es @ r)" for r
    by (induction es arbitrary: r) (simp_all add: at_thread_exit_def)
  then show ?thesis using assms by (simp add: run_current_thread_exit_callbacks_def)
qed

end
