(* ===== verification/Runtime_Libc.thy ===== *)
theory Runtime_Libc
  imports Runtime_Time
begin

text \<open>
  The C library port: the locks Newlib retargets to ThreadX mutexes (\<^verbatim>\<open>platform/runtime/libc/libc.c\<close>)
  and the processor-time clock (\<^verbatim>\<open>cpu_clock.c\<close>, \<^verbatim>\<open>cpu_clock.h\<close>). \<open>None\<close> stands for
  \<open>libc_lock_failure\<close>, which does not return. A dynamic lock is identified by the order of its
  allocation; the list of the code, newest first, is the list of the locks in that order, reversed.
\<close>

section \<open>Locks\<close>

record lock =
  lock_created :: bool
  lock_allocated :: bool

record libc_locks =
  static_created :: "bool list"
  dynamic_locks :: "lock list"
  pool_created :: bool
  libc_locks_ready :: bool

definition static_lock_count :: nat where "static_lock_count = 8"

definition initial_locks :: libc_locks where
  "initial_locks = \<lparr>static_created = replicate static_lock_count False, dynamic_locks = [], pool_created = False, libc_locks_ready = False\<rparr>"

text \<open>Who calls: from an interrupt, from a thread, or before the scheduler runs.\<close>

datatype libc_caller = From_interrupt | From_thread | Before_kernel

definition locking_required :: "libc_caller \<Rightarrow> libc_locks \<Rightarrow> bool option" where
  "locking_required who s =
     (case who of
        From_interrupt \<Rightarrow> None
      | Before_kernel \<Rightarrow> Some False
      | From_thread \<Rightarrow> if \<not> libc_locks_ready s then None else Some True)"

datatype lock_id = Static nat | Dynamic nat

definition is_created :: "lock_id \<Rightarrow> libc_locks \<Rightarrow> bool" where
  "is_created l s =
     (case l of
        Static i \<Rightarrow> i < length (static_created s) \<and> static_created s ! i
      | Dynamic i \<Rightarrow> i < length (dynamic_locks s) \<and> lock_created (dynamic_locks s ! i))"

text \<open>
  The three uses of a lock. The result of ThreadX is an argument; \<open>Some None\<close> means no call was made.
\<close>

definition acquire_libc_lock :: "libc_caller \<Rightarrow> lock_id option \<Rightarrow> (lock_id \<Rightarrow> bool) \<Rightarrow> libc_locks \<Rightarrow> lock_id option option" where
  "acquire_libc_lock who l get_succeeds s =
     (case locking_required who s of
        None \<Rightarrow> None
      | Some False \<Rightarrow> Some None
      | Some True \<Rightarrow>
          (case l of None \<Rightarrow> None
           | Some l \<Rightarrow> if \<not> is_created l s \<or> \<not> get_succeeds l then None else Some (Some l)))"

datatype get_status = Get_success | Get_not_available | Get_other

definition try_acquire_libc_lock :: "libc_caller \<Rightarrow> lock_id option \<Rightarrow> (lock_id \<Rightarrow> get_status) \<Rightarrow> libc_locks \<Rightarrow> bool option" where
  "try_acquire_libc_lock who l get s =
     (case locking_required who s of
        None \<Rightarrow> None
      | Some False \<Rightarrow> Some True
      | Some True \<Rightarrow>
          (case l of None \<Rightarrow> None
           | Some l \<Rightarrow>
               if \<not> is_created l s then None
               else (case get l of Get_success \<Rightarrow> Some True | Get_not_available \<Rightarrow> Some False | Get_other \<Rightarrow> None)))"

definition release_libc_lock :: "libc_caller \<Rightarrow> lock_id option \<Rightarrow> (lock_id \<Rightarrow> bool) \<Rightarrow> libc_locks \<Rightarrow> lock_id option option" where
  "release_libc_lock who l put_succeeds s =
     (case locking_required who s of
        None \<Rightarrow> None
      | Some False \<Rightarrow> Some None
      | Some True \<Rightarrow>
          (case l of None \<Rightarrow> None
           | Some l \<Rightarrow> if \<not> is_created l s \<or> \<not> put_succeeds l then None else Some (Some l)))"

text \<open>
  \<open>runtime_libc_initialize\<close>: it creates the static locks, then every dynamic lock allocated so far,
  then the pool's mutex; \<open>creates\<close> answers each creation.
\<close>

definition libc_initialize :: "(lock_id \<Rightarrow> bool) \<Rightarrow> bool \<Rightarrow> libc_locks \<Rightarrow> libc_locks option" where
  "libc_initialize creates pool_creates s =
     (if libc_locks_ready s then Some s
      else if (\<exists>i \<in> set [0..<static_lock_count]. \<not> creates (Static i)) then None
      else if (\<exists>i \<in> set [0..<length (dynamic_locks s)]. \<not> creates (Dynamic i)) then None
      else if \<not> pool_creates then None
      else Some \<lparr>static_created = replicate static_lock_count True,
             dynamic_locks = map (\<lambda>l. l\<lparr>lock_created := True\<rparr>) (dynamic_locks s), pool_created = True, libc_locks_ready = True\<rparr>)"

text \<open>The pool's mutex is taken and released around the search; its failure ends the program.\<close>

definition retarget_lock_init :: "libc_caller \<Rightarrow> bool \<Rightarrow> bool \<Rightarrow> bool \<Rightarrow> libc_locks \<Rightarrow> (nat \<times> libc_locks) option" where
  "retarget_lock_init who pool_works memory_available creates s =
     (case locking_required who s of
        None \<Rightarrow> None
      | Some required \<Rightarrow>
          if required \<and> \<not> pool_works then None
          else
            (case find (\<lambda>i. \<not> lock_allocated (dynamic_locks s ! i)) (rev [0..<length (dynamic_locks s)]) of
               Some i \<Rightarrow> Some (i, s\<lparr>dynamic_locks := (dynamic_locks s)[i := (dynamic_locks s ! i)\<lparr>lock_allocated := True\<rparr>]\<rparr>)
             | None \<Rightarrow>
                 if \<not> memory_available then None
                 else if libc_locks_ready s \<and> \<not> creates then None
                 else Some (length (dynamic_locks s),
                   s\<lparr>dynamic_locks := dynamic_locks s @ [\<lparr>lock_created = libc_locks_ready s, lock_allocated = True\<rparr>]\<rparr>)))"

definition retarget_lock_close :: "libc_caller \<Rightarrow> bool \<Rightarrow> lock_id option \<Rightarrow> libc_locks \<Rightarrow> libc_locks option" where
  "retarget_lock_close who pool_works l s =
     (case l of
        None \<Rightarrow> None
      | Some l \<Rightarrow>
          (case locking_required who s of
             None \<Rightarrow> None
           | Some required \<Rightarrow>
               if required \<and> \<not> pool_works then None
               else
                 (case l of
                    Static i \<Rightarrow> Some s
                  | Dynamic i \<Rightarrow>
                      if i < length (dynamic_locks s)
                      then Some (s\<lparr>dynamic_locks := (dynamic_locks s)[i := (dynamic_locks s ! i)\<lparr>lock_allocated := False\<rparr>]\<rparr>)
                      else Some s)))"

section \<open>Every lock in use is a distinct, created mutex\<close>

text \<open>The steps of a run, with the dynamic locks the C library holds.\<close>

inductive lock_step :: "libc_locks \<times> nat set \<Rightarrow> libc_locks \<times> nat set \<Rightarrow> bool" where
  initialize: "libc_initialize creates pool_creates s = Some s' \<Longrightarrow> lock_step (s, held) (s', held)"
| init: "retarget_lock_init who pool_works memory creates s = Some (i, s') \<Longrightarrow> lock_step (s, held) (s', insert i held)"
| close: "i \<in> held \<Longrightarrow> retarget_lock_close who pool_works (Some (Dynamic i)) s = Some s' \<Longrightarrow> lock_step (s, held) (s', held - {i})"

abbreviation "lock_steps \<equiv> lock_step\<^sup>*\<^sup>*"

fun locks_inv :: "libc_locks \<times> nat set \<Rightarrow> bool" where
  "locks_inv (s, held) \<longleftrightarrow>
     length (static_created s) = static_lock_count \<and>
     held = {i. i < length (dynamic_locks s) \<and> lock_allocated (dynamic_locks s ! i)} \<and>
     (libc_locks_ready s \<longrightarrow>
        pool_created s \<and> (\<forall>i < static_lock_count. static_created s ! i) \<and>
        (\<forall>l \<in> set (dynamic_locks s). lock_created l))"

lemma held_append:
  "P x \<Longrightarrow> {i. i < length (xs @ [x]) \<and> P ((xs @ [x]) ! i)} = insert (length xs) {i. i < length xs \<and> P (xs ! i)}"
  by (auto simp: nth_append split: if_split_asm)

lemma held_update:
  "k < length xs \<Longrightarrow> {i. i < length (xs[k := y]) \<and> P (xs[k := y] ! i)} =
     (if P y then insert k {i. i < length xs \<and> P (xs ! i)} else {i. i < length xs \<and> P (xs ! i)} - {k})"
  by (auto simp: nth_list_update split: if_split_asm)

lemma find_unallocated: "find P (rev [0..<n]) = Some i \<Longrightarrow> i < n \<and> P i"
  by (auto simp: find_Some_iff rev_nth)

lemma retarget_lock_init_some:
  assumes "retarget_lock_init who pool_works memory creates s = Some (i, s')"
  shows "case find (\<lambda>i. \<not> lock_allocated (dynamic_locks s ! i)) (rev [0..<length (dynamic_locks s)]) of
      Some k \<Rightarrow> i = k \<and> s' = s\<lparr>dynamic_locks := (dynamic_locks s)[k := (dynamic_locks s ! k)\<lparr>lock_allocated := True\<rparr>]\<rparr>
    | None \<Rightarrow> i = length (dynamic_locks s) \<and>
        s' = s\<lparr>dynamic_locks := dynamic_locks s @ [\<lparr>lock_created = libc_locks_ready s, lock_allocated = True\<rparr>]\<rparr>"
proof (cases "locking_required who s")
  case (Some required)
  show ?thesis
  proof (cases "required \<and> \<not> pool_works")
    case False
    then show ?thesis using assms
      by (cases "find (\<lambda>i. \<not> lock_allocated (dynamic_locks s ! i)) (rev [0..<length (dynamic_locks s)])")
        (simp_all add: retarget_lock_init_def Some split: if_split_asm)
  qed (use assms Some in \<open>simp add: retarget_lock_init_def\<close>)
qed (use assms in \<open>simp add: retarget_lock_init_def\<close>)

lemma retarget_lock_close_some:
  assumes "retarget_lock_close who pool_works (Some (Dynamic i)) s = Some s'" "i < length (dynamic_locks s)"
  shows "s' = s\<lparr>dynamic_locks := (dynamic_locks s)[i := (dynamic_locks s ! i)\<lparr>lock_allocated := False\<rparr>]\<rparr>"
  using assms by (cases "locking_required who s") (simp_all add: retarget_lock_close_def split: if_split_asm)

text \<open>A lock that is handed out was not in use.\<close>

lemma retarget_lock_init_fresh:
  assumes "retarget_lock_init who pool_works memory creates s = Some (i, s')" "locks_inv (s, held)"
  shows "i \<notin> held \<and> locks_inv (s', insert i held)"
proof (cases "find (\<lambda>i. \<not> lock_allocated (dynamic_locks s ! i)) (rev [0..<length (dynamic_locks s)])")
  case None
  have "i = length (dynamic_locks s)"
    "s' = s\<lparr>dynamic_locks := dynamic_locks s @ [\<lparr>lock_created = libc_locks_ready s, lock_allocated = True\<rparr>]\<rparr>"
    using retarget_lock_init_some [OF assms(1)] unfolding None option.case by blast+
  then show ?thesis using assms(2) held_append [of lock_allocated _ "dynamic_locks s"] by simp
next
  case (Some k)
  then have k: "k < length (dynamic_locks s)" "\<not> lock_allocated (dynamic_locks s ! k)"
    using find_unallocated by blast+
  have "i = k" "s' = s\<lparr>dynamic_locks := (dynamic_locks s)[k := (dynamic_locks s ! k)\<lparr>lock_allocated := True\<rparr>]\<rparr>"
    using retarget_lock_init_some [OF assms(1)] unfolding Some option.case by blast+
  moreover have "\<forall>l \<in> set (dynamic_locks s). lock_created l \<Longrightarrow>
      \<forall>l \<in> set ((dynamic_locks s)[k := (dynamic_locks s ! k)\<lparr>lock_allocated := True\<rparr>]). lock_created l"
    using k(1) by (auto dest!: subsetD [OF set_update_subset_insert])
  ultimately show ?thesis
    using assms(2) k held_update [OF k(1), of "(dynamic_locks s ! k)\<lparr>lock_allocated := True\<rparr>" lock_allocated] by simp
qed

lemma lock_step_inv: "lock_step s s' \<Longrightarrow> locks_inv s \<Longrightarrow> locks_inv s'"
proof (induction rule: lock_step.induct)
  case (initialize creates pool_creates s s' held)
  then show ?case by (auto simp: libc_initialize_def split: if_splits)
next
  case (init who pool_works memory creates s i s' held)
  then show ?case using retarget_lock_init_fresh by blast
next
  case (close i held who pool_works s s')
  then have i: "i < length (dynamic_locks s)" by simp
  then have "s' = s\<lparr>dynamic_locks := (dynamic_locks s)[i := (dynamic_locks s ! i)\<lparr>lock_allocated := False\<rparr>]\<rparr>"
    by (rule retarget_lock_close_some [OF close.hyps(2)])
  moreover have "\<forall>l \<in> set (dynamic_locks s). lock_created l \<Longrightarrow>
      \<forall>l \<in> set ((dynamic_locks s)[i := (dynamic_locks s ! i)\<lparr>lock_allocated := False\<rparr>]). lock_created l"
    using i by (auto dest!: subsetD [OF set_update_subset_insert])
  ultimately show ?case
    using close.prems held_update [OF i, of "(dynamic_locks s ! i)\<lparr>lock_allocated := False\<rparr>" lock_allocated] by simp
qed

lemma lock_steps_inv: "lock_steps s s' \<Longrightarrow> locks_inv s \<Longrightarrow> locks_inv s'"
  by (induction rule: rtranclp_induct) (auto intro: lock_step_inv simp del: locks_inv.simps)

lemma initial_locks_inv: "locks_inv (initial_locks, {})"
  by (simp add: initial_locks_def)

text \<open>
  Once the locks are ready a thread's use of a lock it holds reaches the mutex; before the scheduler
  runs no use needs one.
\<close>

lemma held_lock_usable:
  assumes "lock_steps (initial_locks, {}) (s, held)" "libc_locks_ready s" "i \<in> held" "get (Dynamic i)"
  shows "acquire_libc_lock From_thread (Some (Dynamic i)) get s = Some (Some (Dynamic i))"
proof -
  have "locks_inv (s, held)" using lock_steps_inv [OF assms(1) initial_locks_inv] .
  then have "is_created (Dynamic i) s" using assms(2,3) by (simp add: is_created_def)
  then show ?thesis using assms(2,4) by (simp add: acquire_libc_lock_def locking_required_def)
qed

section \<open>Processor time\<close>

record cpu_clock_counter =
  execution_cycles :: u64
  elapsed_cycles :: u64
  last_cycle :: u32
  clock_running :: bool

definition cpu_clock_initialize :: "u32 \<Rightarrow> cpu_clock_counter" where
  "cpu_clock_initialize cycle = \<lparr>execution_cycles = 0, elapsed_cycles = 0, last_cycle = cycle, clock_running = False\<rparr>"

definition cpu_clock_update :: "u32 \<Rightarrow> cpu_clock_counter \<Rightarrow> cpu_clock_counter" where
  "cpu_clock_update now counter =
     (let elapsed = now - last_cycle counter
      in \<lparr>execution_cycles = (if clock_running counter then execution_cycles counter + ucast elapsed else execution_cycles counter),
          elapsed_cycles = elapsed_cycles counter + ucast elapsed, last_cycle = now, clock_running = clock_running counter\<rparr>)"

definition set_running :: "bool \<Rightarrow> u32 \<Rightarrow> cpu_clock_counter \<Rightarrow> cpu_clock_counter" where
  "set_running running cycle counter = (cpu_clock_update cycle counter)\<lparr>clock_running := running\<rparr>"

definition cpu_clock_ticks :: "u64 \<Rightarrow> u32 \<Rightarrow> u32 \<Rightarrow> u64" where
  "cpu_clock_ticks cycles frequency rate =
     (cycles div ucast frequency) * ucast rate + ((cycles mod ucast frequency) * ucast rate) div ucast frequency"

text \<open>\<open>_times\<close>: the processor time and the elapsed time in hundredths, or an error.\<close>

definition times_sys :: "bool \<Rightarrow> u32 \<Rightarrow> u32 \<Rightarrow> cpu_clock_counter \<Rightarrow> (errno + u32 \<times> u32) \<times> cpu_clock_counter" where
  "times_sys null_value cycle frequency counter =
     (if null_value then (Inl EFAULT, counter)
      else
        (let counter = cpu_clock_update cycle counter
         in if frequency = 0 then (Inl EAGAIN, counter)
            else
              (let execution = cpu_clock_ticks (execution_cycles counter) frequency 100;
                   elapsed = cpu_clock_ticks (elapsed_cycles counter) frequency 100
               in if execution \<ge> 0xFFFFFFFF \<or> elapsed \<ge> 0xFFFFFFFF then (Inl EOVERFLOW, counter)
                  else (Inr (ucast execution, ucast elapsed), counter))))"

text \<open>A run: at each true cycle count the counter is sampled, and the state of running may change.\<close>

fun cpu_run :: "(nat \<times> bool) list \<Rightarrow> cpu_clock_counter \<Rightarrow> cpu_clock_counter" where
  "cpu_run [] c = c"
| "cpu_run ((n, running) # rest) c = cpu_run rest (set_running running (word_of_nat n) c)"

text \<open>The true elapsed and executing cycles, starting at cycle \<open>n\<close>.\<close>

fun true_cycles :: "nat \<Rightarrow> bool \<Rightarrow> (nat \<times> bool) list \<Rightarrow> nat \<times> nat" where
  "true_cycles n running [] = (0, 0)"
| "true_cycles n running ((m, next_running) # rest) =
     (let (elapsed, executed) = true_cycles m next_running rest
      in (m - n + elapsed, (if running then m - n else 0) + executed))"

fun sampled_often :: "nat \<Rightarrow> (nat \<times> bool) list \<Rightarrow> bool" where
  "sampled_often n [] \<longleftrightarrow> True"
| "sampled_often n ((m, r) # rest) \<longleftrightarrow> n \<le> m \<and> m - n < 2 ^ 32 \<and> sampled_often m rest"

lemma cycle_difference:
  assumes "n \<le> m" "m - n < 2 ^ 32"
  shows "ucast (word_of_nat m - word_of_nat n :: u32) = (word_of_nat (m - n) :: u64)"
proof -
  have "word_of_nat m - word_of_nat n = (word_of_nat (m - n) :: u32)" using assms(1) by (simp add: of_nat_diff)
  moreover have "unat (ucast (word_of_nat (m - n) :: u32) :: u64) = unat (word_of_nat (m - n) :: u64)"
    using assms(2) by (simp add: unsigned_ucast_eq unat_of_nat take_bit_nat_eq_self)
  ultimately show ?thesis by (simp only: word_unat_eq_iff [where 'a = 64])
qed

text \<open>Sampled at least once per turn of the 32-bit counter, the sums are the true counts.\<close>

lemma cpu_run_exact:
  assumes "sampled_often n samples" "last_cycle c = word_of_nat n"
  shows "elapsed_cycles (cpu_run samples c) = elapsed_cycles c + word_of_nat (fst (true_cycles n (clock_running c) samples)) \<and>
    execution_cycles (cpu_run samples c) = execution_cycles c + word_of_nat (snd (true_cycles n (clock_running c) samples))"
  using assms
proof (induction samples arbitrary: n c)
  case (Cons a rest)
  obtain m running where a: "a = (m, running)" by fastforce
  let ?c = "set_running running (word_of_nat m) c"
  have often: "n \<le> m" "m - n < 2 ^ 32" "sampled_often m rest" using Cons.prems(1) a by simp_all
  have c: "elapsed_cycles ?c = elapsed_cycles c + word_of_nat (m - n)"
    "execution_cycles ?c = execution_cycles c + (if clock_running c then word_of_nat (m - n) else 0)"
    "last_cycle ?c = word_of_nat m" "clock_running ?c = running"
    using cycle_difference [OF often(1,2)] Cons.prems(2)
    by (simp_all add: set_running_def cpu_clock_update_def Let_def)
  show ?case using Cons.IH [OF often(3) c(3)] c by (simp add: a Let_def case_prod_beta)
qed simp

lemma cpu_clock_ticks_exact:
  assumes "frequency \<noteq> 0" "unat cycles * unat rate div unat frequency < 2 ^ 64"
  shows "unat (cpu_clock_ticks cycles frequency rate) = unat cycles * unat rate div unat frequency"
proof -
  let ?f = "ucast frequency :: u64" and ?r = "ucast rate :: u64"
  have f: "unat ?f = unat frequency" and r: "unat ?r = unat rate"
    using unat_u32_bound [of frequency] unat_u32_bound [of rate] by (simp_all add: unsigned_ucast_eq take_bit_nat_eq_self)
  have pos: "0 < unat frequency" using assms(1) by (simp add: unat_gt_0)
  have "unat (cycles mod ?f) * unat ?r < 4294967296 * 4294967296"
  proof -
    have "unat cycles mod unat frequency < 4294967296" using pos unat_u32_bound [of frequency] by (meson mod_less_divisor order.strict_trans)
    then show ?thesis unfolding unat_mod f r using unat_u32_bound [of rate] by (intro mult_strict_mono) simp_all
  qed
  then have frac: "unat ((cycles mod ?f) * ?r div ?f) = unat cycles mod unat frequency * unat rate div unat frequency"
    by (simp add: unat_fraction unat_mod f r)
  note total = split_scale [OF pos, of "unat cycles" "unat rate"]
  have "unat (cycles div ?f) = unat cycles div unat frequency" by (simp add: unat_div f)
  moreover have "unat cycles div unat frequency * unat rate + unat cycles mod unat frequency * unat rate div unat frequency < 2 ^ 64"
    using total assms(2) by simp
  ultimately show ?thesis unfolding cpu_clock_ticks_def
    using scaled_sum [of "cycles div ?f" ?r "(cycles mod ?f) * ?r div ?f"] frac r total by simp
qed

end
