(* ===== verification/Files_Reent.thy ===== *)
theory Files_Reent
  imports Files_Invariant Hal_Sources
begin

text \<open>
  The calls of the embedded C library in \<^verbatim>\<open>platform/runtime/libc/filesystem.cpp\<close> that wrap the system calls: the
  reentrant forms, which copy errno into the context of the caller, \<^verbatim>\<open>getcwd\<close> with its own buffer, and the calls
  that are not supported. The state has beside the file system the errno of the context, \<open>None\<close> for a null context.
\<close>

section \<open>Reentrant forms\<close>

definition copy_errno_to_reent :: "('s, 'a) act \<Rightarrow> ('s \<times> errno option, 'a) act" where
  "copy_errno_to_reent call = (\<lambda>(s, context).
     case call s of
       None \<Rightarrow> None
     | Some (result, s) \<Rightarrow>
         Some (result, s, (case result of Inl e \<Rightarrow> if context \<noteq> None then Some e else context | Inr _ \<Rightarrow> context)))"

definition open_r :: "'w filex \<Rightarrow> call_env \<Rightarrow> string option \<Rightarrow> u32 \<Rightarrow> ('w fs \<times> errno option, int) act" where
  "open_r fx env path flags = copy_errno_to_reent (open_sys fx env path flags)"

definition close_r :: "'w filex \<Rightarrow> call_env \<Rightarrow> int \<Rightarrow> ('w fs \<times> errno option, unit) act" where
  "close_r fx env file = copy_errno_to_reent (close_sys fx env file)"

text \<open>Lengths are of the unsigned 32-bit \<^verbatim>\<open>size_t\<close>.\<close>

definition read_r ::
  "'w filex \<Rightarrow> 'w console \<Rightarrow> call_env \<Rightarrow> int \<Rightarrow> bool \<Rightarrow> u32 \<Rightarrow> ('w fs \<times> errno option, u8 list) act" where
  "read_r fx con env file null_buffer bytes =
     (if bytes > 0x7FFFFFFF then copy_errno_to_reent (err EINVAL)
      else copy_errno_to_reent (read_sys fx con env file null_buffer (sint bytes)))"

definition write_r ::
  "'w filex \<Rightarrow> 'w console \<Rightarrow> call_env \<Rightarrow> int \<Rightarrow> u8 list option \<Rightarrow> u32 \<Rightarrow> ('w fs \<times> errno option, int) act" where
  "write_r fx con env file buffer bytes =
     (if bytes > 0x7FFFFFFF then copy_errno_to_reent (err EINVAL)
      else copy_errno_to_reent (write_sys fx con env file buffer (sint bytes)))"

definition lseek_r :: "'w filex \<Rightarrow> call_env \<Rightarrow> int \<Rightarrow> u32 \<Rightarrow> seek_origin \<Rightarrow> ('w fs \<times> errno option, u64) act" where
  "lseek_r fx env file offset origin = copy_errno_to_reent (lseek_sys fx env file offset origin)"

definition fstat_r :: "'w filex \<Rightarrow> call_env \<Rightarrow> int \<Rightarrow> bool \<Rightarrow> ('w fs \<times> errno option, stat) act" where
  "fstat_r fx env file null_value = copy_errno_to_reent (fstat_sys fx env file null_value)"

definition stat_r :: "'w filex \<Rightarrow> call_env \<Rightarrow> string option \<Rightarrow> bool \<Rightarrow> ('w fs \<times> errno option, stat) act" where
  "stat_r fx env path null_value = copy_errno_to_reent (stat_sys fx env path null_value)"

definition unlink_r :: "'w filex \<Rightarrow> call_env \<Rightarrow> string option \<Rightarrow> ('w fs \<times> errno option, unit) act" where
  "unlink_r fx env path = copy_errno_to_reent (unlink_sys fx env path)"

definition rename_r :: "'w filex \<Rightarrow> call_env \<Rightarrow> string option \<Rightarrow> string option \<Rightarrow> ('w fs \<times> errno option, unit) act" where
  "rename_r fx env old_path new_path = copy_errno_to_reent (rename_sys fx env old_path new_path)"

definition gettimeofday_r :: "nat \<Rightarrow> bool \<Rightarrow> (HalError + Timestamp) option \<Rightarrow> ('w fs \<times> errno option, int \<times> int) act" where
  "gettimeofday_r k value rtc = copy_errno_to_reent (from_sum (gettimeofday k value rtc))"

section \<open>Other calls\<close>

text \<open>A null buffer asks for an allocated one, which there is or is not.\<close>

definition getcwd_posix :: "call_env \<Rightarrow> nat option \<Rightarrow> bool \<Rightarrow> ('w fs, string) act" where
  "getcwd_posix env buffer_size allocated =
     (case buffer_size of
        Some bytes \<Rightarrow> getcwd_sys env (Some bytes)
      | None \<Rightarrow> if \<not> allocated then err ENOMEM else getcwd_sys env (Some MAXIMUM_PATH))"

datatype path_limit = PC_PATH_MAX | PC_NAME_MAX | PC_OTHER int

definition pathconf :: "path_limit \<Rightarrow> errno + nat" where
  "pathconf name =
     (case name of PC_PATH_MAX \<Rightarrow> Inr MAXIMUM_PATH | PC_NAME_MAX \<Rightarrow> Inr (MAXIMUM_PATH - 1) | PC_OTHER _ \<Rightarrow> Inl EINVAL)"

text \<open>\<^verbatim>\<open>_link\<close>, \<^verbatim>\<open>symlink\<close>, \<^verbatim>\<open>readlink\<close> and \<^verbatim>\<open>dirfd\<close>; \<^verbatim>\<open>_isatty\<close>; \<^verbatim>\<open>_kill\<close>.\<close>

definition unsupported :: "('s, 'a) act" where
  "unsupported = err ENOTSUP"

definition isatty :: "int \<Rightarrow> bool" where
  "isatty descriptor \<longleftrightarrow> 0 \<le> descriptor \<and> descriptor \<le> 2"

definition kill_sys :: "('s, unit) act" where
  "kill_sys = err EINVAL"

section \<open>Correctness\<close>

text \<open>
  The reentrant form is the call: it returns when the call does, with the same outcome and the same files, and the
  context has the error number of a failure and keeps its own otherwise.
\<close>

lemma copy_errno_to_reent_exact:
  "copy_errno_to_reent call (s, context) = Some (result, s', context') \<longleftrightarrow>
     call s = Some (result, s') \<and>
     context' = (case result of Inl e \<Rightarrow> map_option (\<lambda>_. e) context | Inr _ \<Rightarrow> context)"
  by (auto simp: copy_errno_to_reent_def split: option.split prod.split sum.split)

lemma copy_errno_to_reent_returns:
  "copy_errno_to_reent call (s, context) \<noteq> None \<longleftrightarrow> call s \<noteq> None"
  by (auto simp: copy_errno_to_reent_def split: option.split)

text \<open>A call with a length beyond the range of \<^verbatim>\<open>int\<close> fails before it reaches the files.\<close>

lemma oversized_refused:
  assumes "bytes > 0x7FFFFFFF"
  shows "read_r fx con env file null_buffer bytes (s, Some e) = Some (Inl EINVAL, s, Some EINVAL)"
    and "write_r fx con env file buffer bytes (s, Some e) = Some (Inl EINVAL, s, Some EINVAL)"
  using assms by (simp_all add: read_r_def write_r_def copy_errno_to_reent_def err_def)

lemma length_in_range:
  assumes "bytes \<le> (0x7FFFFFFF :: u32)"
  shows "sint bytes = uint bytes"
proof -
  have "uint bytes \<le> 2147483647" using assms by (simp add: word_le_def)
  moreover have "- (2 ^ 31) \<le> uint bytes" by (rule order.trans [of _ 0]) simp_all
  ultimately have "signed_take_bit 31 (uint bytes) = uint bytes" by (intro signed_take_bit_int_eq_self) simp_all
  then show ?thesis by (simp add: sint_uint)
qed

text \<open>The allocated buffer is large enough for every current directory of a well-formed state.\<close>

lemma currentPath_outcomes:
  assumes "currentPath env s = Some (result, s')"
  shows "result = Inr (current_directory s) \<or> result \<in> Inl ` {EPERM, ENODEV, EINTR, EIO}"
  using assms
  by (auto simp: currentPath_def guarded_def usable_def registry_guard_def with_state_def asks_def seq_def ok_def err_def
      split: if_splits tx_status.splits)

lemma getcwd_allocated:
  assumes "fs_inv s" "getcwd_posix env None True s = Some (result, s')"
  shows "result \<noteq> Inl ERANGE"
proof
  assume result: "result = Inl ERANGE"
  have short: "length (current_directory s) < MAXIMUM_PATH"
    using fs_inv_good_cwd [OF assms(1)] by (simp add: good_path_def)
  moreover obtain n where n: "MAXIMUM_PATH = Suc n" using short by (cases MAXIMUM_PATH) simp_all
  moreover have "getcwd_posix env None True s =
      seq (currentPath env) (\<lambda>path. if length path + 1 > MAXIMUM_PATH then err ERANGE else ok path) s"
    by (simp add: getcwd_posix_def getcwd_sys_def n)
  ultimately show False using assms(2) result currentPath_outcomes [of env s]
    by (auto simp: seq_def ok_def err_def split: option.splits sum.splits prod.splits if_splits)
qed

end
