(* ===== verification/Spec2Isabelle.thy ===== *)
theory Spec2Isabelle
  imports Files_Properties Storage_Properties Runtime_Properties Hal_Properties Runtime_Atomic Runtime_Libc Files_Reent
begin

text \<open>
  A model of the platform layer of a Nucleo-H753ZI firmware template (directory \<^verbatim>\<open>platform\<close>), which
  runs the same application on the microcontroller and on a Linux host. The layer has three parts.

  \<^item> \<^verbatim>\<open>platform/runtime/libc\<close>: the system calls of the C library over FileX (\<^verbatim>\<open>filesystem.cpp\<close>), the storage
    devices under FileX and LevelX (\<^verbatim>\<open>storage_media.cpp\<close>), the C library's locks (\<^verbatim>\<open>libc.c\<close>) and the processor
    time (\<^verbatim>\<open>cpu_clock.c\<close>).
  \<^item> \<^verbatim>\<open>platform/runtime/libstdcxx\<close>: what the C++ library needs over ThreadX: threads, mutexes, condition
    variables, semaphores, keys, call-once and clocks (\<^verbatim>\<open>backend.cpp\<close>, \<^verbatim>\<open>sleep.cpp\<close>), guards of static objects
    (\<^verbatim>\<open>cxx_guard.cpp\<close>), thread-local storage (\<^verbatim>\<open>tls.cpp\<close>), atomics (\<^verbatim>\<open>atomic.cpp\<close>) and callbacks at thread exit
    (\<^verbatim>\<open>thread_exit.cpp\<close>); and over these \<^verbatim>\<open>std::thread\<close>, the standard semaphores and \<^verbatim>\<open>std::random_device\<close>.
  \<^item> \<^verbatim>\<open>platform/hal\<close>: the drivers behind portable interfaces, each with a Linux and an STM32 implementation:
    timers, Ethernet, GPIO with its factory and devices, the real-time clock, random numbers, and the consoles.

  Beside the layer, \<^verbatim>\<open>external/threadx_port/linux/gnu/src/tx_thread_stack_info.cpp\<close> gives the threads of the host
  their stacks and reports how deep they have grown.

  ThreadX, FileX, LevelX, the STM32 HAL, the kernel's socket calls and the allocator are not part of the
  repository. They are arguments of the definitions that call them: records of functions over a state of
  their own (\<open>filex\<close>, \<open>levelx\<close>, \<open>qspi_hal\<close>, \<open>sd_hal\<close>, \<open>eth_hal\<close>, \<open>tim_hal\<close>, \<open>network\<close>, \<open>kernel\<close>,
  \<open>allocator\<close>), with what the code relies on as named hypotheses (\<open>filex_file_laws\<close>, \<open>chip_laws\<close>,
  \<open>card_laws\<close>, \<open>levelx_sector_laws\<close>, \<open>mutex_laws\<close>, \<open>semaphore_laws\<close>, \<open>receives_ok\<close>, \<open>transmits_ok\<close>), each satisfied by a
  concrete instance in a witness.
\<close>

section \<open>The theories\<close>

text \<open>
  \<^item> \<open>Nucleo_Prelude\<close>: word types, C strings, \<open>overlay\<close> (a write into a byte sequence), lemmas on words.
    \<open>Effects\<close>: actions with a state and an error, their weakest preconditions, and the collections the proofs
    about them use.

  The file system, \<^verbatim>\<open>filesystem.cpp\<close>:

  \<^item> \<open>Paths\<close>: normalisation, prefix test, migration and resolution of paths; components as the abstract view.
    \<open>FileX\<close>: the interface of FileX and the translation of its errors. \<open>Descriptors\<close>: the tables, the registry
    lock, path information and mode switching. \<open>Syscalls\<close>: the calls on descriptors. \<open>Entries\<close>: the calls on
    directory entries, rename included. \<open>Calendar\<close>: civil dates and FAT time stamps, shared with
    \<^verbatim>\<open>drivers/impl/stm32/Rtc.cpp\<close>. \<open>Directories\<close>: directory streams, \<open>statvfs\<close> and start-up.
  \<^item> \<open>Files_Invariant\<close>: the tables stay well-formed in every reachable state. \<open>Files_Contents\<close>: reads, writes and
    truncation against a file as a byte sequence. \<open>Files_Slots\<close>: how open and close take and give back slots.
    \<open>Files_Reent\<close>: the reentrant forms, \<^verbatim>\<open>getcwd\<close> with its own buffer and the unsupported calls.
    \<open>Files_Properties\<close>: the properties.

  Storage, \<^verbatim>\<open>storage_media.cpp\<close>:

  \<^item> \<open>Nor_Flash\<close>: the flash interface and its Linux image. \<open>Qspi_Flash\<close>: the W25Q128 driver, page splitting and
    polling. \<open>Media_Drivers\<close>: SD card, FileX and LevelX drivers. \<open>Media_Contracts\<close>: the drivers satisfy the
    contract of a block device (locale \<open>block_driver\<close>). \<open>Media_Startup\<close>: bring-up, mounting and the one-bit retry.
    \<open>Storage_Properties\<close>: the properties.

  The C++ runtime, \<^verbatim>\<open>backend.cpp\<close> and its neighbours:

  \<^item> \<open>Runtime_Time\<close>: conversions of ticks and durations. \<open>Runtime_Clock\<close>: steady, high-resolution and system
    clock. \<open>Runtime_Waits\<close>: timed waits. \<open>Runtime_Start\<close>: start-up and sleeping. \<open>Runtime_Context\<close>: contexts,
    attributes and names. \<open>Runtime_Keys\<close>: thread-specific data. \<open>Runtime_Waiters\<close>, \<open>Runtime_Conditions\<close>: the
    linked queue and condition variables over it. \<open>Runtime_Locks\<close>: mutexes and semaphores. \<open>Runtime_Threads\<close>:
    creation, join, detach and the reaper. \<open>Runtime_Once\<close>: call-once and guards. \<open>Runtime_Tls\<close>: TLS blocks,
    emulated TLS and destructors. \<open>Runtime_Atomic\<close>: 64-bit and generic atomics on bytes, exit callbacks.
    \<open>Runtime_Libc\<close>: the C library's locks and the CPU clock. \<open>Runtime_Std\<close>: \<^verbatim>\<open>std::thread\<close>, the attributes of the
    next thread and the semaphores. \<open>Runtime_Properties\<close>: the properties.

  The drivers:

  \<^item> \<open>Hal_Timer\<close>: the Linux timer's arithmetic and state. \<open>Hal_Timer_Worker\<close>: its thread as a step relation, and
    the timer as the runtime's high-resolution clock. \<open>Hal_Timer_Stm32\<close>: the timer over registers.
    \<open>Hal_Frames\<close>: classification of frames and the socket filter. \<open>Hal_Ethernet_Linux\<close>, \<open>Hal_Ethernet_Stm32\<close>: the
    two drivers. \<open>Hal_Console\<close>: the input ring, its interrupt and its reader. \<open>Hal_Linux_Console\<close>: the output
    queue of the host. \<open>Hal_Gpio\<close>: inputs, outputs, devices and the factory. \<open>Hal_Sources\<close>: the real-time clocks
    with \<^verbatim>\<open>_gettimeofday\<close>, the random number generators with \<^verbatim>\<open>_getentropy\<close>, and the input clock of timer 2.
    \<open>Port_Stack\<close>: the stacks of the Linux port. \<open>Hal_Properties\<close>: the properties.
\<close>

section \<open>Modelling\<close>

text \<open>
  Integers have their width (\<open>u8\<close>, \<open>u16\<close>, \<open>u32\<close>, \<open>u64\<close>); \<open>int\<close> and \<open>nat\<close> stand for values that are bounded
  elsewhere, as sizes of memory. Errors are values: \<open>errno\<close> and its relatives in a sum or an option, with
  termination of the program as \<open>None\<close>. Objects of the file system and of the runtime are records; a mutex held
  around a whole call makes the call one step, and what runs outside of it is a step of its own, in the inductive
  relations \<open>publish_step\<close>, \<open>cond_step\<close>, \<open>thread_step\<close>, \<open>once_step\<close>, \<open>worker_step\<close>, \<open>console_step\<close>, \<open>toggle_step\<close>,
  \<open>gpio_step\<close>, \<open>frontend_step\<close>, \<open>lock_step\<close> and \<open>port_step\<close>. Loops that may not end are partial functions, whose value
  \<open>None\<close> is divergence (\<open>zero_fill\<close>, \<open>wait_until\<close>, \<open>poll_descriptor\<close>, \<open>linux_receive_loop\<close>, \<open>wait_owned\<close>,
  \<open>stm32_receive_loop\<close>, \<open>run_destructors\<close>); where the code returns, that is proved. Fuel is used where the code counts:
  the twenty digits of a backup name, the passes of the thread-specific destructors, the length of the slot array
  in \<open>chain\<close>, which no packet without a cycle exceeds.

  Interfaces are locales, interpreted on the model: the queue of waiters (\<open>waiter_queue\<close>), an object that is
  initialised once (\<open>once_object\<close>, for call-once and for guards), flash and block devices (\<open>nor_store\<close> and
  \<open>block_driver\<close>, each on both platforms), the bounded queue of console bytes (\<open>bounded_queue\<close>) and the digital
  output under a LED (\<open>digital_output\<close>).

  The properties are in the four theories named above, each before its witness, which applies it to a concrete
  case: paths and descriptors, contents of files, storage, clocks and waits, keys, conditions, threads, locks
  and semaphores, timers, Ethernet, console, pins, the real-time clock, host stacks and thread-local objects.
\<close>

section \<open>Not modelled\<close>

text \<open>
  The generated code under \<^verbatim>\<open>external/CubeMX\<close>, linker scripts and build files; the vendored parts of the C++
  library; tests; the factories of timer, Ethernet, clock and random numbers and the board, which hand out
  singletons (but the input clock of timer 2 is modelled); output on a panic; the call of \<^verbatim>\<open>main\<close> and functions
  that only forward; callback objects and their destruction. Memory orders are not modelled: shared words are read and written
  atomically, in the order of the code. Failures of pthread and ThreadX calls that end the program appear as
  \<open>None\<close> or are left out where nothing follows them.
\<close>

end
